(* ===== verification/Prelude.thy ===== *)
theory Prelude
  imports Main "HOL-Library.List_Lexorder" "HOL-Library.Char_ord" "HOL-Library.Sublist"
    "HOL-Library.Word"
begin

text \<open>
  Shared vocabulary of the development: byte strings and the operations of Rust's
  \<open>str\<close> that the code uses (\<open>split\<close>, \<open>rfind\<close>, \<open>starts_with\<close>, trimming loops),
  ordered maps as sorted association lists (Rust's \<open>BTreeMap\<close>), results as sums with
  the error on the left, and the world a stateful operation draws random identifiers
  and clock readings from.
\<close>

named_theorems path_simps \<open>equations that evaluate the path operations\<close>
named_theorems inv_intros \<open>preservation rules of the components' invariants\<close>

type_synonym bytes = "8 word list"
type_synonym u8 = "8 word"
type_synonym u32 = "32 word"
type_synonym u64 = "64 word"
type_synonym i64 = "64 word"

section \<open>Results\<close>

text \<open>\<open>Result<T, E>\<close> is the sum \<open>'e + 'a\<close>; the operator \<open>?\<close> is \<open>rbind\<close>.\<close>

definition rbind :: "'e + 'a \<Rightarrow> ('a \<Rightarrow> 'e + 'b) \<Rightarrow> 'e + 'b" where
  "rbind r f = (case r of Inl e \<Rightarrow> Inl e | Inr x \<Rightarrow> f x)"

lemma rbind_simps [simp]: "rbind (Inl e) f = Inl e" "rbind (Inr x) f = f x"
  by (simp_all add: rbind_def)

lemma rbind_Inr_iff: "rbind r f = Inr y \<longleftrightarrow> (\<exists>x. r = Inr x \<and> f x = Inr y)"
  by (cases r) auto

definition ok_or :: "'e \<Rightarrow> 'a option \<Rightarrow> 'e + 'a" where
  "ok_or e o' = (case o' of None \<Rightarrow> Inl e | Some x \<Rightarrow> Inr x)"

lemma ok_or_simps [simp]: "ok_or e None = Inl e" "ok_or e (Some x) = Inr x"
  by (simp_all add: ok_or_def)

text \<open>
  A stateful fallible operation returns its result and the state it leaves behind; an
  error does not undo the changes made before it.
\<close>

type_synonym ('s, 'e, 'a) eff = "'s \<Rightarrow> ('e + 'a) \<times> 's"

definition ebind :: "('s, 'e, 'a) eff \<Rightarrow> ('a \<Rightarrow> ('s, 'e, 'b) eff) \<Rightarrow> ('s, 'e, 'b) eff" where
  "ebind m f s = (case m s of (Inl e, s') \<Rightarrow> (Inl e, s') | (Inr x, s') \<Rightarrow> f x s')"

lemma ebind_eq_Inr:
  "ebind m f s = (Inr y, s'') \<longleftrightarrow> (\<exists>x s'. m s = (Inr x, s') \<and> f x s' = (Inr y, s''))"
  by (auto simp: ebind_def split: prod.splits sum.splits)

section \<open>Strings\<close>

text \<open>
  A Rust \<open>String\<close> is a sequence of UTF-8 bytes, modelled as a HOL \<open>string\<close> whose
  characters are bytes. Every separator the code splits at is an ASCII byte, which
  never occurs inside a multi-byte character, so the byte operations below are the
  \<open>char\<close> operations of \<open>str\<close>.
\<close>

text \<open>\<open>str::split(c)\<close>: the pieces between separators, at least one, possibly empty.\<close>

fun split_on :: "char \<Rightarrow> string \<Rightarrow> string list" where
  "split_on c [] = [[]]"
| "split_on c (x # xs) =
     (if x = c then [] # split_on c xs
      else (let r = split_on c xs in (x # hd r) # tl r))"

fun join_with :: "char \<Rightarrow> string list \<Rightarrow> string" where
  "join_with c [] = []"
| "join_with c [s] = s"
| "join_with c (s # t # ss) = s @ c # join_with c (t # ss)"

lemma split_on_ne [simp]: "split_on c s \<noteq> []"
  by (induction s) (auto simp: Let_def)

lemma join_with_Cons: "ss \<noteq> [] \<Longrightarrow> join_with c (s # ss) = s @ c # join_with c ss"
  by (cases ss) auto

lemma join_with_snoc: "ss \<noteq> [] \<Longrightarrow> join_with c (ss @ [s]) = join_with c ss @ c # s"
  by (induction c ss rule: join_with.induct) (auto simp: join_with_Cons)

lemma join_split: "join_with c (split_on c s) = s"
proof (induction s)
  case (Cons x xs)
  show ?case
  proof (cases "tl (split_on c xs)")
    case Nil
    then have "split_on c xs = [hd (split_on c xs)]"
      by (metis list.collapse split_on_ne)
    with Cons have "hd (split_on c xs) = xs"
      by (metis join_with.simps(2))
    with Nil Cons show ?thesis
      by (auto simp: Let_def join_with_Cons)
  next
    case (Cons t ts)
    then have "split_on c xs = hd (split_on c xs) # t # ts"
      by (metis list.collapse split_on_ne)
    with Cons.IH have "xs = hd (split_on c xs) @ c # join_with c (t # ts)"
      by (metis join_with.simps(3))
    with Cons Cons.IH show ?thesis
      by (auto simp: Let_def join_with_Cons)
  qed
qed simp

lemma split_on_append_sep:
  "c \<notin> set s \<Longrightarrow> split_on c (s @ c # t) = s # split_on c t"
  by (induction s) (auto simp: Let_def)

lemma split_on_no_sep: "c \<notin> set s \<Longrightarrow> split_on c s = [s]"
  by (induction s) (auto simp: Let_def)

lemma split_join:
  "ss \<noteq> [] \<Longrightarrow> \<forall>s \<in> set ss. c \<notin> set s \<Longrightarrow> split_on c (join_with c ss) = ss"
  by (induction c ss rule: join_with.induct)
    (auto simp: split_on_no_sep split_on_append_sep)

lemma split_on_pieces: "p \<in> set (split_on c s) \<Longrightarrow> c \<notin> set p"
proof (induction s arbitrary: p)
  case (Cons x xs)
  have "\<forall>q \<in> set (split_on c xs). c \<notin> set q" using Cons.IH by blast
  moreover have "hd (split_on c xs) \<in> set (split_on c xs)" by simp
  moreover have "set (tl (split_on c xs)) \<subseteq> set (split_on c xs)"
    by (meson list.set_sel(2) split_on_ne subsetI)
  ultimately show ?case using Cons.prems
    by (auto simp: Let_def split: if_splits)
qed simp

lemma split_on_append:
  "split_on c (s @ c # t) = split_on c s @ split_on c t"
  by (induction s) (auto simp: Let_def)

lemma set_pieces: "p \<in> set (split_on c s) \<Longrightarrow> set p \<subseteq> set s"
proof (induction s arbitrary: p)
  case (Cons x xs)
  have "\<forall>q \<in> set (split_on c xs). set q \<subseteq> set xs" using Cons.IH by blast
  moreover have "hd (split_on c xs) \<in> set (split_on c xs)" by simp
  moreover have "set (tl (split_on c xs)) \<subseteq> set (split_on c xs)"
    by (meson list.set_sel(2) split_on_ne subsetI)
  ultimately show ?case using Cons.prems
    by (fastforce simp: Let_def split: if_splits)
qed simp

text \<open>\<open>str::rfind(c)\<close>: the index of the last occurrence.\<close>

fun rfind :: "char \<Rightarrow> string \<Rightarrow> nat option" where
  "rfind c [] = None"
| "rfind c (x # xs) =
     (case rfind c xs of
        Some i \<Rightarrow> Some (Suc i)
      | None \<Rightarrow> if x = c then Some 0 else None)"

lemma rfind_None_iff: "rfind c s = None \<longleftrightarrow> c \<notin> set s"
  by (induction s) (auto split: option.splits)

lemma rfind_append_sep: "c \<notin> set t \<Longrightarrow> rfind c (s @ c # t) = Some (length s)"
  by (induction s) (auto simp: rfind_None_iff split: option.splits)

lemma rfind_SomeD:
  "rfind c s = Some i \<Longrightarrow> i < length s \<and> s = take i s @ c # drop (Suc i) s \<and> c \<notin> set (drop (Suc i) s)"
  by (induction s arbitrary: i) (auto simp: rfind_None_iff split: option.splits if_splits)

text \<open>\<open>str::find(c)\<close>: the index of the first occurrence.\<close>

fun find_idx :: "char \<Rightarrow> string \<Rightarrow> nat option" where
  "find_idx c [] = None"
| "find_idx c (x # xs) = (if x = c then Some 0 else map_option Suc (find_idx c xs))"

lemma find_idx_None_iff: "find_idx c s = None \<longleftrightarrow> c \<notin> set s"
  by (induction s) auto

lemma find_idx_SomeD:
  "find_idx c s = Some i \<Longrightarrow> i < length s \<and> s = take i s @ c # drop (Suc i) s \<and> c \<notin> set (take i s)"
  by (induction s arbitrary: i) (auto split: if_splits)

text \<open>\<open>starts_with\<close>, \<open>strip_prefix\<close>, \<open>ends_with\<close>.\<close>

abbreviation starts_with :: "'a list \<Rightarrow> 'a list \<Rightarrow> bool" where
  "starts_with s p \<equiv> prefix p s"

definition strip_prefix :: "string \<Rightarrow> string \<Rightarrow> string option" where
  "strip_prefix p s = (if prefix p s then Some (drop (length p) s) else None)"

lemma strip_prefix_Some: "strip_prefix p s = Some r \<longleftrightarrow> s = p @ r"
  by (auto simp: strip_prefix_def prefix_def)

text \<open>The loop \<open>while s.ends_with(c) { s.pop(); }\<close>.\<close>

function pop_while_last :: "char \<Rightarrow> string \<Rightarrow> string" where
  "pop_while_last c s =
     (if s \<noteq> [] \<and> last s = c then pop_while_last c (butlast s) else s)"
  by pat_completeness auto
termination
  by (relation "measure (\<lambda>(c, s). length s)") auto

declare pop_while_last.simps [simp del]

lemma pop_while_last_snoc [simp]:
  "pop_while_last c (s @ [x]) = (if x = c then pop_while_last c s else s @ [x])"
  by (simp add: pop_while_last.simps [of c "s @ [x]"])

lemma pop_while_last_Nil [simp]: "pop_while_last c [] = []"
  by (simp add: pop_while_last.simps)

lemma pop_while_last_decomp: "\<exists>n. s = pop_while_last c s @ replicate n c"
proof (induction s rule: rev_induct)
  case (snoc x s)
  then obtain n where n: "s = pop_while_last c s @ replicate n c" by blast
  show ?case
  proof (cases "x = c")
    case True
    then have pop: "pop_while_last c (s @ [x]) = pop_while_last c s" by simp
    have "s @ [x] = (pop_while_last c s @ replicate n c) @ [c]"
      using n True by (simp only:)
    also have "\<dots> = pop_while_last c (s @ [x]) @ replicate (Suc n) c"
      unfolding pop by (simp add: replicate_append_same)
    finally show ?thesis by (rule exI)
  next
    case False
    then show ?thesis by (intro exI [of _ 0]) simp
  qed
qed simp

lemma pop_while_last_end: "pop_while_last c s = [] \<or> last (pop_while_last c s) \<noteq> c"
  by (induction s rule: rev_induct) auto

lemma pop_while_last_id: "s = [] \<or> last s \<noteq> c \<Longrightarrow> pop_while_last c s = s"
  by (subst pop_while_last.simps) auto

lemma pop_while_last_prefix: "prefix (pop_while_last c s) s"
  using pop_while_last_decomp [of s c] by (auto intro: prefixI)

lemma set_pop_while_last: "set (pop_while_last c s) \<subseteq> set s"
  by (metis pop_while_last_prefix set_mono_prefix)

lemma length_pop_while_last: "length (pop_while_last c s) \<le> length s"
  by (simp add: pop_while_last_prefix prefix_length_le)

lemma pop_while_last_append:
  "pop_while_last c (a @ b) =
     (if pop_while_last c b = [] then pop_while_last c a else a @ pop_while_last c b)"
proof (induction b rule: rev_induct)
  case (snoc x b)
  then show ?case
    using pop_while_last_snoc [of c "a @ b" x] by simp
qed simp

lemma pop_while_last_replicate [simp]: "pop_while_last c (replicate n c) = []"
proof (induction n)
  case (Suc n)
  then show ?case
    using pop_while_last_append [of c "[c]" "replicate n c"] pop_while_last_snoc [of c "[]" c]
    by simp
qed simp

section \<open>Ordered maps\<close>

text \<open>
  Rust's \<open>BTreeMap<K, V>\<close> is a list of pairs with strictly increasing keys; iteration
  is in key order.
\<close>

type_synonym ('k, 'v) btree = "('k \<times> 'v) list"

fun bt_insert :: "'k::linorder \<Rightarrow> 'v \<Rightarrow> ('k, 'v) btree \<Rightarrow> ('k, 'v) btree" where
  "bt_insert k v [] = [(k, v)]"
| "bt_insert k v ((k', v') # m) =
     (if k < k' then (k, v) # (k', v') # m
      else if k = k' then (k, v) # m
      else (k', v') # bt_insert k v m)"

definition bt_remove :: "'k \<Rightarrow> ('k, 'v) btree \<Rightarrow> ('k, 'v) btree" where
  "bt_remove k m = filter (\<lambda>p. fst p \<noteq> k) m"

abbreviation bt_get :: "('k, 'v) btree \<Rightarrow> 'k \<Rightarrow> 'v option" where
  "bt_get \<equiv> map_of"

definition bt_ok :: "('k::linorder, 'v) btree \<Rightarrow> bool" where
  "bt_ok m \<longleftrightarrow> sorted_wrt (<) (map fst m)"

lemma bt_get_insert [simp]:
  "bt_get (bt_insert k v m) k' = (if k' = k then Some v else bt_get m k')"
  by (induction k v m rule: bt_insert.induct) auto

lemma bt_get_remove [simp]: "bt_get (bt_remove k m) k' = (if k' = k then None else bt_get m k')"
  unfolding bt_remove_def by (induction m) auto

lemma fst_bt_insert: "fst ` set (bt_insert k v m) = insert k (fst ` set m)"
  by (induction k v m rule: bt_insert.induct) auto

lemma bt_ok_Nil [simp]: "bt_ok []"
  by (simp add: bt_ok_def)

lemma bt_ok_insert [inv_intros]: "bt_ok m \<Longrightarrow> bt_ok (bt_insert k v m)"
proof (induction k v m rule: bt_insert.induct)
  case (2 k v k' v' m)
  have keys: "set (map fst (bt_insert k v m)) = insert k (set (map fst m))"
    using fst_bt_insert [of k v m] by simp
  show ?case
  proof (cases "k < k' \<or> k = k'")
    case True
    with "2.prems" show ?thesis by (fastforce simp: bt_ok_def)
  next
    case False
    with 2 have "bt_ok (bt_insert k v m)" and "\<forall>x \<in> set (map fst m). k' < x" and "k' < k"
      by (auto simp: bt_ok_def)
    with False show ?thesis by (simp add: bt_ok_def keys del: set_map)
  qed
qed (simp add: bt_ok_def)

lemma bt_ok_remove [inv_intros]: "bt_ok m \<Longrightarrow> bt_ok (bt_remove k m)"
  unfolding bt_ok_def bt_remove_def
  by (induction m) auto

lemma bt_ok_distinct: "bt_ok m \<Longrightarrow> distinct (map fst m)"
  unfolding bt_ok_def using strict_sorted_iff by blast

lemma bt_get_iff: "bt_ok m \<Longrightarrow> bt_get m k = Some v \<longleftrightarrow> (k, v) \<in> set m"
  by (simp add: bt_ok_distinct)

lemma bt_get_None_iff: "bt_get m k = None \<longleftrightarrow> k \<notin> fst ` set m"
  by (simp add: map_of_eq_None_iff)

text \<open>
  The contract of an ordered map, as the components that store their state in one use
  it: lookups after updates, and the ordering invariant.
\<close>

locale ordered_map =
  fixes get :: "'m \<Rightarrow> 'k \<Rightarrow> 'v option"
    and ins :: "'k \<Rightarrow> 'v \<Rightarrow> 'm \<Rightarrow> 'm"
    and del :: "'k \<Rightarrow> 'm \<Rightarrow> 'm"
    and ok :: "'m \<Rightarrow> bool"
  assumes get_ins: "get (ins k v m) k' = (if k' = k then Some v else get m k')"
    and get_del: "get (del k m) k' = (if k' = k then None else get m k')"
    and ok_ins: "ok m \<Longrightarrow> ok (ins k v m)"
    and ok_del: "ok m \<Longrightarrow> ok (del k m)"
begin

lemma get_ins_fun: "get (ins k v m) = (get m)(k \<mapsto> v)"
  by (rule ext) (simp add: get_ins)

lemma get_del_fun: "get (del k m) = (get m)(k := None)"
  by (rule ext) (simp add: get_del)

text \<open>Moving an entry: remove the source, insert at the target.\<close>

lemma get_move:
  "get m a = Some v \<Longrightarrow>
   get (ins b v (del a m)) = (get m)(a := None, b \<mapsto> v)"
  by (rule ext) (simp add: get_ins get_del)

end

interpretation bt: ordered_map bt_get bt_insert bt_remove bt_ok
  by unfold_locales (auto intro: inv_intros)

section \<open>Numbers and letters as text\<close>

definition digit_char :: "nat \<Rightarrow> char" where
  "digit_char d = char_of (48 + d)"

text \<open>The decimal \<open>Display\<close> of an unsigned integer.\<close>

fun show_nat :: "nat \<Rightarrow> string" where
  "show_nat n = (if n < 10 then [digit_char n] else show_nat (n div 10) @ [digit_char (n mod 10)])"

declare show_nat.simps [simp del]

definition show_int :: "int \<Rightarrow> string" where
  "show_int i = (if i < 0 then ''-'' @ show_nat (nat (- i)) else show_nat (nat i))"

text \<open>\<open>char::to_ascii_lowercase\<close> and \<open>str::to_ascii_lowercase\<close>.\<close>

definition ascii_lower_char :: "char \<Rightarrow> char" where
  "ascii_lower_char c =
     (if 65 \<le> (of_char c :: nat) \<and> (of_char c :: nat) \<le> 90 then char_of ((of_char c :: nat) + 32) else c)"

definition ascii_lower :: "string \<Rightarrow> string" where
  "ascii_lower s = map ascii_lower_char s"

definition is_ascii :: "string \<Rightarrow> bool" where
  "is_ascii s \<longleftrightarrow> (\<forall>c \<in> set s. (of_char c :: nat) < 128)"

text \<open>
  \<open>str::to_lowercase\<close>: ASCII case folding on ASCII text; on other text the Unicode
  tables of the standard library, a parameter.
\<close>

definition to_lowercase :: "(string \<Rightarrow> string) \<Rightarrow> string \<Rightarrow> string" where
  "to_lowercase unicode_lower s = (if is_ascii s then ascii_lower s else unicode_lower s)"

definition is_ascii_digit :: "char \<Rightarrow> bool" where
  "is_ascii_digit c \<longleftrightarrow> 48 \<le> (of_char c :: nat) \<and> (of_char c :: nat) \<le> 57"

lemma digit_char_digit: "d < 10 \<Longrightarrow> is_ascii_digit (digit_char d)"
  by (simp add: is_ascii_digit_def digit_char_def)

lemma show_nat_digits: "c \<in> set (show_nat n) \<Longrightarrow> is_ascii_digit c"
proof (induction n rule: show_nat.induct)
  case (1 n)
  then show ?case
    by (subst (asm) (2) show_nat.simps) (auto simp: digit_char_digit split: if_splits)
qed

lemma show_nat_ne [simp]: "show_nat n \<noteq> []"
  by (subst show_nat.simps) simp

section \<open>The world\<close>

text \<open>
  What an operation takes from outside: random bytes, clock readings, and the functions
  of library crates whose code is not in the repository (\<open>hex::encode\<close>, the standard
  library's default hasher). The environment chooses the functions; a draw of random
  bytes advances the counter, a clock reading advances its own.
\<close>

record world =
  w_rng :: "nat \<Rightarrow> u8"
  w_rng_pos :: nat
  w_clock :: "nat \<Rightarrow> nat"
  w_clock_pos :: nat
  w_hex :: "bytes \<Rightarrow> string"
  w_part_hash :: "bytes \<Rightarrow> u32 \<Rightarrow> bytes"

definition draw_bytes :: "nat \<Rightarrow> world \<Rightarrow> bytes \<times> world" where
  "draw_bytes n w = (map (w_rng w) [w_rng_pos w ..< w_rng_pos w + n], w\<lparr>w_rng_pos := w_rng_pos w + n\<rparr>)"

definition now :: "world \<Rightarrow> nat \<times> world" where
  "now w = (w_clock w (w_clock_pos w), w\<lparr>w_clock_pos := Suc (w_clock_pos w)\<rparr>)"

text \<open>A concrete world, for the witnesses.\<close>

definition sample_world :: world where
  "sample_world = \<lparr>w_rng = (\<lambda>i. of_nat i), w_rng_pos = 0, w_clock = (\<lambda>i. 1000 + i),
     w_clock_pos = 0, w_hex = (\<lambda>b. map (\<lambda>_. CHR ''0'') b), w_part_hash = (\<lambda>b n. b)\<rparr>"

end
