(* ===== verification/Paths.thy ===== *)
theory Paths
  imports Prelude
begin

text \<open>
  Path values. \<open>StoragePath\<close> (crabcloud-storage, src/path.rs) is a normalized path
  relative to a storage root; \<open>UserPath\<close> (crabcloud-fs, src/path.rs) is an absolute path
  of the user's namespace. Both are validated by their constructor only; the lemmas here
  show that a constructed path has no empty, \<open>.\<close> or \<open>..\<close> segment, that the path operations
  keep this, and how \<open>parent\<close>, \<open>basename\<close> and \<open>join\<close> relate.
\<close>

section \<open>Errors of the storage and filesystem layers\<close>

datatype io_error =
    IoNotFound | IoAlreadyExists | IoPermissionDenied | IoOther string

datatype storage_error =
    StNotFound
  | StAlreadyExists
  | StNotADirectory
  | StIsADirectory
  | StNotEmpty
  | StPermissionDenied
  | StInvalidPath string
  | StIo io_error
  | StMultipart string
  | StOther string

definition map_io :: "io_error \<Rightarrow> storage_error" where
  "map_io e = (case e of
      IoNotFound \<Rightarrow> StNotFound
    | IoAlreadyExists \<Rightarrow> StAlreadyExists
    | IoPermissionDenied \<Rightarrow> StPermissionDenied
    | _ \<Rightarrow> StIo e)"

section \<open>Storage paths\<close>

datatype storage_path = StoragePath (as_str: string)

text \<open>\<open>#[derive(PartialOrd, Ord)]\<close>: storage paths are ordered as their strings.\<close>

instantiation storage_path :: linorder
begin

definition less_eq_storage_path :: "storage_path \<Rightarrow> storage_path \<Rightarrow> bool" where
  "less_eq_storage_path p q \<longleftrightarrow> as_str p \<le> as_str q"

definition less_storage_path :: "storage_path \<Rightarrow> storage_path \<Rightarrow> bool" where
  "less_storage_path p q \<longleftrightarrow> as_str p < as_str q"

instance
  by intro_classes
    (auto simp: less_eq_storage_path_def less_storage_path_def storage_path.expand)

end

definition MAX_PATH_LEN :: nat where
  "MAX_PATH_LEN = 4096"

text \<open>
  The loop over the segments stops at the first illegal one; its message becomes the
  \<open>InvalidPath\<close> error of the caller.
\<close>

fun check_segments :: "string list \<Rightarrow> string option" where
  "check_segments [] = None"
| "check_segments (seg # segs) =
     (if seg = [] then Some ''empty segment''
      else if seg = ''.'' \<or> seg = ''..'' then Some (''illegal segment: '' @ seg)
      else check_segments segs)"

definition storage_path_new :: "string \<Rightarrow> storage_error + storage_path" where
  "storage_path_new s0 =
     (if length s0 > MAX_PATH_LEN then Inl (StInvalidPath ''path too long'')
      else if CHR 0x00 \<in> set s0 then Inl (StInvalidPath ''embedded NUL'')
      else if CHR 0x5C \<in> set s0 then Inl (StInvalidPath ''backslash is not a path separator'')
      else if starts_with s0 ''/'' then Inl (StInvalidPath ''leading slash'')
      else
        (let s = pop_while_last (CHR ''/'') s0
         in if s = [] then Inr (StoragePath s)
            else case check_segments (split_on (CHR ''/'') s) of
                   Some m \<Rightarrow> Inl (StInvalidPath m)
                 | None \<Rightarrow> Inr (StoragePath s)))"

definition storage_root :: storage_path where
  "storage_root = StoragePath []"

definition is_root :: "storage_path \<Rightarrow> bool" where
  "is_root p \<longleftrightarrow> as_str p = []"

definition storage_parent :: "storage_path \<Rightarrow> storage_path option" where
  "storage_parent p =
     (if as_str p = [] then None
      else case rfind (CHR ''/'') (as_str p) of
             Some i \<Rightarrow> Some (StoragePath (take i (as_str p)))
           | None \<Rightarrow> Some storage_root)"

definition storage_basename :: "storage_path \<Rightarrow> string" where
  "storage_basename p =
     (case rfind (CHR ''/'') (as_str p) of
        Some i \<Rightarrow> drop (i + 1) (as_str p)
      | None \<Rightarrow> as_str p)"

definition storage_join :: "storage_path \<Rightarrow> string \<Rightarrow> storage_error + storage_path" where
  "storage_join p child =
     (if as_str p = [] then storage_path_new child
      else storage_path_new (as_str p @ ''/'' @ child))"

subsection \<open>The invariant of constructed paths\<close>

definition good_segment :: "string \<Rightarrow> bool" where
  "good_segment seg \<longleftrightarrow> seg \<noteq> [] \<and> seg \<noteq> ''.'' \<and> seg \<noteq> ''..'' \<and> CHR ''/'' \<notin> set seg
     \<and> CHR 0x00 \<notin> set seg \<and> CHR 0x5C \<notin> set seg"

lemma good_segment_Nil [simp]: "\<not> good_segment []"
  by (simp add: good_segment_def)

text \<open>A path is a list of segments: \<open>segs\<close> reads it, \<open>path_of\<close> prints it.\<close>

definition segs :: "storage_path \<Rightarrow> string list" where
  "segs p = (if as_str p = [] then [] else split_on (CHR ''/'') (as_str p))"

definition path_of :: "string list \<Rightarrow> storage_path" where
  "path_of ss = StoragePath (join_with (CHR ''/'') ss)"

definition path_ok :: "storage_path \<Rightarrow> bool" where
  "path_ok p \<longleftrightarrow> length (as_str p) \<le> MAX_PATH_LEN \<and> (\<forall>seg \<in> set (segs p). good_segment seg)"

lemma check_segments_None:
  "check_segments ss = None \<longleftrightarrow> (\<forall>s \<in> set ss. s \<noteq> [] \<and> s \<noteq> ''.'' \<and> s \<noteq> ''..'')"
  by (induction ss) auto

lemma path_of_segs [simp]: "path_of (segs p) = p"
  by (cases p) (simp add: path_of_def segs_def join_split)

lemma join_with_eq_Nil: "join_with c ss = [] \<longleftrightarrow> ss = [] \<or> ss = [[]]"
  by (induction c ss rule: join_with.induct) auto

lemma segs_path_of: "\<forall>s \<in> set ss. good_segment s \<Longrightarrow> segs (path_of ss) = ss"
  using split_join [of ss "CHR ''/''"]
  by (cases ss) (simp_all add: segs_def path_of_def join_with_eq_Nil good_segment_def)

lemma segs_inj: "segs p = segs q \<Longrightarrow> p = q"
  by (metis path_of_segs)

lemma segs_Nil_iff: "segs p = [] \<longleftrightarrow> as_str p = []"
  by (simp add: segs_def)

lemma segs_root [simp]: "segs (StoragePath []) = []"
  by (simp add: segs_def)

lemma join_with_append:
  "ss \<noteq> [] \<Longrightarrow> ts \<noteq> [] \<Longrightarrow> join_with c (ss @ ts) = join_with c ss @ c # join_with c ts"
  by (induction c ss rule: join_with.induct) (auto simp: join_with_Cons)

lemma as_str_path_of [simp]: "as_str (path_of ss) = join_with (CHR ''/'') ss"
  by (simp add: path_of_def)

lemma set_join_with: "set (join_with c ss) \<subseteq> insert c (\<Union> (set ` set ss))"
  by (induction c ss rule: join_with.induct) auto

lemma segs_set: "s \<in> set (segs p) \<Longrightarrow> set s \<subseteq> set (as_str p)"
  by (auto simp: segs_def dest: set_pieces split: if_splits)

lemma path_ok_chars:
  assumes "path_ok p"
  shows "CHR 0x00 \<notin> set (as_str p)" and "CHR 0x5C \<notin> set (as_str p)"
proof -
  have "as_str p = join_with (CHR ''/'') (segs p)"
    by (metis as_str_path_of path_of_segs)
  then have "set (as_str p) \<subseteq> insert (CHR ''/'') (\<Union> (set ` set (segs p)))"
    by (metis set_join_with)
  moreover have "CHR 0x00 \<notin> \<Union> (set ` set (segs p))" "CHR 0x5C \<notin> \<Union> (set ` set (segs p))"
    using assms by (auto simp: path_ok_def good_segment_def)
  ultimately show "CHR 0x00 \<notin> set (as_str p)" "CHR 0x5C \<notin> set (as_str p)"
    by auto
qed

lemma good_segments_ends:
  assumes "\<forall>s \<in> set ss. good_segment s" and "ss \<noteq> []"
  shows "hd (join_with (CHR ''/'') ss) \<noteq> CHR ''/''"
    and "last (join_with (CHR ''/'') ss) \<noteq> CHR ''/''"
proof -
  obtain s ts where ss: "ss = s # ts" using assms(2) by (cases ss) auto
  then have "good_segment s" using assms(1) by simp
  then show "hd (join_with (CHR ''/'') ss) \<noteq> CHR ''/''"
    using ss by (cases s; cases ts) (auto simp: good_segment_def)
  obtain us u where us: "ss = us @ [u]" using assms(2) by (metis rev_exhaust)
  then have u: "good_segment u" using assms(1) by simp
  then have "u \<noteq> []" "last u \<noteq> CHR ''/''"
    by (auto simp: good_segment_def) (metis last_in_set)
  then show "last (join_with (CHR ''/'') ss) \<noteq> CHR ''/''"
    using us by (cases "us = []") (simp_all add: join_with_snoc)
qed

lemma storage_path_new_InrD:
  assumes "storage_path_new s = Inr p"
  shows "path_ok p \<and> as_str p = pop_while_last (CHR ''/'') s"
proof -
  let ?t = "pop_while_last (CHR ''/'') s"
  from assms have p: "p = StoragePath ?t"
    and len: "length s \<le> MAX_PATH_LEN" and ch: "CHR 0x00 \<notin> set s" "CHR 0x5C \<notin> set s"
    and chk: "?t = [] \<or> check_segments (split_on (CHR ''/'') ?t) = None"
    by (auto simp: storage_path_new_def Let_def split: if_splits option.splits)
  have "length ?t \<le> MAX_PATH_LEN"
    using length_pop_while_last [of "CHR ''/''" s] len by linarith
  moreover have "good_segment g" if "g \<in> set (segs p)" for g
  proof -
    from that p have g: "g \<in> set (split_on (CHR ''/'') ?t)" and "?t \<noteq> []"
      by (auto simp: segs_def split: if_splits)
    with chk have "check_segments (split_on (CHR ''/'') ?t) = None" by simp
    with g have "g \<noteq> []" "g \<noteq> ''.''" "g \<noteq> ''..''" by (auto simp: check_segments_None)
    moreover have "CHR ''/'' \<notin> set g" using g by (rule split_on_pieces)
    moreover have "set g \<subseteq> set s"
      using set_pieces [OF g] set_pop_while_last [of "CHR ''/''" s] by blast
    ultimately show ?thesis using ch by (auto simp: good_segment_def)
  qed
  ultimately show ?thesis using p by (simp add: path_ok_def)
qed

lemma check_segments_path_ok:
  assumes "path_ok p" and "as_str p \<noteq> []"
  shows "check_segments (split_on (CHR ''/'') (as_str p)) = None"
proof -
  have "\<forall>s \<in> set (segs p). good_segment s" using assms(1) by (simp add: path_ok_def)
  then show ?thesis using assms(2) by (auto simp: check_segments_None segs_def good_segment_def)
qed

lemma storage_path_new_ok:
  assumes "path_ok p"
  shows "storage_path_new (as_str p) = Inr p"
proof (cases "as_str p = []")
  case True
  then show ?thesis by (cases p) (simp add: storage_path_new_def MAX_PATH_LEN_def)
next
  case False
  then have ne: "segs p \<noteq> []" by (simp add: segs_Nil_iff)
  have good: "\<forall>s \<in> set (segs p). good_segment s" using assms by (simp add: path_ok_def)
  have str: "as_str p = join_with (CHR ''/'') (segs p)"
    by (metis as_str_path_of path_of_segs)
  note ends = good_segments_ends [OF good ne, folded str]
  have "\<not> prefix ''/'' (as_str p)" using ends(1) by (cases "as_str p") auto
  moreover have "pop_while_last (CHR ''/'') (as_str p) = as_str p"
    using ends(2) by (simp add: pop_while_last_id)
  moreover have "check_segments (split_on (CHR ''/'') (as_str p)) = None"
    using assms False by (rule check_segments_path_ok)
  moreover have "length (as_str p) \<le> MAX_PATH_LEN" using assms by (simp add: path_ok_def)
  ultimately show ?thesis
    using path_ok_chars [OF assms] False by (simp add: storage_path_new_def)
qed

lemma storage_path_new_iff: "storage_path_new (as_str p) = Inr p \<longleftrightarrow> path_ok p"
  using storage_path_new_InrD storage_path_new_ok by blast

lemma path_ok_root [simp, intro]: "path_ok storage_root"
  by (simp add: path_ok_def storage_root_def MAX_PATH_LEN_def)

text \<open>The path operations on segments.\<close>

lemma rfind_segs:
  assumes "segs p = ss @ [s]" and "path_ok p"
  shows "rfind (CHR ''/'') (as_str p) =
           (if ss = [] then None else Some (length (join_with (CHR ''/'') ss)))"
proof -
  have s: "CHR ''/'' \<notin> set s" using assms by (auto simp: path_ok_def good_segment_def)
  have str: "as_str p = join_with (CHR ''/'') (ss @ [s])"
    by (metis as_str_path_of assms(1) path_of_segs)
  show ?thesis
  proof (cases "ss = []")
    case True
    then show ?thesis using s str by (simp add: rfind_None_iff)
  next
    case False
    then show ?thesis using s str by (simp add: join_with_snoc rfind_append_sep)
  qed
qed

lemma storage_parent_segs:
  assumes "path_ok p"
  shows "storage_parent p = (if segs p = [] then None else Some (path_of (butlast (segs p))))"
proof (cases "segs p" rule: rev_cases)
  case Nil
  then show ?thesis by (simp add: storage_parent_def segs_Nil_iff)
next
  case (snoc ss s)
  have str: "as_str p = join_with (CHR ''/'') (ss @ [s])"
    by (metis as_str_path_of snoc path_of_segs)
  have "as_str p \<noteq> []" using snoc by (metis segs_Nil_iff snoc_eq_iff_butlast)
  then show ?thesis
    using snoc str rfind_segs [OF snoc assms]
    by (auto simp: storage_parent_def storage_root_def path_of_def join_with_snoc)
qed

lemma storage_basename_segs:
  assumes "path_ok p" and "segs p \<noteq> []"
  shows "storage_basename p = last (segs p)"
proof (cases "segs p" rule: rev_cases)
  case (snoc ss s)
  have "as_str p = join_with (CHR ''/'') (ss @ [s])"
    by (metis as_str_path_of snoc path_of_segs)
  then show ?thesis
    using snoc rfind_segs [OF snoc assms(1)]
    by (auto simp: storage_basename_def join_with_snoc)
qed (use assms in simp)

lemma segs_butlast_path:
  "path_ok p \<Longrightarrow> segs (path_of (butlast (segs p))) = butlast (segs p)"
  by (rule segs_path_of) (auto simp: path_ok_def dest: in_set_butlastD)

lemma length_join_butlast:
  "length (join_with c (butlast ss)) \<le> length (join_with c ss)"
proof (cases ss rule: rev_cases)
  case (snoc ts t)
  then show ?thesis by (cases "ts = []") (simp_all add: join_with_snoc)
qed simp

lemma path_ok_parent [inv_intros]:
  assumes "path_ok p" and "storage_parent p = Some q"
  shows "path_ok q"
proof -
  from assms have q: "q = path_of (butlast (segs p))"
    by (auto simp: storage_parent_segs split: if_splits)
  have "length (as_str q) \<le> length (as_str p)"
    using length_join_butlast [of "CHR ''/''" "segs p"] q
    by (metis as_str_path_of path_of_segs)
  then show ?thesis
    using assms(1) q segs_butlast_path [OF assms(1)]
    by (auto simp: path_ok_def dest: in_set_butlastD)
qed

lemma storage_join_InrD:
  assumes "storage_join p child = Inr q"
  shows "path_ok q"
  using assms by (auto simp: storage_join_def dest: storage_path_new_InrD split: if_splits)

text \<open>Joining extends the segments of the base: a joined path lies below its base.\<close>

lemma storage_join_segs:
  assumes ok: "path_ok p" and join: "storage_join p child = Inr q"
  shows "\<exists>rest. segs q = segs p @ rest"
proof (cases "as_str p = []")
  case True
  then show ?thesis by (simp add: segs_def)
next
  case False
  let ?t = "pop_while_last (CHR ''/'') child"
  have last: "last (as_str p) \<noteq> CHR ''/''"
  proof -
    have "as_str p = join_with (CHR ''/'') (segs p)" by (metis as_str_path_of path_of_segs)
    moreover have "\<forall>s \<in> set (segs p). good_segment s" using ok by (simp add: path_ok_def)
    ultimately show ?thesis
      using good_segments_ends(2) [of "segs p"] False by (metis segs_Nil_iff)
  qed
  from join False have q: "as_str q = pop_while_last (CHR ''/'') ((as_str p @ ''/'') @ child)"
    by (auto simp: storage_join_def dest: storage_path_new_InrD)
  show ?thesis
  proof (cases "?t = []")
    case True
    then have "as_str q = as_str p"
      using q last pop_while_last_append [of "CHR ''/''" "as_str p @ ''/''" child]
        pop_while_last_snoc [of "CHR ''/''" "as_str p" "CHR ''/''"]
      by (simp add: pop_while_last_id del: pop_while_last_snoc)
    then show ?thesis by (simp add: segs_def)
  next
    case False
    then have "as_str q = as_str p @ CHR ''/'' # ?t"
      using q pop_while_last_append [of "CHR ''/''" "as_str p @ ''/''" child] by simp
    then show ?thesis
      using \<open>as_str p \<noteq> []\<close> by (simp add: segs_def split_on_append)
  qed
qed

lemma storage_join_good:
  assumes "path_ok p" and "good_segment s"
    and "length (as_str p) + length s + 1 \<le> MAX_PATH_LEN"
  shows "storage_join p s = Inr (path_of (segs p @ [s]))"
proof -
  have good: "\<forall>x \<in> set (segs p @ [s]). good_segment x"
    using assms by (auto simp: path_ok_def)
  have str: "as_str p = join_with (CHR ''/'') (segs p)"
    by (metis as_str_path_of path_of_segs)
  have eq: "join_with (CHR ''/'') (segs p @ [s]) =
      (if as_str p = [] then s else as_str p @ ''/'' @ s)"
    using str segs_Nil_iff [of p] by (cases "as_str p = []") (simp_all add: join_with_snoc)
  have "path_ok (path_of (segs p @ [s]))"
    unfolding path_ok_def segs_path_of [OF good] as_str_path_of eq
    using good assms(3) by auto
  from storage_path_new_ok [OF this] show ?thesis
    unfolding as_str_path_of eq by (auto simp: storage_join_def)
qed

section \<open>Properties\<close>

text \<open>
  The constructor accepts exactly the strings that are a valid path followed by
  trailing slashes (none after the root), within the length bound; it never accepts a
  traversal, an absolute path, a NUL or a backslash, and it only strips the slashes.
\<close>

theorem storage_path_new_spec:
  "storage_path_new s = Inr p \<longleftrightarrow>
     path_ok p \<and> length s \<le> MAX_PATH_LEN \<and>
     (\<exists>n. s = as_str p @ replicate n (CHR ''/'') \<and> \<not> (as_str p = [] \<and> 0 < n))"
  (is "_ = ?R")
proof
  assume new: "storage_path_new s = Inr p"
  then have p: "path_ok p" "as_str p = pop_while_last (CHR ''/'') s"
    by (auto dest: storage_path_new_InrD)
  obtain n where n: "s = as_str p @ replicate n (CHR ''/'')"
    using pop_while_last_decomp [of s "CHR ''/''"] unfolding p(2) by blast
  moreover have "length s \<le> MAX_PATH_LEN" "\<not> prefix ''/'' s"
    using new by (auto simp: storage_path_new_def split: if_splits)
  moreover have "n = 0 \<or> as_str p \<noteq> []"
  proof (rule ccontr)
    assume "\<not> (n = 0 \<or> as_str p \<noteq> [])"
    then obtain m where "n = Suc m" "as_str p = []" by (cases n) auto
    with n have "s = CHR ''/'' # replicate m (CHR ''/'')" by (metis append_Nil replicate_Suc)
    with \<open>\<not> prefix ''/'' s\<close> show False by simp
  qed
  ultimately show ?R using p(1) by auto
next
  assume ?R
  then obtain n where ok: "path_ok p" and len: "length s \<le> MAX_PATH_LEN"
    and s: "s = as_str p @ replicate n (CHR ''/'')" and n: "n = 0 \<or> as_str p \<noteq> []" by auto
  have new: "storage_path_new (as_str p) = Inr p" using ok by (rule storage_path_new_ok)
  then have pop: "pop_while_last (CHR ''/'') (as_str p) = as_str p"
    by (rule storage_path_new_InrD [THEN conjunct2, symmetric])
  then have "pop_while_last (CHR ''/'') s = as_str p"
    by (simp add: s pop_while_last_append)
  moreover have "\<not> prefix ''/'' s"
  proof (cases "as_str p")
    case Nil
    then have "s = []" using n s by simp
    then show ?thesis by simp
  next
    case (Cons c cs)
    moreover have "\<not> prefix ''/'' (as_str p)"
      using new by (auto simp: storage_path_new_def split: if_splits)
    ultimately show ?thesis by (simp add: s)
  qed
  moreover have "CHR 0x00 \<notin> set s" "CHR 0x5C \<notin> set s"
    using path_ok_chars [OF ok] by (auto simp: s)
  ultimately show "storage_path_new s = Inr p"
    using new len by (auto simp: storage_path_new_def pop Let_def split: if_splits option.splits)
qed

text \<open>
  Splitting a path at its last slash loses nothing: every path but the root is the
  join of its parent and its basename.
\<close>

theorem parent_join_basename:
  assumes "path_ok p" and "storage_parent p = Some q"
  shows "storage_join q (storage_basename p) = Inr p"
proof -
  from assms have ne: "segs p \<noteq> []" and q: "q = path_of (butlast (segs p))"
    by (auto simp: storage_parent_segs split: if_splits)
  have segs_q: "segs q = butlast (segs p)" using assms(1) q by (simp add: segs_butlast_path)
  have "path_ok q" using assms by (rule path_ok_parent)
  have join: "as_str p = join_with (CHR ''/'') (butlast (segs p) @ [last (segs p)])"
    using ne by (metis append_butlast_last_id as_str_path_of path_of_segs)
  have str: "as_str p = (if as_str q = [] then last (segs p) else as_str q @ ''/'' @ last (segs p))"
  proof (cases "butlast (segs p) = []")
    case True
    then show ?thesis using join q by simp
  next
    case False
    moreover have "as_str q = join_with (CHR ''/'') (butlast (segs p))" by (simp add: q)
    ultimately show ?thesis
      using join segs_q segs_Nil_iff [of q] by (simp add: join_with_snoc)
  qed
  show ?thesis
    using storage_path_new_ok [OF assms(1)] str storage_basename_segs [OF assms(1) ne]
    by (auto simp: storage_join_def)
qed

theorem parent_join_basename_witness:
  "storage_join (StoragePath ''a/b'') (storage_basename (StoragePath ''a/b/c.txt''))
     = Inr (StoragePath ''a/b/c.txt'')"
proof -
  have "path_ok (StoragePath ''a/b/c.txt'')"
    by (simp add: path_ok_def segs_def good_segment_def MAX_PATH_LEN_def Let_def)
  moreover have "storage_parent (StoragePath ''a/b/c.txt'') = Some (StoragePath ''a/b'')"
    by (simp add: storage_parent_def)
  ultimately show ?thesis by (rule parent_join_basename)
qed

text \<open>
  Joining any child string to a path either fails or gives a valid path below the
  base: no child name leaves the directory it is joined to.
\<close>

theorem storage_join_confined:
  assumes "path_ok p" and "storage_join p child = Inr q"
  shows "path_ok q \<and> prefix (segs p) (segs q)"
  using storage_join_InrD [OF assms(2)] storage_join_segs [OF assms] by (auto simp: prefix_def)

theorem storage_join_confined_witness:
  "path_ok (StoragePath ''home/x/y'') \<and>
   prefix (segs (StoragePath ''home'')) (segs (StoragePath ''home/x/y''))"
proof -
  have "path_ok (StoragePath ''home'')"
    by (simp add: path_ok_def segs_def good_segment_def MAX_PATH_LEN_def Let_def)
  moreover have "storage_join (StoragePath ''home'') ''x/y/'' = Inr (StoragePath ''home/x/y'')"
    by (simp add: storage_join_def storage_path_new_def MAX_PATH_LEN_def Let_def
        pop_while_last.simps)
  ultimately show ?thesis by (rule storage_join_confined)
qed

end
