(* ===== verification/FsPaths.thy ===== *)
theory FsPaths
  imports Paths
begin

text \<open>
  User paths (crabcloud-fs, src/path.rs) and the error type of the filesystem layer
  (crabcloud-fs, src/error.rs; crabcloud-filecache, src/error.rs). A user path is
  \<open>/\<close> followed by a valid storage path; the lemmas reduce its operations to those of
  \<open>Paths\<close>. A database error of sqlx is carried as its message.
\<close>

datatype filecache_error =
    FcNotFound
  | FcAncestorMissing storage_path
  | FcStorage storage_error
  | FcDb string
  | FcInvalid string

datatype fs_error =
    FsNotFound
  | FsInvalidPath string
  | FsMountNotFound
  | FsCrossMount
  | FsForbidden
  | FsConflict
  | FsUnsupported
  | FsCrossStorage
  | FsStorage storage_error
  | FsFileCache filecache_error
  | FsTrash string
  | FsUpload string

datatype user_path = UserPath (upath: string)

text \<open>The loop \<open>while s.len() > 1 && s.ends_with('/') { s.pop(); }\<close>.\<close>

function trim_user_slashes :: "string \<Rightarrow> string" where
  "trim_user_slashes s =
     (if length s > 1 \<and> last s = CHR ''/'' then trim_user_slashes (butlast s) else s)"
  by pat_completeness auto
termination
  by (relation "measure length") auto

declare trim_user_slashes.simps [simp del]

definition user_path_new :: "string \<Rightarrow> fs_error + user_path" where
  "user_path_new s0 =
     (if length s0 > MAX_PATH_LEN then Inl (FsInvalidPath ''path too long'')
      else if CHR 0x00 \<in> set s0 then Inl (FsInvalidPath ''embedded NUL'')
      else if CHR 0x5C \<in> set s0 then Inl (FsInvalidPath ''backslash is not a path separator'')
      else if \<not> starts_with s0 ''/'' then Inl (FsInvalidPath (''user path must start with '' @ [CHR 0x27, CHR ''/'', CHR 0x27]))
      else
        (let s = trim_user_slashes s0
         in if length s > 1
            then case check_segments (split_on (CHR ''/'') (drop 1 s)) of
                   Some m \<Rightarrow> Inl (FsInvalidPath m)
                 | None \<Rightarrow> Inr (UserPath s)
            else Inr (UserPath s)))"

definition user_root :: user_path where
  "user_root = UserPath ''/''"

definition user_is_root :: "user_path \<Rightarrow> bool" where
  "user_is_root p \<longleftrightarrow> upath p = ''/''"

definition user_parent :: "user_path \<Rightarrow> user_path option" where
  "user_parent p =
     (if user_is_root p then None
      else case rfind (CHR ''/'') (upath p) of
             Some i \<Rightarrow> if i = 0 then Some user_root else Some (UserPath (take i (upath p)))
           | None \<Rightarrow> None)"

definition user_basename :: "user_path \<Rightarrow> string" where
  "user_basename p =
     (if user_is_root p then []
      else case rfind (CHR ''/'') (upath p) of
             Some i \<Rightarrow> drop (i + 1) (upath p)
           | None \<Rightarrow> upath p)"

definition user_join :: "user_path \<Rightarrow> string \<Rightarrow> fs_error + user_path" where
  "user_join p child =
     user_path_new (if user_is_root p then ''/'' @ child else upath p @ ''/'' @ child)"

section \<open>User paths as absolute storage paths\<close>

definition user_path_ok :: "user_path \<Rightarrow> bool" where
  "user_path_ok p \<longleftrightarrow> starts_with (upath p) ''/'' \<and> path_ok (StoragePath (drop 1 (upath p)))
     \<and> length (upath p) \<le> MAX_PATH_LEN"

lemma trim_user_Cons: "trim_user_slashes (c # t) = c # pop_while_last (CHR ''/'') t"
proof (induction t rule: rev_induct)
  case (snoc x t)
  then show ?case
    by (simp add: trim_user_slashes.simps [of "c # t @ [x]"] butlast_append)
qed (simp add: trim_user_slashes.simps)

lemma user_path_new_iff:
  "user_path_new s = Inr p \<longleftrightarrow>
     (\<exists>t u. s = CHR ''/'' # t \<and> p = UserPath (CHR ''/'' # u) \<and> u = pop_while_last (CHR ''/'') t
        \<and> length s \<le> MAX_PATH_LEN \<and> CHR 0x00 \<notin> set t \<and> CHR 0x5C \<notin> set t
        \<and> (u \<noteq> [] \<longrightarrow> check_segments (split_on (CHR ''/'') u) = None))"
  by (cases s)
    (auto simp: user_path_new_def trim_user_Cons Let_def split: if_splits option.splits)

lemma good_segment_ends_string:
  assumes "path_ok (StoragePath u)"
  shows "pop_while_last (CHR ''/'') u = u"
  using storage_path_new_InrD [OF storage_path_new_ok [OF assms]] by (metis storage_path.sel)

lemma user_path_new_InrD:
  assumes "user_path_new s = Inr p"
  shows "user_path_ok p \<and> (\<exists>n. s = upath p @ replicate n (CHR ''/''))"
proof -
  from assms obtain t where s: "s = CHR ''/'' # t"
    and p: "p = UserPath (CHR ''/'' # pop_while_last (CHR ''/'') t)"
    and len: "length s \<le> MAX_PATH_LEN" and ch: "CHR 0x00 \<notin> set t" "CHR 0x5C \<notin> set t"
    and chk: "pop_while_last (CHR ''/'') t \<noteq> [] \<longrightarrow>
      check_segments (split_on (CHR ''/'') (pop_while_last (CHR ''/'') t)) = None"
    by (auto simp: user_path_new_iff)
  let ?u = "pop_while_last (CHR ''/'') t"
  have len_u: "length ?u \<le> length t" by (rule length_pop_while_last)
  have "good_segment g" if "g \<in> set (segs (StoragePath ?u))" for g
  proof -
    from that have g: "g \<in> set (split_on (CHR ''/'') ?u)" and "?u \<noteq> []"
      by (auto simp: segs_def split: if_splits)
    with chk have "g \<noteq> []" "g \<noteq> ''.''" "g \<noteq> ''..''" by (auto simp: check_segments_None)
    moreover have "CHR ''/'' \<notin> set g" using g by (rule split_on_pieces)
    moreover have "set g \<subseteq> set t"
      using set_pieces [OF g] set_pop_while_last [of "CHR ''/''" t] by blast
    ultimately show ?thesis using ch by (auto simp: good_segment_def)
  qed
  then have "user_path_ok p"
    using len len_u s p by (auto simp: user_path_ok_def path_ok_def)
  moreover obtain n where "t = ?u @ replicate n (CHR ''/'')"
    using pop_while_last_decomp by blast
  then have "s = upath p @ replicate n (CHR ''/'')" using s p by (metis append_Cons user_path.sel)
  ultimately show ?thesis by blast
qed

lemma user_path_okE:
  assumes "user_path_ok p"
  obtains u where "p = UserPath (CHR ''/'' # u)" and "path_ok (StoragePath u)"
    and "length u < MAX_PATH_LEN"
  using assms by (cases p) (auto simp: user_path_ok_def prefix_def Suc_le_eq)

lemma user_path_new_ok:
  assumes "user_path_ok p"
  shows "user_path_new (upath p) = Inr p"
proof -
  from assms obtain u where p: "p = UserPath (CHR ''/'' # u)" and ok: "path_ok (StoragePath u)"
    and len: "length u < MAX_PATH_LEN" by (rule user_path_okE)
  have "u \<noteq> [] \<longrightarrow> check_segments (split_on (CHR ''/'') u) = None"
    using check_segments_path_ok [OF ok] by simp
  then show ?thesis
    unfolding user_path_new_iff p
    using len path_ok_chars [OF ok]
    by (intro exI [of _ u] conjI)
      (simp_all only: user_path.sel good_segment_ends_string [OF ok] storage_path.sel
        length_Cons Suc_le_eq not_False_eq_True)
qed

text \<open>
  The user path constructor accepts exactly the absolute paths whose part after
  the leading slash is a valid storage path, followed by trailing slashes, within the
  length bound.
\<close>

theorem user_path_new_spec:
  "user_path_new s = Inr p \<longleftrightarrow>
     user_path_ok p \<and> length s \<le> MAX_PATH_LEN \<and> (\<exists>n. s = upath p @ replicate n (CHR ''/''))"
  (is "_ = ?R")
proof
  assume "user_path_new s = Inr p"
  then show ?R
    using user_path_new_InrD [of s p] by (auto simp: user_path_new_iff)
next
  assume ?R
  then obtain n where ok: "user_path_ok p" and len: "length s \<le> MAX_PATH_LEN"
    and s: "s = upath p @ replicate n (CHR ''/'')" by blast
  from ok obtain u where p: "p = UserPath (CHR ''/'' # u)" and u: "path_ok (StoragePath u)"
    by (rule user_path_okE)
  have "pop_while_last (CHR ''/'') (u @ replicate n (CHR ''/'')) = u"
    by (simp add: pop_while_last_append good_segment_ends_string [OF u])
  moreover have "u \<noteq> [] \<longrightarrow> check_segments (split_on (CHR ''/'') u) = None"
    using check_segments_path_ok [OF u] by simp
  ultimately show "user_path_new s = Inr p"
    unfolding user_path_new_iff s p
    using len [unfolded s p] path_ok_chars [OF u]
    by (intro exI [of _ "u @ replicate n (CHR ''/'')"] exI [of _ u] conjI)
      (simp_all only: user_path.sel storage_path.sel append_Cons set_append Un_iff
        in_set_replicate char.inject, simp_all)
qed

lemma user_join_ok: "user_join p child = Inr q \<Longrightarrow> user_path_ok q"
  by (auto simp: user_join_def dest: user_path_new_InrD)

lemma user_parent_ok:
  assumes "user_path_ok p" and "user_parent p = Some q"
  shows "user_path_ok q"
proof -
  from assms(1) obtain u where p: "p = UserPath (CHR ''/'' # u)"
    and u: "path_ok (StoragePath u)" and len: "length u < MAX_PATH_LEN"
    by (rule user_path_okE)
  show ?thesis
  proof (cases "rfind (CHR ''/'') u")
    case None
    then have "q = user_root"
      using assms(2) p by (auto simp: user_parent_def user_is_root_def split: if_splits)
    then show ?thesis
      using path_ok_root by (simp add: user_path_ok_def user_root_def storage_root_def MAX_PATH_LEN_def)
  next
    case (Some i)
    then have q: "q = UserPath (CHR ''/'' # take i u)"
      using assms(2) p by (auto simp: user_parent_def user_is_root_def split: if_splits)
    have "u \<noteq> []" using Some by auto
    then have "storage_parent (StoragePath u) = Some (StoragePath (take i u))"
      using Some by (simp add: storage_parent_def)
    with u have "path_ok (StoragePath (take i u))" by (rule path_ok_parent)
    then show ?thesis using q len by (simp add: user_path_ok_def)
  qed
qed

section \<open>User paths by their segments\<close>

definition usegs :: "user_path \<Rightarrow> string list" where
  "usegs p = segs (StoragePath (drop 1 (upath p)))"

definition upath_of :: "string list \<Rightarrow> user_path" where
  "upath_of ss = UserPath (CHR ''/'' # join_with (CHR ''/'') ss)"

lemma usegs_Nil_iff: "user_path_ok p \<Longrightarrow> usegs p = [] \<longleftrightarrow> user_is_root p"
  by (auto elim!: user_path_okE simp: usegs_def segs_Nil_iff user_is_root_def)

lemma upath_of_usegs: "user_path_ok p \<Longrightarrow> upath_of (usegs p) = p"
  by (auto elim!: user_path_okE simp: usegs_def upath_of_def simp flip: as_str_path_of)

lemma usegs_good: "user_path_ok p \<Longrightarrow> s \<in> set (usegs p) \<Longrightarrow> good_segment s"
  by (auto elim!: user_path_okE simp: usegs_def path_ok_def)

lemma usegs_upath_of: "\<forall>s \<in> set ss. good_segment s \<Longrightarrow> usegs (upath_of ss) = ss"
  using segs_path_of [of ss] by (simp add: usegs_def upath_of_def path_of_def)

lemma upath_of_inj:
  "\<lbrakk>\<forall>s \<in> set a. good_segment s; \<forall>s \<in> set b. good_segment s; upath_of a = upath_of b\<rbrakk> \<Longrightarrow> a = b"
  by (metis usegs_upath_of)

lemma upath_of_Nil: "upath_of [] = user_root"
  by (simp add: upath_of_def user_root_def)

lemma rfind_upath_of:
  assumes "\<forall>s \<in> set (ss @ [s]). good_segment s"
  shows "rfind (CHR ''/'') (upath (upath_of (ss @ [s]))) =
    Some (if ss = [] then 0 else length (upath (upath_of ss)))"
proof -
  have s: "CHR ''/'' \<notin> set s" using assms by (auto simp: good_segment_def)
  show ?thesis
  proof (cases "ss = []")
    case True
    then show ?thesis using rfind_append_sep [OF s, of "[]"] by (simp add: upath_of_def)
  next
    case False
    then show ?thesis
      using rfind_append_sep [OF s, of "CHR ''/'' # join_with (CHR ''/'') ss"]
      by (simp add: upath_of_def join_with_snoc)
  qed
qed

text \<open>The parent drops the last segment; the root has none.\<close>

lemma user_parent_upath_of:
  assumes "\<forall>s \<in> set (ss @ [s]). good_segment s"
  shows "user_parent (upath_of (ss @ [s])) = Some (upath_of ss)"
proof -
  have "s \<noteq> []" using assms by auto
  then have "\<not> user_is_root (upath_of (ss @ [s]))"
    by (cases "ss = []") (simp_all add: user_is_root_def upath_of_def join_with_snoc)
  then show ?thesis
    using rfind_upath_of [OF assms] \<open>s \<noteq> []\<close>
    by (cases "ss = []") (auto simp: user_parent_def upath_of_def join_with_snoc user_root_def)
qed

lemma user_parent_root: "user_is_root p \<Longrightarrow> user_parent p = None"
  by (simp add: user_parent_def)

lemma user_parent_shorter: "user_parent p = Some q \<Longrightarrow> length (upath q) < length (upath p)"
proof -
  assume a: "user_parent p = Some q"
  then obtain i where i: "rfind (CHR ''/'') (upath p) = Some i" and nr: "upath p \<noteq> ''/''"
    by (auto simp: user_parent_def user_is_root_def split: if_splits option.splits)
  show ?thesis
  proof (cases "i = 0")
    case True
    have "length (upath p) \<noteq> 1"
      using rfind_SomeD [OF i] nr True by (cases "upath p") auto
    moreover have "length (upath p) \<noteq> 0" using rfind_SomeD [OF i] by linarith
    ultimately have "1 < length (upath p)" by linarith
    then show ?thesis
      using a i True by (auto simp: user_parent_def user_root_def split: if_splits)
  next
    case False
    then show ?thesis
      using a i rfind_SomeD [OF i] by (auto simp: user_parent_def split: if_splits)
  qed
qed

lemma length_join_prefix: "prefix as ss \<Longrightarrow> length (join_with c as) \<le> length (join_with c ss)"
proof -
  assume "prefix as ss"
  then obtain bs where ss: "ss = as @ bs" by (auto simp: prefix_def)
  show ?thesis unfolding ss
  proof (induction bs rule: rev_induct)
    case (snoc b bs)
    have "length (join_with c (as @ bs)) \<le> length (join_with c ((as @ bs) @ [b]))"
      using length_join_butlast [of c "(as @ bs) @ [b]"] unfolding butlast_snoc .
    with snoc show ?case by simp
  qed simp
qed

lemma upath_of_prefix_ok:
  assumes "user_path_ok p" and "prefix as (usegs p)"
  shows "user_path_ok (upath_of as)"
proof -
  have good: "\<forall>s \<in> set as. good_segment s"
    using set_mono_prefix [OF assms(2)] usegs_good [OF assms(1)] by blast
  have len: "length (upath (upath_of as)) \<le> length (upath p)"
    using length_join_prefix [OF assms(2), of "CHR ''/''"] upath_of_usegs [OF assms(1)]
    by (metis length_Cons not_less_eq_eq upath_of_def user_path.sel)
  have "segs (StoragePath (join_with (CHR ''/'') as)) = as"
    using segs_path_of [OF good] by (simp add: path_of_def)
  then show ?thesis
    using good len assms(1) by (auto simp: user_path_ok_def upath_of_def path_ok_def)
qed

end
