(* ===== verification/Storage_Meta.thy ===== *)
theory Storage_Meta
  imports Paths
begin

unbundle bit_operations_syntax

text \<open>
  File metadata of the storage layer (crabcloud-storage, src/meta.rs) and the events a
  backend emits (src/lib.rs): entity tags, mimetypes, the permission bitmap, metadata
  records and multipart handles. Times are \<open>SystemTime\<close> readings in nanoseconds.
\<close>

datatype file_kind = KFile | KDirectory

datatype etag = ETag (etag_str: string)

datatype mimetype = Mimetype (mime_str: string)

datatype permissions = Permissions (perm_bits: u8)

record file_metadata =
  md_path :: storage_path
  md_kind :: file_kind
  md_size :: nat
  md_mtime :: nat
  md_etag :: etag
  md_mimetype :: mimetype
  md_permissions :: permissions

record dir_entry =
  de_name :: string
  de_metadata :: file_metadata

section \<open>Entity tags\<close>

definition etag_new :: "world \<Rightarrow> etag \<times> world" where
  "etag_new w = (let (b, w') = draw_bytes 20 w in (ETag (w_hex w b), w'))"

definition is_lower_hex :: "char \<Rightarrow> bool" where
  "is_lower_hex c \<longleftrightarrow> c \<in> set ''0123456789abcdef''"

definition etag_from_hex :: "string \<Rightarrow> storage_error + etag" where
  "etag_from_hex s =
     (if length s \<noteq> 40
      then Inl (StOther (''etag length: expected 40 hex chars, got '' @ show_nat (length s)))
      else if \<not> list_all is_lower_hex s
      then Inl (StOther ''etag: non-lowercase-hex character'')
      else Inr (ETag s))"

section \<open>Mimetypes\<close>

text \<open>\<open>splitn(2, '/')\<close> cuts at the first slash only.\<close>

definition mimetype_parse :: "(string \<Rightarrow> string) \<Rightarrow> string \<Rightarrow> storage_error + mimetype" where
  "mimetype_parse unicode_lower s =
     (if s = [] then Inl (StOther ''empty mimetype'')
      else case find_idx (CHR ''/'') s of
             None \<Rightarrow> Inl (StOther ''mimetype missing subtype'')
           | Some i \<Rightarrow>
               if take i s = [] \<or> drop (i + 1) s = []
               then Inl (StOther ''mimetype empty component'')
               else Inr (Mimetype (to_lowercase unicode_lower s)))"

definition octet_stream :: mimetype where
  "octet_stream = Mimetype ''application/octet-stream''"

section \<open>The permission bitmap\<close>

definition PERM_READ :: u8 where "PERM_READ = 1"
definition PERM_UPDATE :: u8 where "PERM_UPDATE = 2"
definition PERM_CREATE :: u8 where "PERM_CREATE = 4"
definition PERM_DELETE :: u8 where "PERM_DELETE = 8"
definition PERM_SHARE :: u8 where "PERM_SHARE = 16"

definition PERM_ALL :: u8 where
  "PERM_ALL = PERM_READ OR PERM_UPDATE OR PERM_CREATE OR PERM_DELETE OR PERM_SHARE"

definition permissions_new :: "u8 \<Rightarrow> permissions" where
  "permissions_new bits = Permissions (bits AND PERM_ALL)"

definition permissions_full :: permissions where
  "permissions_full = Permissions PERM_ALL"

definition permissions_readonly :: permissions where
  "permissions_readonly = Permissions PERM_READ"

definition permissions_contains :: "permissions \<Rightarrow> permissions \<Rightarrow> bool" where
  "permissions_contains p q \<longleftrightarrow> (perm_bits p AND perm_bits q) = perm_bits q"

section \<open>Multipart uploads and events\<close>

record multipart_handle =
  mh_upload_id :: string
  mh_target :: storage_path

record part_tag =
  pt_number :: u32
  pt_etag :: string

datatype storage_event =
    Written (ev_storage_id: string) storage_path file_metadata
  | DirCreated (ev_storage_id: string) storage_path file_metadata
  | Deleted (ev_storage_id: string) storage_path
  | Moved (ev_storage_id: string) storage_path storage_path
  | Copied (ev_storage_id: string) storage_path storage_path

section \<open>Lemmas\<close>

lemma PERM_ALL_31: "PERM_ALL = 31"
  by (simp add: PERM_ALL_def PERM_READ_def PERM_UPDATE_def PERM_CREATE_def PERM_DELETE_def
      PERM_SHARE_def)

lemma permissions_contains_bits:
  "permissions_contains p q \<longleftrightarrow> (\<forall>n. bit (perm_bits q) n \<longrightarrow> bit (perm_bits p) n)"
  unfolding permissions_contains_def
proof
  assume eq: "perm_bits p AND perm_bits q = perm_bits q"
  show "\<forall>n. bit (perm_bits q) n \<longrightarrow> bit (perm_bits p) n"
    using bit_and_iff [of "perm_bits p" "perm_bits q", unfolded eq] by blast
next
  assume "\<forall>n. bit (perm_bits q) n \<longrightarrow> bit (perm_bits p) n"
  then show "perm_bits p AND perm_bits q = perm_bits q"
    by (intro bit_eqI) (auto simp: bit_and_iff)
qed

lemma permissions_contains_refl [simp]: "permissions_contains p p"
  by (simp add: permissions_contains_bits)

lemma permissions_contains_trans:
  "permissions_contains p q \<Longrightarrow> permissions_contains q r \<Longrightarrow> permissions_contains p r"
  by (auto simp: permissions_contains_bits)

text \<open>
  Every bitmap built from a raw byte lies within the full permissions, building is
  idempotent, and containment is the inclusion of permission bits.
\<close>

theorem permissions_new_sound:
  "permissions_contains permissions_full (permissions_new b)
   \<and> permissions_new (perm_bits (permissions_new b)) = permissions_new b
   \<and> unat (perm_bits (permissions_new b)) \<le> 31
   \<and> (permissions_contains (permissions_new b) (permissions_new c)
       \<longleftrightarrow> {n. bit c n \<and> n \<le> 4} \<subseteq> {n. bit b n})"
proof -
  have all: "bit (PERM_ALL :: u8) n \<longleftrightarrow> n \<le> 4" for n
  proof -
    have eq: "PERM_ALL = (mask 5 :: u8)" by (simp add: PERM_ALL_31 mask_eq_exp_minus_1)
    show ?thesis unfolding eq bit_mask_iff by auto
  qed
  have "b AND PERM_ALL \<le> PERM_ALL" by (rule word_and_le1)
  then have "unat (b AND PERM_ALL) \<le> unat PERM_ALL" by (simp add: word_le_nat_alt)
  then have "unat (b AND PERM_ALL) \<le> 31" by (simp add: PERM_ALL_31)
  then show ?thesis
    by (auto simp: permissions_contains_bits permissions_new_def permissions_full_def
        bit_and_iff all and.assoc)
qed

lemma etag_from_hex_iff:
  "etag_from_hex s = Inr e \<longleftrightarrow> e = ETag s \<and> length s = 40 \<and> list_all is_lower_hex s"
  by (auto simp: etag_from_hex_def)

end
