(* ===== verification/Storage_Trait.thy ===== *)
theory Storage_Trait
  imports Storage_Meta
begin

text \<open>
  The \<open>Storage\<close> trait (crabcloud-storage, src/lib.rs) as a record of operations over
  a state, the vtable of a \<open>dyn Storage\<close>, and the contract its clients rely on: which
  paths an operation may change. A request body is its bytes or the I/O error that
  reading it raises; the event sink is part of the state.
\<close>

type_synonym body = "io_error + bytes"

record 's storage_ops =
  op_id :: "'s \<Rightarrow> string"
  op_stat :: "storage_path \<Rightarrow> ('s, storage_error, file_metadata) eff"
  op_exists :: "storage_path \<Rightarrow> ('s, storage_error, bool) eff"
  op_list :: "storage_path \<Rightarrow> ('s, storage_error, dir_entry list) eff"
  op_read :: "storage_path \<Rightarrow> ('s, storage_error, bytes) eff"
  op_read_range :: "storage_path \<Rightarrow> u64 \<Rightarrow> u64 \<Rightarrow> 's \<Rightarrow> (storage_error + bytes) option"
  op_put_file :: "storage_path \<Rightarrow> body \<Rightarrow> ('s, storage_error, file_metadata) eff"
  op_mkdir :: "storage_path \<Rightarrow> ('s, storage_error, file_metadata) eff"
  op_delete :: "storage_path \<Rightarrow> ('s, storage_error, unit) eff"
  op_rename :: "storage_path \<Rightarrow> storage_path \<Rightarrow> ('s, storage_error, unit) eff"
  op_copy :: "storage_path \<Rightarrow> storage_path \<Rightarrow> ('s, storage_error, unit) eff"
  op_begin_multipart :: "storage_path \<Rightarrow> ('s, storage_error, multipart_handle) eff"
  op_put_part :: "multipart_handle \<Rightarrow> u32 \<Rightarrow> body \<Rightarrow> ('s, storage_error, part_tag) eff"
  op_commit_multipart ::
    "multipart_handle \<Rightarrow> part_tag list \<Rightarrow> ('s, storage_error, file_metadata) eff"
  op_abort_multipart :: "multipart_handle \<Rightarrow> ('s, storage_error, unit) eff"

text \<open>
  \<open>touches at X s s'\<close>: between two states, seen through the view \<open>at\<close>, only the paths
  in \<open>X\<close> change, and ancestors of them that did not exist may appear.
\<close>

definition touches ::
  "('s \<Rightarrow> storage_path \<Rightarrow> 'e option) \<Rightarrow> storage_path set \<Rightarrow> 's \<Rightarrow> 's \<Rightarrow> bool" where
  "touches at X s s' \<longleftrightarrow>
     (\<forall>q. at s' q \<noteq> at s q \<longrightarrow>
        q \<in> X \<or> at s q = None \<and> (\<exists>p \<in> X. strict_prefix (segs q) (segs p)))"

lemma touches_refl [simp]: "touches at X s s"
  by (simp add: touches_def)

lemma touches_same: "at s' = at s \<Longrightarrow> touches at X s s'"
  by (simp add: touches_def)

lemma touches_mono: "touches at X s s' \<Longrightarrow> X \<subseteq> Y \<Longrightarrow> touches at Y s s'"
  unfolding touches_def by blast

text \<open>The contract: the frame of every operation, on valid paths.\<close>

locale storage_frame =
  fixes ops :: "'s storage_ops"
    and at :: "'s \<Rightarrow> storage_path \<Rightarrow> 'e option"
  assumes stat_pure: "op_stat ops p s = (rm, s') \<Longrightarrow> at s' = at s"
    and exists_pure: "op_exists ops p s = (rb, s') \<Longrightarrow> at s' = at s"
    and exists_sound: "op_exists ops p s = (Inr x, s') \<Longrightarrow> x = (at s p \<noteq> None)"
    and list_pure: "op_list ops p s = (rl, s') \<Longrightarrow> at s' = at s"
    and read_pure: "op_read ops p s = (ry, s') \<Longrightarrow> at s' = at s"
    and put_touches:
      "path_ok p \<Longrightarrow> op_put_file ops p b s = (rm, s') \<Longrightarrow> touches at {p} s s'"
    and mkdir_touches: "path_ok p \<Longrightarrow> op_mkdir ops p s = (rm, s') \<Longrightarrow> touches at {p} s s'"
    and delete_touches: "path_ok p \<Longrightarrow> op_delete ops p s = (ru, s') \<Longrightarrow> touches at {p} s s'"
    and rename_touches:
      "path_ok p \<Longrightarrow> path_ok q \<Longrightarrow> op_rename ops p q s = (ru, s') \<Longrightarrow> touches at {p, q} s s'"
    and copy_touches:
      "path_ok p \<Longrightarrow> path_ok q \<Longrightarrow> op_copy ops p q s = (ru, s') \<Longrightarrow> touches at {q} s s'"
    and begin_pure: "op_begin_multipart ops p s = (rh, s') \<Longrightarrow> at s' = at s"
    and begin_target: "op_begin_multipart ops p s = (Inr h, s') \<Longrightarrow> mh_target h = p"
    and put_part_pure: "op_put_part ops h n b s = (rt, s') \<Longrightarrow> at s' = at s"
    and commit_touches:
      "path_ok (mh_target h) \<Longrightarrow> op_commit_multipart ops h ts s = (rm, s') \<Longrightarrow>
       touches at {mh_target h} s s'"
    and abort_pure: "op_abort_multipart ops h s = (ru, s') \<Longrightarrow> at s' = at s"
begin

lemmas pure = stat_pure exists_pure list_pure read_pure begin_pure put_part_pure abort_pure

lemmas frame = put_touches mkdir_touches delete_touches rename_touches copy_touches commit_touches

end

end
