(* ===== verification/MemStorage.thy ===== *)
theory MemStorage
  imports Storage_Trait
begin

text \<open>
  The in-memory storage backend (crabcloud-storage, src/memory/mod.rs): a tree of
  entries keyed by path, open multipart uploads, and one operation per method of the
  \<open>Storage\<close> trait. The state also carries the world the operation draws from and the
  events the sink has received. An operation that fails keeps the changes it made
  before the failure, as the code does. A request body is its bytes or the I/O error
  that reading it raises.
\<close>

datatype mem_entry =
    MemFile (mf_bytes: bytes) (me_etag: etag) (me_mtime: nat) (mf_mimetype: mimetype)
  | MemDirectory (me_etag: etag) (me_mtime: nat)

definition is_file :: "mem_entry \<Rightarrow> bool" where
  "is_file e = (case e of MemFile _ _ _ _ \<Rightarrow> True | MemDirectory _ _ \<Rightarrow> False)"

definition is_dir :: "mem_entry \<Rightarrow> bool" where
  "is_dir e = (case e of MemFile _ _ _ _ \<Rightarrow> False | MemDirectory _ _ \<Rightarrow> True)"

fun to_metadata :: "mem_entry \<Rightarrow> storage_path \<Rightarrow> file_metadata" where
  "to_metadata (MemFile bytes et mt mime) p =
     \<lparr>md_path = p, md_kind = KFile, md_size = length bytes, md_mtime = mt, md_etag = et,
      md_mimetype = mime, md_permissions = permissions_full\<rparr>"
| "to_metadata (MemDirectory et mt) p =
     \<lparr>md_path = p, md_kind = KDirectory, md_size = 0, md_mtime = mt, md_etag = et,
      md_mimetype = octet_stream, md_permissions = permissions_full\<rparr>"

record mem_storage =
  ms_id :: string
  ms_entries :: "(storage_path, mem_entry) btree"
  ms_uploads :: "(string, (u32, bytes) btree) btree"
  ms_world :: world
  ms_events :: "storage_event list"

type_synonym 'a mem_op = "(mem_storage, storage_error, 'a) eff"

definition mem_new :: "string \<Rightarrow> world \<Rightarrow> mem_storage" where
  "mem_new i w = \<lparr>ms_id = ''memory::'' @ i, ms_entries = [], ms_uploads = [], ms_world = w,
                  ms_events = []\<rparr>"

abbreviation entry_at :: "mem_storage \<Rightarrow> storage_path \<Rightarrow> mem_entry option" where
  "entry_at st p \<equiv> bt_get (ms_entries st) p"

definition mem_emit :: "storage_event \<Rightarrow> mem_storage \<Rightarrow> mem_storage" where
  "mem_emit ev st = st\<lparr>ms_events := ms_events st @ [ev]\<rparr>"

text \<open>\<open>etag: ETag::new(), mtime: SystemTime::now()\<close>, in field order.\<close>

definition fresh_stamp :: "mem_storage \<Rightarrow> (etag \<times> nat) \<times> mem_storage" where
  "fresh_stamp st =
     (let (et, w1) = etag_new (ms_world st); (t, w2) = now w1
      in ((et, t), st\<lparr>ms_world := w2\<rparr>))"

definition mem_insert :: "storage_path \<Rightarrow> mem_entry \<Rightarrow> mem_storage \<Rightarrow> mem_storage" where
  "mem_insert p e st = st\<lparr>ms_entries := bt_insert p e (ms_entries st)\<rparr>"

definition mem_remove :: "storage_path \<Rightarrow> mem_storage \<Rightarrow> mem_storage" where
  "mem_remove p st = st\<lparr>ms_entries := bt_remove p (ms_entries st)\<rparr>"

section \<open>Implicit parent directories\<close>

fun ensure_loop :: "string \<Rightarrow> string list \<Rightarrow> unit mem_op" where
  "ensure_loop cur [] st = (Inr (), st)"
| "ensure_loop cur (seg # rest) st =
     (let cur' = (if cur \<noteq> [] then cur @ ''/'' else cur) @ seg
      in case storage_path_new cur' of
           Inl e \<Rightarrow> (Inl e, st)
         | Inr p \<Rightarrow>
             (case entry_at st p of
                Some (MemFile _ _ _ _) \<Rightarrow> (Inl StNotADirectory, st)
              | Some (MemDirectory _ _) \<Rightarrow> ensure_loop cur' rest st
              | None \<Rightarrow>
                  (let ((et, t), st') = fresh_stamp st
                   in ensure_loop cur' rest (mem_insert p (MemDirectory et t) st'))))"

definition ensure_parents :: "storage_path \<Rightarrow> unit mem_op" where
  "ensure_parents path st =
     (let sg = split_on (CHR ''/'') (as_str path)
      in if length sg \<le> 1 then (Inr (), st) else ensure_loop [] (butlast sg) st)"

section \<open>Reads\<close>

definition mem_stat :: "storage_path \<Rightarrow> file_metadata mem_op" where
  "mem_stat p st = (ok_or StNotFound (map_option (\<lambda>e. to_metadata e p) (entry_at st p)), st)"

definition mem_exists :: "storage_path \<Rightarrow> bool mem_op" where
  "mem_exists p st = (Inr (entry_at st p \<noteq> None), st)"

fun list_children :: "string \<Rightarrow> (storage_path, mem_entry) btree \<Rightarrow> dir_entry list" where
  "list_children pre [] = []"
| "list_children pre ((k, v) # m) =
     (let s = as_str k
      in if \<not> starts_with s pre then list_children pre m
         else (let rest = drop (length pre) s
               in if rest = [] \<or> CHR ''/'' \<in> set rest then list_children pre m
                  else \<lparr>de_name = rest, de_metadata = to_metadata v k\<rparr> # list_children pre m))"

definition mem_list :: "storage_path \<Rightarrow> dir_entry list mem_op" where
  "mem_list path st =
     (let guard =
        (if \<not> is_root path
         then (case entry_at st path of
                 Some (MemDirectory _ _) \<Rightarrow> Inr ()
               | Some (MemFile _ _ _ _) \<Rightarrow> Inl StNotADirectory
               | None \<Rightarrow> Inl StNotFound)
         else Inr ());
        pre = (if is_root path then [] else as_str path @ ''/'')
      in (rbind guard (\<lambda>_. Inr (sort_key de_name (list_children pre (ms_entries st)))), st))"

definition mem_read :: "storage_path \<Rightarrow> bytes mem_op" where
  "mem_read p st =
     (case entry_at st p of
        Some (MemFile b _ _ _) \<Rightarrow> (Inr b, st)
      | Some (MemDirectory _ _) \<Rightarrow> (Inl StIsADirectory, st)
      | None \<Rightarrow> (Inl StNotFound, st))"

text \<open>
  \<open>Bytes::slice(start..end)\<close> panics when \<open>start > end\<close> after the end is clamped to the
  length; a panic is \<open>None\<close>.
\<close>

definition mem_read_range ::
  "storage_path \<Rightarrow> u64 \<Rightarrow> u64 \<Rightarrow> mem_storage \<Rightarrow> (storage_error + bytes) option" where
  "mem_read_range p start0 end0 st =
     (case entry_at st p of
        Some (MemFile b _ _ _) \<Rightarrow>
          (let start = unat start0; stop = min (unat end0) (length b)
           in if start \<le> stop then Some (Inr (take (stop - start) (drop start b))) else None)
      | Some (MemDirectory _ _) \<Rightarrow> Some (Inl StIsADirectory)
      | None \<Rightarrow> Some (Inl StNotFound))"

section \<open>Writes\<close>

definition sniff_mimetype :: "string \<Rightarrow> mimetype" where
  "sniff_mimetype path =
     (case rfind (CHR ''.'') path of
        Some idx \<Rightarrow> if ascii_lower (drop (idx + 1) path) = ''txt'' then Mimetype ''text/plain''
                    else octet_stream
      | None \<Rightarrow> octet_stream)"

definition mem_put_file :: "storage_path \<Rightarrow> body \<Rightarrow> file_metadata mem_op" where
  "mem_put_file path body st =
     (case body of
        Inl io \<Rightarrow> (Inl (StIo io), st)
      | Inr buf \<Rightarrow>
          (let mime = sniff_mimetype (as_str path)
           in case entry_at st path of
                Some (MemDirectory _ _) \<Rightarrow> (Inl StIsADirectory, st)
              | _ \<Rightarrow>
                  (case ensure_parents path st of
                     (Inl e, st1) \<Rightarrow> (Inl e, st1)
                   | (Inr _, st1) \<Rightarrow>
                       (let ((et, t), st2) = fresh_stamp st1;
                            entry = MemFile buf et t mime;
                            md = to_metadata entry path
                        in (Inr md,
                            mem_emit (Written (ms_id st2) path md) (mem_insert path entry st2))))))"

definition mem_mkdir :: "storage_path \<Rightarrow> file_metadata mem_op" where
  "mem_mkdir path st =
     (if entry_at st path \<noteq> None then (Inl StAlreadyExists, st)
      else case ensure_parents path st of
             (Inl e, st1) \<Rightarrow> (Inl e, st1)
           | (Inr _, st1) \<Rightarrow>
               (let ((et, t), st2) = fresh_stamp st1;
                    entry = MemDirectory et t;
                    md = to_metadata entry path
                in (Inr md,
                    mem_emit (DirCreated (ms_id st2) path md) (mem_insert path entry st2))))"

definition has_children :: "storage_path \<Rightarrow> mem_storage \<Rightarrow> bool" where
  "has_children path st \<longleftrightarrow>
     list_ex (\<lambda>(k, _). starts_with (as_str k) (as_str path @ ''/'')) (ms_entries st)"

definition mem_delete :: "storage_path \<Rightarrow> unit mem_op" where
  "mem_delete path st =
     (case entry_at st path of
        None \<Rightarrow> (Inl StNotFound, st)
      | Some entry \<Rightarrow>
          if is_dir entry \<and> has_children path st then (Inl StNotEmpty, st)
          else (Inr (), mem_emit (Deleted (ms_id st) path) (mem_remove path st)))"

definition mem_rename :: "storage_path \<Rightarrow> storage_path \<Rightarrow> unit mem_op" where
  "mem_rename src dst st =
     (case entry_at st src of
        None \<Rightarrow> (Inl StNotFound, st)
      | Some entry \<Rightarrow>
          (let st1 = mem_remove src st
           in if entry_at st1 dst \<noteq> None then (Inl StAlreadyExists, mem_insert src entry st1)
              else case ensure_parents dst st1 of
                     (Inl e, st2) \<Rightarrow> (Inl e, st2)
                   | (Inr _, st2) \<Rightarrow>
                       (Inr (), mem_emit (Moved (ms_id st2) src dst) (mem_insert dst entry st2))))"

definition mem_copy :: "storage_path \<Rightarrow> storage_path \<Rightarrow> unit mem_op" where
  "mem_copy src dst st =
     (case entry_at st src of
        None \<Rightarrow> (Inl StNotFound, st)
      | Some entry \<Rightarrow>
          if entry_at st dst \<noteq> None then (Inl StAlreadyExists, st)
          else case ensure_parents dst st of
                 (Inl e, st1) \<Rightarrow> (Inl e, st1)
               | (Inr _, st1) \<Rightarrow>
                   (let ((et, t), st2) = fresh_stamp st1;
                        new_entry = (case entry of
                            MemFile b _ _ mime \<Rightarrow> MemFile b et t mime
                          | MemDirectory _ _ \<Rightarrow> MemDirectory et t)
                    in (Inr (), mem_emit (Copied (ms_id st2) src dst) (mem_insert dst new_entry st2))))"

section \<open>Multipart uploads\<close>

definition mem_begin_multipart :: "storage_path \<Rightarrow> multipart_handle mem_op" where
  "mem_begin_multipart target st =
     (let (b, w) = draw_bytes 16 (ms_world st);
          upload_id = ''mem-mp-'' @ w_hex w b
      in (Inr \<lparr>mh_upload_id = upload_id, mh_target = target\<rparr>,
          st\<lparr>ms_world := w, ms_uploads := bt_insert upload_id [] (ms_uploads st)\<rparr>))"

definition mem_put_part :: "multipart_handle \<Rightarrow> u32 \<Rightarrow> body \<Rightarrow> part_tag mem_op" where
  "mem_put_part h n body st =
     (case body of
        Inl io \<Rightarrow> (Inl (StIo io), st)
      | Inr b \<Rightarrow>
          (let etag = w_hex (ms_world st) (w_part_hash (ms_world st) b n)
           in case bt_get (ms_uploads st) (mh_upload_id h) of
                None \<Rightarrow> (Inl (StMultipart ''unknown upload id''), st)
              | Some parts \<Rightarrow>
                  (Inr \<lparr>pt_number = n, pt_etag = etag\<rparr>,
                   st\<lparr>ms_uploads := bt_insert (mh_upload_id h) (bt_insert n b parts) (ms_uploads st)\<rparr>)))"

text \<open>The two validation loops over the sorted part numbers.\<close>

fun check_contiguous :: "nat \<Rightarrow> u32 list \<Rightarrow> string option" where
  "check_contiguous i [] = None"
| "check_contiguous i (n # ns) =
     (if unat n \<noteq> i + 1
      then Some (''expected contiguous parts starting at 1; got '' @ show_nat (unat n)
                  @ '' at index '' @ show_nat i)
      else check_contiguous (i + 1) ns)"

fun check_duplicates :: "u32 \<Rightarrow> u32 list \<Rightarrow> string option" where
  "check_duplicates prev [] = None"
| "check_duplicates prev (n # ns) =
     (if n = prev then Some (''duplicate part '' @ show_nat (unat n)) else check_duplicates n ns)"

fun assemble_parts :: "(u32, bytes) btree \<Rightarrow> part_tag list \<Rightarrow> storage_error + bytes" where
  "assemble_parts m [] = Inr []"
| "assemble_parts m (tag # tags) =
     (case bt_get m (pt_number tag) of
        None \<Rightarrow> Inl (StMultipart (''missing part '' @ show_nat (unat (pt_number tag))))
      | Some b \<Rightarrow> rbind (assemble_parts m tags) (\<lambda>buf. Inr (b @ buf)))"

definition mem_commit_multipart :: "multipart_handle \<Rightarrow> part_tag list \<Rightarrow> file_metadata mem_op" where
  "mem_commit_multipart h parts st =
     (if parts = [] then (Inl (StMultipart ''no parts''), st)
      else
        (let nums = sort (map pt_number parts)
         in case check_contiguous 0 nums of
              Some m \<Rightarrow> (Inl (StMultipart m), st)
            | None \<Rightarrow>
            (case check_duplicates 0 nums of
              Some m \<Rightarrow> (Inl (StMultipart m), st)
            | None \<Rightarrow>
            (case bt_get (ms_uploads st) (mh_upload_id h) of
              None \<Rightarrow> (Inl (StMultipart ''unknown upload id''), st)
            | Some upload \<Rightarrow>
                (let st1 = st\<lparr>ms_uploads := bt_remove (mh_upload_id h) (ms_uploads st)\<rparr>
                 in case assemble_parts upload parts of
                      Inl e \<Rightarrow> (Inl e, st1)
                    | Inr buf \<Rightarrow>
                        (let target = mh_target h; mime = sniff_mimetype (as_str target)
                         in case ensure_parents target st1 of
                              (Inl e, st2) \<Rightarrow> (Inl e, st2)
                            | (Inr _, st2) \<Rightarrow>
                                (let ((et, t), st3) = fresh_stamp st2;
                                     entry = MemFile buf et t mime;
                                     md = to_metadata entry target
                                 in (Inr md, mem_emit (Written (ms_id st3) target md)
                                               (mem_insert target entry st3)))))))))"

definition mem_abort_multipart :: "multipart_handle \<Rightarrow> unit mem_op" where
  "mem_abort_multipart h st =
     (Inr (), st\<lparr>ms_uploads := bt_remove (mh_upload_id h) (ms_uploads st)\<rparr>)"

definition mem_ops :: "mem_storage storage_ops" where
  "mem_ops = \<lparr>op_id = ms_id, op_stat = mem_stat, op_exists = mem_exists, op_list = mem_list,
     op_read = mem_read, op_read_range = mem_read_range, op_put_file = mem_put_file,
     op_mkdir = mem_mkdir, op_delete = mem_delete, op_rename = mem_rename, op_copy = mem_copy,
     op_begin_multipart = mem_begin_multipart, op_put_part = mem_put_part,
     op_commit_multipart = mem_commit_multipart, op_abort_multipart = mem_abort_multipart\<rparr>"

section \<open>The tree invariant\<close>

definition dir_at :: "mem_storage \<Rightarrow> storage_path \<Rightarrow> bool" where
  "dir_at st p \<longleftrightarrow> (\<exists>e. entry_at st p = Some e \<and> is_dir e)"

text \<open>Every proper, non-empty prefix of the segments is a directory.\<close>

definition dirs_along :: "mem_storage \<Rightarrow> string list \<Rightarrow> bool" where
  "dirs_along st ss \<longleftrightarrow> (\<forall>i. 0 < i \<and> i \<le> length ss \<longrightarrow> dir_at st (path_of (take i ss)))"

definition mem_wf :: "mem_storage \<Rightarrow> bool" where
  "mem_wf st \<longleftrightarrow> bt_ok (ms_entries st) \<and>
     (\<forall>p e. entry_at st p = Some e \<longrightarrow> path_ok p \<and> dirs_along st (butlast (segs p)))"

lemma is_dir_simps [simp]:
  "is_dir (MemDirectory et t)" "\<not> is_dir (MemFile b et t m)"
  "is_file (MemFile b et t m)" "\<not> is_file (MemDirectory et t)"
  by (simp_all add: is_dir_def is_file_def)

lemma not_is_dir: "\<not> is_dir e \<longleftrightarrow> is_file e"
  by (cases e) auto

lemma entry_at_insert [simp]:
  "entry_at (mem_insert p e st) q = (if q = p then Some e else entry_at st q)"
  by (simp add: mem_insert_def)

lemma entry_at_remove [simp]:
  "entry_at (mem_remove p st) q = (if q = p then None else entry_at st q)"
  by (simp add: mem_remove_def)

lemma mem_fields [simp]:
  "ms_id (mem_insert p e st) = ms_id st" "ms_id (mem_remove p st) = ms_id st"
  "ms_id (mem_emit ev st) = ms_id st"
  "ms_uploads (mem_insert p e st) = ms_uploads st" "ms_uploads (mem_remove p st) = ms_uploads st"
  "ms_uploads (mem_emit ev st) = ms_uploads st"
  "ms_events (mem_insert p e st) = ms_events st" "ms_events (mem_remove p st) = ms_events st"
  "ms_events (mem_emit ev st) = ms_events st @ [ev]"
  "ms_entries (mem_emit ev st) = ms_entries st"
  by (simp_all add: mem_insert_def mem_remove_def mem_emit_def)

lemma fresh_stamp_fields:
  assumes "fresh_stamp st = (x, st')"
  shows "ms_entries st' = ms_entries st" "ms_id st' = ms_id st" "ms_uploads st' = ms_uploads st"
    "ms_events st' = ms_events st"
  using assms by (auto simp: fresh_stamp_def Let_def split: prod.splits)

lemma dir_at_emit [simp]: "dir_at (mem_emit ev st) p = dir_at st p"
  by (simp add: dir_at_def)

lemma dirs_along_emit [simp]: "dirs_along (mem_emit ev st) ss = dirs_along st ss"
  by (simp add: dirs_along_def)

lemma mem_wf_emit [simp]: "mem_wf (mem_emit ev st) = mem_wf st"
  by (simp add: mem_wf_def)

lemma mem_wf_cong: "ms_entries st' = ms_entries st \<Longrightarrow> mem_wf st' = mem_wf st"
  by (simp add: mem_wf_def dirs_along_def dir_at_def)

lemma dir_at_cong: "ms_entries st' = ms_entries st \<Longrightarrow> dir_at st' p = dir_at st p"
  by (simp add: dir_at_def)

lemma dirs_along_cong: "ms_entries st' = ms_entries st \<Longrightarrow> dirs_along st' ss = dirs_along st ss"
  by (simp add: dirs_along_def dir_at_def)

lemma dirs_along_mono:
  "(\<And>p. dir_at st p \<Longrightarrow> dir_at st' p) \<Longrightarrow> dirs_along st ss \<Longrightarrow> dirs_along st' ss"
  by (simp add: dirs_along_def)

lemma dirs_along_Nil [simp]: "dirs_along st []"
  by (simp add: dirs_along_def)

lemma dirs_along_snoc:
  "dirs_along st (ss @ [s]) \<longleftrightarrow> dirs_along st ss \<and> dir_at st (path_of (ss @ [s]))"
proof
  assume l: "dirs_along st (ss @ [s])"
  have "dir_at st (path_of (take (Suc (length ss)) (ss @ [s])))"
    using l unfolding dirs_along_def by (metis length_append_singleton order_refl zero_less_Suc)
  moreover have "dirs_along st ss"
    unfolding dirs_along_def
  proof (intro allI impI)
    fix i assume "0 < i \<and> i \<le> length ss"
    then show "dir_at st (path_of (take i ss))"
      using l unfolding dirs_along_def by (metis append_Nil2 diff_is_0_eq le_Suc_eq
          length_append_singleton take_append take_eq_Nil)
  qed
  ultimately show "dirs_along st ss \<and> dir_at st (path_of (ss @ [s]))" by simp
next
  assume "dirs_along st ss \<and> dir_at st (path_of (ss @ [s]))"
  then show "dirs_along st (ss @ [s])"
    by (auto simp: dirs_along_def le_Suc_eq)
qed

lemma mem_wf_insert [inv_intros]:
  assumes wf: "mem_wf st" and p: "path_ok p" "dirs_along st (butlast (segs p))"
    and keep: "is_dir e \<or> \<not> dir_at st p"
  shows "mem_wf (mem_insert p e st)"
proof -
  have dir: "dir_at (mem_insert p e st) q" if "dir_at st q" for q
    using that keep by (auto simp: dir_at_def)
  then have along: "dirs_along st ss \<Longrightarrow> dirs_along (mem_insert p e st) ss" for ss
    by (rule dirs_along_mono)
  show ?thesis
    using wf p along
    by (auto simp: mem_wf_def mem_insert_def bt_ok_insert split: if_splits)
qed

section \<open>Paths below a path\<close>

lemma under_iff:
  assumes "path_ok p" and "path_ok k" and "\<not> is_root p"
  shows "prefix (as_str p @ ''/'') (as_str k) \<longleftrightarrow> strict_prefix (segs p) (segs k)"
proof
  assume "prefix (as_str p @ ''/'') (as_str k)"
  then obtain r where k: "as_str k = as_str p @ CHR ''/'' # r" by (auto simp: prefix_def)
  then have "segs k = segs p @ split_on (CHR ''/'') r"
    using assms(3) by (simp add: segs_def is_root_def split_on_append)
  then show "strict_prefix (segs p) (segs k)"
    by (metis append_self_conv prefixI split_on_ne strict_prefixI)
next
  assume "strict_prefix (segs p) (segs k)"
  then obtain z zs where k: "segs k = segs p @ z # zs" by (auto elim: strict_prefixE')
  have "segs p \<noteq> []" using assms(3) by (simp add: segs_Nil_iff is_root_def)
  then have "join_with (CHR ''/'') (segs k) =
      join_with (CHR ''/'') (segs p) @ CHR ''/'' # join_with (CHR ''/'') (z # zs)"
    unfolding k by (intro join_with_append) simp_all
  then show "prefix (as_str p @ ''/'') (as_str k)"
    by (metis append.assoc append_Cons append_Nil as_str_path_of path_of_segs prefixI)
qed

lemma mem_wf_ancestor_dir:
  assumes wf: "mem_wf st" and k: "entry_at st k = Some e"
    and pre: "strict_prefix (segs p) (segs k)" and p: "segs p \<noteq> []"
  shows "dir_at st p"
proof -
  obtain z zs where segs_k: "segs k = segs p @ z # zs" using pre by (auto elim: strict_prefixE')
  then have "take (length (segs p)) (butlast (segs k)) = segs p"
    by (simp add: butlast_append)
  moreover have "length (segs p) \<le> length (butlast (segs k))" using segs_k by simp
  ultimately show ?thesis
    using wf k p unfolding mem_wf_def dirs_along_def by (metis length_greater_0_conv path_of_segs)
qed

lemma has_children_iff:
  assumes "mem_wf st" and "path_ok p" and "\<not> is_root p"
  shows "has_children p st \<longleftrightarrow> (\<exists>k. entry_at st k \<noteq> None \<and> strict_prefix (segs p) (segs k))"
proof -
  have ok: "bt_ok (ms_entries st)" and path: "\<And>k e. entry_at st k = Some e \<Longrightarrow> path_ok k"
    using assms(1) by (auto simp: mem_wf_def)
  show ?thesis
    using path under_iff [OF assms(2) _ assms(3)] bt_get_iff [OF ok]
    by (fastforce simp: has_children_def list_ex_iff)
qed

lemma mem_wf_remove:
  assumes wf: "mem_wf st"
    and leaf: "is_root p \<or> (\<forall>k. entry_at st k \<noteq> None \<longrightarrow> \<not> strict_prefix (segs p) (segs k))"
  shows "mem_wf (mem_remove p st)"
proof -
  have "dirs_along (mem_remove p st) (butlast (segs k))" if k: "entry_at st k = Some e" for k e
    unfolding dirs_along_def
  proof (intro allI impI)
    fix i assume i: "0 < i \<and> i \<le> length (butlast (segs k))"
    let ?q = "path_of (take i (butlast (segs k)))"
    have dir: "dir_at st ?q" using wf k i by (auto simp: mem_wf_def dirs_along_def)
    have q: "segs ?q = take i (segs k)" and lt: "i < length (segs k)"
    proof -
      show lt: "i < length (segs k)" using i unfolding length_butlast by linarith
      have "path_ok k" using wf k by (auto simp: mem_wf_def)
      then have "\<forall>s \<in> set (take i (segs k)). good_segment s"
        by (auto simp: path_ok_def dest: in_set_takeD)
      then show "segs ?q = take i (segs k)"
        using lt by (simp add: segs_path_of take_butlast)
    qed
    have "strict_prefix (segs ?q) (segs k)"
      using lt unfolding q strict_prefix_def
      by (metis less_le_not_le length_take min.strict_order_iff take_is_prefix)
    moreover have "segs ?q \<noteq> []" using i q lt by auto
    ultimately have "?q \<noteq> p" using leaf k by (auto simp: is_root_def segs_Nil_iff)
    then show "dir_at (mem_remove p st) ?q" using dir by (simp add: dir_at_def)
  qed
  then show ?thesis
    using wf by (auto simp: mem_wf_def mem_remove_def bt_ok_remove split: if_splits)
qed

section \<open>What the implicit parent creation does\<close>

text \<open>
  \<open>grown ss st st'\<close>: the only change from \<open>st\<close> to \<open>st'\<close> is that missing prefixes of
  \<open>ss\<close> have become directories.
\<close>

definition grown :: "string list \<Rightarrow> mem_storage \<Rightarrow> mem_storage \<Rightarrow> bool" where
  "grown ss st st' \<longleftrightarrow> ms_id st' = ms_id st \<and> ms_uploads st' = ms_uploads st
     \<and> ms_events st' = ms_events st
     \<and> (\<forall>p. entry_at st' p = entry_at st p \<or>
            entry_at st p = None \<and> dir_at st' p
              \<and> (\<exists>i. 0 < i \<and> i \<le> length ss \<and> p = path_of (take i ss)))"

lemma grown_refl [simp]: "grown ss st st"
  by (simp add: grown_def)

lemma grown_keeps: "grown ss st st' \<Longrightarrow> entry_at st p = Some e \<Longrightarrow> entry_at st' p = Some e"
  unfolding grown_def by (metis option.distinct(1))

lemma grown_trans:
  assumes "grown ss st st1" and "grown ss st1 st2"
  shows "grown ss st st2"
proof -
  have "entry_at st2 p = entry_at st p \<or> entry_at st p = None \<and> dir_at st2 p
      \<and> (\<exists>i. 0 < i \<and> i \<le> length ss \<and> p = path_of (take i ss))" for p
  proof (cases "entry_at st1 p = entry_at st p")
    case True
    then show ?thesis using assms(2) unfolding grown_def by metis
  next
    case False
    then have "entry_at st p = None" "dir_at st1 p"
      "\<exists>i. 0 < i \<and> i \<le> length ss \<and> p = path_of (take i ss)"
      using assms(1) unfolding grown_def by blast+
    moreover have "dir_at st2 p"
      using \<open>dir_at st1 p\<close> grown_keeps [OF assms(2)] by (auto simp: dir_at_def)
    ultimately show ?thesis by blast
  qed
  then show ?thesis using assms by (simp add: grown_def)
qed

lemma path_ok_take:
  assumes "path_ok (path_of (ss @ ts))" and "\<forall>s \<in> set (ss @ ts). good_segment s"
  shows "path_ok (path_of ss)"
proof -
  have "length (join_with c ss) \<le> length (join_with c (ss @ ts))" for c
    by (cases "ss = []"; cases "ts = []") (simp_all add: join_with_append)
  with assms(1) have "length (join_with (CHR ''/'') ss) \<le> MAX_PATH_LEN"
    unfolding path_ok_def as_str_path_of using le_trans by blast
  then show ?thesis using assms(2) by (simp add: path_ok_def segs_path_of)
qed

lemma ensure_loop_spec:
  assumes "ensure_loop (join_with (CHR ''/'') ds) rest st = (r, st')"
    and "path_ok (path_of (ds @ rest))" and "\<forall>s \<in> set (ds @ rest). good_segment s"
  shows "grown (ds @ rest) st st'
    \<and> (r = Inr () \<and> dirs_along st ds \<longrightarrow> dirs_along st' (ds @ rest))
    \<and> (mem_wf st \<and> dirs_along st ds \<longrightarrow> mem_wf st')
    \<and> (\<forall>e. r = Inl e \<longrightarrow> e = StNotADirectory \<and>
          (\<exists>i f. 0 < i \<and> i \<le> length (ds @ rest)
             \<and> entry_at st (path_of (take i (ds @ rest))) = Some f \<and> is_file f))"
  using assms
proof (induction rest arbitrary: ds st)
  case (Cons seg rest)
  let ?p = "path_of (ds @ [seg])"
  have good: "\<forall>s \<in> set (ds @ [seg]). good_segment s" using Cons.prems(3) by auto
  have p_ok: "path_ok ?p"
    using path_ok_take [of "ds @ [seg]" rest] Cons.prems(2,3) by simp
  have p_segs: "segs ?p = ds @ [seg]" using good by (rule segs_path_of)
  have cur: "(if join_with (CHR ''/'') ds \<noteq> [] then join_with (CHR ''/'') ds @ ''/''
      else join_with (CHR ''/'') ds) @ seg = join_with (CHR ''/'') (ds @ [seg])"
  proof (cases "ds = []")
    case False
    moreover have "ds \<noteq> [[]]"
      using good good_segment_Nil by (metis in_set_conv_decomp append_Cons append_Nil)
    ultimately show ?thesis by (simp add: join_with_eq_Nil join_with_snoc)
  qed simp
  have new: "storage_path_new (join_with (CHR ''/'') (ds @ [seg])) = Inr ?p"
    using storage_path_new_ok [OF p_ok] by simp
  have take_p: "path_of (take (Suc (length ds)) (ds @ seg # rest)) = ?p" by simp
  note step = Cons.prems(1) [unfolded ensure_loop.simps cur Let_def new sum.case]
  have IH: "grown (ds @ seg # rest) s1 st'
    \<and> (r = Inr () \<and> dirs_along s1 (ds @ [seg]) \<longrightarrow> dirs_along st' (ds @ seg # rest))
    \<and> (mem_wf s1 \<and> dirs_along s1 (ds @ [seg]) \<longrightarrow> mem_wf st')
    \<and> (\<forall>e. r = Inl e \<longrightarrow> e = StNotADirectory \<and>
          (\<exists>i f. 0 < i \<and> i \<le> length (ds @ seg # rest)
             \<and> entry_at s1 (path_of (take i (ds @ seg # rest))) = Some f \<and> is_file f))"
    if "ensure_loop (join_with (CHR ''/'') (ds @ [seg])) rest s1 = (r, st')" for s1
    using Cons.IH [of "ds @ [seg]" s1] that Cons.prems(2,3) by simp
  show ?case
  proof (cases "entry_at st ?p")
    case None
    obtain et t s0 where fs: "fresh_stamp st = ((et, t), s0)" by (metis prod.collapse)
    let ?s1 = "mem_insert ?p (MemDirectory et t) s0"
    note f = fresh_stamp_fields [OF fs]
    have run: "ensure_loop (join_with (CHR ''/'') (ds @ [seg])) rest ?s1 = (r, st')"
      using step None fs by simp
    have mono: "dir_at s0 q \<Longrightarrow> dir_at ?s1 q" for q by (auto simp: dir_at_def)
    have along1: "dirs_along ?s1 (ds @ [seg])" if "dirs_along st ds"
      using dirs_along_mono [OF mono] that
      by (simp add: dirs_along_snoc dir_at_def dirs_along_cong [OF f(1)])
    have wf1: "mem_wf ?s1" if "mem_wf st" "dirs_along st ds"
      using that p_ok by (intro mem_wf_insert)
        (simp_all add: p_segs mem_wf_cong [OF f(1)] dirs_along_cong [OF f(1)])
    have "grown (ds @ seg # rest) st ?s1"
      unfolding grown_def using f None take_p
      by (auto simp: dir_at_def intro!: exI [of _ "Suc (length ds)"])
    moreover have "entry_at ?s1 q = Some g \<and> is_file g \<Longrightarrow> entry_at st q = Some g" for q g
      using f by (auto split: if_splits)
    ultimately show ?thesis
      using IH [OF run] wf1 along1 grown_trans by blast
  next
    case (Some e)
    show ?thesis
    proof (cases e)
      case (MemFile b et t m)
      then have "r = Inl StNotADirectory" "st' = st" using step Some by auto
      moreover have "is_file e" using MemFile by simp
      ultimately show ?thesis
        using Some take_p by (auto intro!: exI [of _ "Suc (length ds)"])
    next
      case (MemDirectory et t)
      then have run: "ensure_loop (join_with (CHR ''/'') (ds @ [seg])) rest st = (r, st')"
        using step Some by simp
      have "dirs_along st ds \<Longrightarrow> dirs_along st (ds @ [seg])"
        using Some MemDirectory by (simp add: dirs_along_snoc dir_at_def)
      with IH [OF run] show ?thesis by blast
    qed
  qed
qed auto

lemma ensure_parents_eq:
  "ensure_parents p st =
     (if length (segs p) \<le> 1 then (Inr (), st) else ensure_loop [] (butlast (segs p)) st)"
  by (auto simp: ensure_parents_def segs_def Let_def)

lemma ensure_parents_spec:
  assumes run: "ensure_parents p st = (r, st')" and p: "path_ok p"
  shows ensure_parents_grown: "grown (butlast (segs p)) st st'"
    and ensure_parents_wf: "mem_wf st \<Longrightarrow> mem_wf st'"
    and ensure_parents_dirs: "r = Inr u \<Longrightarrow> dirs_along st' (butlast (segs p))"
    and ensure_parents_error: "r = Inl e \<Longrightarrow> e = StNotADirectory \<and>
          (\<exists>i f. 0 < i \<and> i < length (segs p)
             \<and> entry_at st (path_of (take i (segs p))) = Some f \<and> is_file f)"
proof -
  have good: "\<forall>s \<in> set ([] @ butlast (segs p)). good_segment s"
    using p by (auto simp: path_ok_def dest: in_set_butlastD)
  have "grown (butlast (segs p)) st st' \<and> (mem_wf st \<longrightarrow> mem_wf st')
    \<and> (r = Inr () \<longrightarrow> dirs_along st' (butlast (segs p)))
    \<and> (\<forall>e. r = Inl e \<longrightarrow> e = StNotADirectory \<and>
          (\<exists>i f. 0 < i \<and> i < length (segs p)
             \<and> entry_at st (path_of (take i (segs p))) = Some f \<and> is_file f))"
  proof (cases "length (segs p) \<le> 1")
    case True
    then have "butlast (segs p) = []" by (cases "segs p") auto
    with True run show ?thesis by (auto simp: ensure_parents_eq)
  next
    case False
    then have split: "segs p = butlast (segs p) @ [last (segs p)]" by (cases "segs p") auto
    have "path_ok (path_of (butlast (segs p) @ [last (segs p)]))"
      using p split by (metis path_of_segs)
    moreover have "\<forall>s \<in> set (butlast (segs p) @ [last (segs p)]). good_segment s"
      using p split by (metis path_ok_def)
    ultimately have ok: "path_ok (path_of ([] @ butlast (segs p)))"
      using path_ok_take by simp
    have loop: "ensure_loop (join_with (CHR ''/'') []) (butlast (segs p)) st = (r, st')"
      using run False by (simp add: ensure_parents_eq)
    have take: "i \<le> length (butlast (segs p)) \<Longrightarrow> take i (butlast (segs p)) = take i (segs p)" for i
      using split by (metis take_append diff_is_0_eq' append_Nil2 take_0)
    have len: "i \<le> length (butlast (segs p)) \<longleftrightarrow> i < length (segs p)" for i
      using False unfolding length_butlast by linarith
    from ensure_loop_spec [OF loop ok good] show ?thesis
      using take len by (simp del: length_butlast) metis
  qed
  then show "grown (butlast (segs p)) st st'" "mem_wf st \<Longrightarrow> mem_wf st'"
    "r = Inr u \<Longrightarrow> dirs_along st' (butlast (segs p))"
    "r = Inl e \<Longrightarrow> e = StNotADirectory \<and>
          (\<exists>i f. 0 < i \<and> i < length (segs p)
             \<and> entry_at st (path_of (take i (segs p))) = Some f \<and> is_file f)"
    by simp_all
qed

end
