(* ===== verification/MemStorage_Correct.thy ===== *)
theory MemStorage_Correct
  imports MemStorage
begin

text \<open>
  Correctness of the in-memory backend: it meets the contract of the \<open>Storage\<close> trait
  (the interpretation \<open>mem\<close>), its operations keep the tree invariant except for the two
  that can break it, and the functional behaviour of writes, renames and multipart
  commits.
\<close>

definition mem_at :: "mem_storage \<Rightarrow> storage_path \<Rightarrow> mem_entry option" where
  "mem_at st p = entry_at st p"

section \<open>Frames\<close>

lemma touches_after:
  "touches at X s s1 \<Longrightarrow> (\<And>q. q \<notin> X \<Longrightarrow> at s2 q = at s1 q) \<Longrightarrow> touches at X s s2"
  unfolding touches_def by metis

lemma touches_before:
  "(\<And>q. q \<notin> X \<Longrightarrow> at s1 q = at s q) \<Longrightarrow> touches at X s1 s2 \<Longrightarrow> touches at X s s2"
  unfolding touches_def by metis

lemma grown_touches:
  assumes g: "grown (butlast (segs p)) st st'" and p: "path_ok p" and X: "p \<in> X"
  shows "touches mem_at X st st'"
  unfolding touches_def mem_at_def
proof (intro allI impI)
  fix q assume "entry_at st' q \<noteq> entry_at st q"
  then obtain i where q: "entry_at st q = None" "0 < i" "i \<le> length (butlast (segs p))"
    "q = path_of (take i (butlast (segs p)))"
    using g unfolding grown_def by blast
  have lt: "i < length (segs p)" using q(2,3) unfolding length_butlast by linarith
  then have take: "take i (butlast (segs p)) = take i (segs p)" by (simp add: take_butlast)
  have "\<forall>s \<in> set (take i (segs p)). good_segment s"
    using p by (auto simp: path_ok_def dest: in_set_takeD)
  then have "segs q = take i (segs p)" using q(4) take by (simp add: segs_path_of)
  then have "strict_prefix (segs q) (segs p)"
    using lt by (metis length_take less_le_not_le min.strict_order_iff strict_prefix_def take_is_prefix)
  then show "q \<in> X \<or> entry_at st q = None \<and> (\<exists>p \<in> X. strict_prefix (segs q) (segs p))"
    using q(1) X by blast
qed

lemma fresh_stamp_at: "fresh_stamp st = (x, st') \<Longrightarrow> mem_at st' = mem_at st"
  by (rule ext) (simp add: mem_at_def fresh_stamp_fields)

lemma mem_at_insert: "q \<noteq> p \<Longrightarrow> mem_at (mem_insert p e st) q = mem_at st q"
  by (simp add: mem_at_def)

lemma mem_at_remove: "q \<noteq> p \<Longrightarrow> mem_at (mem_remove p st) q = mem_at st q"
  by (simp add: mem_at_def)

lemma mem_at_emit [simp]: "mem_at (mem_emit ev st) = mem_at st"
  by (rule ext) (simp add: mem_at_def)

section \<open>The branches of the write operations\<close>

text \<open>Each write either fails before or inside \<open>ensure_parents\<close>, or runs to its end.\<close>

lemma put_file_ok:
  assumes "mem_put_file p body st = (Inr md, st')"
  obtains b et t st1 st2 where "body = Inr b" and "\<not> dir_at st p"
    and "ensure_parents p st = (Inr (), st1)" and "fresh_stamp st1 = ((et, t), st2)"
    and "md = to_metadata (MemFile b et t (sniff_mimetype (as_str p))) p"
    and "st' = mem_emit (Written (ms_id st2) p md)
                 (mem_insert p (MemFile b et t (sniff_mimetype (as_str p))) st2)"
  using assms
  by (auto simp: mem_put_file_def Let_def dir_at_def split: sum.splits prod.splits option.splits
      mem_entry.splits)

lemma put_file_err:
  assumes "mem_put_file p body st = (Inl e, st')"
  shows "st' = st \<or> ensure_parents p st = (Inl e, st')"
  using assms
  by (auto simp: mem_put_file_def Let_def split: sum.splits prod.splits option.splits
      mem_entry.splits)

lemma mkdir_ok:
  assumes "mem_mkdir p st = (Inr md, st')"
  obtains et t st1 st2 where "entry_at st p = None"
    and "ensure_parents p st = (Inr (), st1)" and "fresh_stamp st1 = ((et, t), st2)"
    and "md = to_metadata (MemDirectory et t) p"
    and "st' = mem_emit (DirCreated (ms_id st2) p md) (mem_insert p (MemDirectory et t) st2)"
  using assms
  by (auto simp: mem_mkdir_def Let_def split: sum.splits prod.splits if_splits)

lemma mkdir_err:
  assumes "mem_mkdir p st = (Inl e, st')"
  shows "st' = st \<or> ensure_parents p st = (Inl e, st')"
  using assms by (auto simp: mem_mkdir_def Let_def split: sum.splits prod.splits if_splits)

lemma delete_ok:
  assumes "mem_delete p st = (Inr u, st')"
  obtains e where "entry_at st p = Some e" and "\<not> (is_dir e \<and> has_children p st)"
    and "st' = mem_emit (Deleted (ms_id st) p) (mem_remove p st)"
  using assms by (auto simp: mem_delete_def split: option.splits if_splits)

lemma delete_err: "mem_delete p st = (Inl e, st') \<Longrightarrow> st' = st"
  by (auto simp: mem_delete_def split: option.splits if_splits)

lemma rename_ok:
  assumes "mem_rename src dst st = (Inr u, st')"
  obtains e st2 where "entry_at st src = Some e" and "entry_at (mem_remove src st) dst = None"
    and "ensure_parents dst (mem_remove src st) = (Inr (), st2)"
    and "st' = mem_emit (Moved (ms_id st2) src dst) (mem_insert dst e st2)"
  using assms
  by (auto simp: mem_rename_def Let_def split: option.splits if_splits prod.splits sum.splits)

lemma rename_err:
  assumes "mem_rename src dst st = (Inl e, st')"
  shows "st' = st \<or> (\<exists>x. entry_at st src = Some x \<and> st' = mem_insert src x (mem_remove src st))
    \<or> (entry_at st src \<noteq> None \<and> ensure_parents dst (mem_remove src st) = (Inl e, st'))"
  using assms
  by (auto simp: mem_rename_def Let_def split: option.splits if_splits prod.splits sum.splits)

definition restamp :: "etag \<Rightarrow> nat \<Rightarrow> mem_entry \<Rightarrow> mem_entry" where
  "restamp et t e = (case e of MemFile b _ _ m \<Rightarrow> MemFile b et t m
                             | MemDirectory _ _ \<Rightarrow> MemDirectory et t)"

lemma copy_ok:
  assumes "mem_copy src dst st = (Inr u, st')"
  obtains e et t st1 st2 where "entry_at st src = Some e" and "entry_at st dst = None"
    and "ensure_parents dst st = (Inr (), st1)" and "fresh_stamp st1 = ((et, t), st2)"
    and "st' = mem_emit (Copied (ms_id st2) src dst) (mem_insert dst (restamp et t e) st2)"
  using assms
  by (auto simp: mem_copy_def restamp_def Let_def split: option.splits if_splits prod.splits
      sum.splits)

lemma copy_err:
  assumes "mem_copy src dst st = (Inl e, st')"
  shows "st' = st \<or> ensure_parents dst st = (Inl e, st')"
  using assms
  by (auto simp: mem_copy_def Let_def split: option.splits if_splits prod.splits sum.splits)

lemma commit_ok:
  assumes "mem_commit_multipart h parts st = (Inr md, st')"
  obtains upload buf et t st1 st2 where
    "parts \<noteq> []" and "check_contiguous 0 (sort (map pt_number parts)) = None"
    and "bt_get (ms_uploads st) (mh_upload_id h) = Some upload"
    and "assemble_parts upload parts = Inr buf"
    and "ensure_parents (mh_target h)
           (st\<lparr>ms_uploads := bt_remove (mh_upload_id h) (ms_uploads st)\<rparr>) = (Inr (), st1)"
    and "fresh_stamp st1 = ((et, t), st2)"
    and "md = to_metadata (MemFile buf et t (sniff_mimetype (as_str (mh_target h)))) (mh_target h)"
    and "st' = mem_emit (Written (ms_id st2) (mh_target h) md)
           (mem_insert (mh_target h) (MemFile buf et t (sniff_mimetype (as_str (mh_target h)))) st2)"
  using assms
  by (auto simp: mem_commit_multipart_def Let_def split: option.splits if_splits prod.splits
      sum.splits)

lemma commit_err:
  assumes "mem_commit_multipart h parts st = (Inl e, st')"
  shows "st' = st \<or> st' = st\<lparr>ms_uploads := bt_remove (mh_upload_id h) (ms_uploads st)\<rparr>
    \<or> ensure_parents (mh_target h)
        (st\<lparr>ms_uploads := bt_remove (mh_upload_id h) (ms_uploads st)\<rparr>) = (Inl e, st')"
  using assms
  by (auto simp: mem_commit_multipart_def Let_def split: option.splits if_splits prod.splits
      sum.splits)

section \<open>The contract of the trait\<close>

lemma put_file_touches:
  assumes p: "path_ok p" and run: "mem_put_file p body st = (r, st')"
  shows "touches mem_at {p} st st'"
proof (cases r)
  case (Inl e)
  then show ?thesis
    using put_file_err run ensure_parents_grown [OF _ p] grown_touches [OF _ p] by fastforce
next
  case (Inr md)
  with run have "mem_put_file p body st = (Inr md, st')" by simp
  then obtain b et t st1 st2 where *: "ensure_parents p st = (Inr (), st1)"
    "fresh_stamp st1 = ((et, t), st2)"
    "st' = mem_emit (Written (ms_id st2) p md)
                 (mem_insert p (MemFile b et t (sniff_mimetype (as_str p))) st2)"
    by (rule put_file_ok)
  have "touches mem_at {p} st st1"
    using ensure_parents_grown [OF *(1) p] p by (rule grown_touches) simp
  then show ?thesis
    by (rule touches_after) (simp add: *(3) mem_at_insert fresh_stamp_at [OF *(2)])
qed

lemma mkdir_touches:
  assumes p: "path_ok p" and run: "mem_mkdir p st = (r, st')"
  shows "touches mem_at {p} st st'"
proof (cases r)
  case (Inl e)
  then show ?thesis
    using mkdir_err run ensure_parents_grown [OF _ p] grown_touches [OF _ p] by fastforce
next
  case (Inr md)
  with run have "mem_mkdir p st = (Inr md, st')" by simp
  then obtain et t st1 st2 where *: "ensure_parents p st = (Inr (), st1)"
    "fresh_stamp st1 = ((et, t), st2)"
    "st' = mem_emit (DirCreated (ms_id st2) p md) (mem_insert p (MemDirectory et t) st2)"
    by (rule mkdir_ok)
  have "touches mem_at {p} st st1"
    using ensure_parents_grown [OF *(1) p] p by (rule grown_touches) simp
  then show ?thesis
    by (rule touches_after) (simp add: *(3) mem_at_insert fresh_stamp_at [OF *(2)])
qed

lemma delete_touches:
  assumes run: "mem_delete p st = (r, st')"
  shows "touches mem_at {p} st st'"
proof (cases r)
  case (Inr u)
  with run have "mem_delete p st = (Inr u, st')" by simp
  then obtain e where "st' = mem_emit (Deleted (ms_id st) p) (mem_remove p st)"
    by (rule delete_ok)
  then show ?thesis
    by (intro touches_after [OF touches_refl]) (simp add: mem_at_remove)
qed (use run in \<open>auto dest!: delete_err\<close>)

lemma rename_touches:
  assumes p: "path_ok p" and q: "path_ok q" and run: "mem_rename p q st = (r, st')"
  shows "touches mem_at {p, q} st st'"
proof (cases r)
  case (Inl e)
  with run have "mem_rename p q st = (Inl e, st')" by simp
  from rename_err [OF this] show ?thesis
  proof (elim disjE)
    assume "\<exists>x. entry_at st p = Some x \<and> st' = mem_insert p x (mem_remove p st)"
    then obtain x where "st' = mem_insert p x (mem_remove p st)" by blast
    then show ?thesis
      by (intro touches_after [OF touches_refl]) (simp add: mem_at_insert mem_at_remove)
  next
    assume "entry_at st p \<noteq> None \<and> ensure_parents q (mem_remove p st) = (Inl e, st')"
    then have "touches mem_at {p, q} (mem_remove p st) st'"
      using ensure_parents_grown [OF _ q] grown_touches [OF _ q] by blast
    then show ?thesis by (rule touches_before [rotated]) (simp add: mem_at_remove)
  qed simp
next
  case (Inr u)
  with run have "mem_rename p q st = (Inr u, st')" by simp
  then obtain e st2 where *: "ensure_parents q (mem_remove p st) = (Inr (), st2)"
    "st' = mem_emit (Moved (ms_id st2) p q) (mem_insert q e st2)"
    by (rule rename_ok)
  have "touches mem_at {p, q} (mem_remove p st) st2"
    using ensure_parents_grown [OF *(1) q] q by (rule grown_touches) simp
  then have "touches mem_at {p, q} st st2"
    by (rule touches_before [rotated]) (simp add: mem_at_remove)
  then show ?thesis by (rule touches_after) (simp add: *(2) mem_at_insert)
qed

lemma copy_touches:
  assumes q: "path_ok q" and run: "mem_copy p q st = (r, st')"
  shows "touches mem_at {q} st st'"
proof (cases r)
  case (Inl e)
  then show ?thesis
    using copy_err run ensure_parents_grown [OF _ q] grown_touches [OF _ q] by fastforce
next
  case (Inr u)
  with run have "mem_copy p q st = (Inr u, st')" by simp
  then obtain e et t st1 st2 where *: "ensure_parents q st = (Inr (), st1)"
    "fresh_stamp st1 = ((et, t), st2)"
    "st' = mem_emit (Copied (ms_id st2) p q) (mem_insert q (restamp et t e) st2)"
    by (rule copy_ok)
  have "touches mem_at {q} st st1"
    using ensure_parents_grown [OF *(1) q] q by (rule grown_touches) simp
  then show ?thesis
    by (rule touches_after) (simp add: *(3) mem_at_insert fresh_stamp_at [OF *(2)])
qed

lemma mem_at_uploads [simp]: "mem_at (st\<lparr>ms_uploads := u\<rparr>) = mem_at st"
  by (rule ext) (simp add: mem_at_def)

lemma mem_at_world [simp]: "mem_at (st\<lparr>ms_world := w\<rparr>) = mem_at st"
  by (rule ext) (simp add: mem_at_def)

lemma commit_touches:
  assumes p: "path_ok (mh_target h)" and run: "mem_commit_multipart h parts st = (r, st')"
  shows "touches mem_at {mh_target h} st st'"
proof -
  let ?st0 = "st\<lparr>ms_uploads := bt_remove (mh_upload_id h) (ms_uploads st)\<rparr>"
  have grown: "touches mem_at {mh_target h} st st1"
    if "ensure_parents (mh_target h) ?st0 = (x, st1)" for x st1
  proof -
    from that have "touches mem_at {mh_target h} ?st0 st1"
      using ensure_parents_grown [OF _ p] grown_touches [OF _ p] by blast
    then show ?thesis by (rule touches_before [rotated]) simp
  qed
  show ?thesis
  proof (cases r)
    case (Inl e)
    with run have "mem_commit_multipart h parts st = (Inl e, st')" by simp
    from commit_err [OF this] show ?thesis
    proof (elim disjE)
      assume "st' = ?st0"
      then show ?thesis by (intro touches_same) simp
    qed (simp, rule grown)
  next
    case (Inr md)
    with run have "mem_commit_multipart h parts st = (Inr md, st')" by simp
    then obtain buf et t st1 st2 where *: "ensure_parents (mh_target h) ?st0 = (Inr (), st1)"
      "fresh_stamp st1 = ((et, t), st2)"
      "st' = mem_emit (Written (ms_id st2) (mh_target h) md)
           (mem_insert (mh_target h) (MemFile buf et t (sniff_mimetype (as_str (mh_target h)))) st2)"
      by (rule commit_ok)
    from grown [OF *(1)] show ?thesis
      by (rule touches_after) (simp add: *(3) mem_at_insert fresh_stamp_at [OF *(2)])
  qed
qed

interpretation mem: storage_frame mem_ops mem_at
proof (unfold_locales, goal_cases)
  case (5 p s ry s') then show ?case
    by (auto simp: mem_ops_def mem_read_def split: option.splits mem_entry.splits)
next
  case (13 h n b s rt s') then show ?case
    by (auto simp: mem_ops_def mem_put_part_def Let_def split: option.splits sum.splits)
qed (auto simp: mem_ops_def mem_stat_def mem_exists_def mem_list_def mem_begin_multipart_def
      mem_abort_multipart_def mem_at_def Let_def put_file_touches mkdir_touches delete_touches
      rename_touches copy_touches commit_touches split: prod.splits)

section \<open>Preservation of the tree invariant\<close>

lemma path_ne_own_prefix:
  assumes "path_ok p" and "0 < i" and "i \<le> length (butlast (segs p))"
  shows "path_of (take i (butlast (segs p))) \<noteq> p"
proof
  assume eq: "path_of (take i (butlast (segs p))) = p"
  have "\<forall>s \<in> set (take i (butlast (segs p))). good_segment s"
    using assms(1) by (auto simp: path_ok_def dest: in_set_takeD in_set_butlastD)
  then have "segs p = take i (butlast (segs p))" using eq by (metis segs_path_of)
  then have "length (segs p) \<le> length (butlast (segs p))"
    using length_take [of i "butlast (segs p)"] min.cobounded1 by presburger
  moreover have "segs p \<noteq> []" using assms(2,3) by auto
  ultimately show False by (cases "segs p" rule: rev_cases) auto
qed

lemma grown_at_target:
  assumes "grown (butlast (segs p)) st st'" and "path_ok p"
  shows "entry_at st' p = entry_at st p"
proof (rule ccontr)
  assume neq: "entry_at st' p \<noteq> entry_at st p"
  from assms(1) have "entry_at st' p = entry_at st p \<or> entry_at st p = None \<and> dir_at st' p
      \<and> (\<exists>i. 0 < i \<and> i \<le> length (butlast (segs p)) \<and> p = path_of (take i (butlast (segs p))))"
    unfolding grown_def by (elim conjE) (erule spec)
  with neq obtain i where i: "0 < i" "i \<le> length (butlast (segs p))"
    and eq: "p = path_of (take i (butlast (segs p)))" by (elim disjE conjE exE) auto
  show False using path_ne_own_prefix [OF assms(2) i] eq [symmetric] by contradiction
qed

lemma dirs_along_stamp:
  "fresh_stamp st = (x, st') \<Longrightarrow> dirs_along st' ss = dirs_along st ss"
  by (rule dirs_along_cong) (rule fresh_stamp_fields)

lemma wf_stamp: "fresh_stamp st = (x, st') \<Longrightarrow> mem_wf st' = mem_wf st"
  by (rule mem_wf_cong) (rule fresh_stamp_fields)

text \<open>The common tail of the writes: parents, stamp, insert.\<close>

lemma insert_after_parents_wf:
  assumes wf: "mem_wf st" and p: "path_ok p"
    and par: "ensure_parents p st = (Inr (), st1)" and stamp: "fresh_stamp st1 = (x, st2)"
    and e: "is_dir e \<or> \<not> dir_at st p"
  shows "mem_wf (mem_insert p e st2)"
proof (rule mem_wf_insert)
  show "mem_wf st2" using ensure_parents_wf [OF par p wf] by (simp add: wf_stamp [OF stamp])
  show "dirs_along st2 (butlast (segs p))"
    using ensure_parents_dirs [OF par p] by (simp add: dirs_along_stamp [OF stamp])
  have "entry_at st2 p = entry_at st p"
    using grown_at_target [OF ensure_parents_grown [OF par p] p] fresh_stamp_fields(1) [OF stamp]
    by simp
  then show "is_dir e \<or> \<not> dir_at st2 p" using e by (simp add: dir_at_def)
qed (rule p)

lemma put_file_wf:
  assumes wf: "mem_wf st" and p: "path_ok p" and run: "mem_put_file p body st = (r, st')"
  shows "mem_wf st'"
proof (cases r)
  case (Inl e)
  then show ?thesis using put_file_err run wf ensure_parents_wf [OF _ p wf] by blast
next
  case (Inr md)
  with run have "mem_put_file p body st = (Inr md, st')" by simp
  then obtain b et t st1 st2 where "\<not> dir_at st p" "ensure_parents p st = (Inr (), st1)"
    "fresh_stamp st1 = ((et, t), st2)"
    "st' = mem_emit (Written (ms_id st2) p md)
                 (mem_insert p (MemFile b et t (sniff_mimetype (as_str p))) st2)"
    by (rule put_file_ok)
  then show ?thesis using insert_after_parents_wf [OF wf p] by simp
qed

lemma mkdir_wf:
  assumes wf: "mem_wf st" and p: "path_ok p" and run: "mem_mkdir p st = (r, st')"
  shows "mem_wf st'"
proof (cases r)
  case (Inl e)
  then show ?thesis using mkdir_err run wf ensure_parents_wf [OF _ p wf] by blast
next
  case (Inr md)
  with run have "mem_mkdir p st = (Inr md, st')" by simp
  then obtain et t st1 st2 where "ensure_parents p st = (Inr (), st1)"
    "fresh_stamp st1 = ((et, t), st2)"
    "st' = mem_emit (DirCreated (ms_id st2) p md) (mem_insert p (MemDirectory et t) st2)"
    by (rule mkdir_ok)
  then show ?thesis using insert_after_parents_wf [OF wf p] by simp
qed

lemma delete_wf:
  assumes wf: "mem_wf st" and run: "mem_delete p st = (r, st')"
  shows "mem_wf st'"
proof (cases r)
  case (Inl e)
  then show ?thesis using run wf by (auto dest!: delete_err)
next
  case (Inr u)
  with run have "mem_delete p st = (Inr u, st')" by simp
  then obtain e where e: "entry_at st p = Some e" "\<not> (is_dir e \<and> has_children p st)"
    and st': "st' = mem_emit (Deleted (ms_id st) p) (mem_remove p st)"
    by (rule delete_ok)
  have p: "path_ok p" using wf e by (auto simp: mem_wf_def)
  have "\<not> strict_prefix (segs p) (segs k)" if "\<not> is_root p" "entry_at st k \<noteq> None" for k
  proof
    assume pre: "strict_prefix (segs p) (segs k)"
    have "is_dir e"
      using mem_wf_ancestor_dir [OF wf _ pre] that e
      by (auto simp: dir_at_def is_root_def segs_Nil_iff)
    then show False using e(2) has_children_iff [OF wf p that(1)] that(2) pre by blast
  qed
  then have "mem_wf (mem_remove p st)" by (intro mem_wf_remove [OF wf]) blast
  then show ?thesis by (simp add: st')
qed

lemma copy_wf:
  assumes wf: "mem_wf st" and q: "path_ok q" and run: "mem_copy p q st = (r, st')"
  shows "mem_wf st'"
proof (cases r)
  case (Inl e)
  then show ?thesis using copy_err run wf ensure_parents_wf [OF _ q wf] by blast
next
  case (Inr u)
  with run have "mem_copy p q st = (Inr u, st')" by simp
  then obtain e et t st1 st2 where "entry_at st q = None" "ensure_parents q st = (Inr (), st1)"
    "fresh_stamp st1 = ((et, t), st2)"
    "st' = mem_emit (Copied (ms_id st2) p q) (mem_insert q (restamp et t e) st2)"
    by (rule copy_ok)
  then show ?thesis using insert_after_parents_wf [OF wf q] by (simp add: dir_at_def)
qed

text \<open>A rename keeps the tree well-formed when nothing lies below the source.\<close>

definition leaf_at :: "mem_storage \<Rightarrow> storage_path \<Rightarrow> bool" where
  "leaf_at st p \<longleftrightarrow> (\<forall>k. entry_at st k \<noteq> None \<longrightarrow> \<not> strict_prefix (segs p) (segs k))"

lemma rename_wf:
  assumes wf: "mem_wf st" and p: "path_ok p" and q: "path_ok q"
    and leaf: "leaf_at st p" and run: "mem_rename p q st = (r, st')"
  shows "mem_wf st'"
proof -
  have wf1: "mem_wf (mem_remove p st)"
    using leaf by (intro mem_wf_remove [OF wf]) (auto simp: leaf_at_def)
  show ?thesis
  proof (cases r)
    case (Inl e)
    with run have "mem_rename p q st = (Inl e, st')" by simp
    from rename_err [OF this] show ?thesis
    proof (elim disjE)
      assume "\<exists>x. entry_at st p = Some x \<and> st' = mem_insert p x (mem_remove p st)"
      then obtain x where x: "entry_at st p = Some x" "st' = mem_insert p x (mem_remove p st)"
        by blast
      have "dir_at (mem_remove p st) r" if "dir_at st r" "r \<noteq> p" for r
        using that by (simp add: dir_at_def)
      then have "dirs_along (mem_remove p st) (butlast (segs p))"
        using wf x(1) path_ne_own_prefix [OF p] unfolding mem_wf_def dirs_along_def by blast
      then show ?thesis using wf1 p x(2) by (auto intro!: mem_wf_insert simp: dir_at_def)
    qed (use wf ensure_parents_wf [OF _ q wf1] in auto)
  next
    case (Inr u)
    with run have "mem_rename p q st = (Inr u, st')" by simp
    then obtain e st2 where *: "entry_at (mem_remove p st) q = None"
      "ensure_parents q (mem_remove p st) = (Inr (), st2)"
      "st' = mem_emit (Moved (ms_id st2) p q) (mem_insert q e st2)"
      by (rule rename_ok)
    have "entry_at st2 q = None"
      using grown_at_target [OF ensure_parents_grown [OF *(2) q] q] *(1) by simp
    then have "mem_wf (mem_insert q e st2)"
      using ensure_parents_wf [OF *(2) q wf1] ensure_parents_dirs [OF *(2) q] q
      by (intro mem_wf_insert) (auto simp: dir_at_def)
    then show ?thesis using *(3) by simp
  qed
qed

lemma commit_wf:
  assumes wf: "mem_wf st" and p: "path_ok (mh_target h)" and target: "\<not> dir_at st (mh_target h)"
    and run: "mem_commit_multipart h parts st = (r, st')"
  shows "mem_wf st'"
proof -
  let ?st0 = "st\<lparr>ms_uploads := bt_remove (mh_upload_id h) (ms_uploads st)\<rparr>"
  have same: "ms_entries ?st0 = ms_entries st" by simp
  have wf0: "mem_wf ?st0" using wf by (simp add: mem_wf_cong [OF same])
  show ?thesis
  proof (cases r)
    case (Inl e)
    with run have "mem_commit_multipart h parts st = (Inl e, st')" by simp
    from commit_err [OF this] show ?thesis using wf wf0 ensure_parents_wf [OF _ p wf0] by auto
  next
    case (Inr md)
    with run have "mem_commit_multipart h parts st = (Inr md, st')" by simp
    then obtain buf et t st1 st2 where "ensure_parents (mh_target h) ?st0 = (Inr (), st1)"
      "fresh_stamp st1 = ((et, t), st2)"
      "st' = mem_emit (Written (ms_id st2) (mh_target h) md)
           (mem_insert (mh_target h) (MemFile buf et t (sniff_mimetype (as_str (mh_target h)))) st2)"
      by (rule commit_ok)
    then show ?thesis
      using insert_after_parents_wf [OF wf0 p] target by (simp add: dir_at_cong [OF same])
  qed
qed

section \<open>Reachable states\<close>

text \<open>
  One step of the backend: any call with valid paths, failed calls included, but for
  the two calls that can break the tree: renaming a directory that has entries below it
  and committing an upload onto a directory.
\<close>

inductive mem_step :: "mem_storage \<Rightarrow> mem_storage \<Rightarrow> bool" where
  put: "path_ok p \<Longrightarrow> mem_put_file p b st = (r, st') \<Longrightarrow> mem_step st st'"
| mkdir: "path_ok p \<Longrightarrow> mem_mkdir p st = (r, st') \<Longrightarrow> mem_step st st'"
| delete: "mem_delete p st = (u, st') \<Longrightarrow> mem_step st st'"
| copy: "path_ok q \<Longrightarrow> mem_copy p q st = (u, st') \<Longrightarrow> mem_step st st'"
| rename: "path_ok p \<Longrightarrow> path_ok q \<Longrightarrow> leaf_at st p \<Longrightarrow> mem_rename p q st = (u, st') \<Longrightarrow>
     mem_step st st'"
| begin_mp: "path_ok p \<Longrightarrow> mem_begin_multipart p st = (h, st') \<Longrightarrow> mem_step st st'"
| put_part: "mem_put_part mh n b st = (t, st') \<Longrightarrow> mem_step st st'"
| commit: "path_ok (mh_target mh) \<Longrightarrow> \<not> dir_at st (mh_target mh) \<Longrightarrow>
     mem_commit_multipart mh ts st = (r, st') \<Longrightarrow> mem_step st st'"
| abort: "mem_abort_multipart mh st = (u, st') \<Longrightarrow> mem_step st st'"

inductive mem_reachable :: "string \<Rightarrow> world \<Rightarrow> mem_storage \<Rightarrow> bool" for i w where
  start: "mem_reachable i w (mem_new i w)"
| step: "mem_reachable i w st \<Longrightarrow> mem_step st st' \<Longrightarrow> mem_reachable i w st'"

lemma mem_wf_new: "mem_wf (mem_new i w)"
  by (simp add: mem_wf_def mem_new_def)

lemma mem_step_wf: "mem_step st st' \<Longrightarrow> mem_wf st \<Longrightarrow> mem_wf st'"
proof (induction rule: mem_step.induct)
  case (begin_mp p st h st')
  then have "ms_entries st' = ms_entries st" by (auto simp: mem_begin_multipart_def Let_def split: prod.splits)
  then show ?case using begin_mp mem_wf_cong by blast
next
  case (put_part mh n b st t st')
  then have "ms_entries st' = ms_entries st"
    by (auto simp: mem_put_part_def Let_def split: option.splits sum.splits)
  then show ?case using put_part mem_wf_cong by blast
next
  case (abort mh st u st')
  then have "ms_entries st' = ms_entries st" by (auto simp: mem_abort_multipart_def)
  then show ?case using abort mem_wf_cong by blast
qed (blast intro: put_file_wf mkdir_wf delete_wf copy_wf rename_wf commit_wf)+

section \<open>The validation of multipart commits\<close>

lemma check_contiguous_None:
  "check_contiguous i ns = None \<longleftrightarrow> map unat ns = [Suc i ..< Suc i + length ns]"
proof (induction ns arbitrary: i)
  case (Cons n ns)
  then show ?case by (auto simp: upt_conv_Cons)
qed simp

text \<open>After the contiguity check the duplicate check can never fire.\<close>

lemma check_duplicates_unreachable:
  "check_contiguous i ns = None \<Longrightarrow> unat prev \<le> i \<Longrightarrow> check_duplicates prev ns = None"
  by (induction ns arbitrary: i prev) (auto split: if_splits)

lemma assemble_parts_Inr:
  "assemble_parts m ts = Inr buf \<longleftrightarrow>
     (\<forall>t \<in> set ts. bt_get m (pt_number t) \<noteq> None)
     \<and> buf = concat (map (\<lambda>t. the (bt_get m (pt_number t))) ts)"
  by (induction ts arbitrary: buf) (auto simp: rbind_Inr_iff split: option.splits)

lemma contiguous_sort_numbers:
  assumes "check_contiguous 0 (sort ns) = None"
  shows "set (map unat ns) = {1 .. length ns}" and "distinct ns"
proof -
  have eq: "map unat (sort ns) = [Suc 0 ..< Suc (length ns)]"
    using assms by (simp add: check_contiguous_None)
  have "set (map unat ns) = set (map unat (sort ns))" by simp
  also have "\<dots> = {1 .. length ns}" unfolding eq by auto
  finally show "set (map unat ns) = {1 .. length ns}" .
  have "distinct (map unat (sort ns))" unfolding eq by simp
  then show "distinct ns" by (simp add: distinct_map)
qed

section \<open>Properties\<close>

lemma mem_reachable_inv: "mem_reachable i w st \<Longrightarrow> mem_wf st"
  by (induction rule: mem_reachable.induct) (auto intro: mem_wf_new mem_step_wf)

text \<open>
  Tree invariant. In every reachable state of the backend, the entries are in key
  order, every key is a valid path, and every proper ancestor of an entry is present
  and is a directory.
\<close>

theorem mem_reachable_wf:
  assumes "mem_reachable i w st"
  shows "mem_wf st"
  using assms by (rule mem_reachable_inv)

theorem mem_reachable_wf_witness:
  "mem_wf (snd (mem_put_file (StoragePath ''a/b.txt'') (Inr [1, 2]) (mem_new ''m'' sample_world)))"
proof (rule mem_reachable_wf)
  have "path_ok (StoragePath ''a/b.txt'')"
    by (simp add: path_ok_def segs_def good_segment_def MAX_PATH_LEN_def Let_def)
  then show "mem_reachable ''m'' sample_world
      (snd (mem_put_file (StoragePath ''a/b.txt'') (Inr [1, 2]) (mem_new ''m'' sample_world)))"
    by (rule mem_reachable.step [OF mem_reachable.start mem_step.put])
      (rule prod.collapse [symmetric])
qed

text \<open>
  A successful write is what reads return afterwards: the bytes, the size, the
  metadata; every other existing entry is untouched, and exactly one \<open>Written\<close> event is
  emitted. The write succeeds exactly when the target is no directory and no ancestor is
  a file.
\<close>

theorem put_file_correct:
  assumes "path_ok p"
  shows "((\<exists>md st'. mem_put_file p (Inr b) st = (Inr md, st')) \<longleftrightarrow>
            \<not> dir_at st p \<and>
            (\<forall>i f. 0 < i \<and> i < length (segs p) \<and> entry_at st (path_of (take i (segs p))) = Some f
               \<longrightarrow> is_dir f))
    \<and> (\<forall>md st'. mem_put_file p (Inr b) st = (Inr md, st') \<longrightarrow>
         mem_read p st' = (Inr b, st') \<and> mem_stat p st' = (Inr md, st')
         \<and> md_size md = length b \<and> md_kind md = KFile
         \<and> ms_events st' = ms_events st @ [Written (ms_id st) p md]
         \<and> (\<forall>q e. q \<noteq> p \<and> entry_at st q = Some e \<longrightarrow> entry_at st' q = Some e))"
proof (intro conjI allI impI)
  let ?anc = "\<forall>i f. 0 < i \<and> i < length (segs p) \<and> entry_at st (path_of (take i (segs p))) = Some f
               \<longrightarrow> is_dir f"
  have len: "i \<le> length (butlast (segs p)) \<longleftrightarrow> i < length (segs p)" if "0 < i" for i
    using that unfolding length_butlast by linarith
  show "(\<exists>md st'. mem_put_file p (Inr b) st = (Inr md, st')) \<longleftrightarrow> \<not> dir_at st p \<and> ?anc"
  proof
    assume "\<exists>md st'. mem_put_file p (Inr b) st = (Inr md, st')"
    then obtain md st' where "mem_put_file p (Inr b) st = (Inr md, st')" by blast
    then obtain st1 where nd: "\<not> dir_at st p" and par: "ensure_parents p st = (Inr (), st1)"
      by (rule put_file_ok)
    have "is_dir f" if i: "0 < i" "i < length (segs p)"
      and f: "entry_at st (path_of (take i (segs p))) = Some f" for i f
    proof -
      have "dir_at st1 (path_of (take i (butlast (segs p))))"
        using ensure_parents_dirs [OF par assms] i len unfolding dirs_along_def by blast
      then have "dir_at st1 (path_of (take i (segs p)))" using i by (simp add: take_butlast)
      moreover have "entry_at st1 (path_of (take i (segs p))) = Some f"
        using grown_keeps [OF ensure_parents_grown [OF par assms] f] .
      ultimately show ?thesis by (auto simp: dir_at_def)
    qed
    with nd show "\<not> dir_at st p \<and> ?anc" by blast
  next
    assume R: "\<not> dir_at st p \<and> ?anc"
    obtain r st1 where par: "ensure_parents p st = (r, st1)" by (cases "ensure_parents p st")
    have "r = Inr ()"
    proof (cases r)
      case (Inl e)
      from ensure_parents_error [OF par assms this] R show ?thesis
        using not_is_dir by blast
    qed simp
    then show "\<exists>md st'. mem_put_file p (Inr b) st = (Inr md, st')"
      using par R by (auto simp: mem_put_file_def dir_at_def Let_def split: option.splits
          mem_entry.splits prod.splits)
  qed
next
  fix md st' assume run: "mem_put_file p (Inr b) st = (Inr md, st')"
  then obtain b' et t st1 st2 where *: "Inr b = (Inr b' :: body)"
    "ensure_parents p st = (Inr (), st1)" "fresh_stamp st1 = ((et, t), st2)"
    "md = to_metadata (MemFile b' et t (sniff_mimetype (as_str p))) p"
    "st' = mem_emit (Written (ms_id st2) p md)
                 (mem_insert p (MemFile b' et t (sniff_mimetype (as_str p))) st2)"
    by (rule put_file_ok)
  note f = fresh_stamp_fields [OF *(3)]
  have g: "grown (butlast (segs p)) st st1" using ensure_parents_grown [OF *(2) assms] .
  have e: "entry_at st' p = Some (MemFile b et t (sniff_mimetype (as_str p)))"
    using * by simp
  then show "mem_read p st' = (Inr b, st')" by (simp add: mem_read_def)
  show "mem_stat p st' = (Inr md, st')" using e * by (simp add: mem_stat_def)
  show "md_size md = length b" "md_kind md = KFile" using * by simp_all
  show "ms_events st' = ms_events st @ [Written (ms_id st) p md]"
    using *(5) f g by (simp add: grown_def)
  show "entry_at st' q = Some e" if "q \<noteq> p \<and> entry_at st q = Some e" for q e
    using that *(5) f grown_keeps [OF g] by simp
qed

theorem put_file_correct_witness:
  "\<exists>md st'. mem_put_file (StoragePath ''a/b.txt'') (Inr [1, 2]) (mem_new ''m'' sample_world) = (Inr md, st')
     \<and> mem_read (StoragePath ''a/b.txt'') st' = (Inr [1, 2], st')"
proof -
  have p: "path_ok (StoragePath ''a/b.txt'')"
    by (simp add: path_ok_def segs_def good_segment_def MAX_PATH_LEN_def Let_def)
  have "\<exists>md st'. mem_put_file (StoragePath ''a/b.txt'') (Inr [1, 2]) (mem_new ''m'' sample_world) = (Inr md, st')"
    unfolding put_file_correct [OF p, THEN conjunct1] by (simp add: mem_new_def dir_at_def)
  then show ?thesis
    using put_file_correct [OF p, THEN conjunct2, rule_format] by blast
qed

text \<open>
  A rename whose target has a file among its ancestors fails, and the failure has
  already removed the source: the entry is gone from the tree (unless its path is
  itself recreated as a directory on the way to the target).
\<close>

theorem rename_failure_loses_source:
  assumes "path_ok src" and "path_ok dst" and "\<not> prefix (segs src) (segs dst)"
    and "mem_rename src dst st = (Inl StNotADirectory, st')"
  shows "entry_at st src \<noteq> None \<and> entry_at st' src = None"
proof -
  from rename_err [OF assms(4)] assms(4)
  have src: "entry_at st src \<noteq> None" and par: "ensure_parents dst (mem_remove src st) = (Inl StNotADirectory, st')"
    by (auto simp: mem_rename_def Let_def split: option.splits if_splits prod.splits sum.splits)
  have "touches mem_at {dst} (mem_remove src st) st'"
    using ensure_parents_grown [OF par assms(2)] assms(2) by (rule grown_touches) simp
  then have "mem_at st' src = mem_at (mem_remove src st) src"
    using assms(3) unfolding touches_def by (metis prefix_order.less_imp_le prefix_order.order_refl singletonD)
  then show ?thesis using src by (simp add: mem_at_def)
qed

theorem rename_failure_loses_source_witness:
  "\<exists>st st'. mem_rename (StoragePath ''x'') (StoragePath ''f/y'') st = (Inl StNotADirectory, st')
     \<and> entry_at st (StoragePath ''x'') \<noteq> None \<and> entry_at st' (StoragePath ''x'') = None"
proof -
  let ?file = "MemFile [7] (ETag []) 0 octet_stream"
  let ?st = "(mem_new ''m'' sample_world)
    \<lparr>ms_entries := [(StoragePath ''f'', ?file), (StoragePath ''x'', ?file)]\<rparr>"
  have ok: "path_ok (StoragePath ''x'')" "path_ok (StoragePath ''f/y'')"
    by (simp_all add: path_ok_def segs_def good_segment_def MAX_PATH_LEN_def Let_def)
  have pre: "\<not> prefix (segs (StoragePath ''x'')) (segs (StoragePath ''f/y''))"
    by (simp add: segs_def Let_def)
  have new: "storage_path_new ''f'' = Inr (StoragePath ''f'')"
    by (simp add: storage_path_new_def MAX_PATH_LEN_def Let_def pop_while_last.simps)
  have "mem_rename (StoragePath ''x'') (StoragePath ''f/y'') ?st
      = (Inl StNotADirectory, mem_remove (StoragePath ''x'') ?st)"
    by (simp add: mem_rename_def ensure_parents_def Let_def new)
  from rename_failure_loses_source [OF ok pre this] this show ?thesis by blast
qed

text \<open>
  Renaming a directory moves its own entry only: an entry below the source stays
  where it was, without its parent directory, so the tree is no longer well-formed.
\<close>

theorem rename_strands_children:
  assumes wf: "mem_wf st" and q: "path_ok dst" and root: "\<not> is_root src"
    and npre: "\<not> prefix (segs src) (segs dst)"
    and k: "strict_prefix (segs src) (segs k)" "entry_at st k = Some e" "k \<noteq> dst"
    and run: "mem_rename src dst st = (Inr u, st')"
  shows "entry_at st' k = Some e \<and> entry_at st' src = None \<and> \<not> mem_wf st'"
proof -
  from run obtain x st2 where
    par: "ensure_parents dst (mem_remove src st) = (Inr (), st2)"
    and st': "st' = mem_emit (Moved (ms_id st2) src dst) (mem_insert dst x st2)"
    by (rule rename_ok)
  have "k \<noteq> src" using k(1) by auto
  then have "entry_at (mem_remove src st) k = Some e" using k(2) by simp
  then have k': "entry_at st' k = Some e"
    using grown_keeps [OF ensure_parents_grown [OF par q]] k(3) by (simp add: st')
  have "touches mem_at {dst} (mem_remove src st) st2"
    using ensure_parents_grown [OF par q] q by (rule grown_touches) simp
  then have "mem_at st2 src = mem_at (mem_remove src st) src"
    using npre unfolding touches_def
    by (metis prefix_order.less_imp_le prefix_order.order_refl singletonD)
  then have src: "entry_at st' src = None" using npre by (auto simp: st' mem_at_def)
  have "\<not> mem_wf st'"
  proof
    assume "mem_wf st'"
    then have "dir_at st' src"
      using mem_wf_ancestor_dir [OF _ k' k(1)] root by (simp add: is_root_def segs_Nil_iff)
    then show False using src by (simp add: dir_at_def)
  qed
  with k' src show ?thesis by blast
qed

theorem rename_strands_children_witness:
  "\<exists>st st'. mem_rename (StoragePath ''d'') (StoragePath ''e'') st = (Inr (), st')
     \<and> entry_at st' (StoragePath ''d/x'') \<noteq> None \<and> entry_at st' (StoragePath ''d'') = None"
proof -
  let ?dir = "MemDirectory (ETag []) 0" and ?file = "MemFile [7] (ETag []) 0 octet_stream"
  let ?st = "(mem_new ''m'' sample_world)
    \<lparr>ms_entries := [(StoragePath ''d'', ?dir), (StoragePath ''d/x'', ?file)]\<rparr>"
  have wf: "mem_wf ?st"
    by (auto simp: mem_wf_def bt_ok_def less_storage_path_def path_ok_def segs_def good_segment_def
        MAX_PATH_LEN_def Let_def dirs_along_def dir_at_def path_of_def le_Suc_eq)
  have run: "mem_rename (StoragePath ''d'') (StoragePath ''e'') ?st
      = (Inr (), mem_emit (Moved (ms_id ?st) (StoragePath ''d'') (StoragePath ''e''))
                   (mem_insert (StoragePath ''e'') ?dir (mem_remove (StoragePath ''d'') ?st)))"
    by (simp add: mem_rename_def ensure_parents_def Let_def)
  have "path_ok (StoragePath ''e'')" "\<not> is_root (StoragePath ''d'')"
    "\<not> prefix (segs (StoragePath ''d'')) (segs (StoragePath ''e''))"
    "strict_prefix (segs (StoragePath ''d'')) (segs (StoragePath ''d/x''))"
    "entry_at ?st (StoragePath ''d/x'') = Some ?file" "StoragePath ''d/x'' \<noteq> StoragePath ''e''"
    by (simp_all add: path_ok_def segs_def good_segment_def MAX_PATH_LEN_def Let_def is_root_def)
  from rename_strands_children [OF wf this run] run show ?thesis by blast
qed

text \<open>
  A multipart commit succeeds only when the part numbers are exactly 1 to n, each
  once and each uploaded; the file then holds the uploaded parts concatenated in the
  order of the tag list of the request (not in the order of their numbers), and the
  upload is closed.
\<close>

theorem commit_multipart_correct:
  assumes "path_ok (mh_target h)" and "mem_commit_multipart h parts st = (Inr md, st')"
  shows "\<exists>upload. bt_get (ms_uploads st) (mh_upload_id h) = Some upload
    \<and> unat ` set (map pt_number parts) = {1 .. length parts} \<and> distinct (map pt_number parts)
    \<and> (\<forall>t \<in> set parts. bt_get upload (pt_number t) \<noteq> None)
    \<and> mem_read (mh_target h) st' =
        (Inr (concat (map (\<lambda>t. the (bt_get upload (pt_number t))) parts)), st')
    \<and> bt_get (ms_uploads st') (mh_upload_id h) = None"
proof -
  let ?st0 = "st\<lparr>ms_uploads := bt_remove (mh_upload_id h) (ms_uploads st)\<rparr>"
  from assms(2) obtain upload buf et t st1 st2 where
    cont: "check_contiguous 0 (sort (map pt_number parts)) = None"
    and up: "bt_get (ms_uploads st) (mh_upload_id h) = Some upload"
    and asm: "assemble_parts upload parts = Inr buf"
    and par: "ensure_parents (mh_target h) ?st0 = (Inr (), st1)"
    and stamp: "fresh_stamp st1 = ((et, t), st2)"
    and st': "st' = mem_emit (Written (ms_id st2) (mh_target h) md)
           (mem_insert (mh_target h) (MemFile buf et t (sniff_mimetype (as_str (mh_target h)))) st2)"
    by (rule commit_ok)
  have "ms_uploads st' = ms_uploads ?st0"
    using fresh_stamp_fields(3) [OF stamp] ensure_parents_grown [OF par assms(1)]
    by (simp add: st' grown_def)
  moreover have "mem_read (mh_target h) st' = (Inr buf, st')" by (simp add: st' mem_read_def)
  moreover have "unat ` set (map pt_number parts) = {1 .. length parts}"
    using contiguous_sort_numbers(1) [OF cont] by (metis length_map list.set_map)
  moreover have "distinct (map pt_number parts)" using cont by (rule contiguous_sort_numbers)
  ultimately show ?thesis
    using up asm by (intro exI [of _ upload]) (simp add: assemble_parts_Inr del: set_map)
qed

theorem commit_multipart_correct_witness:
  "\<exists>h st md st'. mem_commit_multipart h
        [\<lparr>pt_number = 2, pt_etag = []\<rparr>, \<lparr>pt_number = 1, pt_etag = []\<rparr>] st = (Inr md, st')
     \<and> mem_read (mh_target h) st' = (Inr [20, 10], st')"
proof -
  let ?h = "\<lparr>mh_upload_id = ''u'', mh_target = StoragePath ''t''\<rparr>"
  let ?ts = "[\<lparr>pt_number = 2, pt_etag = []\<rparr>, \<lparr>pt_number = 1, pt_etag = []\<rparr>] :: part_tag list"
  let ?st = "(mem_new ''m'' sample_world)\<lparr>ms_uploads := [(''u'', [(1, [10]), (2, [20])])]\<rparr>"
  have ok: "path_ok (mh_target ?h)"
    by (simp add: path_ok_def segs_def good_segment_def MAX_PATH_LEN_def Let_def)
  obtain et t st2 where "fresh_stamp (?st\<lparr>ms_uploads := bt_remove ''u'' (ms_uploads ?st)\<rparr>)
      = ((et, t), st2)" by (metis prod.collapse)
  then have "\<exists>md st'. mem_commit_multipart ?h ?ts ?st = (Inr md, st')"
    by (simp add: mem_commit_multipart_def ensure_parents_def Let_def word_le_nat_alt)
  then obtain md st' where run: "mem_commit_multipart ?h ?ts ?st = (Inr md, st')" by blast
  from commit_multipart_correct [OF ok run]
  have "mem_read (mh_target ?h) st' = (Inr [20, 10], st')" by simp
  with run show ?thesis by blast
qed

end
