(* ===== verification/SharePerms.thy ===== *)
theory SharePerms
  imports Prelude
begin

unbundle bit_operations_syntax

text \<open>
  The small types of the sharing service: the share permission mask
  (crabcloud-sharing, src/permissions.rs), share and item types (src/types.rs) and the
  HTTP status of a share error (src/error.rs).
\<close>

section \<open>Permission masks\<close>

datatype share_permissions = SharePermissions (sp_bits: u8)

definition SP_READ :: u8 where "SP_READ = 1"
definition SP_UPDATE :: u8 where "SP_UPDATE = 2"
definition SP_CREATE :: u8 where "SP_CREATE = 4"
definition SP_DELETE :: u8 where "SP_DELETE = 8"
definition SHARE_BIT :: u8 where "SHARE_BIT = 16"

definition from_wire :: "u32 \<Rightarrow> share_permissions" where
  "from_wire b = SharePermissions (ucast ((b AND 0x1F) AND NOT (ucast SHARE_BIT)))"

definition as_u32 :: "share_permissions \<Rightarrow> u32" where
  "as_u32 p = ucast (sp_bits p)"

definition contains_read :: "share_permissions \<Rightarrow> bool" where
  "contains_read p \<longleftrightarrow> sp_bits p AND SP_READ \<noteq> 0"

definition allows_write :: "share_permissions \<Rightarrow> bool" where
  "allows_write p \<longleftrightarrow> sp_bits p AND (SP_UPDATE OR SP_CREATE) \<noteq> 0"

definition allows_update :: "share_permissions \<Rightarrow> bool" where
  "allows_update p \<longleftrightarrow> sp_bits p AND SP_UPDATE \<noteq> 0"

definition allows_create :: "share_permissions \<Rightarrow> bool" where
  "allows_create p \<longleftrightarrow> sp_bits p AND SP_CREATE \<noteq> 0"

definition allows_delete :: "share_permissions \<Rightarrow> bool" where
  "allows_delete p \<longleftrightarrow> sp_bits p AND SP_DELETE \<noteq> 0"

text \<open>\<open>i32\<close> values are 32-bit words; \<open>v as u32\<close> keeps the bits.\<close>

definition share_permissions_from_i32 :: "32 word \<Rightarrow> share_permissions" where
  "share_permissions_from_i32 v = from_wire v"

definition share_permissions_to_i32 :: "share_permissions \<Rightarrow> 32 word" where
  "share_permissions_to_i32 p = ucast (sp_bits p)"

section \<open>Share and item types\<close>

datatype share_type = ShareUser | ShareGroup | ShareLink | ShareEmail

definition share_type_try_from :: "int \<Rightarrow> string + share_type" where
  "share_type_try_from v =
     (if v = 0 then Inr ShareUser else if v = 1 then Inr ShareGroup
      else if v = 3 then Inr ShareLink else if v = 4 then Inr ShareEmail
      else Inl ''unsupported share_type'')"

fun share_type_to_i16 :: "share_type \<Rightarrow> int" where
  "share_type_to_i16 ShareUser = 0"
| "share_type_to_i16 ShareGroup = 1"
| "share_type_to_i16 ShareLink = 3"
| "share_type_to_i16 ShareEmail = 4"

datatype item_type = ItemFile | ItemFolder

fun as_db_str :: "item_type \<Rightarrow> string" where
  "as_db_str ItemFile = ''file''"
| "as_db_str ItemFolder = ''folder''"

definition from_db_str :: "string \<Rightarrow> item_type option" where
  "from_db_str s =
     (if s = ''file'' then Some ItemFile else if s = ''folder'' then Some ItemFolder else None)"

section \<open>Errors\<close>

datatype share_error =
    ShNotFound
  | ShForbidden
  | ShRecipientUnknown
  | ShInvalidShareType
  | ShBadPermissions
  | ShInvalidExpireDate string
  | ShReshareRejected
  | ShPathNotOwned
  | ShNotImplemented
  | ShDbError string

fun http_status :: "share_error \<Rightarrow> nat" where
  "http_status ShNotFound = 404"
| "http_status ShForbidden = 403"
| "http_status ShReshareRejected = 403"
| "http_status ShPathNotOwned = 403"
| "http_status ShRecipientUnknown = 404"
| "http_status ShInvalidShareType = 400"
| "http_status ShBadPermissions = 400"
| "http_status (ShInvalidExpireDate _) = 400"
| "http_status ShNotImplemented = 501"
| "http_status (ShDbError _) = 500"

section \<open>Lemmas\<close>

text \<open>Reading one bit of the mask.\<close>

lemma and_two_power: "(x :: u8) AND 2 ^ n \<noteq> 0 \<longleftrightarrow> n < 8 \<and> bit x n"
  by (auto simp: and_exp_eq_0_iff_not_bit bit_imp_le_length dest: bit_imp_le_length)

lemma perm_bits_iff:
  "contains_read p \<longleftrightarrow> bit (sp_bits p) 0" "allows_update p \<longleftrightarrow> bit (sp_bits p) 1"
  "allows_create p \<longleftrightarrow> bit (sp_bits p) 2" "allows_delete p \<longleftrightarrow> bit (sp_bits p) 3"
  using and_two_power [of "sp_bits p" 0] and_two_power [of "sp_bits p" 1]
    and_two_power [of "sp_bits p" 2] and_two_power [of "sp_bits p" 3]
  by (simp_all add: contains_read_def allows_update_def allows_create_def allows_delete_def
      SP_READ_def SP_UPDATE_def SP_CREATE_def SP_DELETE_def)

lemma allows_write_iff: "allows_write p \<longleftrightarrow> allows_update p \<or> allows_create p"
  by (simp add: allows_write_def allows_update_def allows_create_def bit.conj_disj_distrib or_eq_0_iff)

lemma from_wire_mask: "((b :: u32) AND 0x1F) AND NOT (ucast SHARE_BIT) = b AND mask 4"
proof -
  have "(0x1F :: u32) AND NOT 16 = mask 4" by (simp add: mask_eq_exp_minus_1)
  then show ?thesis by (simp add: SHARE_BIT_def and.assoc)
qed

lemma bit_from_wire: "bit (sp_bits (from_wire b)) n \<longleftrightarrow> n < 4 \<and> bit b n"
  unfolding from_wire_def from_wire_mask
  by (auto simp: bit_ucast_iff bit_and_iff bit_mask_iff)

text \<open>
  C40. A permission mask built from any wire value never carries the re-share bit or an
  unknown bit, grants exactly what the four low wire bits say, and survives the
  conversion to and from the database integer.
\<close>

theorem from_wire_correct:
  "unat (sp_bits (from_wire b)) < 16
   \<and> sp_bits (from_wire b) AND SHARE_BIT = 0
   \<and> contains_read (from_wire b) = bit b 0 \<and> allows_update (from_wire b) = bit b 1
   \<and> allows_create (from_wire b) = bit b 2 \<and> allows_delete (from_wire b) = bit b 3
   \<and> share_permissions_from_i32 (share_permissions_to_i32 (from_wire b)) = from_wire b"
proof (intro conjI)
  have eq: "sp_bits (from_wire b) = sp_bits (from_wire b) AND mask 4"
    by (rule bit_eqI) (auto simp: bit_from_wire bit_and_iff bit_mask_iff)
  have "sp_bits (from_wire b) AND mask 4 < 2 ^ 4"
    by (rule and_mask_less') simp
  then have "sp_bits (from_wire b) < 16" unfolding eq [symmetric] by simp
  then show "unat (sp_bits (from_wire b)) < 16" by (simp add: word_less_nat_alt)
  have "SHARE_BIT = 2 ^ 4" by (simp add: SHARE_BIT_def)
  then show "sp_bits (from_wire b) AND SHARE_BIT = 0"
    using and_two_power [of "sp_bits (from_wire b)" 4] by (simp add: bit_from_wire)
  have "sp_bits (from_wire (ucast (sp_bits (from_wire b)))) = sp_bits (from_wire b)"
    by (rule bit_eqI) (auto simp: bit_from_wire bit_ucast_iff)
  then show "share_permissions_from_i32 (share_permissions_to_i32 (from_wire b)) = from_wire b"
    by (simp add: share_permissions_from_i32_def share_permissions_to_i32_def
        share_permissions.expand)
qed (simp_all add: perm_bits_iff bit_from_wire)

lemma share_type_roundtrip [simp]: "share_type_try_from (share_type_to_i16 t) = Inr t"
  by (cases t) (simp_all add: share_type_try_from_def)

lemma item_type_roundtrip [simp]: "from_db_str (as_db_str t) = Some t"
  by (cases t) (simp_all add: from_db_str_def)

end
