(* ===== verification/ShareSubroot.thy ===== *)
theory ShareSubroot
  imports MemStorage_Correct SharePerms
begin

text \<open>
  The storage a share recipient gets (crabcloud-fs, src/storage/share_subroot.rs): a
  wrapper around the owner's storage that translates every path below the shared
  folder and checks the share permissions. The lemmas are proved once for any backend
  that meets the contract of the \<open>Storage\<close> trait; the properties state them for the
  in-memory backend through its interpretation.
\<close>

record 's shared_subroot =
  sr_inner :: "'s storage_ops"
  sr_owner_path :: storage_path
  sr_permissions :: share_permissions

definition is_create_only :: "'s shared_subroot \<Rightarrow> bool" where
  "is_create_only w \<longleftrightarrow> \<not> contains_read (sr_permissions w) \<and> allows_create (sr_permissions w)"

definition translate :: "'s shared_subroot \<Rightarrow> storage_path \<Rightarrow> storage_error + storage_path" where
  "translate w p =
     (if is_root p then Inr (sr_owner_path w)
      else if is_root (sr_owner_path w) then Inr p
      else storage_join (sr_owner_path w) (as_str p))"

text \<open>Translate one path, then run an inner operation on it.\<close>

definition on_translated ::
  "'s shared_subroot \<Rightarrow> storage_path \<Rightarrow> (storage_path \<Rightarrow> ('s, storage_error, 'a) eff)
     \<Rightarrow> ('s, storage_error, 'a) eff" where
  "on_translated w p f s = (case translate w p of Inl e \<Rightarrow> (Inl e, s) | Inr q \<Rightarrow> f q s)"

definition sub_stat :: "'s shared_subroot \<Rightarrow> storage_path \<Rightarrow> ('s, storage_error, file_metadata) eff" where
  "sub_stat w p s =
     (if is_create_only w \<and> \<not> is_root p then (Inl StPermissionDenied, s)
      else on_translated w p (op_stat (sr_inner w)) s)"

definition sub_exists :: "'s shared_subroot \<Rightarrow> storage_path \<Rightarrow> ('s, storage_error, bool) eff" where
  "sub_exists w p s =
     (if is_create_only w \<and> \<not> is_root p then (Inl StPermissionDenied, s)
      else on_translated w p (op_exists (sr_inner w)) s)"

definition sub_list :: "'s shared_subroot \<Rightarrow> storage_path \<Rightarrow> ('s, storage_error, dir_entry list) eff" where
  "sub_list w p s =
     (if is_create_only w
      then (if is_root p then (Inr [], s) else (Inl StPermissionDenied, s))
      else on_translated w p (op_list (sr_inner w)) s)"

definition sub_read :: "'s shared_subroot \<Rightarrow> storage_path \<Rightarrow> ('s, storage_error, bytes) eff" where
  "sub_read w p s =
     (if is_create_only w then (Inl StPermissionDenied, s)
      else on_translated w p (op_read (sr_inner w)) s)"

definition sub_read_range ::
  "'s shared_subroot \<Rightarrow> storage_path \<Rightarrow> u64 \<Rightarrow> u64 \<Rightarrow> 's \<Rightarrow> (storage_error + bytes) option" where
  "sub_read_range w p a b s =
     (if is_create_only w then Some (Inl StPermissionDenied)
      else case translate w p of
             Inl e \<Rightarrow> Some (Inl e)
           | Inr q \<Rightarrow> op_read_range (sr_inner w) q a b s)"

text \<open>
  The gate of \<open>put_file\<close> and \<open>begin_multipart\<close>: update on an existing target, create
  on a new one.
\<close>

definition write_gate ::
  "'s shared_subroot \<Rightarrow> (storage_path \<Rightarrow> ('s, storage_error, 'a) eff) \<Rightarrow> storage_path
     \<Rightarrow> ('s, storage_error, 'a) eff" where
  "write_gate w f q s =
     (case op_exists (sr_inner w) q s of
        (Inl e, s1) \<Rightarrow> (Inl e, s1)
      | (Inr existing, s1) \<Rightarrow>
          (let allowed = (if existing then allows_update (sr_permissions w)
                          else allows_create (sr_permissions w))
           in if \<not> allowed then (Inl StPermissionDenied, s1) else f q s1))"

definition sub_put_file ::
  "'s shared_subroot \<Rightarrow> storage_path \<Rightarrow> body \<Rightarrow> ('s, storage_error, file_metadata) eff" where
  "sub_put_file w p b =
     on_translated w p (write_gate w (\<lambda>q. op_put_file (sr_inner w) q b))"

definition sub_mkdir :: "'s shared_subroot \<Rightarrow> storage_path \<Rightarrow> ('s, storage_error, file_metadata) eff" where
  "sub_mkdir w p s =
     (if \<not> allows_create (sr_permissions w) then (Inl StPermissionDenied, s)
      else on_translated w p (op_mkdir (sr_inner w)) s)"

definition sub_delete :: "'s shared_subroot \<Rightarrow> storage_path \<Rightarrow> ('s, storage_error, unit) eff" where
  "sub_delete w p s =
     (if \<not> allows_delete (sr_permissions w) then (Inl StPermissionDenied, s)
      else on_translated w p (op_delete (sr_inner w)) s)"

definition sub_rename ::
  "'s shared_subroot \<Rightarrow> storage_path \<Rightarrow> storage_path \<Rightarrow> ('s, storage_error, unit) eff" where
  "sub_rename w src dst s =
     (if \<not> allows_update (sr_permissions w) then (Inl StPermissionDenied, s)
      else on_translated w src (\<lambda>a. on_translated w dst (\<lambda>b. op_rename (sr_inner w) a b)) s)"

definition sub_copy ::
  "'s shared_subroot \<Rightarrow> storage_path \<Rightarrow> storage_path \<Rightarrow> ('s, storage_error, unit) eff" where
  "sub_copy w src dst s =
     (if \<not> allows_create (sr_permissions w) then (Inl StPermissionDenied, s)
      else on_translated w src (\<lambda>a. on_translated w dst (\<lambda>b. op_copy (sr_inner w) a b)) s)"

definition sub_begin_multipart ::
  "'s shared_subroot \<Rightarrow> storage_path \<Rightarrow> ('s, storage_error, multipart_handle) eff" where
  "sub_begin_multipart w p =
     on_translated w p (write_gate w (op_begin_multipart (sr_inner w)))"

definition shared_subroot_ops :: "'s shared_subroot \<Rightarrow> 's storage_ops" where
  "shared_subroot_ops w = \<lparr>op_id = op_id (sr_inner w), op_stat = sub_stat w,
     op_exists = sub_exists w, op_list = sub_list w, op_read = sub_read w,
     op_read_range = sub_read_range w, op_put_file = sub_put_file w, op_mkdir = sub_mkdir w,
     op_delete = sub_delete w, op_rename = sub_rename w, op_copy = sub_copy w,
     op_begin_multipart = sub_begin_multipart w, op_put_part = op_put_part (sr_inner w),
     op_commit_multipart = op_commit_multipart (sr_inner w),
     op_abort_multipart = op_abort_multipart (sr_inner w)\<rparr>"

text \<open>
  One call of the recipient, failed calls included. A commit or part upload carries a
  handle that an earlier \<open>begin_multipart\<close> of this wrapper returned.
\<close>

inductive share_call :: "'s shared_subroot \<Rightarrow> 's \<Rightarrow> 's \<Rightarrow> bool" for w where
  stat: "path_ok p \<Longrightarrow> sub_stat w p s = (rm, s') \<Longrightarrow> share_call w s s'"
| exists: "path_ok p \<Longrightarrow> sub_exists w p s = (rb, s') \<Longrightarrow> share_call w s s'"
| list: "path_ok p \<Longrightarrow> sub_list w p s = (rl, s') \<Longrightarrow> share_call w s s'"
| read: "path_ok p \<Longrightarrow> sub_read w p s = (ry, s') \<Longrightarrow> share_call w s s'"
| put: "path_ok p \<Longrightarrow> sub_put_file w p b s = (rm, s') \<Longrightarrow> share_call w s s'"
| mkdir: "path_ok p \<Longrightarrow> sub_mkdir w p s = (rm, s') \<Longrightarrow> share_call w s s'"
| delete: "path_ok p \<Longrightarrow> sub_delete w p s = (ru, s') \<Longrightarrow> share_call w s s'"
| rename: "path_ok p \<Longrightarrow> path_ok q \<Longrightarrow> sub_rename w p q s = (ru, s') \<Longrightarrow> share_call w s s'"
| copy: "path_ok p \<Longrightarrow> path_ok q \<Longrightarrow> sub_copy w p q s = (ru, s') \<Longrightarrow> share_call w s s'"
| begin_mp: "path_ok p \<Longrightarrow> sub_begin_multipart w p s = (rh, s') \<Longrightarrow> share_call w s s'"
| put_part: "op_put_part (sr_inner w) h n b s = (rt, s') \<Longrightarrow> share_call w s s'"
| commit: "path_ok p \<Longrightarrow> sub_begin_multipart w p s0 = (Inr h, s1) \<Longrightarrow>
     op_commit_multipart (sr_inner w) h ts s = (rm, s') \<Longrightarrow> share_call w s s'"
| abort: "op_abort_multipart (sr_inner w) h s = (ru, s') \<Longrightarrow> share_call w s s'"

section \<open>Translation\<close>

lemma storage_join_path:
  assumes p: "path_ok p" "as_str p \<noteq> []" and q: "path_ok q" "as_str q \<noteq> []"
    and join: "storage_join p (as_str q) = Inr r"
  shows "segs r = segs p @ segs q"
proof -
  have pop: "pop_while_last (CHR ''/'') (as_str q) = as_str q"
    by (rule storage_path_new_InrD [OF storage_path_new_ok [OF q(1)], THEN conjunct2, symmetric])
  have "as_str r = pop_while_last (CHR ''/'') ((as_str p @ ''/'') @ as_str q)"
    using join p(2) by (auto simp: storage_join_def dest: storage_path_new_InrD)
  also have "\<dots> = as_str p @ CHR ''/'' # as_str q"
    using pop_while_last_append [of "CHR ''/''" "as_str p @ ''/''" "as_str q"] q(2)
    unfolding pop by simp
  finally show ?thesis using p(2) q(2) by (simp add: segs_def split_on_append)
qed

lemma translate_spec:
  assumes "path_ok (sr_owner_path w)" and "path_ok p" and "translate w p = Inr q"
  shows "path_ok q \<and> segs q = segs (sr_owner_path w) @ segs p"
proof -
  consider "is_root p" | "\<not> is_root p" "is_root (sr_owner_path w)"
    | "\<not> is_root p" "\<not> is_root (sr_owner_path w)" by blast
  then show ?thesis
  proof cases
    case 3
    with assms(3) have join: "storage_join (sr_owner_path w) (as_str p) = Inr q"
      by (simp add: translate_def)
    then show ?thesis
      using storage_join_path [OF assms(1) _ assms(2) _ join] 3 storage_join_InrD [OF join]
      by (simp add: is_root_def)
  qed (use assms in \<open>simp_all add: translate_def is_root_def segs_def\<close>)
qed

lemma on_translated_cases:
  "on_translated w p f s = (r, s') \<Longrightarrow> s' = s \<or> (\<exists>q. translate w p = Inr q \<and> f q s = (r, s'))"
  by (auto simp: on_translated_def split: sum.splits)

section \<open>Confinement, for any backend\<close>

text \<open>
  \<open>within owner at s s'\<close>: outside the shared folder nothing that exists changes; only
  missing ancestors of the folder itself may appear.
\<close>

definition within ::
  "storage_path \<Rightarrow> ('s \<Rightarrow> storage_path \<Rightarrow> 'e option) \<Rightarrow> 's \<Rightarrow> 's \<Rightarrow> bool" where
  "within owner at s s' \<longleftrightarrow>
     (\<forall>x. at s' x \<noteq> at s x \<longrightarrow>
        prefix (segs owner) (segs x) \<or> at s x = None \<and> strict_prefix (segs x) (segs owner))"

lemma within_refl [simp]: "within owner at s s"
  by (simp add: within_def)

lemma within_same: "at s' = at s \<Longrightarrow> within owner at s s'"
  by (simp add: within_def)

lemma touches_within:
  assumes "touches at X s s'" and "\<And>q. q \<in> X \<Longrightarrow> prefix (segs owner) (segs q)"
  shows "within owner at s s'"
  unfolding within_def
proof (intro allI impI)
  fix x assume "at s' x \<noteq> at s x"
  with assms(1) consider "x \<in> X" | p where "p \<in> X" "at s x = None" "strict_prefix (segs x) (segs p)"
    unfolding touches_def by blast
  then show "prefix (segs owner) (segs x) \<or> at s x = None \<and> strict_prefix (segs x) (segs owner)"
  proof cases
    case 2
    then have "prefix (segs owner) (segs x) \<or> prefix (segs x) (segs owner)"
      using assms(2) prefix_same_cases prefix_order.less_imp_le by metis
    with 2 show ?thesis by (cases "segs x = segs owner") (auto simp: strict_prefix_def)
  qed (use assms(2) in blast)
qed

lemma within_front: "at s1 = at s \<Longrightarrow> within owner at s1 s' \<Longrightarrow> within owner at s s'"
  by (simp add: within_def)

context storage_frame
begin

lemma on_translated_within:
  assumes owner: "path_ok (sr_owner_path w)" and p: "path_ok p"
    and run: "on_translated w p f s = (r, s')"
    and f: "\<And>q. path_ok q \<Longrightarrow> prefix (segs (sr_owner_path w)) (segs q) \<Longrightarrow> f q s = (r, s') \<Longrightarrow>
              within (sr_owner_path w) at s s'"
  shows "within (sr_owner_path w) at s s'"
proof (cases "translate w p")
  case (Inr q)
  then show ?thesis
    using run translate_spec [OF owner p Inr] f [of q] by (simp add: on_translated_def)
qed (use run in \<open>simp add: on_translated_def\<close>)

lemma write_gate_within:
  assumes w: "sr_inner w = ops" and run: "write_gate w f q s = (r, s')"
    and f: "\<And>s1. f q s1 = (r, s') \<Longrightarrow> within owner at s1 s'"
  shows "within owner at s s'"
proof -
  obtain x s1 where ex: "op_exists ops q s = (x, s1)" by (cases "op_exists ops q s")
  from exists_pure [OF ex] have at: "at s1 = at s" .
  show ?thesis
    using run ex w f [of s1] within_front [OF at] within_same [OF at]
    by (auto simp: write_gate_def Let_def split: sum.splits if_splits)
qed

lemma begin_handle:
  assumes w: "sr_inner w = ops" and owner: "path_ok (sr_owner_path w)" and p: "path_ok p"
    and run: "sub_begin_multipart w p s = (Inr h, s')"
  shows "path_ok (mh_target h) \<and> prefix (segs (sr_owner_path w)) (segs (mh_target h))"
proof -
  from run obtain q where q: "translate w p = Inr q" and gate: "write_gate w (op_begin_multipart ops) q s = (Inr h, s')"
    by (auto simp: sub_begin_multipart_def on_translated_def w split: sum.splits)
  from gate obtain s1 where "op_begin_multipart ops q s1 = (Inr h, s')"
    by (auto simp: write_gate_def Let_def split: sum.splits if_splits prod.splits)
  then have "mh_target h = q" by (rule begin_target)
  then show ?thesis using translate_spec [OF owner p q] by simp
qed

lemma share_call_within:
  assumes w: "sr_inner w = ops" and owner: "path_ok (sr_owner_path w)"
    and call: "share_call w s s'"
  shows "within (sr_owner_path w) at s s'"
  using call
proof cases
  case (stat p rm)
  show ?thesis
  proof (cases "is_create_only w \<and> \<not> is_root p")
    case False
    with stat(2) have "on_translated w p (op_stat ops) s = (rm, s')"
      by (auto simp: sub_stat_def w)
    then show ?thesis
      by (rule on_translated_within [OF owner stat(1)])
        (auto intro: within_same dest: stat_pure)
  qed (use stat in \<open>auto simp: sub_stat_def split: if_splits\<close>)
next
  case (exists p rb)
  show ?thesis
  proof (cases "is_create_only w \<and> \<not> is_root p")
    case False
    with exists(2) have "on_translated w p (op_exists ops) s = (rb, s')"
      by (auto simp: sub_exists_def w)
    then show ?thesis
      by (rule on_translated_within [OF owner exists(1)])
        (auto intro: within_same dest: exists_pure)
  qed (use exists in \<open>auto simp: sub_exists_def split: if_splits\<close>)
next
  case (list p rl)
  show ?thesis
  proof (cases "is_create_only w")
    case False
    with list(2) have "on_translated w p (op_list ops) s = (rl, s')"
      by (auto simp: sub_list_def w)
    then show ?thesis
      by (rule on_translated_within [OF owner list(1)])
        (auto intro: within_same dest: list_pure)
  qed (use list in \<open>auto simp: sub_list_def split: if_splits\<close>)
next
  case (read p ry)
  show ?thesis
  proof (cases "is_create_only w")
    case False
    with read(2) have "on_translated w p (op_read ops) s = (ry, s')"
      by (auto simp: sub_read_def w)
    then show ?thesis
      by (rule on_translated_within [OF owner read(1)])
        (auto intro: within_same dest: read_pure)
  qed (use read in \<open>auto simp: sub_read_def split: if_splits\<close>)
next
  case (put p b rm)
  show ?thesis
    using put(2) unfolding sub_put_file_def w
    by (rule on_translated_within [OF owner put(1)], elim write_gate_within [OF w])
      (auto intro: touches_within [OF put_touches])
next
  case (mkdir p rm)
  show ?thesis
  proof (cases "allows_create (sr_permissions w)")
    case True
    with mkdir(2) have "on_translated w p (op_mkdir ops) s = (rm, s')"
      by (simp add: sub_mkdir_def w)
    then show ?thesis
      by (rule on_translated_within [OF owner mkdir(1)])
        (auto intro: touches_within [OF mkdir_touches])
  qed (use mkdir in \<open>simp add: sub_mkdir_def\<close>)
next
  case (delete p ru)
  show ?thesis
  proof (cases "allows_delete (sr_permissions w)")
    case True
    with delete(2) have "on_translated w p (op_delete ops) s = (ru, s')"
      by (simp add: sub_delete_def w)
    then show ?thesis
      by (rule on_translated_within [OF owner delete(1)])
        (auto intro: touches_within [OF delete_touches])
  qed (use delete in \<open>simp add: sub_delete_def\<close>)
next
  case (rename p q ru)
  show ?thesis
  proof (cases "allows_update (sr_permissions w)")
    case True
    with rename(3) have
      "on_translated w p (\<lambda>a. on_translated w q (\<lambda>b. op_rename ops a b)) s = (ru, s')"
      by (simp add: sub_rename_def w)
    then show ?thesis
      by (rule on_translated_within [OF owner rename(1)],
          elim on_translated_within [OF owner rename(2)])
        (auto intro: touches_within [OF rename_touches])
  qed (use rename in \<open>simp add: sub_rename_def\<close>)
next
  case (copy p q ru)
  show ?thesis
  proof (cases "allows_create (sr_permissions w)")
    case True
    with copy(3) have
      "on_translated w p (\<lambda>a. on_translated w q (\<lambda>b. op_copy ops a b)) s = (ru, s')"
      by (simp add: sub_copy_def w)
    then show ?thesis
      by (rule on_translated_within [OF owner copy(1)],
          elim on_translated_within [OF owner copy(2)])
        (auto intro: touches_within [OF copy_touches])
  qed (use copy in \<open>simp add: sub_copy_def\<close>)
next
  case (begin_mp p rh)
  show ?thesis
    using begin_mp(2) unfolding sub_begin_multipart_def w
    by (rule on_translated_within [OF owner begin_mp(1)], elim write_gate_within [OF w])
      (auto intro: within_same begin_pure)
next
  case (put_part h n b rt)
  then show ?thesis using put_part_pure by (auto simp: w intro: within_same)
next
  case (commit p s0 h s1 ts rm)
  have "op_commit_multipart ops h ts s = (rm, s')" using commit(3) by (simp add: w)
  then show ?thesis
    using begin_handle [OF w owner commit(1,2)]
    by (auto intro: touches_within [OF commit_touches])
next
  case (abort h ru)
  then show ?thesis using abort_pure by (auto simp: w intro: within_same)
qed

text \<open>Without the update, create and delete bits no call changes the storage.\<close>

lemma write_gate_denied:
  assumes w: "sr_inner w = ops" and "\<not> allows_update (sr_permissions w)"
    and "\<not> allows_create (sr_permissions w)" and run: "write_gate w f q s = (r, s')"
  shows "at s' = at s \<and> (\<exists>e. r = Inl e)"
  using assms exists_pure
  by (auto simp: write_gate_def Let_def split: sum.splits prod.splits if_splits)

lemma readonly_call:
  assumes w: "sr_inner w = ops" and u: "\<not> allows_update (sr_permissions w)"
    and c: "\<not> allows_create (sr_permissions w)" and d: "\<not> allows_delete (sr_permissions w)"
    and call: "share_call w s s'"
  shows "at s' = at s"
  using call
proof cases
  case (stat p rm)
  then show ?thesis
    by (auto simp: sub_stat_def w split: if_splits dest!: on_translated_cases dest: stat_pure)
next
  case (exists p rb)
  then show ?thesis
    by (auto simp: sub_exists_def w split: if_splits dest!: on_translated_cases dest: exists_pure)
next
  case (list p rl)
  then show ?thesis
    by (auto simp: sub_list_def w split: if_splits dest!: on_translated_cases dest: list_pure)
next
  case (read p ry)
  then show ?thesis
    by (auto simp: sub_read_def w split: if_splits dest!: on_translated_cases dest: read_pure)
next
  case (put p b rm)
  show ?thesis
    using on_translated_cases [OF put(2) [unfolded sub_put_file_def]] write_gate_denied [OF w u c]
    by blast
next
  case (begin_mp p rh)
  show ?thesis
    using on_translated_cases [OF begin_mp(2) [unfolded sub_begin_multipart_def]]
      write_gate_denied [OF w u c] by blast
next
  case (put_part h n b rt)
  then show ?thesis using put_part_pure w by metis
next
  case (commit p s0 h s1 ts rm)
  from commit(2) obtain q where
    "write_gate w (op_begin_multipart (sr_inner w)) q s0 = (Inr h, s1)"
    by (auto simp: sub_begin_multipart_def on_translated_def split: sum.splits)
  from write_gate_denied [OF w u c this] have False by simp
  then show ?thesis ..
next
  case (abort h ru)
  then show ?thesis using abort_pure w by metis
qed (use u c d in \<open>auto simp: sub_mkdir_def sub_delete_def sub_rename_def sub_copy_def\<close>)

end

lemma gate_success:
  assumes w: "sr_inner w = mem_ops" and run: "on_translated w p (write_gate w f) st = (Inr y, st')"
  shows "\<exists>q. translate w p = Inr q \<and>
               (if entry_at st q \<noteq> None then allows_update (sr_permissions w)
                else allows_create (sr_permissions w))"
proof -
  from run obtain q where q: "translate w p = Inr q" and g: "write_gate w f q st = (Inr y, st')"
    by (auto simp: on_translated_def split: sum.splits)
  have ex: "op_exists (sr_inner w) q st = (Inr (entry_at st q \<noteq> None), st)"
    by (simp add: w mem_ops_def mem_exists_def)
  show ?thesis using g q by (auto simp: write_gate_def ex Let_def split: if_splits)
qed

section \<open>Properties\<close>





text \<open>
  Each operation that succeeds through a share had the permission bit it needs: a
  write or an upload needs the update bit on an existing target and the create bit on a
  new one, a directory or a copy needs create, a deletion delete, a rename update.
\<close>

theorem share_success_needs_bit:
  assumes w: "sr_inner w = mem_ops"
  shows "(sub_put_file w p b st = (Inr md, st') \<longrightarrow>
            (\<exists>q. translate w p = Inr q \<and>
               (if entry_at st q \<noteq> None then allows_update (sr_permissions w)
                else allows_create (sr_permissions w))))
    \<and> (sub_begin_multipart w p st = (Inr h, st') \<longrightarrow>
            (\<exists>q. translate w p = Inr q \<and>
               (if entry_at st q \<noteq> None then allows_update (sr_permissions w)
                else allows_create (sr_permissions w))))
    \<and> (sub_mkdir w p st = (Inr md, st') \<longrightarrow> allows_create (sr_permissions w))
    \<and> (sub_copy w p p' st = (Inr u, st') \<longrightarrow> allows_create (sr_permissions w))
    \<and> (sub_delete w p st = (Inr u, st') \<longrightarrow> allows_delete (sr_permissions w))
    \<and> (sub_rename w p p' st = (Inr u, st') \<longrightarrow> allows_update (sr_permissions w))"
proof (intro conjI impI)
  show "\<exists>q. translate w p = Inr q \<and>
               (if entry_at st q \<noteq> None then allows_update (sr_permissions w)
                else allows_create (sr_permissions w))"
    if "sub_put_file w p b st = (Inr md, st')"
    using that unfolding sub_put_file_def by (rule gate_success [OF w])
  show "\<exists>q. translate w p = Inr q \<and>
               (if entry_at st q \<noteq> None then allows_update (sr_permissions w)
                else allows_create (sr_permissions w))"
    if "sub_begin_multipart w p st = (Inr h, st')"
    using that unfolding sub_begin_multipart_def by (rule gate_success [OF w])
qed (auto simp: sub_mkdir_def sub_copy_def sub_delete_def sub_rename_def split: if_splits)

theorem share_success_needs_bit_witness:
  "\<not> (\<exists>u st'. sub_delete
        \<lparr>sr_inner = mem_ops, sr_owner_path = StoragePath ''d'', sr_permissions = SharePermissions 7\<rparr>
        (StoragePath ''x'') (mem_new ''m'' sample_world) = (Inr u, st'))"
proof -
  let ?w = "\<lparr>sr_inner = mem_ops, sr_owner_path = StoragePath ''d'',
             sr_permissions = SharePermissions 7\<rparr>"
  have w: "sr_inner ?w = mem_ops" by simp
  have "\<not> allows_delete (sr_permissions ?w)" by (simp add: perm_bits_iff)
  then show ?thesis using share_success_needs_bit [OF w] by blast
qed

text \<open>
  A file-drop share (create without read) reveals nothing of the folder: reads,
  listings below the root, stats and existence checks below the root are refused, and
  the root lists as empty, whatever the owner's storage holds.
\<close>

theorem create_only_hides:
  assumes "is_create_only w"
  shows "sub_read w p s = (Inl StPermissionDenied, s)
    \<and> sub_read_range w p a b s = Some (Inl StPermissionDenied)
    \<and> sub_list w p s = ((if is_root p then Inr [] else Inl StPermissionDenied), s)
    \<and> (\<not> is_root p \<longrightarrow> sub_stat w p s = (Inl StPermissionDenied, s)
         \<and> sub_exists w p s = (Inl StPermissionDenied, s))"
  using assms
  by (simp add: sub_read_def sub_read_range_def sub_list_def sub_stat_def sub_exists_def)

theorem create_only_hides_witness:
  "sub_read \<lparr>sr_inner = mem_ops, sr_owner_path = storage_root, sr_permissions = SharePermissions 4\<rparr>
     (StoragePath ''x'') (mem_new ''m'' sample_world)
   = (Inl StPermissionDenied, mem_new ''m'' sample_world)"
proof -
  have "is_create_only \<lparr>sr_inner = mem_ops, sr_owner_path = storage_root,
      sr_permissions = SharePermissions 4\<rparr>"
    by (simp add: is_create_only_def perm_bits_iff)
  from create_only_hides [OF this] show ?thesis by blast
qed

end
