(* ===== verification/Text.thy ===== *)
theory Text
  imports Prelude
begin

text \<open>
  The rest of the \<open>str\<close> operations the parsers use: trimming, \<open>find\<close> of a substring,
  \<open>split_once\<close>, ASCII case-insensitive equality, and \<open>str::parse\<close> of the integer types
  with their overflow checks. A byte string here is the UTF-8 text of a \<open>String\<close>. Header
  values are ASCII, so their trimming takes single bytes; \<open>str_trim\<close> handles the multi-byte
  encodings of Unicode white space too.
\<close>

section \<open>Trimming and searching\<close>

definition is_ascii_space :: "char \<Rightarrow> bool" where
  "is_ascii_space c \<longleftrightarrow> (of_char c :: nat) = 32 \<or> 9 \<le> (of_char c :: nat) \<and> (of_char c :: nat) \<le> 13"

definition trim_start_by :: "(char \<Rightarrow> bool) \<Rightarrow> string \<Rightarrow> string" where
  "trim_start_by f s = dropWhile f s"

definition trim_end_by :: "(char \<Rightarrow> bool) \<Rightarrow> string \<Rightarrow> string" where
  "trim_end_by f s = rev (dropWhile f (rev s))"

definition trim_by :: "(char \<Rightarrow> bool) \<Rightarrow> string \<Rightarrow> string" where
  "trim_by f s = trim_end_by f (trim_start_by f s)"

abbreviation trim :: "string \<Rightarrow> string" where
  "trim \<equiv> trim_by is_ascii_space"

lemma trim_start_id: "s = [] \<or> \<not> f (hd s) \<Longrightarrow> trim_start_by f s = s"
  unfolding trim_start_by_def by (cases s) auto

lemma trim_end_id: "s = [] \<or> \<not> f (last s) \<Longrightarrow> trim_end_by f s = s"
  unfolding trim_end_by_def by (cases s rule: rev_cases) auto

lemma trim_id:
  assumes "\<forall>c \<in> set s. \<not> f c"
  shows "trim_by f s = s"
proof -
  have "trim_start_by f s = s"
    using assms by (intro trim_start_id) (cases s, simp_all)
  moreover have "trim_end_by f s = s"
    using assms by (intro trim_end_id) (cases s rule: rev_cases, simp_all)
  ultimately show ?thesis by (simp add: trim_by_def)
qed

lemma set_trim_start: "set (trim_start_by f s) \<subseteq> set s"
  unfolding trim_start_by_def by (meson set_dropWhileD subsetI)

lemma set_trim_end: "set (trim_end_by f s) \<subseteq> set s"
  unfolding trim_end_by_def using set_dropWhileD [of _ f "rev s"] by auto

lemma set_trim: "set (trim_by f s) \<subseteq> set s"
  unfolding trim_by_def using set_trim_start set_trim_end by blast

lemma trim_start_hd: "trim_start_by f s \<noteq> [] \<Longrightarrow> \<not> f (hd (trim_start_by f s))"
  unfolding trim_start_by_def by (rule hd_dropWhile)

lemma trim_end_last: "trim_end_by f s \<noteq> [] \<Longrightarrow> \<not> f (last (trim_end_by f s))"
proof -
  assume "trim_end_by f s \<noteq> []"
  then have ne: "dropWhile f (rev s) \<noteq> []" by (simp add: trim_end_by_def)
  then have "\<not> f (hd (dropWhile f (rev s)))" by (rule hd_dropWhile)
  with ne show ?thesis by (simp add: trim_end_by_def last_rev)
qed

text \<open>
  White space of any \<open>String\<close>: the code points with the property \<open>White_Space\<close>, as their
  UTF-8 encodings. The length of the encoding a string starts with, 0 for none.
\<close>

definition multi_byte_spaces :: "nat list list" where
  "multi_byte_spaces =
     [[0xC2, 0x85], [0xC2, 0xA0], [0xE1, 0x9A, 0x80], [0xE2, 0x80, 0xA8], [0xE2, 0x80, 0xA9],
      [0xE2, 0x80, 0xAF], [0xE2, 0x81, 0x9F], [0xE3, 0x80, 0x80]]
     @ map (\<lambda>b. [0xE2, 0x80, b]) [0x80 ..< 0x8B]"

definition is_space_enc :: "string \<Rightarrow> bool" where
  "is_space_enc e =
     (length e = 1 \<and> is_ascii_space (hd e) \<or> map of_char e \<in> set multi_byte_spaces)"

definition space_prefix :: "string \<Rightarrow> nat" where
  "space_prefix s =
     (if s \<noteq> [] \<and> is_space_enc (take 1 s) then 1
      else if 2 \<le> length s \<and> is_space_enc (take 2 s) then 2
      else if 3 \<le> length s \<and> is_space_enc (take 3 s) then 3
      else 0)"

definition space_suffix :: "string \<Rightarrow> nat" where
  "space_suffix s =
     (let ends = (\<lambda>k. k \<le> length s \<and> is_space_enc (drop (length s - k) s)) in
      if s \<noteq> [] \<and> ends 1 then 1 else if ends 2 then 2 else if ends 3 then 3 else 0)"

function str_trim_start :: "string \<Rightarrow> string" where
  "str_trim_start s = (if space_prefix s = 0 then s else str_trim_start (drop (space_prefix s) s))"
  by pat_completeness auto
termination
  by (relation "measure length") (auto simp: space_prefix_def split: if_splits)

function str_trim_end :: "string \<Rightarrow> string" where
  "str_trim_end s =
     (if space_suffix s = 0 then s else str_trim_end (take (length s - space_suffix s) s))"
  by pat_completeness auto
termination
  by (relation "measure length") (auto simp: space_suffix_def Let_def split: if_splits)

declare str_trim_start.simps [simp del] str_trim_end.simps [simp del]

text \<open>\<open>str::trim\<close>.\<close>

definition str_trim :: "string \<Rightarrow> string" where
  "str_trim s = str_trim_end (str_trim_start s)"

text \<open>\<open>str::find(&str)\<close>: the index of the first occurrence of a substring.\<close>

fun find_sub :: "string \<Rightarrow> string \<Rightarrow> nat option" where
  "find_sub p [] = (if p = [] then Some 0 else None)"
| "find_sub p (x # xs) = (if prefix p (x # xs) then Some 0 else map_option Suc (find_sub p xs))"

lemma find_sub_None_iff: "find_sub p s = None \<longleftrightarrow> \<not> sublist p s"
  by (induction s) (auto simp: sublist_Cons_right)

lemma find_sub_SomeD: "find_sub p s = Some i \<Longrightarrow> i \<le> length s \<and> prefix p (drop i s)"
  by (induction s arbitrary: i) (auto split: if_splits)

text \<open>\<open>str::split_once(char)\<close>.\<close>

definition split_once :: "char \<Rightarrow> string \<Rightarrow> (string \<times> string) option" where
  "split_once c s = map_option (\<lambda>i. (take i s, drop (Suc i) s)) (find_idx c s)"

lemma find_idx_append: "c \<notin> set a \<Longrightarrow> find_idx c (a @ c # b) = Some (length a)"
  by (induction a) auto

lemma split_once_append [simp]: "c \<notin> set a \<Longrightarrow> split_once c (a @ c # b) = Some (a, b)"
  by (simp add: split_once_def find_idx_append)

lemma split_once_SomeD: "split_once c s = Some (a, b) \<Longrightarrow> s = a @ c # b \<and> c \<notin> set a"
  using find_idx_SomeD by (fastforce simp: split_once_def)

lemma split_once_None_iff: "split_once c s = None \<longleftrightarrow> c \<notin> set s"
  by (simp add: split_once_def find_idx_None_iff)

definition eq_ignore_ascii_case :: "string \<Rightarrow> string \<Rightarrow> bool" where
  "eq_ignore_ascii_case a b \<longleftrightarrow> ascii_lower a = ascii_lower b"

section \<open>Parsing integers\<close>

text \<open>\<open>from_str_radix(10)\<close> on the digits: \<open>None\<close> at the first byte that is no digit.\<close>

definition digit_val :: "char \<Rightarrow> nat" where
  "digit_val c = of_char c - 48"

fun parse_digits :: "nat \<Rightarrow> string \<Rightarrow> nat option" where
  "parse_digits acc [] = Some acc"
| "parse_digits acc (c # cs) =
     (if is_ascii_digit c then parse_digits (10 * acc + digit_val c) cs else None)"

definition parse_nat :: "string \<Rightarrow> nat option" where
  "parse_nat s = (if s = [] then None else parse_digits 0 s)"

text \<open>
  An unsigned type takes an optional \<open>+\<close>; a sign alone is an error, and so is a value
  outside the type.
\<close>

definition strip_plus :: "string \<Rightarrow> string" where
  "strip_plus s = (case s of [] \<Rightarrow> [] | c # r \<Rightarrow> if c = CHR ''+'' then r else s)"

definition parse_u64 :: "string \<Rightarrow> u64 option" where
  "parse_u64 s =
     (case parse_nat (strip_plus s) of
        None \<Rightarrow> None
      | Some n \<Rightarrow> if n < 2 ^ 64 then Some (of_nat n) else None)"

definition parse_i64 :: "string \<Rightarrow> i64 option" where
  "parse_i64 s =
     (if s \<noteq> [] \<and> hd s = CHR ''-'' then
        (case parse_nat (tl s) of
           None \<Rightarrow> None
         | Some n \<Rightarrow> if n \<le> 2 ^ 63 then Some (- of_nat n) else None)
      else
        (case parse_nat (strip_plus s) of
           None \<Rightarrow> None
         | Some n \<Rightarrow> if n < 2 ^ 63 then Some (of_nat n) else None))"

lemma digit_val_digit_char [simp]: "d < 10 \<Longrightarrow> digit_val (digit_char d) = d"
  by (simp add: digit_val_def digit_char_def)

lemma parse_digits_append:
  "parse_digits acc (s @ t) =
     (case parse_digits acc s of None \<Rightarrow> None | Some a \<Rightarrow> parse_digits a t)"
  by (induction s arbitrary: acc) auto

lemma parse_show_digits: "parse_digits 0 (show_nat n) = Some n"
proof (induction n rule: show_nat.induct)
  case (1 n)
  show ?case
  proof (cases "n < 10")
    case True
    then show ?thesis by (subst show_nat.simps) (simp add: digit_char_digit)
  next
    case False
    with 1 have "parse_digits 0 (show_nat (n div 10)) = Some (n div 10)" by blast
    then show ?thesis using False
      by (subst show_nat.simps) (simp add: parse_digits_append digit_char_digit)
  qed
qed

lemma parse_nat_show [simp]: "parse_nat (show_nat n) = Some n"
  by (simp add: parse_nat_def parse_show_digits)

lemma show_nat_not: "\<not> is_ascii_digit c \<Longrightarrow> c \<notin> set (show_nat n)"
  using show_nat_digits by blast

lemma hd_show_nat: "is_ascii_digit (hd (show_nat n))"
  by (rule show_nat_digits) (rule hd_in_set, rule show_nat_ne)

lemma strip_plus_show [simp]: "strip_plus (show_nat n) = show_nat n"
proof -
  have "hd (show_nat n) \<noteq> CHR ''+''"
    using hd_show_nat [of n] by (auto simp: is_ascii_digit_def)
  then show ?thesis by (auto simp: strip_plus_def split: list.split)
qed

lemma parse_u64_show: "parse_u64 (show_nat n) = (if n < 2 ^ 64 then Some (of_nat n) else None)"
  by (simp add: parse_u64_def)

lemma parse_u64_show_unat [simp]: "parse_u64 (show_nat (unat (w :: u64))) = Some w"
  using unsigned_less [of w] by (simp add: parse_u64_def)

lemma parse_i64_show: "parse_i64 (show_nat n) = (if n < 2 ^ 63 then Some (of_nat n) else None)"
proof -
  have "hd (show_nat n) \<noteq> CHR ''-''"
    using hd_show_nat [of n] by (auto simp: is_ascii_digit_def)
  then show ?thesis by (simp add: parse_i64_def)
qed

lemma comma_no_digit: "\<not> is_ascii_digit (CHR '','')" "\<not> is_ascii_digit (CHR ''-'')"
  "\<not> is_ascii_digit (CHR ''/'')" "\<not> is_ascii_digit (CHR ''.'')"
  by (simp_all add: is_ascii_digit_def)

lemma show_nat_inj: "show_nat a = show_nat b \<Longrightarrow> a = b"
  by (metis option.inject parse_nat_show)

lemma show_nat_no_minus: "hd (show_nat n) \<noteq> CHR ''-''"
  using hd_show_nat [of n] comma_no_digit(2) by auto

lemma show_int_inj: "show_int a = show_int b \<Longrightarrow> a = b"
  using show_nat_no_minus [of "nat a"] show_nat_no_minus [of "nat b"]
  by (auto simp: show_int_def dest!: show_nat_inj split: if_splits) (metis list.sel(1))+

end
