(* ===== verification/DavHeaders.thy ===== *)
theory DavHeaders
  imports Text FsPaths
begin

text \<open>
  The WebDAV surface's errors (crabcloud-http, src/routes/dav/error.rs) and header parsers
  (src/routes/dav/headers.rs): Depth, Overwrite, Destination, Range, If-Match,
  If-None-Match, If, Lock-Token and Timeout. The lemmas bound what a parsed range or
  timeout can be, show that a well-formed header is read back exactly, and that a parsed
  destination names one user.
\<close>

section \<open>Errors and their responses\<close>

datatype dav_error =
    DavNotFound
  | DavForbidden
  | DavConflict
  | DavPreconditionFailed
  | DavLocked
  | DavRangeNotSatisfiable u64
  | DavPropfindFiniteDepth
  | DavBadRequest string
  | DavInternal string
  | DavStorage storage_error
  | DavFileCache filecache_error
  | DavFs fs_error

text \<open>\<open>IntoResponse\<close>: the status code and the headers set besides it; the body text is left out.\<close>

fun dav_status :: "dav_error \<Rightarrow> nat" where
  "dav_status DavNotFound = 404"
| "dav_status DavForbidden = 403"
| "dav_status DavConflict = 409"
| "dav_status DavPreconditionFailed = 412"
| "dav_status DavLocked = 423"
| "dav_status (DavRangeNotSatisfiable n) = 416"
| "dav_status DavPropfindFiniteDepth = 403"
| "dav_status (DavBadRequest m) = 400"
| "dav_status (DavInternal m) = 500"
| "dav_status (DavStorage e) =
     (case e of
        StNotFound \<Rightarrow> 404
      | StAlreadyExists \<Rightarrow> 405
      | StNotEmpty \<Rightarrow> 409
      | StPermissionDenied \<Rightarrow> 403
      | StInvalidPath m \<Rightarrow> 400
      | _ \<Rightarrow> 500)"
| "dav_status (DavFileCache e) =
     (case e of FcNotFound \<Rightarrow> 404 | FcStorage StNotFound \<Rightarrow> 404 | _ \<Rightarrow> 500)"
| "dav_status (DavFs e) =
     (case e of
        FsNotFound \<Rightarrow> 404
      | FsInvalidPath m \<Rightarrow> 400
      | FsCrossMount \<Rightarrow> 502
      | FsStorage StNotFound \<Rightarrow> 404
      | FsStorage StPermissionDenied \<Rightarrow> 403
      | FsFileCache FcNotFound \<Rightarrow> 404
      | _ \<Rightarrow> 500)"

fun dav_error_headers :: "dav_error \<Rightarrow> (string \<times> string) list" where
  "dav_error_headers (DavRangeNotSatisfiable n) = [(''content-range'', ''bytes */'' @ show_nat (unat n))]"
| "dav_error_headers DavPropfindFiniteDepth = [(''content-type'', ''application/xml; charset=utf-8'')]"
| "dav_error_headers _ = []"

section \<open>Header values\<close>

text \<open>
  A request's headers give the first value under a name; \<open>HeaderValue::to_str\<close> fails on a
  value with a byte that is neither visible ASCII nor a tab.
\<close>

type_synonym headers = "string \<Rightarrow> string option"

definition visible_ascii :: "char \<Rightarrow> bool" where
  "visible_ascii c \<longleftrightarrow> 32 \<le> (of_char c :: nat) \<and> (of_char c :: nat) < 127 \<or> (of_char c :: nat) = 9"

definition header_str :: "headers \<Rightarrow> string \<Rightarrow> string option" where
  "header_str h name =
     (case h name of
        None \<Rightarrow> None
      | Some v \<Rightarrow> if list_all visible_ascii v then Some v else None)"

datatype depth = Depth_Zero | Depth_One | Depth_Infinity

definition parse_depth :: "headers \<Rightarrow> depth \<Rightarrow> dav_error + depth" where
  "parse_depth h d =
     (case header_str h ''depth'' of
        None \<Rightarrow> Inr d
      | Some v \<Rightarrow>
          if v = ''0'' then Inr Depth_Zero
          else if v = ''1'' then Inr Depth_One
          else if v = ''infinity'' then Inr Depth_Infinity
          else Inl (DavBadRequest (''invalid Depth: '' @ v)))"

definition parse_overwrite :: "headers \<Rightarrow> dav_error + bool" where
  "parse_overwrite h =
     (case header_str h ''overwrite'' of
        None \<Rightarrow> Inr True
      | Some v \<Rightarrow>
          if v = ''T'' then Inr True
          else if v = ''F'' then Inr False
          else Inl (DavBadRequest (''invalid Overwrite: '' @ v)))"

text \<open>The scheme and host are whatever stands before the first \<open>://\<close> and the next \<open>/\<close>.\<close>

definition destination_path :: "string \<Rightarrow> dav_error + string" where
  "destination_path raw =
     (case find_sub ''://'' raw of
        Some i \<Rightarrow>
          (let after_scheme = drop (i + 3) raw
           in case find_idx (CHR ''/'') after_scheme of
                Some slash \<Rightarrow> Inr (drop slash after_scheme)
              | None \<Rightarrow> Inl (DavBadRequest ''Destination missing path''))
      | None \<Rightarrow> Inr raw)"

definition parse_destination_files :: "headers \<Rightarrow> dav_error + string \<times> string" where
  "parse_destination_files h =
     rbind (ok_or (DavBadRequest ''missing Destination header'') (header_str h ''destination'')) (\<lambda>raw.
     rbind (destination_path raw) (\<lambda>path.
     rbind (ok_or (DavBadRequest (''Destination not under /dav/files/: '' @ raw))
              (case strip_prefix ''/remote.php/dav/files/'' path of
                 Some r \<Rightarrow> Some r
               | None \<Rightarrow> strip_prefix ''/dav/files/'' path)) (\<lambda>after_files.
     case find_idx (CHR ''/'') after_files of
       Some slash \<Rightarrow> Inr (take slash after_files, drop (slash + 1) after_files)
     | None \<Rightarrow> Inr (after_files, []))))"

text \<open>A half-open byte range; the \<open>end + 1\<close> of the source is the 64-bit addition.\<close>

definition range_of :: "u64 \<Rightarrow> string \<Rightarrow> string \<Rightarrow> dav_error + u64 \<times> u64" where
  "range_of file_size start_s end_s =
     (let bad = DavRangeNotSatisfiable file_size in
      if start_s \<noteq> [] \<and> end_s \<noteq> [] then
        rbind (ok_or bad (parse_u64 start_s)) (\<lambda>start.
        rbind (ok_or bad (parse_u64 end_s)) (\<lambda>end'.
        if end' < start \<or> file_size \<le> end' then Inl bad else Inr (start, end' + 1)))
      else if start_s \<noteq> [] then
        rbind (ok_or bad (parse_u64 start_s)) (\<lambda>start.
        if file_size \<le> start then Inl bad else Inr (start, file_size))
      else if end_s \<noteq> [] then
        rbind (ok_or bad (parse_u64 end_s)) (\<lambda>suffix.
        if suffix = 0 \<or> file_size < suffix then Inl bad else Inr (file_size - suffix, file_size))
      else Inl bad)"

definition parse_range :: "headers \<Rightarrow> u64 \<Rightarrow> dav_error + (u64 \<times> u64) option" where
  "parse_range h file_size =
     (case header_str h ''range'' of
        None \<Rightarrow> Inr None
      | Some raw \<Rightarrow>
          rbind (ok_or (DavRangeNotSatisfiable file_size) (strip_prefix ''bytes='' raw)) (\<lambda>rest.
          if CHR '','' \<in> set rest then Inl (DavRangeNotSatisfiable file_size)
          else
            rbind (ok_or (DavRangeNotSatisfiable file_size) (split_once (CHR ''-'') rest)) (\<lambda>(start_s, end_s).
            rbind (range_of file_size start_s end_s) (\<lambda>r. Inr (Some r)))))"

datatype if_match = IfMatch_Absent | IfMatch_Wildcard | IfMatch_Etag string

definition parse_if_match :: "headers \<Rightarrow> if_match" where
  "parse_if_match h =
     (case header_str h ''if-match'' of
        None \<Rightarrow> IfMatch_Absent
      | Some raw \<Rightarrow>
          if raw = ''*'' then IfMatch_Wildcard
          else IfMatch_Etag (trim_by (\<lambda>c. c = CHR 0x22) (trim raw)))"

definition parse_if_none_match_wildcard :: "headers \<Rightarrow> bool" where
  "parse_if_none_match_wildcard h =
     (case header_str h ''if-none-match'' of None \<Rightarrow> False | Some s \<Rightarrow> trim s = ''*'')"

text \<open>
  The token scanner: after a \<open><\<close> everything up to the next \<open>>\<close>, or to the end of the
  value, is one token; an empty one is dropped.
\<close>

function scan_tokens :: "string \<Rightarrow> string list" where
  "scan_tokens [] = []"
| "scan_tokens (c # cs) =
     (if c = CHR ''<'' then
        (let t = takeWhile (\<lambda>x. x \<noteq> CHR ''>'') cs;
             rest = drop 1 (dropWhile (\<lambda>x. x \<noteq> CHR ''>'') cs)
         in (if t = [] then [] else [t]) @ scan_tokens rest)
      else scan_tokens cs)"
  by pat_completeness auto
termination
  by (relation "measure length") (auto simp: less_Suc_eq_le intro: le_trans [OF diff_le_self] length_dropWhile_le)

definition parse_if_tokens :: "headers \<Rightarrow> string list" where
  "parse_if_tokens h = (case header_str h ''if'' of None \<Rightarrow> [] | Some raw \<Rightarrow> scan_tokens raw)"

definition parse_lock_token :: "headers \<Rightarrow> string option" where
  "parse_lock_token h =
     (case header_str h ''lock-token'' of
        None \<Rightarrow> None
      | Some raw \<Rightarrow>
          (let inner = trim_end_by (\<lambda>c. c = CHR ''>'') (trim_start_by (\<lambda>c. c = CHR ''<'') (trim raw))
           in if inner = [] then None else Some inner))"

definition DEFAULT_TTL :: i64 where "DEFAULT_TTL = 1800"
definition MAX_TTL :: i64 where "MAX_TTL = 1800"

text \<open>\<open>Ord::clamp\<close> on \<open>i64\<close>, a signed comparison.\<close>

definition clamp_i64 :: "i64 \<Rightarrow> i64 \<Rightarrow> i64 \<Rightarrow> i64" where
  "clamp_i64 lo hi v = (if v <s lo then lo else if hi <s v then hi else v)"

definition timeout_of_part :: "string \<Rightarrow> i64 option" where
  "timeout_of_part part =
     (let p = trim part in
      if eq_ignore_ascii_case p ''infinite'' then Some MAX_TTL
      else case (case strip_prefix ''Second-'' p of Some n \<Rightarrow> Some n | None \<Rightarrow> strip_prefix ''second-'' p) of
             None \<Rightarrow> None
           | Some n \<Rightarrow> map_option (clamp_i64 0 MAX_TTL) (parse_i64 n))"

fun first_timeout :: "string list \<Rightarrow> i64" where
  "first_timeout [] = DEFAULT_TTL"
| "first_timeout (part # parts) =
     (case timeout_of_part part of Some v \<Rightarrow> v | None \<Rightarrow> first_timeout parts)"

definition parse_timeout :: "headers \<Rightarrow> i64" where
  "parse_timeout h =
     (case header_str h ''timeout'' of
        None \<Rightarrow> DEFAULT_TTL
      | Some raw \<Rightarrow> first_timeout (split_on (CHR '','') raw))"

section \<open>Properties\<close>

lemma header_str_Some: "header_str h n = Some v \<Longrightarrow> h n = Some v \<and> list_all visible_ascii v"
  by (auto simp: header_str_def split: option.splits if_splits)

subsection \<open>Ranges\<close>

lemma unat_plus_one: "x < n \<Longrightarrow> unat (x + 1) = Suc (unat x)" for x n :: u64
proof -
  assume "x < n"
  then have "unat x + 1 < 2 ^ 64"
    using unsigned_less [of n, where ?'a = nat] by (simp add: word_less_nat_alt)
  then show ?thesis by (simp add: unat_word_ariths(1))
qed

lemma range_of_bounds:
  assumes "range_of n a b = Inr (s, e)"
  shows "unat s < unat e \<and> unat e \<le> unat n"
proof -
  have plus: "s < x + 1" "unat (x + 1) \<le> unat n" if "s \<le> x" "x < n" for x
    using that by (simp_all add: unat_plus_one word_less_nat_alt word_le_nat_alt)
  have suf: "n - x < n" if "x \<noteq> 0" "x \<le> n" for x n :: u64
  proof -
    have "0 < unat x" using that(1) by (simp add: unat_gt_0)
    with that(2) show ?thesis by (simp add: word_less_nat_alt unat_sub word_le_nat_alt)
  qed
  from assms show ?thesis
    unfolding range_of_def Let_def ok_or_def
    by (auto simp: plus suf not_le not_less word_less_nat_alt [symmetric]
        split: if_splits option.splits)
qed

text \<open>
  A range that is accepted is a non-empty interval of the file: \<open>start < end \<le> size\<close>, so
  the slice the handler then reads exists and the 64-bit \<open>end + 1\<close> does not wrap.
\<close>

theorem parse_range_bounds:
  assumes "parse_range h n = Inr (Some (s, e))"
  shows "unat s < unat e \<and> unat e \<le> unat n"
  using assms unfolding parse_range_def
  by (auto simp: rbind_Inr_iff dest!: range_of_bounds split: option.splits if_splits)

theorem parse_range_bounds_witness:
  "unat (10 :: u64) < unat (20 :: u64) \<and> unat (20 :: u64) \<le> unat (100 :: u64)"
proof (rule parse_range_bounds [of "(\<lambda>_. None)(''range'' := Some ''bytes=10-19'')"])
  show "parse_range ((\<lambda>_. None)(''range'' := Some ''bytes=10-19'')) 100 = Inr (Some (10, 20))"
    by (simp add: parse_range_def header_str_def visible_ascii_def strip_prefix_def split_once_def
        range_of_def Let_def parse_u64_def parse_nat_def strip_plus_def is_ascii_digit_def digit_val_def)
qed

lemma visible_digit: "is_ascii_digit c \<Longrightarrow> visible_ascii c"
  by (auto simp: is_ascii_digit_def visible_ascii_def)

lemma visible_show_nat [simp]: "list_all visible_ascii (show_nat n)"
  by (auto simp: list_all_iff intro: visible_digit show_nat_digits)

lemma show_nat_no_sep:
  "CHR '','' \<notin> set (show_nat n)" "CHR ''-'' \<notin> set (show_nat n)" "CHR ''/'' \<notin> set (show_nat n)"
  using show_nat_not comma_no_digit by blast+

lemma visible_sep [simp]: "visible_ascii (CHR ''-'')" "visible_ascii (CHR '','')"
  by (simp_all add: visible_ascii_def)

definition range_header :: "string \<Rightarrow> headers" where
  "range_header v = (\<lambda>n. if n = ''range'' then Some (''bytes='' @ v) else None)"

lemma header_str_range:
  "list_all visible_ascii v \<Longrightarrow> header_str (range_header v) ''range'' = Some (''bytes='' @ v)"
  by (simp add: header_str_def range_header_def) (simp add: visible_ascii_def)

lemma strip_bytes: "strip_prefix ''bytes='' (''bytes='' @ v) = Some v"
  using strip_prefix_Some by blast

lemma parse_range_header:
  assumes "list_all visible_ascii a" "list_all visible_ascii b"
    and "CHR '','' \<notin> set a" "CHR '','' \<notin> set b" "CHR ''-'' \<notin> set a"
  shows "parse_range (range_header (a @ ''-'' @ b)) n = rbind (range_of n a b) (\<lambda>r. Inr (Some r))"
proof -
  have h: "header_str (range_header (a @ ''-'' @ b)) ''range'' = Some (''bytes='' @ a @ ''-'' @ b)"
    using assms by (intro header_str_range) simp
  have "split_once (CHR ''-'') (a @ ''-'' @ b) = Some (a, b)"
    using assms(5) by simp
  with assms show ?thesis
    unfolding parse_range_def h by (simp only: option.case strip_bytes) simp
qed

text \<open>
  The three forms of a single range, written with decimal numbers: \<open>bytes=a-b\<close> is the
  interval \<open>[a, b + 1)\<close>, \<open>bytes=a-\<close> the rest of the file from \<open>a\<close>, \<open>bytes=-k\<close> its last \<open>k\<close>
  bytes; each is an error 416 exactly when it is empty or leaves the file.
\<close>

theorem parse_range_forms:
  "parse_range (range_header (show_nat (unat a) @ ''-'' @ show_nat (unat b))) n =
     (if b < a \<or> n \<le> b then Inl (DavRangeNotSatisfiable n) else Inr (Some (a, b + 1))) \<and>
   parse_range (range_header (show_nat (unat a) @ ''-'')) n =
     (if n \<le> a then Inl (DavRangeNotSatisfiable n) else Inr (Some (a, n))) \<and>
   parse_range (range_header (''-'' @ show_nat (unat k))) n =
     (if k = 0 \<or> n < k then Inl (DavRangeNotSatisfiable n) else Inr (Some (n - k, n)))"
  using parse_range_header [of "show_nat (unat a)" "show_nat (unat b)" n]
    parse_range_header [of "show_nat (unat a)" "[]" n]
    parse_range_header [of "[]" "show_nat (unat k)" n]
  by (simp add: show_nat_no_sep range_of_def Let_def)

subsection \<open>Lock headers\<close>

lemma clamp_bounds: "unat (clamp_i64 0 MAX_TTL v) \<le> 1800"
proof -
  have "unat v \<le> 1800" if "\<not> v <s 0" "\<not> 1800 <s v"
  proof -
    from that have b: "0 \<le> sint v" "sint v \<le> 1800"
      by (simp_all add: word_sless_alt)
    have "unat (word_of_int (sint v) :: u64) \<le> 1800"
      using b by (simp add: unsigned_of_int take_bit_int_eq_self del: of_int_sint)
    then show ?thesis by (simp only: of_int_sint scast_id)
  qed
  then show ?thesis by (auto simp: clamp_i64_def MAX_TTL_def)
qed

text \<open>
  A lock's lifetime is between 0 and 1800 seconds whatever the Timeout header says, and
  \<open>Second-k\<close> is honoured up to that cap.
\<close>

theorem parse_timeout_bounds: "unat (parse_timeout h) \<le> 1800"
proof -
  have part: "unat v \<le> 1800" if "timeout_of_part p = Some v" for p v
    using that clamp_bounds
    by (auto simp: timeout_of_part_def Let_def MAX_TTL_def split: if_splits option.splits)
  have "unat (first_timeout ps) \<le> 1800" for ps
    by (induction ps) (auto simp: DEFAULT_TTL_def part split: option.splits)
  then show ?thesis
    by (simp add: parse_timeout_def DEFAULT_TTL_def split: option.splits)
qed

lemma scan_tokens_list:
  "\<forall>t \<in> set ts. t \<noteq> [] \<and> CHR ''>'' \<notin> set t \<Longrightarrow>
   scan_tokens (concat (map (\<lambda>t. ''(<'' @ t @ ''>) '') ts)) = ts"
proof (induction ts)
  case (Cons t ts)
  have tw: "takeWhile (\<lambda>x. x \<noteq> CHR ''>'') (t @ CHR ''>'' # r) = t"
    and dw: "dropWhile (\<lambda>x. x \<noteq> CHR ''>'') (t @ CHR ''>'' # r) = CHR ''>'' # r" for r
    using Cons.prems by (auto simp: takeWhile_append dropWhile_append)
  from Cons show ?case by (simp add: tw dw Let_def)
qed simp

text \<open>
  An If header that lists state tokens, each in its own parentheses, is read back as
  exactly those tokens in order.
\<close>

theorem parse_if_tokens_roundtrip:
  assumes "\<forall>t \<in> set ts. t \<noteq> [] \<and> CHR ''>'' \<notin> set t \<and> list_all visible_ascii t"
    and "h ''if'' = Some (concat (map (\<lambda>t. ''(<'' @ t @ ''>) '') ts))"
  shows "parse_if_tokens h = ts"
proof -
  have "list_all visible_ascii (concat (map (\<lambda>t. ''(<'' @ t @ ''>) '') ts))"
    using assms(1) by (induction ts) (auto simp: visible_ascii_def)
  moreover have "scan_tokens (concat (map (\<lambda>t. ''(<'' @ t @ ''>) '') ts)) = ts"
    using assms(1) by (intro scan_tokens_list) auto
  ultimately show ?thesis
    unfolding parse_if_tokens_def header_str_def assms(2) by simp
qed

theorem parse_if_tokens_roundtrip_witness:
  "parse_if_tokens (\<lambda>n. Some ''(<urn:uuid:a>) (<urn:uuid:b>) '') = [''urn:uuid:a'', ''urn:uuid:b'']"
  by (rule parse_if_tokens_roundtrip) (auto simp: visible_ascii_def)

subsection \<open>Destinations\<close>

lemma destination_path_suffix: "destination_path raw = Inr p \<Longrightarrow> suffix p raw"
  unfolding destination_path_def Let_def
  by (auto split: option.splits intro: suffix_drop)

text \<open>
  A Destination that is accepted names one user, a path component without a slash, that
  follows a \<open>/dav/files/\<close> prefix in the header, and the path is the rest of the header.
\<close>

theorem parse_destination_user:
  assumes "parse_destination_files h = Inr (u, p)"
  shows "CHR ''/'' \<notin> set u \<and>
    (\<exists>raw pre. h ''destination'' = Some raw \<and> suffix ''/dav/files/'' pre \<and>
       (raw = pre @ u @ ''/'' @ p \<or> p = [] \<and> raw = pre @ u))"
proof -
  from assms obtain raw path r where
    raw: "header_str h ''destination'' = Some raw" and path: "destination_path raw = Inr path"
    and r: "path = ''/remote.php/dav/files/'' @ r \<or> path = ''/dav/files/'' @ r"
    and up: "(case find_idx (CHR ''/'') r of
       Some slash \<Rightarrow> (take slash r, drop (slash + 1) r) | None \<Rightarrow> (r, [])) = (u, p)"
    unfolding parse_destination_files_def rbind_Inr_iff ok_or_def
    by (auto simp: strip_prefix_Some split: option.splits)
  have nosl: "CHR ''/'' \<notin> set u" and ru: "r = u @ ''/'' @ p \<or> p = [] \<and> r = u"
    using up find_idx_None_iff [of "CHR ''/''" r] find_idx_SomeD [of "CHR ''/''" r]
    by (auto split: option.splits)
  obtain pre0 where "raw = pre0 @ path"
    using destination_path_suffix [OF path] by (auto simp: suffix_def)
  with r obtain pre where "raw = pre @ r" and "suffix ''/dav/files/'' pre"
    by (auto simp: suffix_def)
  with ru nosl raw show ?thesis
    by (auto dest!: header_str_Some)
qed

theorem parse_destination_user_witness:
  "CHR ''/'' \<notin> set ''alice'' \<and>
    (\<exists>raw pre. Some ''https://x/dav/files/alice/p/a.txt'' = Some raw \<and> suffix ''/dav/files/'' pre \<and>
       (raw = pre @ ''alice'' @ ''/'' @ ''p/a.txt'' \<or> ''p/a.txt'' = [] \<and> raw = pre @ ''alice''))"
proof -
  have "parse_destination_files (\<lambda>_. Some ''https://x/dav/files/alice/p/a.txt'') = Inr (''alice'', ''p/a.txt'')"
    by (simp add: parse_destination_files_def header_str_def visible_ascii_def destination_path_def
        Let_def strip_prefix_def)
  from parse_destination_user [OF this] show ?thesis .
qed

text \<open>
  A path-only Destination whose path contains \<open>://\<close> is taken for an absolute URL: everything
  up to the marker is dropped as scheme, and the request is refused.
\<close>

lemma destination_marker_in_path:
  assumes "sublist ''://'' p" and "CHR '':'' \<notin> set u" and "list_all visible_ascii (u @ p)"
    and "h ''destination'' = Some (''/dav/files/'' @ u @ ''/'' @ p)"
    and "CHR ''/'' \<notin> set (drop (the (find_sub ''://'' p) + 3) p)"
  shows "parse_destination_files h = Inl (DavBadRequest ''Destination missing path'')"
proof -
  obtain i where i: "find_sub ''://'' p = Some i"
    using assms(1) find_sub_None_iff by fastforce
  have skip: "find_sub ''://'' (a @ p) = Some (length a + i)" if "CHR '':'' \<notin> set a" for a
    using that i by (induction a) auto
  let ?a = "''/dav/files/'' @ u @ ''/''"
  have idx: "find_idx (CHR ''/'') (drop (i + 3) p) = None"
    using assms(5) i by (simp add: find_idx_None_iff)
  have path: "destination_path (b @ p) = Inl (DavBadRequest ''Destination missing path'')"
    if "CHR '':'' \<notin> set b" for b
    by (simp add: destination_path_def skip [OF that] drop_append idx)
  have "destination_path (?a @ p) = Inl (DavBadRequest ''Destination missing path'')"
    by (rule path) (use assms(2) in auto)
  moreover have "header_str h ''destination'' = Some (?a @ p)"
    using assms(3,4) by (simp add: header_str_def visible_ascii_def)
  ultimately show ?thesis by (simp add: parse_destination_files_def)
qed

end
