(* ===== verification/Ids.thy ===== *)
theory Ids
  imports Text
begin

text \<open>
  Identifiers of the users crate: \<open>UserId\<close> (crabcloud-users, src/user.rs), \<open>GroupId\<close>
  (src/group.rs) and \<open>Email\<close> (src/email.rs), each validated by its constructor, the
  records \<open>User\<close> and \<open>Group\<close>, and the crate's error type (src/error.rs; a wrapped error
  of another crate is carried as its message).
\<close>

datatype users_error =
    UsNotFound
  | UsInvalidCredentials
  | UsDisabled
  | UsInvalidUid string
  | UsInvalidEmail string
  | UsInvalidDisplayName string
  | UsUidAlreadyExists
  | UsEmailAlreadyTaken
  | UsReadOnly
  | UsPasswordTooWeak string
  | UsTokenNotFound
  | UsTokenAlreadyRevoked
  | UsDb string
  | UsCache string
  | UsInternal string

datatype user_id = UserId (uid_str: string)
datatype group_id = GroupId (gid_str: string)
datatype email = Email (email_str: string)

record user =
  user_uid :: user_id
  user_display_name :: string
  user_email :: "email option"
  user_enabled :: bool
  user_last_seen :: u64

record group =
  group_gid :: group_id
  group_display_name :: string

text \<open>The characters \<open>A-Z\<close>, \<open>a-z\<close>, \<open>0-9\<close>, dot, underscore, at sign and hyphen.\<close>

definition uid_char :: "char \<Rightarrow> bool" where
  "uid_char c =
     (let n = (of_char c :: nat) in
      65 \<le> n \<and> n \<le> 90 \<or> 97 \<le> n \<and> n \<le> 122 \<or> 48 \<le> n \<and> n \<le> 57 \<or>
      n = 46 \<or> n = 95 \<or> n = 64 \<or> n = 45)"

text \<open>The message of a bad character leaves out the \<open>Debug\<close> rendering of the character.\<close>

definition user_id_new :: "string \<Rightarrow> users_error + user_id" where
  "user_id_new s =
     (if s = [] \<or> length s > 64 then Inl (UsInvalidUid (''length '' @ show_nat (length s)))
      else if \<not> list_all uid_char s then Inl (UsInvalidUid ''char'')
      else Inr (UserId s))"

definition group_id_new :: "string \<Rightarrow> users_error + group_id" where
  "group_id_new s =
     (if s = [] \<or> length s > 64 then Inl (UsInvalidUid (''gid length '' @ show_nat (length s)))
      else if \<not> list_all uid_char s then Inl (UsInvalidUid ''gid char'')
      else Inr (GroupId s))"

text \<open>The RFC 5321/5322 check of the crate \<open>email_address\<close> is a parameter.\<close>

definition email_parse :: "(string \<Rightarrow> bool) \<Rightarrow> string \<Rightarrow> users_error + email" where
  "email_parse valid_email s =
     (let trimmed = ascii_lower (str_trim s) in
      if trimmed = [] then Inl (UsInvalidEmail ''empty'')
      else if length trimmed > 255 then Inl (UsInvalidEmail (''length '' @ show_nat (length trimmed)))
      else if \<not> valid_email trimmed then Inl (UsInvalidEmail ''invalid'')
      else Inr (Email trimmed))"

definition uid_ok :: "user_id \<Rightarrow> bool" where
  "uid_ok u \<longleftrightarrow> uid_str u \<noteq> [] \<and> length (uid_str u) \<le> 64 \<and> list_all uid_char (uid_str u)"

lemma user_id_new_iff: "user_id_new s = Inr u \<longleftrightarrow> u = UserId s \<and> uid_ok u"
  by (auto simp: user_id_new_def uid_ok_def)

lemma group_id_new_iff:
  "group_id_new s = Inr g \<longleftrightarrow> g = GroupId s \<and> s \<noteq> [] \<and> length s \<le> 64 \<and> list_all uid_char s"
  by (auto simp: group_id_new_def)

lemma uid_no_slash: "uid_ok u \<Longrightarrow> CHR ''/'' \<notin> set (uid_str u)"
  by (auto simp: uid_ok_def uid_char_def list_all_iff Let_def)

lemma uid_no_colon: "uid_ok u \<Longrightarrow> CHR '':'' \<notin> set (uid_str u)"
  by (auto simp: uid_ok_def uid_char_def list_all_iff Let_def)

end
