(* ===== verification/Sql.thy ===== *)
theory Sql
  imports Text
begin

text \<open>
  The few operations of SQL the stores use, on a table as a list of rows in physical order:
  the first row of a query (\<open>fetch_optional\<close>), updates and deletes with the number of rows they
  affect, \<open>LIMIT\<close> and \<open>OFFSET\<close>, and \<open>LIKE\<close>. Comparisons are byte-wise, as on SQLite and
  Postgres; the case-insensitive collations of MySQL and backslash escapes in patterns are not
  modelled, and an underscore matches one byte.
\<close>

definition sql_first :: "('r \<Rightarrow> bool) \<Rightarrow> 'r list \<Rightarrow> 'r option" where
  "sql_first P t = List.find P t"

definition sql_update :: "('r \<Rightarrow> bool) \<Rightarrow> ('r \<Rightarrow> 'r) \<Rightarrow> 'r list \<Rightarrow> nat \<times> 'r list" where
  "sql_update P f t = (length (filter P t), map (\<lambda>r. if P r then f r else r) t)"

definition sql_delete :: "('r \<Rightarrow> bool) \<Rightarrow> 'r list \<Rightarrow> nat \<times> 'r list" where
  "sql_delete P t = (length (filter P t), filter (\<lambda>r. \<not> P r) t)"

definition sql_page :: "nat \<Rightarrow> nat \<Rightarrow> 'r list \<Rightarrow> 'r list" where
  "sql_page limit offset t = take limit (drop offset t)"

text \<open>\<open>LIKE\<close>: a percent sign matches any string, an underscore any one character.\<close>

fun like :: "string \<Rightarrow> string \<Rightarrow> bool" where
  "like [] s = (s = [])"
| "like (p # ps) [] = (p = CHR ''%'' \<and> like ps [])"
| "like (p # ps) (c # cs) =
     (if p = CHR ''%'' then like ps (c # cs) \<or> like (p # ps) cs
      else (p = CHR ''_'' \<or> p = c) \<and> like ps cs)"

text \<open>The three databases; \<open>LIKE\<close> ignores the case of ASCII letters on SQLite only.\<close>

datatype dialect = Sqlite | MySql | Postgres

definition like_on :: "dialect \<Rightarrow> string \<Rightarrow> string \<Rightarrow> bool" where
  "like_on d pat s = (if d = Sqlite then like (ascii_lower pat) (ascii_lower s) else like pat s)"

text \<open>A value bound to a column that is 32 bits wide on MySQL (unsigned) and Postgres (signed).\<close>

definition bind32 :: "dialect \<Rightarrow> i64 \<Rightarrow> i64" where
  "bind32 d v =
     (case d of
        Sqlite \<Rightarrow> v
      | MySql \<Rightarrow> ucast (ucast v :: u32)
      | Postgres \<Rightarrow> scast (ucast v :: u32))"

definition contains_pattern :: "string \<Rightarrow> string" where
  "contains_pattern s = ''%'' @ ascii_lower s @ ''%''"

lemma sql_first_Some: "sql_first P t = Some r \<Longrightarrow> r \<in> set t \<and> P r"
  by (auto simp: sql_first_def find_Some_iff)

lemma sql_first_None_iff: "sql_first P t = None \<longleftrightarrow> (\<forall>r \<in> set t. \<not> P r)"
  by (auto simp: sql_first_def find_None_iff)

lemma sql_first_unique:
  assumes "r \<in> set t" "P r" "\<And>a. a \<in> set t \<Longrightarrow> P a \<Longrightarrow> a = r"
  shows "sql_first P t = Some r"
proof (cases "sql_first P t")
  case None
  then show ?thesis using assms(1,2) by (simp add: sql_first_None_iff)
next
  case (Some x)
  then show ?thesis using sql_first_Some [OF Some] assms(3) by simp
qed

lemma sql_update_zero: "fst (sql_update P f t) = 0 \<longleftrightarrow> (\<forall>r \<in> set t. \<not> P r)"
  by (simp add: sql_update_def filter_empty_conv)

lemma set_sql_page: "set (sql_page l o' t) \<subseteq> set t"
  by (auto simp: sql_page_def dest: in_set_takeD in_set_dropD)

lemma length_sql_page: "length (sql_page l o' t) = min l (length t - o')"
  by (simp add: sql_page_def)

lemma like_all: "like ''%'' s"
  by (induction s) auto

lemma like_prefix_pattern:
  assumes "CHR ''%'' \<notin> set p" "CHR ''_'' \<notin> set p"
  shows "like (p @ ''%'') s \<longleftrightarrow> prefix p s"
  using assms
proof (induction p arbitrary: s)
  case Nil
  then show ?case by (simp add: like_all)
next
  case (Cons a p)
  then show ?case by (cases s) auto
qed

lemma like_percent: "like ps s \<Longrightarrow> like (CHR ''%'' # ps) s"
  by (cases s) auto

lemma like_itself: "like (p @ ''%'') (p @ t)"
proof (induction p)
  case Nil
  then show ?case by (simp add: like_all)
next
  case (Cons a p)
  then show ?case using like_percent [of "p @ ''%''" "p @ t"] by auto
qed

lemma like_on_prefix: "prefix p s \<Longrightarrow> like_on d (p @ ''%'') s"
  by (auto simp: like_on_def prefix_def like_itself ascii_lower_def ascii_lower_char_def)

lemma like_contains:
  assumes "CHR ''%'' \<notin> set p" "CHR ''_'' \<notin> set p"
  shows "like (''%'' @ p @ ''%'') s \<longleftrightarrow> sublist p s"
proof (induction s)
  case Nil
  then show ?case
    using like_prefix_pattern [OF assms, of "[]"] by simp
next
  case (Cons c s)
  then show ?case
    using like_prefix_pattern [OF assms, of "c # s"] by (simp add: sublist_Cons_right)
qed

lemma map_ascii_lower_special:
  "CHR ''%'' \<notin> set p \<Longrightarrow> CHR ''_'' \<notin> set p \<Longrightarrow>
   CHR ''%'' \<notin> set (ascii_lower p) \<and> CHR ''_'' \<notin> set (ascii_lower p)"
proof -
  have lower: "ascii_lower_char c = d \<Longrightarrow> d = CHR ''%'' \<or> d = CHR ''_'' \<Longrightarrow> c = d" for c d
  proof -
    assume *: "ascii_lower_char c = d" "d = CHR ''%'' \<or> d = CHR ''_''"
    let ?n = "of_char c :: nat"
    show "c = d"
    proof (cases "65 \<le> ?n \<and> ?n \<le> 90")
      case True
      then have "(of_char d :: nat) = ?n + 32" using *(1) by (auto simp: ascii_lower_char_def)
      then show ?thesis using True *(2) by auto
    qed (use * in \<open>auto simp: ascii_lower_char_def\<close>)
  qed
  assume p: "CHR ''%'' \<notin> set p" "CHR ''_'' \<notin> set p"
  have "ascii_lower_char c \<noteq> CHR ''%''" "ascii_lower_char c \<noteq> CHR ''_''" if "c \<in> set p" for c
    using that p lower [of c] by blast+
  then have "CHR ''%'' \<notin> ascii_lower_char ` set p" "CHR ''_'' \<notin> ascii_lower_char ` set p"
    by (metis imageE)+
  then show ?thesis by (simp add: ascii_lower_def)
qed

end
