(* ===== verification/Locks.thy ===== *)
theory Locks
  imports DavHeaders Ids Sql
begin

text \<open>
  Exclusive WebDAV locks: the table \<open>oc_filelocks\<close> behind \<open>LockStore\<close> (crabcloud-filecache,
  src/locks.rs) and the LOCK and UNLOCK handlers with the check every mutation makes first
  (crabcloud-http, src/routes/dav/lock.rs). A lock is a row keyed by the user and the path;
  the lemmas show that keys of different resources differ, that the check refuses exactly
  when the resource or a depth-infinity ancestor holds an unexpired lock whose token was
  not submitted, and what acquiring and releasing change.
  Failures of the database connection are left out.
\<close>

section \<open>The lock table\<close>

record lock_row =
  lr_key :: string
  lr_ttl :: i64
  lr_token :: string
  lr_scope :: string
  lr_depth :: string
  lr_owner :: "string option"

text \<open>A row of the table: the columns besides the key; three of them may be NULL.\<close>

record lock_db_row =
  ld_ttl :: i64
  ld_token :: "string option"
  ld_scope :: "string option"
  ld_depth :: "string option"
  ld_owner :: "string option"

type_synonym lock_table = "string \<Rightarrow> lock_db_row option"

text \<open>A time bound to a query: on Postgres the column is 32 bits wide and the value is cast (\<open>as i32\<close>).\<close>

definition bind_ttl :: "dialect \<Rightarrow> i64 \<Rightarrow> i64" where
  "bind_ttl d v = (case d of Postgres \<Rightarrow> scast (ucast v :: 32 word) | _ \<Rightarrow> v)"

definition unexpired :: "dialect \<Rightarrow> i64 \<Rightarrow> i64 \<Rightarrow> bool" where
  "unexpired d n ttl \<longleftrightarrow> ttl = 0 \<or> bind_ttl d n <s ttl"

definition lock_current :: "dialect \<Rightarrow> lock_table \<Rightarrow> i64 \<Rightarrow> string \<Rightarrow> lock_row option" where
  "lock_current d T n key =
     (case T key of
        None \<Rightarrow> None
      | Some r \<Rightarrow>
          if unexpired d n (ld_ttl r)
          then Some \<lparr>lr_key = key, lr_ttl = ld_ttl r,
                 lr_token = (case ld_token r of Some t \<Rightarrow> t | None \<Rightarrow> []),
                 lr_scope = (case ld_scope r of Some t \<Rightarrow> t | None \<Rightarrow> ''exclusive''),
                 lr_depth = (case ld_depth r of Some t \<Rightarrow> t | None \<Rightarrow> ''0''),
                 lr_owner = ld_owner r\<rparr>
          else None)"

text \<open>The upsert: an existing row of the key is overwritten, whoever holds it.\<close>

definition lock_acquire ::
    "dialect \<Rightarrow> string \<Rightarrow> string \<Rightarrow> string \<Rightarrow> string \<Rightarrow> string option \<Rightarrow> i64 \<Rightarrow> lock_table \<Rightarrow> lock_table" where
  "lock_acquire d key token scope depth owner ttl T =
     T(key \<mapsto> \<lparr>ld_ttl = bind_ttl d ttl, ld_token = Some token, ld_scope = Some scope,
               ld_depth = Some depth, ld_owner = owner\<rparr>)"

definition lock_release :: "string \<Rightarrow> string \<Rightarrow> lock_table \<Rightarrow> bool \<times> lock_table" where
  "lock_release key token T =
     (case T key of
        Some r \<Rightarrow> if ld_token r = Some token then (True, T(key := None)) else (False, T)
      | None \<Rightarrow> (False, T))"

text \<open>The contract of a lock store, as the handlers use it.\<close>

locale lock_store =
  fixes current :: "'t \<Rightarrow> i64 \<Rightarrow> string \<Rightarrow> lock_row option"
    and acquire :: "string \<Rightarrow> string \<Rightarrow> string \<Rightarrow> string \<Rightarrow> string option \<Rightarrow> i64 \<Rightarrow> 't \<Rightarrow> 't"
    and release :: "string \<Rightarrow> string \<Rightarrow> 't \<Rightarrow> bool \<times> 't"
    and alive :: "i64 \<Rightarrow> i64 \<Rightarrow> bool"
  assumes current_acquire_other: "key' \<noteq> key \<Longrightarrow>
      current (acquire key token scope dep own ttl T) n key' = current T n key'"
    and current_acquire: "if alive n ttl
      then \<exists>row. current (acquire key token scope dep own ttl T) n key = Some row
             \<and> lr_token row = token \<and> lr_depth row = dep
      else current (acquire key token scope dep own ttl T) n key = None"
    and release_other: "key' \<noteq> key \<Longrightarrow> current (snd (release key token T)) n key' = current T n key'"
    and release_current: "current T n key = Some row \<Longrightarrow>
      if lr_token row = token \<and> token \<noteq> []
      then fst (release key token T) \<and> current (snd (release key token T)) n key = None
      else lr_token row \<noteq> token \<longrightarrow> release key token T = (False, T)"
begin

text \<open>Only the holder's token releases: a release with another token changes nothing.\<close>

lemma release_wrong_token:
  assumes "alive n ttl" and "token \<noteq> token'"
  shows "release key token' (acquire key token scope dep own ttl T)
    = (False, acquire key token scope dep own ttl T)"
proof -
  obtain row where "current (acquire key token scope dep own ttl T) n key = Some row"
    and "lr_token row = token"
    using current_acquire [of n ttl key token scope dep own T] assms(1) by auto
  then show ?thesis
    using release_current [of "acquire key token scope dep own ttl T" n key row token'] assms(2) by auto
qed

lemma release_own_token:
  assumes "alive n ttl" and "token \<noteq> []"
  shows "fst (release key token (acquire key token scope dep own ttl T))"
    and "current (snd (release key token (acquire key token scope dep own ttl T))) n key' =
      (if key' = key then None else current T n key')"
proof -
  obtain row where row: "current (acquire key token scope dep own ttl T) n key = Some row"
    "lr_token row = token"
    using current_acquire [of n ttl key token scope dep own T] assms(1) by auto
  note rel = release_current [OF row(1), of token]
  show "fst (release key token (acquire key token scope dep own ttl T))"
    using rel row assms(2) by simp
  show "current (snd (release key token (acquire key token scope dep own ttl T))) n key' =
      (if key' = key then None else current T n key')"
    using rel row assms(2) by (simp add: release_other current_acquire_other)
qed

end

interpretation locks: lock_store "lock_current d" "lock_acquire d" lock_release
    "\<lambda>n ttl. unexpired d n (bind_ttl d ttl)" for d
  by unfold_locales
    (auto simp: lock_current_def lock_acquire_def lock_release_def split: option.splits if_splits)

section \<open>Resources\<close>

definition lock_key :: "user_id \<Rightarrow> user_path \<Rightarrow> string" where
  "lock_key uid p =
     (let rest = trim_start_by (\<lambda>c. c = CHR ''/'') (upath p) in
      if rest = [] then ''files/'' @ uid_str uid
      else ''files/'' @ uid_str uid @ ''/'' @ rest)"

text \<open>
  The target of a request: the user in the URL must be the caller. Percent-decoding is the
  crate \<open>urlencoding\<close>, a parameter.
\<close>

definition resolve_target ::
    "(string \<Rightarrow> string + string) \<Rightarrow> string \<Rightarrow> string \<Rightarrow> string \<Rightarrow> dav_error + user_id \<times> user_path" where
  "resolve_target decode authed_uid url_user url_path =
     (if url_user \<noteq> authed_uid then Inl DavForbidden
      else case user_id_new url_user of
             Inl e \<Rightarrow> Inl (DavBadRequest ''invalid user id'')
           | Inr uid \<Rightarrow>
               if url_path = [] then Inr (uid, user_root)
               else case decode url_path of
                      Inl m \<Rightarrow> Inl (DavBadRequest (''invalid url encoding: '' @ m))
                    | Inr decoded \<Rightarrow>
                        (case user_path_new (''/'' @ decoded) of
                           Inl e \<Rightarrow> Inl (DavBadRequest ''invalid path'')
                         | Inr p \<Rightarrow> Inr (uid, p)))"

section \<open>The check before a mutation\<close>

text \<open>
  The loop over the ancestors: \<open>clk i\<close> is the time the \<open>i\<close>-th query reads. A lock of an
  ancestor blocks when its depth is infinity.
\<close>

function ancestor_check ::
    "dialect \<Rightarrow> lock_table \<Rightarrow> (nat \<Rightarrow> i64) \<Rightarrow> user_id \<Rightarrow> string list \<Rightarrow> nat \<Rightarrow> user_path option
     \<Rightarrow> dav_error + unit" where
  "ancestor_check d T clk uid submitted i None = Inr ()"
| "ancestor_check d T clk uid submitted i (Some p) =
     (if (case lock_current d T (clk i) (lock_key uid p) of
            Some l \<Rightarrow> lr_depth l = ''infinity'' \<and> lr_token l \<notin> set submitted
          | None \<Rightarrow> False)
      then Inl DavLocked
      else if user_is_root p then Inr ()
      else ancestor_check d T clk uid submitted (Suc i) (user_parent p))"
  by pat_completeness auto
termination
  by (relation "measure (\<lambda>(d, T, clk, uid, submitted, i, o'). case o' of None \<Rightarrow> 0 | Some p \<Rightarrow> Suc (length (upath p)))")
    (auto simp: user_parent_shorter split: option.splits)

definition lock_check ::
    "dialect \<Rightarrow> lock_table \<Rightarrow> (nat \<Rightarrow> i64) \<Rightarrow> user_id \<Rightarrow> user_path \<Rightarrow> headers \<Rightarrow> dav_error + unit" where
  "lock_check d T clk uid p h =
     (let submitted = parse_if_tokens h in
      if (case lock_current d T (clk 0) (lock_key uid p) of
            Some l \<Rightarrow> lr_token l \<notin> set submitted
          | None \<Rightarrow> False)
      then Inl DavLocked
      else ancestor_check d T clk uid submitted 1 (user_parent p))"

section \<open>The handlers\<close>

text \<open>
  LOCK: \<open>exists\<close> is the outcome of the view's \<open>stat\<close>, \<open>uuid\<close> the fresh identifier, \<open>body\<close> the
  outcome of reading at most 64 KiB of the request body and \<open>utf8\<close> whether it is text. The
  answer carries the depth, the lifetime in seconds and the token the XML body is built of.
\<close>

record lock_answer =
  la_depth :: string
  la_ttl_secs :: i64
  la_token :: string

definition dav_lock ::
    "dialect \<Rightarrow> (nat \<Rightarrow> i64) \<Rightarrow> string \<Rightarrow> fs_error + unit \<Rightarrow> string + string \<Rightarrow> (string \<Rightarrow> bool)
     \<Rightarrow> user_id \<Rightarrow> user_path \<Rightarrow> headers \<Rightarrow> (lock_table, dav_error, lock_answer) eff" where
  "dav_lock d clk uuid exists body utf8 uid p h T =
     (case exists of
        Inl e \<Rightarrow> (Inl (DavFs e), T)
      | Inr _ \<Rightarrow>
          (let key = lock_key uid p; submitted = parse_if_tokens h in
           if (case lock_current d T (clk 0) key of
                 Some l \<Rightarrow> lr_token l \<notin> set submitted
               | None \<Rightarrow> False)
           then (Inl DavLocked, T)
           else case parse_depth h Depth_Zero of
                  Inl e \<Rightarrow> (Inl e, T)
                | Inr depth \<Rightarrow>
                    (let depth_str = (case depth of
                           Depth_Zero \<Rightarrow> ''0'' | Depth_One \<Rightarrow> ''0'' | Depth_Infinity \<Rightarrow> ''infinity'');
                         ttl_secs = parse_timeout h;
                         ttl = clk 1 + ttl_secs;
                         token = ''urn:uuid:'' @ uuid
                     in case body of
                          Inl e \<Rightarrow> (Inl (DavBadRequest (''lock body: '' @ e)), T)
                        | Inr b \<Rightarrow>
                            (Inr \<lparr>la_depth = depth_str, la_ttl_secs = ttl_secs, la_token = token\<rparr>,
                             lock_acquire d key token ''exclusive'' depth_str
                               (if utf8 b then Some b else None) ttl T))))"

definition dav_unlock :: "user_id \<Rightarrow> user_path \<Rightarrow> headers \<Rightarrow> (lock_table, dav_error, unit) eff" where
  "dav_unlock uid p h T =
     (case parse_lock_token h of
        None \<Rightarrow> (Inl DavConflict, T)
      | Some token \<Rightarrow>
          (case lock_release (lock_key uid p) token T of
             (True, T') \<Rightarrow> (Inr (), T')
           | (False, T') \<Rightarrow> (Inl DavConflict, T')))"

section \<open>Keys\<close>

lemma trim_slash_upath:
  assumes "user_path_ok p"
  shows "trim_start_by (\<lambda>c. c = CHR ''/'') (upath p) = drop 1 (upath p)"
proof -
  from assms obtain u where p: "p = UserPath (CHR ''/'' # u)" and u: "path_ok (StoragePath u)"
    by (rule user_path_okE)
  have "u = [] \<or> hd u \<noteq> CHR ''/''"
  proof (cases "segs (StoragePath u)")
    case Nil
    then show ?thesis by (simp add: segs_Nil_iff)
  next
    case (Cons g gs)
    then have "good_segment g" using u by (simp add: path_ok_def)
    then have "g \<noteq> []" "CHR ''/'' \<notin> set g" by (auto simp: good_segment_def)
    moreover have "u = join_with (CHR ''/'') (g # gs)"
      by (metis Cons as_str_path_of path_of_segs storage_path.sel)
    ultimately show ?thesis by (cases g; cases gs) auto
  qed
  then show ?thesis by (cases u) (auto simp: p trim_start_by_def)
qed

lemma lock_key_eq:
  "user_path_ok p \<Longrightarrow> lock_key uid p =
     ''files/'' @ uid_str uid @ (if user_is_root p then [] else upath p)"
  using trim_slash_upath [of p]
  by (auto elim!: user_path_okE simp: lock_key_def Let_def user_is_root_def)

lemma lock_key_same:
  assumes "uid_ok u" "uid_ok v" "user_path_ok p" "user_path_ok q"
    and "lock_key u p = lock_key v q"
  shows "u = v \<and> p = q"
proof -
  have sl: "CHR ''/'' \<notin> set (uid_str u)" "CHR ''/'' \<notin> set (uid_str v)"
    using assms(1,2) uid_no_slash by auto
  obtain a b where pa: "p = UserPath (CHR ''/'' # a)" and qb: "q = UserPath (CHR ''/'' # b)"
    using assms(3,4) by (metis user_path_okE)
  let ?r = "\<lambda>x. if x = [] then [] else CHR ''/'' # x"
  have "uid_str u @ ?r a = uid_str v @ ?r b"
    using assms(5) unfolding lock_key_eq [OF assms(3)] lock_key_eq [OF assms(4)]
    by (simp add: pa qb user_is_root_def split: if_splits)
  then have eq: "uid_str u @ ?r a @ ''/'' = uid_str v @ ?r b @ ''/''"
    by (metis append.assoc)
  have hd_split: "split_on (CHR ''/'') (uid_str w @ ?r x @ ''/'') =
      uid_str w # (if x = [] then [[]] else split_on (CHR ''/'') (x @ ''/''))"
    if "CHR ''/'' \<notin> set (uid_str w)" for w x
    using split_on_append_sep [OF that, of "[]"] split_on_append_sep [OF that, of "x @ ''/''"] by simp
  have "uid_str u = uid_str v"
    using arg_cong [OF eq, of "split_on (CHR ''/'')"] hd_split [OF sl(1), of a] hd_split [OF sl(2), of b]
    by (metis list.inject)
  moreover from this have "?r a = ?r b" using eq by simp
  ultimately show ?thesis by (simp add: pa qb user_id.expand split: if_splits)
qed

text \<open>
  Two resources share a lock key only when they are the same path of the same user, so a
  lock never blocks another user's files or another path.
\<close>

theorem lock_key_inj:
  assumes "uid_ok u" "uid_ok v" "user_path_ok p" "user_path_ok q"
    and "lock_key u p = lock_key v q"
  shows "u = v \<and> p = q"
  using assms by (rule lock_key_same)

theorem lock_key_inj_witness:
  "\<not> lock_key (UserId ''alice'') (UserPath ''/a'') = lock_key (UserId ''bob'') (UserPath ''/a'')"
proof
  assume "lock_key (UserId ''alice'') (UserPath ''/a'') = lock_key (UserId ''bob'') (UserPath ''/a'')"
  then have "UserId ''alice'' = UserId ''bob'' \<and> UserPath ''/a'' = UserPath ''/a''"
    by (intro lock_key_inj)
      (simp_all add: uid_ok_def uid_char_def Let_def user_path_ok_def path_ok_def segs_def
        good_segment_def MAX_PATH_LEN_def)
  then show False by simp
qed

section \<open>What the check refuses\<close>

text \<open>A user and a path for the witnesses.\<close>

definition sample_uid :: user_id where "sample_uid = UserId ''alice''"
definition sample_upath :: user_path where "sample_upath = UserPath ''/a''"

lemma sample_ok: "user_path_ok sample_upath" "uid_ok sample_uid"
  by (simp_all add: sample_upath_def sample_uid_def uid_ok_def uid_char_def Let_def user_path_ok_def
      path_ok_def segs_def good_segment_def MAX_PATH_LEN_def)

lemma sample_lock:
  "dav_lock d clk ''x'' (Inr ()) (Inr []) (\<lambda>_. True) sample_uid sample_upath (\<lambda>_. None) (\<lambda>_. None) =
   (Inr \<lparr>la_depth = ''0'', la_ttl_secs = 1800, la_token = ''urn:uuid:x''\<rparr>,
    lock_acquire d (lock_key sample_uid sample_upath) ''urn:uuid:x'' ''exclusive'' ''0'' (Some [])
      (clk 1 + 1800) (\<lambda>_. None))"
  by (simp add: dav_lock_def Let_def lock_current_def parse_depth_def header_str_def parse_timeout_def
      DEFAULT_TTL_def)

text \<open>The unexpired lock of a resource, when the request does not hold its token.\<close>

definition foreign_lock :: "dialect \<Rightarrow> lock_table \<Rightarrow> i64 \<Rightarrow> user_id \<Rightarrow> headers \<Rightarrow> user_path \<Rightarrow> lock_row \<Rightarrow> bool" where
  "foreign_lock d T n uid h p l \<longleftrightarrow>
     lock_current d T n (lock_key uid p) = Some l \<and> lr_token l \<notin> set (parse_if_tokens h)"

definition infinite_lock :: "lock_row \<Rightarrow> bool" where
  "infinite_lock l \<longleftrightarrow> lr_depth l = ''infinity''"

lemma ancestor_check_iff:
  assumes "\<forall>s \<in> set ss. good_segment s"
  shows "ancestor_check d T (\<lambda>_. n) uid (parse_if_tokens h) i (Some (upath_of ss)) =
    (if \<exists>as l. prefix as ss \<and> foreign_lock d T n uid h (upath_of as) l \<and> infinite_lock l
     then Inl DavLocked else Inr ())"
  using assms
proof (induction ss arbitrary: i rule: rev_induct)
  case Nil
  then show ?case
    by (auto simp: foreign_lock_def infinite_lock_def upath_of_Nil user_is_root_def user_root_def
        split: option.splits)
next
  case (snoc s ss)
  have "s \<noteq> []" using snoc.prems by auto
  then have nr: "\<not> user_is_root (upath_of (ss @ [s]))"
    by (cases "ss = []") (simp_all add: user_is_root_def upath_of_def join_with_snoc)
  have IH: "ancestor_check d T (\<lambda>_. n) uid (parse_if_tokens h) (Suc i) (Some (upath_of ss)) =
    (if \<exists>as l. prefix as ss \<and> foreign_lock d T n uid h (upath_of as) l \<and> infinite_lock l
     then Inl DavLocked else Inr ())"
    using snoc by auto
  show ?case
    using nr user_parent_upath_of [OF snoc.prems]
    by (auto simp: IH foreign_lock_def infinite_lock_def prefix_snoc simp del: ancestor_check.simps
        simp: ancestor_check.simps(2) [of _ _ _ _ _ _ "upath_of (ss @ [s])"] split: option.splits)
qed

text \<open>
  The check before a mutation answers 423 exactly when the resource itself, or an ancestor
  with a depth-infinity lock, holds an unexpired lock whose token the If header does not list.
\<close>

theorem lock_check_iff:
  assumes "user_path_ok p"
  shows "lock_check d T (\<lambda>_. n) uid p h =
    (if (\<exists>l. foreign_lock d T n uid h p l) \<or>
        (\<exists>as l. strict_prefix as (usegs p) \<and> foreign_lock d T n uid h (upath_of as) l \<and> infinite_lock l)
     then Inl DavLocked else Inr ())"
proof (cases "usegs p" rule: rev_cases)
  case Nil
  then have "user_parent p = None" using assms by (simp add: usegs_Nil_iff user_parent_root)
  then show ?thesis
    using Nil by (auto simp: lock_check_def Let_def foreign_lock_def split: option.splits)
next
  case (snoc ss s)
  have good: "\<forall>x \<in> set (ss @ [s]). good_segment x" using assms snoc usegs_good by metis
  have p: "p = upath_of (ss @ [s])" using upath_of_usegs [OF assms] snoc by simp
  have par: "user_parent p = Some (upath_of ss)" using user_parent_upath_of [OF good] p by simp
  have pre: "strict_prefix as (usegs p) \<longleftrightarrow> prefix as ss" for as
    unfolding snoc by (auto simp: strict_prefix_def prefix_snoc dest: prefix_length_le)
  have "ancestor_check d T (\<lambda>_. n) uid (parse_if_tokens h) 1 (user_parent p) =
    (if \<exists>as l. prefix as ss \<and> foreign_lock d T n uid h (upath_of as) l \<and> infinite_lock l
     then Inl DavLocked else Inr ())"
    unfolding par using good by (intro ancestor_check_iff) simp
  then show ?thesis
    unfolding pre lock_check_def Let_def
    by (auto simp: foreign_lock_def split: option.splits)
qed

lemma sint_bind_postgres:
  assumes "uint v < 2 ^ 32"
  shows "sint (bind_ttl Postgres v) = (if 2 ^ 31 \<le> uint v then uint v - 2 ^ 32 else uint v)"
proof -
  let ?k = "uint v"
  have k: "0 \<le> ?k" by simp
  have bit: "bit ?k 31 \<longleftrightarrow> 2 ^ 31 \<le> ?k"
  proof -
    have "?k div 2 ^ 31 = (if 2 ^ 31 \<le> ?k then 1 else 0)"
      using assms k by (auto simp: div_pos_pos_trivial int_div_pos_eq [of _ _ 1 "?k - 2 ^ 31"])
    then show ?thesis by (simp add: bit_iff_odd)
  qed
  have "sint (bind_ttl Postgres v) = signed_take_bit 31 ?k"
    unfolding bind_ttl_def dialect.case signed_scast_eq
    by (simp only: signed_ucast_eq) simp
  also have "\<dots> = take_bit 32 ?k - 2 ^ 32 * of_bool (bit ?k 31)"
    using signed_take_bit_eq_take_bit_minus [of 31 ?k] by simp
  also have "take_bit 32 ?k = ?k" using assms k by (simp add: take_bit_int_eq_self)
  finally show ?thesis by (simp add: bit)
qed

lemma dav_lock_InrD:
  assumes "dav_lock d clk uuid exists body utf8 uid p h T = (Inr a, T')"
  shows "\<exists>own. T' = lock_acquire d (lock_key uid p) (la_token a) ''exclusive'' (la_depth a) own
           (clk 1 + la_ttl_secs a) T"
    and "la_token a = ''urn:uuid:'' @ uuid" and "la_ttl_secs a = parse_timeout h"
    and "\<not> (\<exists>l. foreign_lock d T (clk 0) uid h p l)"
  using assms unfolding dav_lock_def Let_def foreign_lock_def
  by (auto split: sum.splits option.splits if_splits depth.splits)

theorem lock_check_iff_witness:
  "lock_check Sqlite (\<lambda>_. None) (\<lambda>_. 5) sample_uid sample_upath (\<lambda>_. None) = Inr ()"
  using lock_check_iff [OF sample_ok(1), of Sqlite "\<lambda>_. None" 5 sample_uid "\<lambda>_. None"]
  by (simp add: foreign_lock_def lock_current_def)



text \<open>
  UNLOCK succeeds exactly with the token the row holds; it then frees the resource and no
  other, and otherwise answers 409 and changes nothing.
\<close>

theorem dav_unlock_spec:
  "dav_unlock uid p h T =
     (case parse_lock_token h of
        Some t \<Rightarrow>
          if (\<exists>r. T (lock_key uid p) = Some r \<and> ld_token r = Some t)
          then (Inr (), T(lock_key uid p := None)) else (Inl DavConflict, T)
      | None \<Rightarrow> (Inl DavConflict, T))"
  by (auto simp: dav_unlock_def lock_release_def split: option.splits)

text \<open>
  On Postgres the lifetime is stored in 32 bits: a lock whose expiry time reaches \<open>2^31\<close>
  (19 January 2038) while the clock is still below is stored as already expired, so LOCK
  answers with a token and the resource stays unprotected.
\<close>

theorem postgres_lock_lost:
  assumes "dav_lock Postgres clk uuid exists body utf8 uid p h T = (Inr a, T')"
    and "2 ^ 31 \<le> uint (clk 1 + la_ttl_secs a)" "uint (clk 1 + la_ttl_secs a) < 2 ^ 32"
    and "uint n < 2 ^ 31"
  shows "\<not> (\<exists>l. foreign_lock Postgres T' n uid h' p l)"
proof -
  let ?e = "clk 1 + la_ttl_secs a"
  obtain own where T': "T' = lock_acquire Postgres (lock_key uid p) (la_token a) ''exclusive'' (la_depth a) own
           ?e T"
    using dav_lock_InrD(1) [OF assms(1)] by blast
  have e: "sint (bind_ttl Postgres ?e) = uint ?e - 2 ^ 32"
    using sint_bind_postgres [of ?e] assms(2,3) by simp
  have n: "sint (bind_ttl Postgres n) = uint n"
    using sint_bind_postgres [of n] assms(4) by simp
  have "\<not> sint (bind_ttl Postgres n) < sint (bind_ttl Postgres ?e)"
    unfolding e n using assms(3) uint_ge_0 [of n] by linarith
  moreover have "bind_ttl Postgres ?e \<noteq> 0" using e assms(3) by auto
  ultimately have "\<not> unexpired Postgres n (bind_ttl Postgres ?e)"
    by (simp add: unexpired_def word_sless_alt)
  then show ?thesis
    using locks.current_acquire [of Postgres n ?e "lock_key uid p" "la_token a" "''exclusive''" "la_depth a" own T]
    by (simp add: foreign_lock_def T')
qed

theorem postgres_lock_lost_witness:
  "\<not> (\<exists>l. foreign_lock Postgres
     (snd (dav_lock Postgres (\<lambda>_. 2147483600) ''x'' (Inr ()) (Inr []) (\<lambda>_. True) sample_uid sample_upath
        (\<lambda>_. None) (\<lambda>_. None))) 2147483601 sample_uid (\<lambda>_. None) sample_upath l)"
proof -
  let ?r = "dav_lock Postgres (\<lambda>_. 2147483600) ''x'' (Inr ()) (Inr []) (\<lambda>_. True) sample_uid sample_upath
        (\<lambda>_. None) (\<lambda>_. None)"
  let ?a = "\<lparr>la_depth = ''0'', la_ttl_secs = 1800, la_token = ''urn:uuid:x''\<rparr>"
  have "?r = (Inr ?a, snd ?r)" by (simp add: sample_lock)
  from postgres_lock_lost [OF this] show ?thesis by simp
qed

end
