(* ===== verification/UserStore.thy ===== *)
theory UserStore
  imports Sql Ids
begin

text \<open>
  The account tables of crabcloud-users (src/store/sql.rs) behind the traits \<open>UserStore\<close>,
  \<open>GroupStore\<close> and \<open>PreferenceStore\<close> (src/store/mod.rs): \<open>oc_users\<close>, \<open>oc_groups\<close>,
  \<open>oc_group_user\<close> and \<open>oc_preferences\<close> as lists of rows. The traits are records of
  operations over any state, so that the bootstrap backend can wrap them. The three dialects run
  the same queries; connection failures are left out, violated keys are errors.
\<close>

section \<open>Rows\<close>

record user_row =
  ur_uid :: string
  ur_password :: "string option"
  ur_display :: "string option"
  ur_email :: "string option"
  ur_last_seen :: i64
  ur_enabled :: int

record users_db =
  db_users :: "user_row list"
  db_groups :: "(string \<times> string option) list"
  db_group_user :: "(string \<times> string) list"
  db_prefs :: "((string \<times> string \<times> string) \<times> string option) list"

text \<open>The crate \<open>email_address\<close> and the SQL function \<open>LOWER\<close> are parameters.\<close>

record users_env =
  ue_valid_email :: "string \<Rightarrow> bool"
  ue_sql_lower :: "string \<Rightarrow> string"

definition row_to_user :: "users_env \<Rightarrow> user_row \<Rightarrow> users_error + user" where
  "row_to_user E r =
     rbind (user_id_new (ur_uid r)) (\<lambda>uid.
     rbind (case ur_email r of None \<Rightarrow> Inr None
              | Some e \<Rightarrow> rbind (email_parse (ue_valid_email E) e) (\<lambda>m. Inr (Some m))) (\<lambda>mail.
     Inr \<lparr>user_uid = uid, user_display_name = (case ur_display r of Some d \<Rightarrow> d | None \<Rightarrow> []),
          user_email = mail, user_enabled = (ur_enabled r \<noteq> 0),
          user_last_seen = (if ur_last_seen r <s 0 then 0 else ur_last_seen r)\<rparr>))"

text \<open>\<open>Option<Row>\<close> to \<open>Result<Option<User>>\<close>.\<close>

definition opt_user :: "users_env \<Rightarrow> user_row option \<Rightarrow> users_error + user option" where
  "opt_user E o' = (case o' of None \<Rightarrow> Inr None | Some r \<Rightarrow> rbind (row_to_user E r) (\<lambda>u. Inr (Some u)))"

fun collect :: "('a \<Rightarrow> 'e + 'b) \<Rightarrow> 'a list \<Rightarrow> 'e + 'b list" where
  "collect f [] = Inr []"
| "collect f (x # xs) = rbind (f x) (\<lambda>y. rbind (collect f xs) (\<lambda>ys. Inr (y # ys)))"

record list_filter =
  lf_search :: "string option"
  lf_limit :: nat
  lf_offset :: nat

text \<open>A missing or empty search string is no filter.\<close>

definition filter_pattern :: "list_filter \<Rightarrow> string option" where
  "filter_pattern f =
     (case lf_search f of
        None \<Rightarrow> None
      | Some s \<Rightarrow> if s = [] then None else Some (contains_pattern s))"

definition or_empty :: "string option \<Rightarrow> string" where
  "or_empty o' = (case o' of Some s \<Rightarrow> s | None \<Rightarrow> [])"

section \<open>The traits\<close>

record 's user_store =
  us_lookup :: "user_id \<Rightarrow> ('s, users_error, user option) eff"
  us_lookup_by_login :: "string \<Rightarrow> ('s, users_error, user option) eff"
  us_lookup_for_auth :: "string \<Rightarrow> ('s, users_error, (user \<times> string option) option) eff"
  us_set_password :: "user_id \<Rightarrow> string \<Rightarrow> ('s, users_error, unit) eff"
  us_set_display_name :: "user_id \<Rightarrow> string \<Rightarrow> ('s, users_error, unit) eff"
  us_set_email :: "user_id \<Rightarrow> string option \<Rightarrow> ('s, users_error, unit) eff"
  us_set_enabled :: "user_id \<Rightarrow> bool \<Rightarrow> ('s, users_error, unit) eff"
  us_create :: "user \<Rightarrow> string option \<Rightarrow> ('s, users_error, unit) eff"
  us_delete :: "user_id \<Rightarrow> ('s, users_error, unit) eff"
  us_touch_last_seen :: "i64 \<Rightarrow> user_id \<Rightarrow> ('s, users_error, unit) eff"
  us_list_users :: "list_filter \<Rightarrow> ('s, users_error, user list) eff"
  us_exists_in_storage :: "user_id \<Rightarrow> ('s, users_error, bool) eff"

record 's group_store =
  gs_lookup :: "group_id \<Rightarrow> ('s, users_error, group option) eff"
  gs_is_in_group :: "user_id \<Rightarrow> group_id \<Rightarrow> ('s, users_error, bool) eff"
  gs_groups_of :: "user_id \<Rightarrow> ('s, users_error, group_id list) eff"
  gs_members_of :: "group_id \<Rightarrow> ('s, users_error, user_id list) eff"
  gs_add_to_group :: "user_id \<Rightarrow> group_id \<Rightarrow> ('s, users_error, unit) eff"
  gs_remove_from_group :: "user_id \<Rightarrow> group_id \<Rightarrow> ('s, users_error, unit) eff"
  gs_create :: "group \<Rightarrow> ('s, users_error, unit) eff"
  gs_delete :: "group_id \<Rightarrow> ('s, users_error, unit) eff"
  gs_list_groups :: "list_filter \<Rightarrow> ('s, users_error, group list) eff"

section \<open>Users in SQL\<close>

definition sql_lookup :: "users_env \<Rightarrow> user_id \<Rightarrow> (users_db, users_error, user option) eff" where
  "sql_lookup E uid D = (opt_user E (sql_first (\<lambda>r. ur_uid r = uid_str uid) (db_users D)), D)"

definition sql_lookup_by_login :: "users_env \<Rightarrow> string \<Rightarrow> (users_db, users_error, user option) eff" where
  "sql_lookup_by_login E login D =
     (case (case user_id_new login of
              Inr uid \<Rightarrow> fst (sql_lookup E uid D)
            | Inl _ \<Rightarrow> Inr None) of
        Inl e \<Rightarrow> (Inl e, D)
      | Inr (Some u) \<Rightarrow> (Inr (Some u), D)
      | Inr None \<Rightarrow>
          if CHR ''@'' \<in> set login then
            (opt_user E (sql_first (\<lambda>r. map_option (ue_sql_lower E) (ur_email r) = Some (ascii_lower login)) (db_users D)), D)
          else (Inr None, D))"

definition sql_lookup_for_auth ::
    "users_env \<Rightarrow> string \<Rightarrow> (users_db, users_error, (user \<times> string option) option) eff" where
  "sql_lookup_for_auth E login D =
     (case sql_first (\<lambda>r. ur_uid r = login \<or>
              map_option (ue_sql_lower E) (ur_email r) = Some (ascii_lower login)) (db_users D) of
        None \<Rightarrow> (Inr None, D)
      | Some r \<Rightarrow> (rbind (row_to_user E r) (\<lambda>u. Inr (Some (u, ur_password r))), D))"

text \<open>The shared shape of the setters: an update of one row, \<open>NotFound\<close> when there is none.\<close>

definition update_user :: "user_id \<Rightarrow> (user_row \<Rightarrow> user_row) \<Rightarrow> (users_db, users_error, unit) eff" where
  "update_user uid f D =
     (case sql_update (\<lambda>r. ur_uid r = uid_str uid) f (db_users D) of
        (n, t) \<Rightarrow> if n = 0 then (Inl UsNotFound, D) else (Inr (), D\<lparr>db_users := t\<rparr>))"

definition sql_set_password :: "user_id \<Rightarrow> string \<Rightarrow> (users_db, users_error, unit) eff" where
  "sql_set_password uid new_hash = update_user uid (\<lambda>r. r\<lparr>ur_password := Some new_hash\<rparr>)"

text \<open>\<open>char::is_control\<close> on UTF-8: the C0 controls, DEL, and the C1 controls after the byte C2.\<close>

fun has_control :: "string \<Rightarrow> bool" where
  "has_control [] = False"
| "has_control (c # cs) =
     ((of_char c :: nat) < 32 \<or> (of_char c :: nat) = 127 \<or>
      (of_char c :: nat) = 0xC2 \<and> cs \<noteq> [] \<and> 0x80 \<le> (of_char (hd cs) :: nat) \<and> (of_char (hd cs) :: nat) < 0xA0 \<or>
      has_control cs)"

definition sql_set_display_name :: "user_id \<Rightarrow> string \<Rightarrow> (users_db, users_error, unit) eff" where
  "sql_set_display_name uid new D =
     (if new = [] \<or> length new > 64 \<or> has_control new then (Inl (UsInvalidDisplayName new), D)
      else update_user uid (\<lambda>r. r\<lparr>ur_display := Some new\<rparr>) D)"

definition sql_set_email :: "users_env \<Rightarrow> user_id \<Rightarrow> string option \<Rightarrow> (users_db, users_error, unit) eff" where
  "sql_set_email E uid new D =
     (case (case new of None \<Rightarrow> Inr None
              | Some raw \<Rightarrow> rbind (email_parse (ue_valid_email E) raw) (\<lambda>m. Inr (Some (email_str m)))) of
        Inl e \<Rightarrow> (Inl e, D)
      | Inr canonical \<Rightarrow>
          if canonical \<noteq> None \<and>
             sql_first (\<lambda>r. ur_email r = canonical \<and> ur_uid r \<noteq> uid_str uid) (db_users D) \<noteq> None
          then (Inl UsEmailAlreadyTaken, D)
          else update_user uid (\<lambda>r. r\<lparr>ur_email := canonical\<rparr>) D)"

definition sql_set_enabled :: "user_id \<Rightarrow> bool \<Rightarrow> (users_db, users_error, unit) eff" where
  "sql_set_enabled uid enabled = update_user uid (\<lambda>r. r\<lparr>ur_enabled := (if enabled then 1 else 0)\<rparr>)"

definition sql_create :: "users_env \<Rightarrow> user \<Rightarrow> string option \<Rightarrow> (users_db, users_error, unit) eff" where
  "sql_create E u password_hash D =
     (case fst (sql_lookup E (user_uid u) D) of
        Inl e \<Rightarrow> (Inl e, D)
      | Inr (Some _) \<Rightarrow> (Inl UsUidAlreadyExists, D)
      | Inr None \<Rightarrow>
          if user_email u \<noteq> None \<and>
             sql_first (\<lambda>r. ur_email r = map_option email_str (user_email u)) (db_users D) \<noteq> None
          then (Inl UsEmailAlreadyTaken, D)
          else (Inr (), D\<lparr>db_users := db_users D @
                 [\<lparr>ur_uid = uid_str (user_uid u), ur_password = password_hash,
                   ur_display = Some (user_display_name u), ur_email = map_option email_str (user_email u),
                   ur_last_seen = user_last_seen u, ur_enabled = (if user_enabled u then 1 else 0)\<rparr>]\<rparr>))"

definition sql_delete_user :: "user_id \<Rightarrow> (users_db, users_error, unit) eff" where
  "sql_delete_user uid D =
     (Inr (), D\<lparr>db_group_user := snd (sql_delete (\<lambda>(g, u). u = uid_str uid) (db_group_user D)),
               db_prefs := snd (sql_delete (\<lambda>((u, a, k), v). u = uid_str uid) (db_prefs D)),
               db_users := snd (sql_delete (\<lambda>r. ur_uid r = uid_str uid) (db_users D))\<rparr>)"

definition sql_touch_last_seen :: "i64 \<Rightarrow> user_id \<Rightarrow> (users_db, users_error, unit) eff" where
  "sql_touch_last_seen t uid D =
     (Inr (), D\<lparr>db_users := snd (sql_update (\<lambda>r. ur_uid r = uid_str uid) (\<lambda>r. r\<lparr>ur_last_seen := t\<rparr>) (db_users D))\<rparr>)"

definition user_matches :: "users_env \<Rightarrow> string option \<Rightarrow> user_row \<Rightarrow> bool" where
  "user_matches E pat r =
     (case pat of
        None \<Rightarrow> True
      | Some p \<Rightarrow> like p (ue_sql_lower E (ur_uid r)) \<or> like p (ue_sql_lower E (or_empty (ur_display r)))
                 \<or> like p (ue_sql_lower E (or_empty (ur_email r))))"

definition sql_list_users :: "users_env \<Rightarrow> list_filter \<Rightarrow> (users_db, users_error, user list) eff" where
  "sql_list_users E f D =
     (collect (row_to_user E)
        (sql_page (lf_limit f) (lf_offset f)
          (sort_key ur_uid (filter (user_matches E (filter_pattern f)) (db_users D)))), D)"

text \<open>The trait's default: a row that \<open>lookup\<close> finds.\<close>

definition sql_exists_in_storage :: "users_env \<Rightarrow> user_id \<Rightarrow> (users_db, users_error, bool) eff" where
  "sql_exists_in_storage E uid D =
     (case sql_lookup E uid D of
        (Inl e, D') \<Rightarrow> (Inl e, D')
      | (Inr o', D') \<Rightarrow> (Inr (o' \<noteq> None), D'))"

definition sql_user_store :: "users_env \<Rightarrow> users_db user_store" where
  "sql_user_store E =
     \<lparr>us_lookup = sql_lookup E, us_lookup_by_login = sql_lookup_by_login E,
      us_lookup_for_auth = sql_lookup_for_auth E, us_set_password = sql_set_password,
      us_set_display_name = sql_set_display_name, us_set_email = sql_set_email E,
      us_set_enabled = sql_set_enabled, us_create = sql_create E, us_delete = sql_delete_user,
      us_touch_last_seen = sql_touch_last_seen, us_list_users = sql_list_users E,
      us_exists_in_storage = sql_exists_in_storage E\<rparr>"

section \<open>Groups in SQL\<close>

definition row_to_group :: "string \<times> string option \<Rightarrow> users_error + group" where
  "row_to_group r = rbind (group_id_new (fst r)) (\<lambda>g.
     Inr \<lparr>group_gid = g, group_display_name = or_empty (snd r)\<rparr>)"

definition sql_group_lookup :: "group_id \<Rightarrow> (users_db, users_error, group option) eff" where
  "sql_group_lookup gid D =
     (case sql_first (\<lambda>r. fst r = gid_str gid) (db_groups D) of
        None \<Rightarrow> (Inr None, D)
      | Some r \<Rightarrow> (rbind (row_to_group r) (\<lambda>g. Inr (Some g)), D))"

definition sql_is_in_group :: "user_id \<Rightarrow> group_id \<Rightarrow> (users_db, users_error, bool) eff" where
  "sql_is_in_group uid gid D =
     (Inr (sql_first (\<lambda>(g, u). u = uid_str uid \<and> g = gid_str gid) (db_group_user D) \<noteq> None), D)"

definition sql_groups_of :: "user_id \<Rightarrow> (users_db, users_error, group_id list) eff" where
  "sql_groups_of uid D =
     (collect group_id_new (sort (map fst (filter (\<lambda>(g, u). u = uid_str uid) (db_group_user D)))), D)"

definition sql_members_of :: "group_id \<Rightarrow> (users_db, users_error, user_id list) eff" where
  "sql_members_of gid D =
     (collect user_id_new (sort (map snd (filter (\<lambda>(g, u). g = gid_str gid) (db_group_user D)))), D)"

text \<open>\<open>INSERT OR IGNORE\<close> on the key \<open>(gid, uid)\<close>.\<close>

definition sql_add_to_group :: "user_id \<Rightarrow> group_id \<Rightarrow> (users_db, users_error, unit) eff" where
  "sql_add_to_group uid gid D =
     (Inr (), if (gid_str gid, uid_str uid) \<in> set (db_group_user D) then D
              else D\<lparr>db_group_user := db_group_user D @ [(gid_str gid, uid_str uid)]\<rparr>)"

definition sql_remove_from_group :: "user_id \<Rightarrow> group_id \<Rightarrow> (users_db, users_error, unit) eff" where
  "sql_remove_from_group uid gid D =
     (Inr (), D\<lparr>db_group_user := snd (sql_delete (\<lambda>(g, u). g = gid_str gid \<and> u = uid_str uid) (db_group_user D))\<rparr>)"

definition sql_group_create :: "group \<Rightarrow> (users_db, users_error, unit) eff" where
  "sql_group_create g D =
     (if sql_first (\<lambda>r. fst r = gid_str (group_gid g)) (db_groups D) \<noteq> None
      then (Inl (UsDb ''UNIQUE constraint failed''), D)
      else (Inr (), D\<lparr>db_groups := db_groups D @ [(gid_str (group_gid g), Some (group_display_name g))]\<rparr>))"

definition sql_group_delete :: "group_id \<Rightarrow> (users_db, users_error, unit) eff" where
  "sql_group_delete gid D =
     (Inr (), D\<lparr>db_group_user := snd (sql_delete (\<lambda>(g, u). g = gid_str gid) (db_group_user D)),
               db_groups := snd (sql_delete (\<lambda>r. fst r = gid_str gid) (db_groups D))\<rparr>)"

definition group_matches :: "users_env \<Rightarrow> string option \<Rightarrow> string \<times> string option \<Rightarrow> bool" where
  "group_matches E pat r =
     (case pat of
        None \<Rightarrow> True
      | Some p \<Rightarrow> like p (ue_sql_lower E (fst r)) \<or> like p (ue_sql_lower E (or_empty (snd r))))"

definition sql_list_groups :: "users_env \<Rightarrow> list_filter \<Rightarrow> (users_db, users_error, group list) eff" where
  "sql_list_groups E f D =
     (collect row_to_group
        (sql_page (lf_limit f) (lf_offset f)
          (sort_key fst (filter (group_matches E (filter_pattern f)) (db_groups D)))), D)"

definition sql_group_store :: "users_env \<Rightarrow> users_db group_store" where
  "sql_group_store E =
     \<lparr>gs_lookup = sql_group_lookup, gs_is_in_group = sql_is_in_group, gs_groups_of = sql_groups_of,
      gs_members_of = sql_members_of, gs_add_to_group = sql_add_to_group,
      gs_remove_from_group = sql_remove_from_group, gs_create = sql_group_create,
      gs_delete = sql_group_delete, gs_list_groups = sql_list_groups E\<rparr>"

section \<open>Preferences in SQL\<close>

definition pref_get :: "user_id \<Rightarrow> string \<Rightarrow> string \<Rightarrow> users_db \<Rightarrow> string option" where
  "pref_get uid app key D =
     (case sql_first (\<lambda>r. fst r = (uid_str uid, app, key)) (db_prefs D) of
        Some (k, v) \<Rightarrow> v | None \<Rightarrow> None)"

definition pref_set :: "user_id \<Rightarrow> string \<Rightarrow> string \<Rightarrow> string \<Rightarrow> users_db \<Rightarrow> users_db" where
  "pref_set uid app key v D =
     (let k = (uid_str uid, app, key) in
      if sql_first (\<lambda>r. fst r = k) (db_prefs D) \<noteq> None
      then D\<lparr>db_prefs := snd (sql_update (\<lambda>r. fst r = k) (\<lambda>r. (k, Some v)) (db_prefs D))\<rparr>
      else D\<lparr>db_prefs := db_prefs D @ [(k, Some v)]\<rparr>)"

definition pref_delete :: "user_id \<Rightarrow> string \<Rightarrow> string \<Rightarrow> users_db \<Rightarrow> users_db" where
  "pref_delete uid app key D =
     D\<lparr>db_prefs := snd (sql_delete (\<lambda>r. fst r = (uid_str uid, app, key)) (db_prefs D))\<rparr>"

definition pref_list :: "user_id \<Rightarrow> string \<Rightarrow> users_db \<Rightarrow> (string \<times> string) list" where
  "pref_list uid app D =
     map (\<lambda>((u, a, k), v). (k, or_empty v))
       (sort_key (\<lambda>((u, a, k), v). k) (filter (\<lambda>((u, a, k), v). u = uid_str uid \<and> a = app) (db_prefs D)))"

definition pref_delete_all_for :: "user_id \<Rightarrow> users_db \<Rightarrow> users_db" where
  "pref_delete_all_for uid D =
     D\<lparr>db_prefs := snd (sql_delete (\<lambda>((u, a, k), v). u = uid_str uid) (db_prefs D))\<rparr>"

end
