(* ===== verification/UserStore_Correct.thy ===== *)
theory UserStore_Correct
  imports UserStore
begin

text \<open>
  The account tables stay well formed: unique uids and emails, every row decodes, and every
  email is stored in the canonical form the lookups compare with. Then the functional behaviour
  of the user operations, and what a colliding email does to logins.
\<close>

section \<open>Trimming is idempotent\<close>

lemma space_prefix_start: "space_prefix (str_trim_start s) = 0"
proof (induction s rule: str_trim_start.induct)
  case (1 s)
  then show ?case by (subst str_trim_start.simps) auto
qed

lemma space_suffix_end: "space_suffix (str_trim_end s) = 0"
proof (induction s rule: str_trim_end.induct)
  case (1 s)
  then show ?case by (subst str_trim_end.simps) auto
qed

lemma str_trim_end_prefix: "prefix (str_trim_end s) s"
proof (induction s rule: str_trim_end.induct)
  case (1 s)
  then show ?case
    by (subst str_trim_end.simps) (auto intro: prefix_order.trans take_is_prefix)
qed

lemma space_prefix_mono:
  assumes "prefix t s" and "space_prefix s = 0"
  shows "space_prefix t = 0"
proof -
  obtain u where s: "s = t @ u" using assms(1) by (auto simp: prefix_def)
  have "take k s = take k t" if "k \<le> length t" for k using that by (simp add: s)
  then show ?thesis
    using assms(2) unfolding space_prefix_def s
    by (auto split: if_splits simp: Suc_le_eq)
qed

lemma str_trim_spaces: "space_prefix (str_trim s) = 0" "space_suffix (str_trim s) = 0"
  unfolding str_trim_def
  using space_prefix_mono [OF str_trim_end_prefix space_prefix_start] space_suffix_end by auto

lemma is_space_enc_lower: "is_space_enc (ascii_lower e) = is_space_enc e"
proof -
  have low: "(of_char (ascii_lower_char c) :: nat) = (if 65 \<le> (of_char c :: nat) \<and> (of_char c :: nat) \<le> 90
      then of_char c + 32 else of_char c)" for c
    by (auto simp: ascii_lower_char_def)
  have one: "is_ascii_space (ascii_lower_char c) = is_ascii_space c" for c
    by (auto simp: is_ascii_space_def low)
  show ?thesis
  proof (cases "map of_char (ascii_lower e) = (map of_char e :: nat list)")
    case True
    then have "ascii_lower e = e"
      by (metis (mono_tags, lifting) map_injective injI of_char_eq_iff)
    then show ?thesis by simp
  next
    case False
    then obtain c where c: "c \<in> set e" "65 \<le> (of_char c :: nat)" "(of_char c :: nat) \<le> 90"
      by (auto simp: ascii_lower_def low split: if_splits)
    have big: "\<forall>l \<in> set multi_byte_spaces. \<forall>n \<in> set l. 128 \<le> n"
      by (auto simp: multi_byte_spaces_def)
    have small: "map of_char e' \<notin> set multi_byte_spaces"
      if "d \<in> set e'" "(of_char d :: nat) < 128" for d e'
    proof
      assume "map of_char e' \<in> set multi_byte_spaces"
      with big have "\<forall>n \<in> set (map of_char e'). 128 \<le> (n :: nat)" by blast
      with that show False by auto
    qed
    have "map of_char e \<notin> set multi_byte_spaces" using small [OF c(1)] c by simp
    moreover have "map of_char (ascii_lower e) \<notin> set multi_byte_spaces"
      using small [of "ascii_lower_char c" "ascii_lower e"] c by (simp add: ascii_lower_def low)
    moreover have "hd (ascii_lower e) = ascii_lower_char (hd e)" if "length e = 1"
      using that by (cases e) (auto simp: ascii_lower_def)
    ultimately show ?thesis by (auto simp: is_space_enc_def one ascii_lower_def)
  qed
qed

lemma ascii_lower_take: "ascii_lower (take k s) = take k (ascii_lower s)"
  and ascii_lower_drop: "ascii_lower (drop k s) = drop k (ascii_lower s)"
  and length_ascii_lower [simp]: "length (ascii_lower s) = length s"
  and ascii_lower_Nil_iff [simp]: "ascii_lower s = [] \<longleftrightarrow> s = []"
  by (simp_all add: ascii_lower_def take_map drop_map)

lemma ascii_lower_idem [simp]: "ascii_lower (ascii_lower s) = ascii_lower s"
proof -
  have "ascii_lower_char (ascii_lower_char c) = ascii_lower_char c" for c
    by (auto simp: ascii_lower_char_def)
  then show ?thesis by (simp add: ascii_lower_def)
qed

lemma spaces_lower: "space_prefix (ascii_lower s) = space_prefix s" "space_suffix (ascii_lower s) = space_suffix s"
  by (simp_all add: space_prefix_def space_suffix_def Let_def is_space_enc_lower
      ascii_lower_take [symmetric] ascii_lower_drop [symmetric])

lemma str_trim_id: "space_prefix t = 0 \<Longrightarrow> space_suffix t = 0 \<Longrightarrow> str_trim t = t"
  unfolding str_trim_def by (simp add: str_trim_start.simps [of t] str_trim_end.simps [of t])

lemma trim_lower_idem: "str_trim (ascii_lower (str_trim s)) = ascii_lower (str_trim s)"
  by (rule str_trim_id) (simp_all add: spaces_lower str_trim_spaces)

section \<open>The invariant\<close>

text \<open>An email in canonical form is one that parses to itself.\<close>

definition canonical_email :: "users_env \<Rightarrow> string \<Rightarrow> bool" where
  "canonical_email E e \<longleftrightarrow> email_parse (ue_valid_email E) e = Inr (Email e)"

lemma email_parse_canonical: "email_parse v s = Inr m \<Longrightarrow> email_parse v (email_str m) = Inr m"
  by (auto simp: email_parse_def Let_def trim_lower_idem split: if_splits)

lemma canonical_lower: "canonical_email E e \<Longrightarrow> ascii_lower e = e"
  by (auto simp: canonical_email_def email_parse_def Let_def split: if_splits)
     (metis ascii_lower_idem)

definition row_ok :: "users_env \<Rightarrow> user_row \<Rightarrow> bool" where
  "row_ok E r \<longleftrightarrow> uid_ok (UserId (ur_uid r)) \<and>
     (case ur_email r of None \<Rightarrow> True | Some e \<Rightarrow> canonical_email E e)"

definition users_ok :: "users_env \<Rightarrow> users_db \<Rightarrow> bool" where
  "users_ok E D \<longleftrightarrow>
     (\<forall>r \<in> set (db_users D). row_ok E r) \<and> distinct (map ur_uid (db_users D)) \<and>
     (\<forall>a \<in> set (db_users D). \<forall>b \<in> set (db_users D). ur_email a = ur_email b \<and> ur_email a \<noteq> None \<longrightarrow> a = b)"

definition user_of :: "user_row \<Rightarrow> user" where
  "user_of r = \<lparr>user_uid = UserId (ur_uid r), user_display_name = or_empty (ur_display r),
     user_email = map_option Email (ur_email r), user_enabled = (ur_enabled r \<noteq> 0),
     user_last_seen = (if ur_last_seen r <s 0 then 0 else ur_last_seen r)\<rparr>"

lemma row_to_user_ok: "row_ok E r \<Longrightarrow> row_to_user E r = Inr (user_of r)"
proof -
  assume ok: "row_ok E r"
  then have "user_id_new (ur_uid r) = Inr (UserId (ur_uid r))"
    by (simp add: row_ok_def user_id_new_iff)
  then show ?thesis
    using ok by (auto simp: row_to_user_def row_ok_def canonical_email_def user_of_def or_empty_def
        split: option.splits)
qed

lemma users_ok_row: "users_ok E D \<Longrightarrow> r \<in> set (db_users D) \<Longrightarrow> row_ok E r"
  by (simp add: users_ok_def)

lemma uid_unique:
  "\<lbrakk>users_ok E D; a \<in> set (db_users D); b \<in> set (db_users D); ur_uid a = ur_uid b\<rbrakk> \<Longrightarrow> a = b"
  by (auto simp: users_ok_def distinct_map dest: inj_onD)

lemma email_unique:
  "\<lbrakk>users_ok E D; a \<in> set (db_users D); b \<in> set (db_users D); ur_email a = Some e; ur_email b = Some e\<rbrakk> \<Longrightarrow> a = b"
  unfolding users_ok_def by (metis option.distinct(1))

text \<open>The row of a user, as every query by uid finds it.\<close>

definition row_of :: "users_db \<Rightarrow> user_id \<Rightarrow> user_row option" where
  "row_of D uid = sql_first (\<lambda>r. ur_uid r = uid_str uid) (db_users D)"

lemma row_of_iff:
  "users_ok E D \<Longrightarrow> row_of D uid = Some r \<longleftrightarrow> r \<in> set (db_users D) \<and> ur_uid r = uid_str uid"
  unfolding row_of_def
  by (metis (mono_tags, lifting) sql_first_Some sql_first_unique uid_unique)

lemma row_of_None: "row_of D uid = None \<longleftrightarrow> (\<forall>r \<in> set (db_users D). ur_uid r \<noteq> uid_str uid)"
  by (simp add: row_of_def sql_first_None_iff)

lemma lookup_eq:
  "users_ok E D \<Longrightarrow> sql_lookup E uid D = (Inr (map_option user_of (row_of D uid)), D)"
proof -
  assume ok: "users_ok E D"
  show ?thesis
  proof (cases "row_of D uid")
    case None
    then show ?thesis by (simp add: sql_lookup_def opt_user_def row_of_def)
  next
    case (Some r)
    then have "row_ok E r" using row_of_iff [OF ok] users_ok_row [OF ok] by blast
    then show ?thesis using Some by (simp add: sql_lookup_def opt_user_def row_of_def row_to_user_ok)
  qed
qed

text \<open>The setters through \<open>update_user\<close>.\<close>

lemma update_user_eq:
  "update_user uid f D =
     (if row_of D uid = None then (Inl UsNotFound, D)
      else (Inr (), D\<lparr>db_users := map (\<lambda>r. if ur_uid r = uid_str uid then f r else r) (db_users D)\<rparr>))"
  using sql_update_zero [of "\<lambda>r. ur_uid r = uid_str uid" f "db_users D"]
  by (auto simp: update_user_def row_of_None sql_update_def split: prod.splits)

lemma users_ok_update:
  assumes "users_ok E D" and "\<And>r. ur_uid (f r) = ur_uid r"
    and "\<And>r. r \<in> set (db_users D) \<Longrightarrow> ur_uid r = uid_str uid \<Longrightarrow> row_ok E (f r) \<and>
      (\<forall>b \<in> set (db_users D). ur_uid b \<noteq> uid_str uid \<longrightarrow> ur_email (f r) = ur_email b \<longrightarrow> ur_email b = None)"
  shows "users_ok E (D\<lparr>db_users := map (\<lambda>r. if ur_uid r = uid_str uid then f r else r) (db_users D)\<rparr>)"
proof -
  define g where "g = (\<lambda>r. if ur_uid r = uid_str uid then f r else r)"
  let ?g = "\<lambda>r. if ur_uid r = uid_str uid then f r else r"
  have A: "row_ok E (?g r)" if "r \<in> set (db_users D)" for r
    using that assms(3) users_ok_row [OF assms(1)] by simp
  have B: "map ur_uid (map ?g (db_users D)) = map ur_uid (db_users D)"
    using assms(2) by simp
  have C: "?g a = ?g b"
    if ab: "a \<in> set (db_users D)" "b \<in> set (db_users D)" and e: "ur_email (?g a) = ur_email (?g b)" "ur_email (?g a) \<noteq> None" for a b
  proof -
    consider "ur_uid a = uid_str uid" "ur_uid b = uid_str uid" | "ur_uid a \<noteq> uid_str uid" "ur_uid b \<noteq> uid_str uid"
      | "ur_uid a = uid_str uid" "ur_uid b \<noteq> uid_str uid" | "ur_uid a \<noteq> uid_str uid" "ur_uid b = uid_str uid"
      by blast
    then show ?thesis
    proof cases
      case 1
      then have "a = b" using uid_unique [OF assms(1) ab] by simp
      then show ?thesis by simp
    next
      case 2
      then show ?thesis using e email_unique [OF assms(1) ab] by auto
    next
      case 3
      then show ?thesis using e assms(3) [OF ab(1)] ab(2) by auto
    next
      case 4
      have "ur_email (f b) = ur_email a \<longrightarrow> ur_email a = None" using assms(3) [OF ab(2) 4(2)] ab(1) 4(1) by blast
      then show ?thesis using e 4 by simp
    qed
  qed
  have A': "\<forall>r \<in> set (db_users D). row_ok E (g r)" unfolding g_def using A by blast
  have B': "distinct (map ur_uid (map g (db_users D)))"
    unfolding g_def B using assms(1) by (simp add: users_ok_def)
  have C': "\<forall>a \<in> set (db_users D). \<forall>b \<in> set (db_users D).
      ur_email (g a) = ur_email (g b) \<and> ur_email (g a) \<noteq> None \<longrightarrow> g a = g b"
    unfolding g_def using C by blast
  have "users_ok E (D\<lparr>db_users := map g (db_users D)\<rparr>)"
    unfolding users_ok_def using A' B' C' by simp
  then show ?thesis by (simp only: g_def)
qed

text \<open>A \<open>User\<close> value holds a valid uid and a canonical email: both types have no other constructor.\<close>

definition user_ok :: "users_env \<Rightarrow> user \<Rightarrow> bool" where
  "user_ok E u \<longleftrightarrow> uid_ok (user_uid u) \<and>
     (case user_email u of None \<Rightarrow> True | Some m \<Rightarrow> canonical_email E (email_str m))"

lemma users_ok_same:
  assumes "users_ok E D" and "\<And>r. ur_uid (f r) = ur_uid r" and "\<And>r. ur_email (f r) = ur_email r"
  shows "users_ok E (snd (update_user uid f D))"
proof -
  have "users_ok E (D\<lparr>db_users := map (\<lambda>r. if ur_uid r = uid_str uid then f r else r) (db_users D)\<rparr>)"
  proof (rule users_ok_update [OF assms(1,2)])
    fix r assume r: "r \<in> set (db_users D)" "ur_uid r = uid_str uid"
    have "row_ok E (f r)" using users_ok_row [OF assms(1) r(1)] assms(2,3) by (simp add: row_ok_def)
    moreover have "ur_email b = None" if "b \<in> set (db_users D)" "ur_uid b \<noteq> uid_str uid" "ur_email (f r) = ur_email b" for b
    proof (cases "ur_email b")
      case (Some e)
      then have "r = b" using email_unique [OF assms(1) r(1) that(1)] that(3) assms(3) by simp
      then show ?thesis using r(2) that(2) by simp
    qed
    ultimately show "row_ok E (f r) \<and>
      (\<forall>b \<in> set (db_users D). ur_uid b \<noteq> uid_str uid \<longrightarrow> ur_email (f r) = ur_email b \<longrightarrow> ur_email b = None)"
      by blast
  qed
  then show ?thesis using assms(1) by (simp add: update_user_eq)
qed

lemma set_password_ok [inv_intros]: "users_ok E D \<Longrightarrow> users_ok E (snd (sql_set_password uid h D))"
  unfolding sql_set_password_def by (rule users_ok_same) auto

lemma set_enabled_ok [inv_intros]: "users_ok E D \<Longrightarrow> users_ok E (snd (sql_set_enabled uid b D))"
  unfolding sql_set_enabled_def by (rule users_ok_same) auto

lemma set_display_name_ok [inv_intros]: "users_ok E D \<Longrightarrow> users_ok E (snd (sql_set_display_name uid n D))"
  unfolding sql_set_display_name_def by (auto intro: users_ok_same)

lemma touch_ok [inv_intros]: "users_ok E D \<Longrightarrow> users_ok E (snd (sql_touch_last_seen t uid D))"
proof -
  assume ok: "users_ok E D"
  let ?f = "\<lambda>r. r\<lparr>ur_last_seen := t\<rparr>"
  have "users_ok E (snd (update_user uid ?f D))" using ok by (rule users_ok_same) auto
  moreover have "snd (update_user uid ?f D) = snd (sql_touch_last_seen t uid D)"
  proof (cases "row_of D uid")
    case None
    then have "map (\<lambda>r. if ur_uid r = uid_str uid then ?f r else r) (db_users D) = db_users D"
      by (auto simp: row_of_None intro: map_idI)
    then show ?thesis using None by (simp add: update_user_eq sql_touch_last_seen_def sql_update_def)
  qed (simp add: update_user_eq sql_touch_last_seen_def sql_update_def)
  ultimately show ?thesis by simp
qed

lemma set_email_ok [inv_intros]: "users_ok E D \<Longrightarrow> users_ok E (snd (sql_set_email E uid new D))"
proof -
  assume ok: "users_ok E D"
  show ?thesis
  proof (cases "sql_set_email E uid new D")
    case (Pair res D')
    show ?thesis
    proof (cases res)
      case (Inl e)
      then have "D' = D"
        using Pair by (auto simp: sql_set_email_def update_user_eq split: sum.splits if_splits)
      then show ?thesis using Pair ok by simp
    next
      case (Inr u)
      have canon: "canonical_email E (email_str m)" if "email_parse (ue_valid_email E) x = Inr m" for x m
        using email_parse_canonical [OF that] by (simp add: canonical_email_def)
      obtain c where c: "case c of None \<Rightarrow> True | Some e \<Rightarrow> canonical_email E e"
        and free: "c = None \<or> (\<forall>r \<in> set (db_users D). ur_email r = c \<longrightarrow> ur_uid r = uid_str uid)"
        and upd: "update_user uid (\<lambda>r. r\<lparr>ur_email := c\<rparr>) D = (Inr u, D')"
      proof (cases new)
        case None
        then show thesis using that [of None] Pair Inr by (simp add: sql_set_email_def)
      next
        case (Some raw)
        then obtain m where m: "email_parse (ue_valid_email E) raw = Inr m"
          using Pair Inr by (cases "email_parse (ue_valid_email E) raw") (auto simp: sql_set_email_def)
        then show thesis
          using that [of "Some (email_str m)"] canon [OF m] Pair Inr Some
          by (auto simp: sql_set_email_def sql_first_None_iff split: if_splits)
      qed
      then have D': "D' = D\<lparr>db_users := map (\<lambda>r. if ur_uid r = uid_str uid then r\<lparr>ur_email := c\<rparr> else r) (db_users D)\<rparr>"
        by (simp add: update_user_eq split: if_splits)
      have uid_valid: "uid_ok uid" if "r \<in> set (db_users D)" "ur_uid r = uid_str uid" for r
        using users_ok_row [OF ok that(1)] that(2) by (simp add: row_ok_def)
      have "users_ok E D'"
        unfolding D'
        by (rule users_ok_update [OF ok])
          (use c free uid_valid in \<open>auto simp: row_ok_def split: option.splits\<close>)
      then show ?thesis using Pair by simp
    qed
  qed
qed

lemma create_ok [inv_intros]:
  assumes "users_ok E D" and "user_ok E u"
  shows "users_ok E (snd (sql_create E u h D))"
proof (cases "sql_create E u h D")
  case (Pair res D')
  show ?thesis
  proof (cases res)
    case (Inl e)
    then have "D' = D" using Pair by (auto simp: sql_create_def split: sum.splits option.splits if_splits)
    then show ?thesis using Pair assms(1) by simp
  next
    case (Inr x)
    let ?r = "\<lparr>ur_uid = uid_str (user_uid u), ur_password = h,
                   ur_display = Some (user_display_name u), ur_email = map_option email_str (user_email u),
                   ur_last_seen = user_last_seen u, ur_enabled = (if user_enabled u then 1 else 0)\<rparr>"
    from Inr Pair have D': "D' = D\<lparr>db_users := db_users D @ [?r]\<rparr>"
      and no: "row_of D (user_uid u) = None"
      and free: "user_email u = None \<or> (\<forall>r \<in> set (db_users D). ur_email r \<noteq> ur_email ?r)"
      by (auto simp: sql_create_def lookup_eq [OF assms(1)] sql_first_None_iff split: option.splits if_splits)
    have row: "row_ok E ?r"
      using assms(2) by (cases "user_uid u") (auto simp: row_ok_def user_ok_def split: option.splits)
    have uid: "ur_uid ?r \<notin> ur_uid ` set (db_users D)" using no by (auto simp: row_of_None)
    have email: "ur_email r \<noteq> ur_email ?r" if "r \<in> set (db_users D)" "ur_email ?r \<noteq> None" for r
      using free that by auto
    have "users_ok E (D\<lparr>db_users := db_users D @ [r]\<rparr>)"
      if "row_ok E r" "ur_uid r \<notin> ur_uid ` set (db_users D)"
        "\<And>x. x \<in> set (db_users D) \<Longrightarrow> ur_email r \<noteq> None \<Longrightarrow> ur_email x \<noteq> ur_email r" for r
    proof -
      have "a = b" if ab: "a \<in> set (db_users D) \<union> {r}" "b \<in> set (db_users D) \<union> {r}"
          "ur_email a = ur_email b" "ur_email a \<noteq> None" for a b
        using ab email_unique [OF assms(1)] \<open>\<And>x. x \<in> set (db_users D) \<Longrightarrow> ur_email r \<noteq> None \<Longrightarrow> ur_email x \<noteq> ur_email r\<close>
        by (metis Un_iff not_None_eq singletonD)
      then show ?thesis using assms(1) that(1,2) unfolding users_ok_def by (simp, blast)
    qed
    from this [OF row uid] email show ?thesis using Pair D' by simp
  qed
qed

lemma users_ok_filter:
  assumes "users_ok E D" and "db_users D' = filter P (db_users D)"
  shows "users_ok E D'"
  using assms unfolding users_ok_def by (simp add: distinct_map_filter) blast

lemma delete_user_ok [inv_intros]: "users_ok E D \<Longrightarrow> users_ok E (snd (sql_delete_user uid D))"
  by (rule users_ok_filter [where P = "\<lambda>r. ur_uid r \<noteq> uid_str uid"])
    (simp_all add: sql_delete_user_def sql_delete_def)

text \<open>One write to the account tables.\<close>

inductive users_step :: "users_env \<Rightarrow> users_db \<Rightarrow> users_db \<Rightarrow> bool" for E where
  SetPassword: "users_step E D (snd (sql_set_password uid h D))"
| SetDisplayName: "users_step E D (snd (sql_set_display_name uid n D))"
| SetEmail: "users_step E D (snd (sql_set_email E uid new D))"
| SetEnabled: "users_step E D (snd (sql_set_enabled uid b D))"
| Create: "user_ok E u \<Longrightarrow> users_step E D (snd (sql_create E u h' D))"
| Delete: "users_step E D (snd (sql_delete_user uid D))"
| Touch: "users_step E D (snd (sql_touch_last_seen t uid D))"

inductive users_reachable :: "users_env \<Rightarrow> users_db \<Rightarrow> bool" for E where
  Empty: "users_reachable E \<lparr>db_users = [], db_groups = [], db_group_user = [], db_prefs = []\<rparr>"
| Step: "users_reachable E D \<Longrightarrow> users_step E D D' \<Longrightarrow> users_reachable E D'"

text \<open>
  In every reachable state of the account tables uids and emails are unique, every row decodes
  and stored emails are canonical; so a lookup by uid never fails and returns the row's user.
\<close>

theorem users_reachable_ok:
  assumes "users_reachable E D"
  shows "users_ok E D \<and> sql_lookup E uid D = (Inr (map_option user_of (row_of D uid)), D)"
proof -
  have "users_ok E D" using assms
  proof induction
    case Empty
    then show ?case by (simp add: users_ok_def)
  next
    case (Step D D')
    from Step.hyps(2) Step.IH show ?case by cases (auto intro: inv_intros)
  qed
  then show ?thesis by (simp add: lookup_eq)
qed

text \<open>No user's email, lower-cased by the database, is the login name of someone else.\<close>

definition no_email_clash :: "users_env \<Rightarrow> users_db \<Rightarrow> string \<Rightarrow> bool" where
  "no_email_clash E D login \<longleftrightarrow>
     (\<forall>r \<in> set (db_users D). map_option (ue_sql_lower E) (ur_email r) = Some (ascii_lower login) \<longrightarrow> ur_uid r = login)"

text \<open>Accounts for the witnesses.\<close>

definition sample_users_env :: users_env where
  "sample_users_env = \<lparr>ue_valid_email = (\<lambda>e. CHR ''@'' \<in> set e), ue_sql_lower = ascii_lower\<rparr>"

definition empty_users :: users_db where
  "empty_users = \<lparr>db_users = [], db_groups = [], db_group_user = [], db_prefs = []\<rparr>"

definition sample_user :: user where
  "sample_user = \<lparr>user_uid = UserId ''alice'', user_display_name = ''Alice'', user_email = None,
     user_enabled = True, user_last_seen = 0\<rparr>"

definition sample_users_db :: users_db where
  "sample_users_db = snd (sql_create sample_users_env sample_user (Some ''h'') empty_users)"

lemma sample_user_ok: "user_ok sample_users_env sample_user"
  by (simp add: user_ok_def sample_user_def uid_ok_def uid_char_def Let_def)

lemma sample_create:
  "sql_create sample_users_env sample_user (Some ''h'') empty_users =
     (Inr (), empty_users\<lparr>db_users := [\<lparr>ur_uid = ''alice'', ur_password = Some ''h'', ur_display = Some ''Alice'',
        ur_email = None, ur_last_seen = 0, ur_enabled = 1\<rparr>]\<rparr>)"
  by (simp add: sql_create_def sql_lookup_def opt_user_def sql_first_def empty_users_def sample_user_def)

lemma sample_users_ok:
  "users_ok sample_users_env sample_users_db" "no_email_clash sample_users_env sample_users_db ''alice''"
  unfolding sample_users_db_def sample_create
  by (simp_all add: users_ok_def row_ok_def empty_users_def uid_ok_def uid_char_def Let_def no_email_clash_def)

definition sample_alice :: user_row where
  "sample_alice = \<lparr>ur_uid = ''alice'', ur_password = Some ''h'', ur_display = Some ''Alice'',
        ur_email = None, ur_last_seen = 0, ur_enabled = 1\<rparr>"

lemma sample_db_eq: "sample_users_db = empty_users\<lparr>db_users := [sample_alice]\<rparr>"
  by (simp add: sample_users_db_def sample_create sample_alice_def)

lemma sample_row_of: "row_of sample_users_db (UserId ''alice'') = Some sample_alice"
  by (simp add: sample_db_eq row_of_def sql_first_def sample_alice_def)

lemma user_of_alice: "user_of sample_alice = sample_user"
  by (simp add: user_of_def sample_alice_def sample_user_def or_empty_def word_sless_alt)

text \<open>A user \<open>eve\<close> whose email is the uid of another.\<close>

definition shadow_row :: user_row where
  "shadow_row = \<lparr>ur_uid = ''eve'', ur_password = Some ''evil'', ur_display = None, ur_email = Some ''bob@x.org'',
     ur_last_seen = 0, ur_enabled = 1\<rparr>"

definition victim_row :: user_row where
  "victim_row = \<lparr>ur_uid = ''bob@x.org'', ur_password = Some ''good'', ur_display = None, ur_email = None,
     ur_last_seen = 0, ur_enabled = 1\<rparr>"

definition shadow_db :: users_db where
  "shadow_db = empty_users\<lparr>db_users := [shadow_row, victim_row]\<rparr>"

lemma shadow_ok: "users_ok sample_users_env shadow_db"
proof -
  have "str_trim ''bob@x.org'' = ''bob@x.org''"
    by (rule str_trim_id) (simp_all add: space_prefix_def space_suffix_def is_space_enc_def is_ascii_space_def
        multi_byte_spaces_def Let_def)
  then have "canonical_email sample_users_env ''bob@x.org''"
    by (simp add: canonical_email_def email_parse_def sample_users_env_def ascii_lower_def ascii_lower_char_def)
  then show ?thesis
    by (simp add: users_ok_def row_ok_def shadow_db_def shadow_row_def victim_row_def uid_ok_def uid_char_def Let_def)
qed

theorem users_reachable_ok_witness:
  "users_ok sample_users_env sample_users_db \<and>
   sql_lookup sample_users_env (UserId ''alice'') sample_users_db = (Inr (Some sample_user), sample_users_db)"
proof -
  have "users_reachable sample_users_env sample_users_db"
    unfolding sample_users_db_def
    by (rule users_reachable.Step [OF _ users_step.Create [OF sample_user_ok]])
      (simp add: empty_users_def users_reachable.Empty)
  from users_reachable_ok [OF this, of "UserId ''alice''"] show ?thesis
    by (simp add: sample_row_of user_of_alice)
qed

section \<open>Logins\<close>

lemma lookup_for_auth_uid:
  assumes "users_ok E D" and "no_email_clash E D (uid_str uid)"
  shows "sql_lookup_for_auth E (uid_str uid) D =
    (Inr (map_option (\<lambda>r. (user_of r, ur_password r)) (row_of D uid)), D)"
proof -
  have "sql_first (\<lambda>r. ur_uid r = uid_str uid \<or>
      map_option (ue_sql_lower E) (ur_email r) = Some (ascii_lower (uid_str uid))) (db_users D) = row_of D uid"
    unfolding row_of_def sql_first_def
    by (rule find_cong) (use assms(2) in \<open>auto simp: no_email_clash_def\<close>)
  moreover have "row_ok E r" if "row_of D uid = Some r" for r
    using that users_ok_row [OF assms(1)] row_of_iff [OF assms(1)] by blast
  ultimately show ?thesis
    by (cases "row_of D uid") (simp_all add: sql_lookup_for_auth_def row_to_user_ok)
qed

lemma row_of_update:
  assumes "users_ok E D" "\<And>r. ur_uid (f r) = ur_uid r"
  shows "row_of (D\<lparr>db_users := map (\<lambda>r. if ur_uid r = uid_str uid then f r else r) (db_users D)\<rparr>) v =
    map_option (if v = uid then f else id) (row_of D v)"
proof -
  have "List.find (\<lambda>r. ur_uid r = uid_str v) (map (\<lambda>r. if ur_uid r = uid_str uid then f r else r) xs) =
    map_option (if v = uid then f else id) (List.find (\<lambda>r. ur_uid r = uid_str v) xs)" for xs
    using assms(2) by (induction xs) (auto simp: user_id.expand)
  then show ?thesis by (simp add: row_of_def sql_first_def)
qed

text \<open>
  After a successful password change a login by uid finds the user with the new hash, nobody
  else's row or hash has changed, and the change fails exactly for an unknown user.
\<close>

theorem set_password_correct:
  assumes "users_ok E D" and "no_email_clash E D (uid_str uid)"
  shows "(case sql_set_password uid h D of
      (Inr _, D') \<Rightarrow>
        (\<exists>r. row_of D uid = Some r \<and> sql_lookup_for_auth E (uid_str uid) D' = (Inr (Some (user_of r, Some h)), D')) \<and>
        (\<forall>v. v \<noteq> uid \<longrightarrow> row_of D' v = row_of D v)
    | (Inl e, D') \<Rightarrow> e = UsNotFound \<and> D' = D \<and> row_of D uid = None)"
proof (cases "row_of D uid")
  case None
  then show ?thesis by (simp add: sql_set_password_def update_user_eq)
next
  case (Some r)
  let ?f = "\<lambda>r. r\<lparr>ur_password := Some h\<rparr>"
  let ?D = "D\<lparr>db_users := map (\<lambda>r. if ur_uid r = uid_str uid then ?f r else r) (db_users D)\<rparr>"
  have set: "sql_set_password uid h D = (Inr (), ?D)"
    using Some by (simp add: sql_set_password_def update_user_eq)
  have ok: "users_ok E ?D" using set_password_ok [OF assms(1), of uid h] set by simp
  have "no_email_clash E ?D (uid_str uid)"
    using assms(2) by (auto simp: no_email_clash_def)
  from lookup_for_auth_uid [OF ok this]
  have "sql_lookup_for_auth E (uid_str uid) ?D = (Inr (Some (user_of r, Some h)), ?D)"
    using Some row_of_update [OF assms(1), of ?f uid uid] by (simp add: user_of_def)
  moreover have "row_of ?D v = row_of D v" if "v \<noteq> uid" for v
    using that row_of_update [OF assms(1), of ?f uid v] by (simp add: option.map_id)
  ultimately show ?thesis using Some set by simp
qed

theorem set_password_correct_witness:
  "sql_lookup_for_auth sample_users_env ''alice'' (snd (sql_set_password (UserId ''alice'') ''new'' sample_users_db)) =
     (Inr (Some (sample_user, Some ''new'')), snd (sql_set_password (UserId ''alice'') ''new'' sample_users_db))"
  using set_password_correct [of sample_users_env sample_users_db "UserId ''alice''" "''new''"] sample_users_ok
  by (simp add: sql_set_password_def update_user_eq sample_row_of user_of_alice)

text \<open>
  A user whose email is another user's uid takes over that login name when its row comes first:
  the password check then runs against the first user's row, so the owner of the name cannot log in.
\<close>

theorem login_shadowed:
  assumes "users_ok E D" and "db_users D = a # rest" and "b \<in> set rest"
    and "map_option (ue_sql_lower E) (ur_email a) = Some (ascii_lower (ur_uid b))"
  shows "sql_lookup_for_auth E (ur_uid b) D = (Inr (Some (user_of a, ur_password a)), D) \<and>
    sql_lookup_by_login E (ur_uid b) D = (Inr (Some (user_of b)), D) \<and> user_uid (user_of a) \<noteq> user_uid (user_of b)"
proof -
  have rows: "row_ok E a" "row_ok E b" using assms(2,3) users_ok_row [OF assms(1)] by auto
  have "ur_uid a \<noteq> ur_uid b" using assms(1-3) by (auto simp: users_ok_def)
  moreover have "sql_lookup_for_auth E (ur_uid b) D = (Inr (Some (user_of a, ur_password a)), D)"
    using assms(2,4) by (simp add: sql_lookup_for_auth_def sql_first_def row_to_user_ok [OF rows(1)])
  moreover have "user_id_new (ur_uid b) = Inr (UserId (ur_uid b))"
    using rows(2) by (simp add: row_ok_def user_id_new_iff)
  moreover have "row_of D (UserId (ur_uid b)) = Some b"
    using row_of_iff [OF assms(1)] assms(2,3) by simp
  ultimately show ?thesis
    by (simp add: sql_lookup_by_login_def lookup_eq [OF assms(1)] user_of_def)
qed

theorem login_shadowed_witness:
  "fst (sql_lookup_for_auth sample_users_env ''bob@x.org'' shadow_db) = Inr (Some (user_of shadow_row, Some ''evil''))"
  using login_shadowed [of sample_users_env shadow_db shadow_row "[victim_row]" victim_row] shadow_ok
  by (simp add: shadow_db_def victim_row_def shadow_row_def sample_users_env_def ascii_lower_def ascii_lower_char_def)

section \<open>Deletion and listing\<close>

text \<open>
  Deleting a user removes the row, every group membership and every preference of that user and
  nothing of anybody else.
\<close>

theorem delete_user_cascade:
  "let D' = snd (sql_delete_user uid D) in
   row_of D' uid = None \<and>
   set (db_users D') = {r \<in> set (db_users D). ur_uid r \<noteq> uid_str uid} \<and>
   set (db_group_user D') = {m \<in> set (db_group_user D). snd m \<noteq> uid_str uid} \<and>
   set (db_prefs D') = {p \<in> set (db_prefs D). fst (fst p) \<noteq> uid_str uid} \<and>
   db_groups D' = db_groups D"
  by (auto simp: sql_delete_user_def sql_delete_def row_of_None Let_def)

lemma collect_map: "(\<And>x. x \<in> set xs \<Longrightarrow> f x = Inr (g x)) \<Longrightarrow> collect f xs = Inr (map g xs)"
  by (induction xs) auto

text \<open>
  Listing users returns at most the limit, in uid order, and exactly the rows that match; a
  search text without LIKE wildcards matches the users whose uid, name or email contains it.
\<close>

theorem list_users_correct:
  assumes "users_ok E D"
  shows "sql_list_users E f D =
      (Inr (map user_of (sql_page (lf_limit f) (lf_offset f)
         (sort_key ur_uid (filter (user_matches E (filter_pattern f)) (db_users D))))), D) \<and>
    (\<forall>s. lf_search f = Some s \<and> s \<noteq> [] \<and> CHR ''%'' \<notin> set s \<and> CHR ''_'' \<notin> set s \<longrightarrow>
       (\<forall>r. user_matches E (filter_pattern f) r \<longleftrightarrow>
          sublist (ascii_lower s) (ue_sql_lower E (ur_uid r)) \<or>
          sublist (ascii_lower s) (ue_sql_lower E (or_empty (ur_display r))) \<or>
          sublist (ascii_lower s) (ue_sql_lower E (or_empty (ur_email r)))))"
proof -
  have "collect (row_to_user E) (sql_page (lf_limit f) (lf_offset f)
         (sort_key ur_uid (filter (user_matches E (filter_pattern f)) (db_users D)))) =
    Inr (map user_of (sql_page (lf_limit f) (lf_offset f)
         (sort_key ur_uid (filter (user_matches E (filter_pattern f)) (db_users D)))))"
    by (rule collect_map) (use set_sql_page in \<open>fastforce intro: row_to_user_ok users_ok_row [OF assms]\<close>)
  then show ?thesis
    by (auto simp: sql_list_users_def filter_pattern_def user_matches_def contains_pattern_def
        like_contains [OF map_ascii_lower_special [THEN conjunct1] map_ascii_lower_special [THEN conjunct2], simplified])
qed

theorem list_users_correct_witness:
  "sql_list_users sample_users_env \<lparr>lf_search = Some ''li'', lf_limit = 10, lf_offset = 0\<rparr> sample_users_db =
     (Inr [sample_user], sample_users_db)"
  using list_users_correct [OF sample_users_ok(1), of "\<lparr>lf_search = Some ''li'', lf_limit = 10, lf_offset = 0\<rparr>"]
  by (simp add: sample_db_eq user_matches_def filter_pattern_def contains_pattern_def sample_users_env_def
      ascii_lower_def ascii_lower_char_def sample_alice_def sql_page_def)
    (simp add: user_of_alice [unfolded sample_alice_def])

text \<open>An underscore in the search text, a common character of uids, matches any character.\<close>

lemma search_wildcard: "like (contains_pattern ''a_b'') ''axb''"
  by (simp add: contains_pattern_def ascii_lower_def ascii_lower_char_def)

end
