(* ===== verification/Cache.thy ===== *)
theory Cache
  imports Text
begin

text \<open>
  The in-process cache (crabcloud-cache, src/memory.rs) with its trait (src/trait_def.rs) and
  the typed view of it (src/typed.rs). The state is the map under the mutex; every operation
  takes the instant it reads from the clock. Values are byte strings. The lemmas give the
  contract the readers of the cache rely on, expiry included, and the saturation of counters.
\<close>

datatype cache_error = CacheIo string

record cache_entry =
  ce_value :: string
  ce_expires_at :: "nat option"

type_synonym mem_cache = "string \<Rightarrow> cache_entry option"

definition entry_expired :: "cache_entry \<Rightarrow> nat \<Rightarrow> bool" where
  "entry_expired e n = (case ce_expires_at e of Some t \<Rightarrow> t \<le> n | None \<Rightarrow> False)"

definition cache_new :: mem_cache where
  "cache_new = (\<lambda>_. None)"

definition cache_get :: "nat \<Rightarrow> string \<Rightarrow> mem_cache \<Rightarrow> string option \<times> mem_cache" where
  "cache_get n key c =
     (case c key of
        Some e \<Rightarrow> if entry_expired e n then (None, c(key := None)) else (Some (ce_value e), c)
      | None \<Rightarrow> (None, c))"

definition cache_set :: "nat \<Rightarrow> string \<Rightarrow> string \<Rightarrow> nat option \<Rightarrow> mem_cache \<Rightarrow> mem_cache" where
  "cache_set n key v ttl c =
     c(key \<mapsto> \<lparr>ce_value = v, ce_expires_at = map_option (\<lambda>d. n + d) ttl\<rparr>)"

definition cache_del :: "string \<Rightarrow> mem_cache \<Rightarrow> mem_cache" where
  "cache_del key c = c(key := None)"

text \<open>\<open>i64::saturating_add\<close>.\<close>

definition saturating_add :: "i64 \<Rightarrow> i64 \<Rightarrow> i64" where
  "saturating_add a b =
     (let s = sint a + sint b in
      if s > 2 ^ 63 - 1 then word_of_int (2 ^ 63 - 1)
      else if s < - (2 ^ 63) then word_of_int (- (2 ^ 63))
      else a + b)"

text \<open>A value that is no decimal \<open>i64\<close> is an error; the entry's lifetime is dropped.\<close>

definition cache_incr :: "nat \<Rightarrow> string \<Rightarrow> i64 \<Rightarrow> (mem_cache, cache_error, i64) eff" where
  "cache_incr n key by' c =
     (case (case c key of
              Some e \<Rightarrow> if \<not> entry_expired e n then ok_or (CacheIo ''incr: value not i64'') (parse_i64 (ce_value e)) else Inr 0
            | None \<Rightarrow> Inr 0) of
        Inl e \<Rightarrow> (Inl e, c)
      | Inr current \<Rightarrow>
          (let new = saturating_add current by'
           in (Inr new, c(key \<mapsto> \<lparr>ce_value = show_int (sint new), ce_expires_at = None\<rparr>))))"

definition cache_cas :: "nat \<Rightarrow> string \<Rightarrow> string \<Rightarrow> string \<Rightarrow> mem_cache \<Rightarrow> bool \<times> mem_cache" where
  "cache_cas n key old new c =
     (if (case c key of Some e \<Rightarrow> \<not> entry_expired e n \<and> ce_value e = old | None \<Rightarrow> False)
      then (True, c(key \<mapsto> \<lparr>ce_value = new, ce_expires_at = None\<rparr>))
      else (False, c))"

section \<open>The typed view\<close>

text \<open>\<open>TypedCache<T>\<close>: a key prefix and JSON (serde, the parameters \<open>enc\<close> and \<open>dec\<close>).\<close>

definition typed_get :: "(string \<Rightarrow> 'a option) \<Rightarrow> string \<Rightarrow> nat \<Rightarrow> string \<Rightarrow> (mem_cache, cache_error, 'a option) eff" where
  "typed_get dec pre n key c =
     (case cache_get n (pre @ key) c of
        (None, c') \<Rightarrow> (Inr None, c')
      | (Some b, c') \<Rightarrow>
          (case dec b of
             None \<Rightarrow> (Inl (CacheIo ''typed get decode''), c')
           | Some v \<Rightarrow> (Inr (Some v), c')))"

definition typed_set :: "('a \<Rightarrow> string) \<Rightarrow> string \<Rightarrow> nat \<Rightarrow> string \<Rightarrow> 'a \<Rightarrow> nat option \<Rightarrow> mem_cache \<Rightarrow> mem_cache" where
  "typed_set enc pre n key v ttl c = cache_set n (pre @ key) (enc v) ttl c"

definition typed_del :: "string \<Rightarrow> string \<Rightarrow> mem_cache \<Rightarrow> mem_cache" where
  "typed_del pre key c = cache_del (pre @ key) c"

section \<open>The contract\<close>

text \<open>What a read at an instant shows, leaving out the removal of the expired entry.\<close>

definition cache_view :: "nat \<Rightarrow> mem_cache \<Rightarrow> string \<Rightarrow> string option" where
  "cache_view n c key = fst (cache_get n key c)"

locale cache_contract =
  fixes rd :: "nat \<Rightarrow> string \<Rightarrow> 'c \<Rightarrow> string option \<times> 'c"
    and wr :: "nat \<Rightarrow> string \<Rightarrow> string \<Rightarrow> nat option \<Rightarrow> 'c \<Rightarrow> 'c"
    and erase :: "string \<Rightarrow> 'c \<Rightarrow> 'c"
    and vis :: "nat \<Rightarrow> 'c \<Rightarrow> string \<Rightarrow> string option"
  assumes read_see: "fst (rd n key c) = vis n c key"
    and see_read: "n \<le> m \<Longrightarrow> vis m (snd (rd n key c)) key' = vis m c key'"
    and see_write: "vis m (wr n key v ttl c) key' =
      (if key' = key
       then (case ttl of Some d \<Rightarrow> if m < n + d then Some v else None | None \<Rightarrow> Some v)
       else vis m c key')"
    and see_erase: "vis m (erase key c) key' = (if key' = key then None else vis m c key')"
    and see_antitone: "n \<le> m \<Longrightarrow> vis n c key = None \<Longrightarrow> vis m c key = None"
begin

lemma erased: "fst (rd n key (erase key c)) = None"
  by (simp add: read_see see_erase)

lemma read_twice: "n \<le> m \<Longrightarrow> fst (rd m key (snd (rd n key c))) = fst (rd m key c)"
  by (simp add: read_see see_read)

lemma expired: "n + d \<le> m \<Longrightarrow> fst (rd m key (wr n key v (Some d) c)) = None"
  by (simp add: read_see see_write)

end

interpretation mc: cache_contract cache_get cache_set cache_del cache_view
  by unfold_locales
    (auto simp: cache_view_def cache_get_def cache_set_def cache_del_def entry_expired_def
      split: option.splits)

text \<open>A typed value is read back until it expires, and no other key is touched.\<close>

lemma typed_get_set:
  assumes "dec (enc v) = Some v"
  shows "fst (typed_get dec pre m key (typed_set enc pre n key v ttl c)) =
    (case ttl of
       Some d \<Rightarrow> if m < n + d then Inr (Some v) else Inr None
     | None \<Rightarrow> Inr (Some v))"
  using assms
  by (auto simp: typed_get_def typed_set_def cache_get_def cache_set_def entry_expired_def
      split: option.splits)

lemma saturating_add_sint:
  "sint (saturating_add a b) = max (- (2 ^ 63)) (min (2 ^ 63 - 1) (sint a + sint b))"
proof -
  have k: "sint (word_of_int i :: i64) = i" if "- (2 ^ 63) \<le> i" "i < 2 ^ 63" for i
    using that by (simp add: signed_of_int signed_take_bit_int_eq_self)
  have ab: "a + b = word_of_int (sint a + sint b)" by simp
  show ?thesis
  proof (cases "- (2 ^ 63) \<le> sint a + sint b \<and> sint a + sint b < 2 ^ 63")
    case True
    then have "sint (a + b) = sint a + sint b" unfolding ab by (intro k) auto
    then show ?thesis using True by (auto simp: saturating_add_def Let_def)
  next
    case False
    then show ?thesis
      using k [of "- (2 ^ 63)"] k [of "2 ^ 63 - 1"]
      by (auto simp: saturating_add_def Let_def not_less min_def max_def)
  qed
qed

end
