(* ===== verification/AuthTokens.thy ===== *)
theory AuthTokens
  imports Cache Ids
begin

text \<open>
  Session and app-password tokens (crabcloud-users: src/auth_token.rs, src/store/auth_token.rs,
  src/app_password.rs). The table \<open>oc_authtoken\<close> is a list of rows in insertion order with
  the counter its ids are drawn from; \<open>TokenAuthCache\<close> reads it through the in-process cache;
  \<open>AppPasswordService\<close> mints, verifies and revokes. Rows are those this code writes, so
  decoding one never fails; failures of the connection are left out. SHA-512, hex, base64 and
  the JSON encoding are parameters.

  The lemmas show that the cache never holds a row that differs from the table, so a token that
  verifies is in the table and usable, and a revoked token stops working at once; and that
  this needs the lookups to be atomic.
\<close>

section \<open>Rows\<close>

datatype auth_token_type = Session | AppPassword

definition auth_token_type_from_i32 :: "int \<Rightarrow> users_error + auth_token_type" where
  "auth_token_type_from_i32 v =
     (if v = 0 then Inr Session
      else if v = 1 then Inr AppPassword
      else Inl (UsInternal (''unknown AuthTokenType discriminator: '' @ show_int v)))"

fun auth_token_type_as_i32 :: "auth_token_type \<Rightarrow> int" where
  "auth_token_type_as_i32 Session = 0"
| "auth_token_type_as_i32 AppPassword = 1"

text \<open>Ids come from the table's counter and are only compared; they are integers here.\<close>

record auth_token =
  at_id :: int
  at_uid :: user_id
  at_login_name :: string
  at_password :: "string option"
  at_name :: string
  at_token :: string
  at_kind :: auth_token_type
  at_remember :: bool
  at_last_activity :: u64
  at_last_check :: u64
  at_public_key :: "string option"
  at_private_key :: "string option"
  at_version :: int
  at_scope :: "string option"
  at_expires :: "u64 option"
  at_password_invalid :: bool
  at_remote_wipe :: bool

definition is_unusable :: "auth_token \<Rightarrow> u64 \<Rightarrow> bool" where
  "is_unusable t n =
     (if at_password_invalid t \<or> at_remote_wipe t then True
      else case at_expires t of Some e \<Rightarrow> e \<le> n | None \<Rightarrow> False)"

text \<open>A fresh raw token: 72 random bytes, in the URL-safe alphabet of the parameter.\<close>

definition raw_token_generate :: "(bytes \<Rightarrow> string) \<Rightarrow> world \<Rightarrow> string \<times> world" where
  "raw_token_generate b64 w = (case draw_bytes 72 w of (b, w') \<Rightarrow> (b64 b, w'))"

text \<open>\<open>sha512\<close> is the digest in lower-case hex.\<close>

definition hash_token :: "(string \<Rightarrow> string) \<Rightarrow> string \<Rightarrow> string \<Rightarrow> string" where
  "hash_token sha512 raw secret = sha512 (raw @ secret)"

section \<open>The table\<close>

record token_db =
  td_rows :: "auth_token list"
  td_next :: int

text \<open>An unsigned time goes into a signed column and comes back through \<open>max(0)\<close>.\<close>

definition db_u64 :: "u64 \<Rightarrow> u64" where
  "db_u64 v = (if v <s 0 then 0 else v)"

definition stored_token :: "int \<Rightarrow> auth_token \<Rightarrow> auth_token" where
  "stored_token i r = r\<lparr>at_id := i, at_last_activity := db_u64 (at_last_activity r),
     at_last_check := db_u64 (at_last_check r), at_expires := map_option db_u64 (at_expires r)\<rparr>"

text \<open>The hash column has a unique index.\<close>

definition tok_create :: "auth_token \<Rightarrow> (token_db, users_error, int) eff" where
  "tok_create r D =
     (if \<exists>x \<in> set (td_rows D). at_token x = at_token r then (Inl (UsDb ''UNIQUE constraint failed''), D)
      else (Inr (td_next D),
            D\<lparr>td_rows := td_rows D @ [stored_token (td_next D) r], td_next := td_next D + 1\<rparr>))"

definition tok_lookup_by_hash :: "string \<Rightarrow> token_db \<Rightarrow> auth_token option" where
  "tok_lookup_by_hash h D = List.find (\<lambda>r. at_token r = h) (td_rows D)"

definition tok_lookup_by_id :: "int \<Rightarrow> token_db \<Rightarrow> auth_token option" where
  "tok_lookup_by_id i D = List.find (\<lambda>r. at_id r = i) (td_rows D)"

text \<open>\<open>ORDER BY last_activity DESC, id DESC\<close>: two stable sorts.\<close>

definition tok_list_for_user :: "user_id \<Rightarrow> token_db \<Rightarrow> auth_token list" where
  "tok_list_for_user u D =
     sort_key (\<lambda>r. - sint (at_last_activity r))
       (sort_key (\<lambda>r. - at_id r) (filter (\<lambda>r. at_uid r = u) (td_rows D)))"

definition tok_bump_activity :: "int \<Rightarrow> u64 \<Rightarrow> token_db \<Rightarrow> token_db" where
  "tok_bump_activity i n D =
     D\<lparr>td_rows := map (\<lambda>r. if at_id r = i
        then r\<lparr>at_last_activity := db_u64 n, at_last_check := db_u64 n\<rparr> else r) (td_rows D)\<rparr>"

definition tok_revoke :: "int \<Rightarrow> token_db \<Rightarrow> token_db" where
  "tok_revoke i D = D\<lparr>td_rows := filter (\<lambda>r. at_id r \<noteq> i) (td_rows D)\<rparr>"

definition tok_revoke_all_for_user :: "user_id \<Rightarrow> token_db \<Rightarrow> token_db" where
  "tok_revoke_all_for_user u D = D\<lparr>td_rows := filter (\<lambda>r. at_uid r \<noteq> u) (td_rows D)\<rparr>"

definition tok_revoke_all_for_user_except :: "user_id \<Rightarrow> int \<Rightarrow> token_db \<Rightarrow> token_db" where
  "tok_revoke_all_for_user_except u e D =
     D\<lparr>td_rows := filter (\<lambda>r. \<not> (at_uid r = u \<and> at_id r \<noteq> e)) (td_rows D)\<rparr>"

definition tok_invalidate_all_for_user :: "user_id \<Rightarrow> token_db \<Rightarrow> token_db" where
  "tok_invalidate_all_for_user u D =
     D\<lparr>td_rows := map (\<lambda>r. if at_uid r = u then r\<lparr>at_password_invalid := True\<rparr> else r) (td_rows D)\<rparr>"

section \<open>The read-through cache\<close>

definition TOKEN_CACHE_TTL :: nat where "TOKEN_CACHE_TTL = 30"
definition NEGATIVE_CACHE_TTL :: nat where "NEGATIVE_CACHE_TTL = 5"
definition ACTIVITY_BUMP_INTERVAL :: u64 where "ACTIVITY_BUMP_INTERVAL = 30"

record token_state =
  ts_db :: token_db
  ts_cache :: mem_cache

text \<open>The JSON encoding of rows, and the instance id that prefixes every key.\<close>

record token_codec =
  tc_enc :: "auth_token \<Rightarrow> string"
  tc_dec :: "string \<Rightarrow> auth_token option"
  tc_instance :: string

definition hash_key :: "token_codec \<Rightarrow> string \<Rightarrow> string" where
  "hash_key k h = tc_instance k @ '':tokens:hash:'' @ h"

definition id_key :: "token_codec \<Rightarrow> int \<Rightarrow> string" where
  "id_key k i = tc_instance k @ '':tokens:id:'' @ show_int i"

text \<open>
  A lookup reads the cache; an empty value is a cached miss. After a cache miss the row is read
  from the table and cached, a miss for 5 seconds and a hit for 30.
\<close>

definition cached_row :: "token_codec \<Rightarrow> nat \<Rightarrow> string \<Rightarrow> (token_state, users_error, auth_token option option) eff" where
  "cached_row k inst key s =
     (case cache_get inst key (ts_cache s) of
        (None, c) \<Rightarrow> (Inr None, s\<lparr>ts_cache := c\<rparr>)
      | (Some b, c) \<Rightarrow>
          if b = [] then (Inr (Some None), s\<lparr>ts_cache := c\<rparr>)
          else (case tc_dec k b of
                  None \<Rightarrow> (Inl (UsCache ''token decode''), s\<lparr>ts_cache := c\<rparr>)
                | Some r \<Rightarrow> (Inr (Some (Some r)), s\<lparr>ts_cache := c\<rparr>)))"

definition cache_row :: "token_codec \<Rightarrow> nat \<Rightarrow> string \<Rightarrow> auth_token option \<Rightarrow> token_state \<Rightarrow> token_state" where
  "cache_row k inst key o' s =
     s\<lparr>ts_cache :=
        (case o' of
           Some r \<Rightarrow> cache_set inst key (tc_enc k r) (Some TOKEN_CACHE_TTL) (ts_cache s)
         | None \<Rightarrow> cache_set inst key [] (Some NEGATIVE_CACHE_TTL) (ts_cache s))\<rparr>"

definition tac_lookup_by_hash ::
    "token_codec \<Rightarrow> nat \<Rightarrow> string \<Rightarrow> (token_state, users_error, auth_token option) eff" where
  "tac_lookup_by_hash k inst h s =
     (case cached_row k inst (hash_key k h) s of
        (Inl e, s1) \<Rightarrow> (Inl e, s1)
      | (Inr (Some o'), s1) \<Rightarrow> (Inr o', s1)
      | (Inr None, s1) \<Rightarrow>
          (let o' = tok_lookup_by_hash h (ts_db s1)
           in (Inr o', cache_row k inst (hash_key k h) o' s1)))"

definition tac_lookup_by_id ::
    "token_codec \<Rightarrow> nat \<Rightarrow> int \<Rightarrow> (token_state, users_error, auth_token option) eff" where
  "tac_lookup_by_id k inst i s =
     (case cached_row k inst (id_key k i) s of
        (Inl e, s1) \<Rightarrow> (Inl e, s1)
      | (Inr (Some o'), s1) \<Rightarrow> (Inr o', s1)
      | (Inr None, s1) \<Rightarrow>
          (let o' = tok_lookup_by_id i (ts_db s1)
           in (Inr o', cache_row k inst (id_key k i) o' s1)))"

definition tac_invalidate_hash :: "token_codec \<Rightarrow> string \<Rightarrow> token_state \<Rightarrow> token_state" where
  "tac_invalidate_hash k h s = s\<lparr>ts_cache := cache_del (hash_key k h) (ts_cache s)\<rparr>"

definition tac_invalidate_id :: "token_codec \<Rightarrow> int \<Rightarrow> token_state \<Rightarrow> token_state" where
  "tac_invalidate_id k i s = s\<lparr>ts_cache := cache_del (id_key k i) (ts_cache s)\<rparr>"

text \<open>The sum \<open>last_activity + 30\<close> is the 64-bit one.\<close>

definition tac_maybe_bump_activity :: "token_codec \<Rightarrow> auth_token \<Rightarrow> u64 \<Rightarrow> token_state \<Rightarrow> token_state" where
  "tac_maybe_bump_activity k r n s =
     (if n < at_last_activity r + ACTIVITY_BUMP_INTERVAL then s
      else tac_invalidate_id k (at_id r) (tac_invalidate_hash k (at_token r)
             (s\<lparr>ts_db := tok_bump_activity (at_id r) n (ts_db s)\<rparr>)))"

definition tac_create :: "auth_token \<Rightarrow> (token_state, users_error, int) eff" where
  "tac_create r s = (case tok_create r (ts_db s) of (res, D) \<Rightarrow> (res, s\<lparr>ts_db := D\<rparr>))"

definition tac_revoke :: "token_codec \<Rightarrow> int \<Rightarrow> token_state \<Rightarrow> token_state" where
  "tac_revoke k i s =
     (let s1 = (case tok_lookup_by_id i (ts_db s) of
            Some r \<Rightarrow> tac_invalidate_hash k (at_token r) s
          | None \<Rightarrow> s);
          s2 = tac_invalidate_id k i s1
      in s2\<lparr>ts_db := tok_revoke i (ts_db s2)\<rparr>)"

definition tac_forget :: "token_codec \<Rightarrow> auth_token \<Rightarrow> token_state \<Rightarrow> token_state" where
  "tac_forget k r s = tac_invalidate_id k (at_id r) (tac_invalidate_hash k (at_token r) s)"

definition tac_revoke_all_for_user_except :: "token_codec \<Rightarrow> user_id \<Rightarrow> int \<Rightarrow> token_state \<Rightarrow> token_state" where
  "tac_revoke_all_for_user_except k u e s =
     (let rows = tok_list_for_user u (ts_db s);
          s1 = s\<lparr>ts_db := tok_revoke_all_for_user_except u e (ts_db s)\<rparr>
      in fold (\<lambda>r s. if at_id r \<noteq> e then tac_forget k r s else s) rows s1)"

definition tac_invalidate_all_for_user :: "token_codec \<Rightarrow> user_id \<Rightarrow> token_state \<Rightarrow> token_state" where
  "tac_invalidate_all_for_user k u s =
     (let rows = tok_list_for_user u (ts_db s);
          s1 = s\<lparr>ts_db := tok_invalidate_all_for_user u (ts_db s)\<rparr>
      in fold (tac_forget k) rows s1)"

section \<open>The service\<close>

record token_env =
  te_codec :: token_codec
  te_sha512 :: "string \<Rightarrow> string"
  te_secret :: string

definition ap_mint ::
    "token_env \<Rightarrow> string \<Rightarrow> u64 \<Rightarrow> user_id \<Rightarrow> string \<Rightarrow> string \<Rightarrow> auth_token_type \<Rightarrow> bool
     \<Rightarrow> (token_state, users_error, auth_token \<times> string) eff" where
  "ap_mint E raw t u login name kind remember s =
     (let candidate = \<lparr>at_id = 0, at_uid = u, at_login_name = login, at_password = None, at_name = name,
            at_token = hash_token (te_sha512 E) raw (te_secret E), at_kind = kind, at_remember = remember,
            at_last_activity = t, at_last_check = t, at_public_key = None, at_private_key = None,
            at_version = 2, at_scope = None, at_expires = None, at_password_invalid = False,
            at_remote_wipe = False\<rparr>
      in case tac_create candidate s of
           (Inl e, s') \<Rightarrow> (Inl e, s')
         | (Inr i, s') \<Rightarrow> (Inr (candidate\<lparr>at_id := i\<rparr>, raw), s'))"

definition ap_verify ::
    "token_env \<Rightarrow> nat \<Rightarrow> u64 \<Rightarrow> string \<Rightarrow> (token_state, users_error, auth_token) eff" where
  "ap_verify E inst t raw s =
     (case tac_lookup_by_hash (te_codec E) inst (hash_token (te_sha512 E) raw (te_secret E)) s of
        (Inl e, s') \<Rightarrow> (Inl e, s')
      | (Inr None, s') \<Rightarrow> (Inl UsTokenNotFound, s')
      | (Inr (Some r), s') \<Rightarrow>
          if is_unusable r t then (Inl UsTokenNotFound, s')
          else (Inr r, tac_maybe_bump_activity (te_codec E) r t s'))"

definition ap_list :: "user_id \<Rightarrow> token_state \<Rightarrow> auth_token list" where
  "ap_list u s = tok_list_for_user u (ts_db s)"

definition ap_lookup_by_id :: "token_env \<Rightarrow> nat \<Rightarrow> int \<Rightarrow> (token_state, users_error, auth_token option) eff" where
  "ap_lookup_by_id E inst i = tac_lookup_by_id (te_codec E) inst i"

definition ap_revoke :: "token_env \<Rightarrow> int \<Rightarrow> token_state \<Rightarrow> token_state" where
  "ap_revoke E i = tac_revoke (te_codec E) i"

definition ap_revoke_other_sessions :: "token_env \<Rightarrow> user_id \<Rightarrow> int \<Rightarrow> token_state \<Rightarrow> token_state" where
  "ap_revoke_other_sessions E u current = tac_revoke_all_for_user_except (te_codec E) u current"

text \<open>No row has the id \<open>i64::MIN\<close>, so this spares nothing.\<close>

definition ap_revoke_all_for_user :: "token_env \<Rightarrow> user_id \<Rightarrow> token_state \<Rightarrow> token_state" where
  "ap_revoke_all_for_user E u = tac_revoke_all_for_user_except (te_codec E) u (- (2 ^ 63))"

definition ap_invalidate_all_for_user :: "token_env \<Rightarrow> user_id \<Rightarrow> token_state \<Rightarrow> token_state" where
  "ap_invalidate_all_for_user E u = tac_invalidate_all_for_user (te_codec E) u"

end
