(* ===== verification/AuthTokens_Correct.thy ===== *)
theory AuthTokens_Correct
  imports AuthTokens
begin

text \<open>
  What the token service guarantees: the invariant of the table and its cache, soundness and
  completeness of verification, immediate revocation, and the race that breaks it when a
  lookup is not atomic.
\<close>

section \<open>Keys\<close>

lemma hash_key_inj [simp]: "hash_key k a = hash_key k b \<longleftrightarrow> a = b"
  by (simp add: hash_key_def)

lemma id_key_inj [simp]: "id_key k a = id_key k b \<longleftrightarrow> a = b"
  by (auto simp: id_key_def dest: show_int_inj)

lemma hash_id_key [simp]: "hash_key k a \<noteq> id_key k b" "id_key k b \<noteq> hash_key k a"
  by (simp_all add: hash_key_def id_key_def)

section \<open>The invariant\<close>

definition codec_ok :: "token_codec \<Rightarrow> bool" where
  "codec_ok k \<longleftrightarrow> (\<forall>r. tc_dec k (tc_enc k r) = Some r \<and> tc_enc k r \<noteq> [])"

text \<open>Every cached row is a row of the table, under its own hash or id.\<close>

definition coherent :: "token_codec \<Rightarrow> auth_token list \<Rightarrow> mem_cache \<Rightarrow> bool" where
  "coherent k rows c \<longleftrightarrow>
     (\<forall>h e. c (hash_key k h) = Some e \<and> ce_value e \<noteq> [] \<longrightarrow>
        (\<exists>r \<in> set rows. at_token r = h \<and> ce_value e = tc_enc k r)) \<and>
     (\<forall>i e. c (id_key k i) = Some e \<and> ce_value e \<noteq> [] \<longrightarrow>
        (\<exists>r \<in> set rows. at_id r = i \<and> ce_value e = tc_enc k r))"

definition db_ok :: "token_db \<Rightarrow> bool" where
  "db_ok D \<longleftrightarrow> distinct (map at_id (td_rows D)) \<and> distinct (map at_token (td_rows D)) \<and>
     0 < td_next D \<and> (\<forall>r \<in> set (td_rows D). 0 < at_id r \<and> at_id r < td_next D)"

definition tok_inv :: "token_codec \<Rightarrow> token_state \<Rightarrow> bool" where
  "tok_inv k s \<longleftrightarrow> db_ok (ts_db s) \<and> coherent k (td_rows (ts_db s)) (ts_cache s)"

lemma coherent_get: "coherent k rows c \<Longrightarrow> cache_get n key c = (v, c') \<Longrightarrow> coherent k rows c'"
  unfolding coherent_def by (auto simp: cache_get_def split: option.splits if_splits)

lemma coherent_set_hash:
  "\<lbrakk>coherent k rows c; r \<in> set rows; at_token r = h\<rbrakk> \<Longrightarrow>
   coherent k rows (cache_set n (hash_key k h) (tc_enc k r) ttl c)"
  unfolding coherent_def by (auto simp: cache_set_def)

lemma coherent_set_id:
  "\<lbrakk>coherent k rows c; r \<in> set rows; at_id r = i\<rbrakk> \<Longrightarrow>
   coherent k rows (cache_set n (id_key k i) (tc_enc k r) ttl c)"
  unfolding coherent_def by (auto simp: cache_set_def)

lemma coherent_set_empty: "coherent k rows c \<Longrightarrow> coherent k rows (cache_set n key [] ttl c)"
  unfolding coherent_def by (auto simp: cache_set_def)

lemma coherent_del: "coherent k rows c \<Longrightarrow> coherent k rows (cache_del key c)"
  unfolding coherent_def by (auto simp: cache_del_def)

text \<open>A change of the table keeps the cache coherent when the rows that went were forgotten.\<close>

lemma coherent_change:
  assumes "coherent k rows c"
    and "\<forall>r \<in> set rows - set rows'. c (hash_key k (at_token r)) = None \<and> c (id_key k (at_id r)) = None"
  shows "coherent k rows' c"
  using assms unfolding coherent_def by (metis DiffI option.distinct(1))

lemma db_ok_id_unique: "\<lbrakk>db_ok D; a \<in> set (td_rows D); b \<in> set (td_rows D); at_id a = at_id b\<rbrakk> \<Longrightarrow> a = b"
  by (auto simp: db_ok_def distinct_map dest: inj_onD)

lemma db_ok_token_unique:
  "\<lbrakk>db_ok D; a \<in> set (td_rows D); b \<in> set (td_rows D); at_token a = at_token b\<rbrakk> \<Longrightarrow> a = b"
  by (auto simp: db_ok_def distinct_map dest: inj_onD)

lemma find_Some_unique:
  assumes "List.find P xs = Some x"
  shows "x \<in> set xs \<and> P x"
  using assms by (auto simp: find_Some_iff)

lemma find_unique:
  assumes "r \<in> set xs" "P r" "\<And>a. a \<in> set xs \<Longrightarrow> P a \<Longrightarrow> a = r"
  shows "List.find P xs = Some r"
proof (cases "List.find P xs")
  case None
  then show ?thesis using assms(1,2) by (simp add: find_None_iff)
next
  case (Some x)
  then show ?thesis using find_Some_unique [OF Some] assms(3) by simp
qed

lemma lookup_by_hash_iff:
  assumes "db_ok D"
  shows "tok_lookup_by_hash h D = Some r \<longleftrightarrow> r \<in> set (td_rows D) \<and> at_token r = h"
  unfolding tok_lookup_by_hash_def
  by (metis (mono_tags, lifting) find_Some_unique find_unique db_ok_token_unique [OF assms])

lemma lookup_by_id_iff:
  assumes "db_ok D"
  shows "tok_lookup_by_id i D = Some r \<longleftrightarrow> r \<in> set (td_rows D) \<and> at_id r = i"
  unfolding tok_lookup_by_id_def
  by (metis (mono_tags, lifting) find_Some_unique find_unique db_ok_id_unique [OF assms])

lemma coherent_hashD:
  "\<lbrakk>coherent k rows c; c (hash_key k h) = Some e; ce_value e \<noteq> []\<rbrakk> \<Longrightarrow>
   \<exists>r \<in> set rows. at_token r = h \<and> ce_value e = tc_enc k r"
  by (simp add: coherent_def)

lemma coherent_idD:
  "\<lbrakk>coherent k rows c; c (id_key k i) = Some e; ce_value e \<noteq> []\<rbrakk> \<Longrightarrow>
   \<exists>r \<in> set rows. at_id r = i \<and> ce_value e = tc_enc k r"
  by (simp add: coherent_def)

lemma set_list_for_user: "set (tok_list_for_user u D) = {r \<in> set (td_rows D). at_uid r = u}"
  by (auto simp: tok_list_for_user_def)

section \<open>Preservation\<close>

lemma cached_row_inv:
  "\<lbrakk>tok_inv k s; cached_row k n key s = (res, s')\<rbrakk> \<Longrightarrow> tok_inv k s' \<and> ts_db s' = ts_db s"
  by (auto simp: cached_row_def tok_inv_def dest: coherent_get split: prod.splits option.splits if_splits)

lemma cached_row_hash:
  assumes "codec_ok k" "tok_inv k s" "cached_row k n (hash_key k h) s = (Inr (Some (Some r)), s')"
  shows "r \<in> set (td_rows (ts_db s)) \<and> at_token r = h"
proof -
  from assms(3) obtain e where "ts_cache s (hash_key k h) = Some e" "ce_value e \<noteq> []"
      and r: "tc_dec k (ce_value e) = Some r"
    by (auto simp: cached_row_def cache_get_def split: option.splits if_splits)
  then obtain r' where "r' \<in> set (td_rows (ts_db s))" "at_token r' = h" "ce_value e = tc_enc k r'"
    using assms(2) coherent_hashD unfolding tok_inv_def by blast
  then show ?thesis using r assms(1) by (auto simp: codec_ok_def)
qed

lemma cached_row_id:
  assumes "codec_ok k" "tok_inv k s" "cached_row k n (id_key k i) s = (Inr (Some (Some r)), s')"
  shows "r \<in> set (td_rows (ts_db s)) \<and> at_id r = i"
proof -
  from assms(3) obtain e where "ts_cache s (id_key k i) = Some e" "ce_value e \<noteq> []"
      and r: "tc_dec k (ce_value e) = Some r"
    by (auto simp: cached_row_def cache_get_def split: option.splits if_splits)
  then obtain r' where "r' \<in> set (td_rows (ts_db s))" "at_id r' = i" "ce_value e = tc_enc k r'"
    using assms(2) coherent_idD unfolding tok_inv_def by blast
  then show ?thesis using r assms(1) by (auto simp: codec_ok_def)
qed

lemma cached_row_no_error:
  assumes "codec_ok k" "tok_inv k s"
  shows "cached_row k n (hash_key k h) s \<noteq> (Inl e, s')"
  using assms unfolding cached_row_def tok_inv_def coherent_def codec_ok_def cache_get_def
  by (fastforce split: option.splits if_splits)

lemma lookup_by_hash_inv:
  assumes "codec_ok k" "tok_inv k s" "tac_lookup_by_hash k n h s = (res, s')"
  shows "tok_inv k s' \<and> ts_db s' = ts_db s \<and>
    (\<forall>r. res = Inr (Some r) \<longrightarrow> r \<in> set (td_rows (ts_db s)) \<and> at_token r = h) \<and>
    (\<forall>e. res \<noteq> Inl e)"
proof -
  obtain q s1 where q: "cached_row k n (hash_key k h) s = (q, s1)" by force
  note inv1 = cached_row_inv [OF assms(2) q]
  have hit: "r \<in> set (td_rows (ts_db s)) \<and> at_token r = h" if "tok_lookup_by_hash h (ts_db s) = Some r" for r
    using that assms(2) lookup_by_hash_iff by (simp add: tok_inv_def)
  have miss: "tok_inv k (cache_row k n (hash_key k h) (tok_lookup_by_hash h (ts_db s1)) s1)"
    using inv1 hit
    by (auto simp: tok_inv_def cache_row_def split: option.splits
        intro!: coherent_set_hash coherent_set_empty)
  show ?thesis
    using assms(3) q inv1 miss cached_row_hash [OF assms(1,2)] cached_row_no_error [OF assms(1,2)]
      hit
    by (auto simp: tac_lookup_by_hash_def Let_def cache_row_def tok_inv_def split: sum.splits option.splits)
qed

lemma lookup_by_id_inv:
  assumes "codec_ok k" "tok_inv k s" "tac_lookup_by_id k n i s = (res, s')"
  shows "tok_inv k s' \<and> ts_db s' = ts_db s"
proof -
  obtain q s1 where q: "cached_row k n (id_key k i) s = (q, s1)" by force
  note inv1 = cached_row_inv [OF assms(2) q]
  have hit: "r \<in> set (td_rows (ts_db s)) \<and> at_id r = i" if "tok_lookup_by_id i (ts_db s) = Some r" for r
    using that assms(2) lookup_by_id_iff by (simp add: tok_inv_def)
  have miss: "tok_inv k (cache_row k n (id_key k i) (tok_lookup_by_id i (ts_db s1)) s1)"
    using inv1 hit
    by (auto simp: tok_inv_def cache_row_def split: option.splits
        intro!: coherent_set_id coherent_set_empty)
  show ?thesis
    using assms(3) q inv1 miss
    by (auto simp: tac_lookup_by_id_def Let_def cache_row_def split: sum.splits option.splits)
qed

lemma create_inv:
  assumes "tok_inv k s" "tac_create r s = (res, s')"
  shows "tok_inv k s'"
proof (cases "\<exists>x \<in> set (td_rows (ts_db s)). at_token x = at_token r")
  case True
  then show ?thesis using assms by (auto simp: tac_create_def tok_create_def)
next
  case False
  let ?r = "stored_token (td_next (ts_db s)) r"
  have s': "s' = s\<lparr>ts_db := (ts_db s)\<lparr>td_rows := td_rows (ts_db s) @ [?r], td_next := td_next (ts_db s) + 1\<rparr>\<rparr>"
    using False assms(2) by (auto simp: tac_create_def tok_create_def)
  have ok: "db_ok (ts_db s)" using assms(1) by (simp add: tok_inv_def)
  then have lt: "at_id x < td_next (ts_db s)" if "x \<in> set (td_rows (ts_db s))" for x
    using that by (simp add: db_ok_def)
  have ids: "td_next (ts_db s) \<notin> at_id ` set (td_rows (ts_db s))" using lt by force
  have toks: "at_token r \<notin> at_token ` set (td_rows (ts_db s))" using False by force
  have new: "at_id ?r = td_next (ts_db s)" "at_token ?r = at_token r"
    by (simp_all add: stored_token_def)
  have rows: "td_rows (ts_db s') = td_rows (ts_db s) @ [?r]" "td_next (ts_db s') = td_next (ts_db s) + 1"
    by (simp_all add: s')
  have "distinct (map at_id (td_rows (ts_db s')))" "distinct (map at_token (td_rows (ts_db s')))"
    using ok ids toks by (simp_all add: rows new db_ok_def)
  moreover have "0 < at_id x \<and> at_id x < td_next (ts_db s) + 1" if "x \<in> set (td_rows (ts_db s'))" for x
    using that ok lt [of x] new by (auto simp: rows db_ok_def)
  moreover have "0 < td_next (ts_db s')" using ok by (simp add: rows db_ok_def)
  ultimately have "db_ok (ts_db s')" by (simp add: db_ok_def rows(2))
  moreover have "coherent k (td_rows (ts_db s')) (ts_cache s)"
    unfolding rows(1)
    by (rule coherent_change [where rows = "td_rows (ts_db s)"]) (use assms(1) in \<open>auto simp: tok_inv_def\<close>)
  ultimately show ?thesis by (simp add: tok_inv_def s')
qed

lemma forget_None:
  "ts_cache (tac_forget k r s) key =
     (if key = hash_key k (at_token r) \<or> key = id_key k (at_id r) then None else ts_cache s key)"
  by (auto simp: tac_forget_def tac_invalidate_id_def tac_invalidate_hash_def cache_del_def)

lemma forget_db [simp]: "ts_db (tac_forget k r s) = ts_db s"
  by (simp add: tac_forget_def tac_invalidate_id_def tac_invalidate_hash_def)

lemma fold_forget:
  "ts_db (fold (\<lambda>r s. if P r then tac_forget k r s else s) rows s) = ts_db s \<and>
   ts_cache (fold (\<lambda>r s. if P r then tac_forget k r s else s) rows s) key =
     (if \<exists>r \<in> set rows. P r \<and> (key = hash_key k (at_token r) \<or> key = id_key k (at_id r))
      then None else ts_cache s key)"
  by (induction rows arbitrary: s) (auto simp: forget_None)

lemma coherent_less: "coherent k rows c \<Longrightarrow> (\<And>key. c' key = None \<or> c' key = c key) \<Longrightarrow> coherent k rows c'"
  unfolding coherent_def by (metis option.distinct(1))

text \<open>
  The common shape of the table changes: some rows are forgotten from the cache, and every row
  that is changed or removed is among them.
\<close>

lemma forgotten_inv:
  assumes "tok_inv k s" and "db_ok D"
    and "\<forall>r \<in> set (td_rows (ts_db s)) - set (td_rows D). r \<in> set rows \<and> P r"
  shows "tok_inv k (fold (\<lambda>r s. if P r then tac_forget k r s else s) rows (s\<lparr>ts_db := D\<rparr>))"
proof -
  let ?s = "fold (\<lambda>r s. if P r then tac_forget k r s else s) rows (s\<lparr>ts_db := D\<rparr>)"
  have db: "ts_db ?s = D" using fold_forget by simp
  have base: "ts_cache (s\<lparr>ts_db := D\<rparr>) = ts_cache s" by simp
  have c: "ts_cache ?s key = (if \<exists>r \<in> set rows. P r \<and> (key = hash_key k (at_token r) \<or> key = id_key k (at_id r))
      then None else ts_cache s key)" for key
    unfolding conjunct2 [OF fold_forget] base ..
  have "coherent k (td_rows (ts_db s)) (ts_cache ?s)"
    using assms(1) unfolding tok_inv_def by (elim conjE coherent_less) (simp only: c split: if_split, blast)
  then have "coherent k (td_rows D) (ts_cache ?s)"
    by (rule coherent_change) (use assms(3) c in auto)
  then show ?thesis using assms(2) db by (simp add: tok_inv_def)
qed

lemma db_ok_filter: "db_ok D \<Longrightarrow> db_ok (D\<lparr>td_rows := filter P (td_rows D)\<rparr>)"
  by (auto simp: db_ok_def distinct_map inj_on_def)

lemma db_ok_map:
  assumes "db_ok D" and "\<And>r. at_id (f r) = at_id r" and "\<And>r. at_token (f r) = at_token r"
  shows "db_ok (D\<lparr>td_rows := map f (td_rows D)\<rparr>)"
  using assms by (auto simp: db_ok_def comp_def)

lemma revoke_fold: "tac_revoke k i s =
  (let s1 = (case tok_lookup_by_id i (ts_db s) of Some r \<Rightarrow> tac_forget k r (s\<lparr>ts_db := tok_revoke i (ts_db s)\<rparr>)
     | None \<Rightarrow> s\<lparr>ts_db := tok_revoke i (ts_db s)\<rparr>) in tac_invalidate_id k i s1)"
  by (auto simp: tac_revoke_def tac_forget_def tac_invalidate_id_def tac_invalidate_hash_def Let_def
      cache_del_def tok_lookup_by_id_def dest!: find_Some_unique split: option.splits)

lemma invalidate_id_inv: "tok_inv k s \<Longrightarrow> tok_inv k (tac_invalidate_id k i s)"
  by (simp add: tok_inv_def tac_invalidate_id_def coherent_del)

lemma revoke_inv:
  assumes "tok_inv k s"
  shows "tok_inv k (tac_revoke k i s)"
proof -
  let ?D = "tok_revoke i (ts_db s)"
  have ok: "db_ok (ts_db s)" using assms by (simp add: tok_inv_def)
  then have D: "db_ok ?D" by (simp add: tok_revoke_def db_ok_filter)
  have gone: "r \<in> set (td_rows (ts_db s)) - set (td_rows ?D) \<longleftrightarrow> r \<in> set (td_rows (ts_db s)) \<and> at_id r = i" for r
    by (auto simp: tok_revoke_def)
  show ?thesis
  proof (cases "tok_lookup_by_id i (ts_db s)")
    case None
    then have "\<forall>r \<in> set (td_rows (ts_db s)) - set (td_rows ?D). r \<in> set [] \<and> True"
      using gone lookup_by_id_iff [OF ok] by (metis option.distinct(1))
    from forgotten_inv [OF assms D this] None show ?thesis
      by (simp add: revoke_fold invalidate_id_inv)
  next
    case (Some r)
    then have "\<forall>x \<in> set (td_rows (ts_db s)) - set (td_rows ?D). x \<in> set [r] \<and> True"
      using gone lookup_by_id_iff [OF ok] by (metis list.set_intros(1) option.inject)
    from forgotten_inv [OF assms D this] Some show ?thesis
      by (simp add: revoke_fold invalidate_id_inv)
  qed
qed

lemma revoke_all_inv:
  assumes "tok_inv k s"
  shows "tok_inv k (tac_revoke_all_for_user_except k u e s)"
  unfolding tac_revoke_all_for_user_except_def Let_def
proof (rule forgotten_inv [OF assms])
  show "db_ok (tok_revoke_all_for_user_except u e (ts_db s))"
    using assms by (simp add: tok_revoke_all_for_user_except_def db_ok_filter tok_inv_def)
qed (auto simp: tok_revoke_all_for_user_except_def set_list_for_user)

lemma invalidate_all_inv:
  assumes "tok_inv k s"
  shows "tok_inv k (tac_invalidate_all_for_user k u s)"
proof -
  have "db_ok (tok_invalidate_all_for_user u (ts_db s))"
    using assms unfolding tok_invalidate_all_for_user_def tok_inv_def by (intro db_ok_map) auto
  moreover have "\<forall>r \<in> set (td_rows (ts_db s)) - set (td_rows (tok_invalidate_all_for_user u (ts_db s))).
      r \<in> set (tok_list_for_user u (ts_db s)) \<and> True"
    by (force simp: tok_invalidate_all_for_user_def set_list_for_user)
  ultimately show ?thesis
    using forgotten_inv [OF assms, of _ "tok_list_for_user u (ts_db s)" "\<lambda>_. True"]
    by (simp add: tac_invalidate_all_for_user_def Let_def)
qed

lemma bump_inv:
  assumes "tok_inv k s" "r \<in> set (td_rows (ts_db s))"
  shows "tok_inv k (tac_maybe_bump_activity k r t s)"
proof -
  have ok: "db_ok (ts_db s)" using assms by (simp add: tok_inv_def)
  then have "db_ok (tok_bump_activity (at_id r) t (ts_db s))"
    unfolding tok_bump_activity_def by (intro db_ok_map) auto
  moreover have "\<forall>x \<in> set (td_rows (ts_db s)) - set (td_rows (tok_bump_activity (at_id r) t (ts_db s))).
      x \<in> set [r] \<and> True"
    using db_ok_id_unique [OF ok assms(2)] by (force simp: tok_bump_activity_def)
  ultimately have "tok_inv k (tac_forget k r (s\<lparr>ts_db := tok_bump_activity (at_id r) t (ts_db s)\<rparr>))"
    using forgotten_inv [OF assms(1), of _ "[r]" "\<lambda>_. True"] by simp
  then show ?thesis
    using assms(1) by (simp add: tac_maybe_bump_activity_def tac_forget_def)
qed

section \<open>Reachable states\<close>

definition tok_init :: token_state where
  "tok_init = \<lparr>ts_db = \<lparr>td_rows = [], td_next = 1\<rparr>, ts_cache = cache_new\<rparr>"

text \<open>One call of the service, whatever its arguments and the time.\<close>

inductive tok_step :: "token_env \<Rightarrow> token_state \<Rightarrow> token_state \<Rightarrow> bool" for E where
  Mint: "ap_mint E raw t u login name kind remember s = (res, s') \<Longrightarrow> tok_step E s s'"
| Verify: "ap_verify E inst t raw s = (res', s') \<Longrightarrow> tok_step E s s'"
| LookupId: "ap_lookup_by_id E inst i s = (res'', s') \<Longrightarrow> tok_step E s s'"
| Revoke: "tok_step E s (ap_revoke E i s)"
| RevokeOthers: "tok_step E s (ap_revoke_other_sessions E u i s)"
| RevokeAll: "tok_step E s (ap_revoke_all_for_user E u s)"
| InvalidateAll: "tok_step E s (ap_invalidate_all_for_user E u s)"

inductive tok_steps :: "token_env \<Rightarrow> token_state \<Rightarrow> token_state \<Rightarrow> bool" for E where
  Refl: "tok_steps E s s"
| Step: "tok_steps E s s1 \<Longrightarrow> tok_step E s1 s2 \<Longrightarrow> tok_steps E s s2"

definition tok_reachable :: "token_env \<Rightarrow> token_state \<Rightarrow> bool" where
  "tok_reachable E s \<longleftrightarrow> tok_steps E tok_init s"

lemma mint_create:
  "ap_mint E raw t u login name kind remember s = (res, s') \<Longrightarrow>
   \<exists>r res'. tac_create r s = (res', s')"
  by (auto simp: ap_mint_def Let_def split: prod.splits sum.splits)

lemma verify_cases:
  assumes "codec_ok (te_codec E)" "tok_inv (te_codec E) s" "ap_verify E inst t raw s = (res, s')"
  obtains s1 where "tok_inv (te_codec E) s1" "ts_db s1 = ts_db s" "s' = s1" "res = Inl UsTokenNotFound"
  | s1 r where "tok_inv (te_codec E) s1" "ts_db s1 = ts_db s" "res = Inr r"
      "s' = tac_maybe_bump_activity (te_codec E) r t s1" "r \<in> set (td_rows (ts_db s))"
      "at_token r = hash_token (te_sha512 E) raw (te_secret E)" "\<not> is_unusable r t"
proof -
  obtain q s1 where q: "tac_lookup_by_hash (te_codec E) inst (hash_token (te_sha512 E) raw (te_secret E)) s = (q, s1)"
    by force
  from lookup_by_hash_inv [OF assms(1,2) q] assms(3) q that show thesis
    by (auto simp: ap_verify_def split: sum.splits option.splits if_splits)
qed

lemma tok_step_inv:
  assumes "codec_ok (te_codec E)" "tok_step E s s'" "tok_inv (te_codec E) s"
  shows "tok_inv (te_codec E) s'"
  using assms(2)
proof cases
  case (Verify inst t raw res')
  then show ?thesis
    using verify_cases [OF assms(1,3)] bump_inv by metis
qed (use assms in \<open>auto simp: ap_lookup_by_id_def ap_revoke_def ap_revoke_other_sessions_def
      ap_revoke_all_for_user_def ap_invalidate_all_for_user_def
      intro: revoke_inv revoke_all_inv invalidate_all_inv create_inv
      dest: mint_create lookup_by_id_inv\<close>)

lemma tok_steps_inv:
  "\<lbrakk>codec_ok (te_codec E); tok_steps E s s'; tok_inv (te_codec E) s\<rbrakk> \<Longrightarrow> tok_inv (te_codec E) s'"
  by (rotate_tac 1, induction rule: tok_steps.induct) (auto intro: tok_step_inv)

lemma tok_init_inv: "tok_inv k tok_init"
  by (simp add: tok_inv_def tok_init_def db_ok_def coherent_def cache_new_def)

text \<open>
  C9. In every state the token service reaches, ids and hashes are unique in the table and every
  row in the cache is, bit for bit, a row of the table: no operation leaves a stale copy behind.
\<close>

theorem tok_reachable_inv:
  assumes "codec_ok (te_codec E)" and "tok_reachable E s"
  shows "db_ok (ts_db s) \<and> coherent (te_codec E) (td_rows (ts_db s)) (ts_cache s)"
  using tok_steps_inv [OF assms(1) assms(2) [unfolded tok_reachable_def] tok_init_inv]
  by (simp add: tok_inv_def)

section \<open>A concrete encoding\<close>

text \<open>
  Rows as sequences of length-prefixed fields, an encoding for which \<open>codec_ok\<close> holds; the
  witnesses use it in place of JSON.
\<close>

definition put_field :: "string \<Rightarrow> string" where
  "put_field f = show_nat (length f) @ '':'' @ f"

fun get_fields :: "nat \<Rightarrow> string \<Rightarrow> string list option" where
  "get_fields 0 s = Some []"
| "get_fields (Suc n) s =
     (case split_once (CHR '':'') s of
        None \<Rightarrow> None
      | Some (l, r) \<Rightarrow>
          (case parse_nat l of
             None \<Rightarrow> None
           | Some k \<Rightarrow> map_option ((#) (take k r)) (get_fields n (drop k r))))"

lemma get_put: "get_fields (length fs) (concat (map put_field fs)) = Some fs"
proof (induction fs)
  case (Cons f fs)
  have sep: "CHR '':'' \<notin> set (show_nat (length f))"
    by (rule show_nat_not) (simp add: is_ascii_digit_def)
  have "split_once (CHR '':'') (put_field f @ rest) = Some (show_nat (length f), f @ rest)" for rest
    using split_once_append [OF sep, of "f @ rest"] by (simp add: put_field_def)
  with Cons show ?case by simp
qed simp

definition put_opt :: "string option \<Rightarrow> string" where
  "put_opt o' = (case o' of None \<Rightarrow> [] | Some x \<Rightarrow> ''+'' @ x)"

definition get_opt :: "string \<Rightarrow> string option" where
  "get_opt s = (case s of [] \<Rightarrow> None | c # r \<Rightarrow> Some r)"

definition put_bool :: "bool \<Rightarrow> string" where "put_bool b = (if b then ''1'' else ''0'')"

definition get_int :: "string \<Rightarrow> int" where
  "get_int s = (case s of [] \<Rightarrow> 0 | c # r \<Rightarrow>
     if c = CHR ''-'' then - int (the (parse_nat r)) else int (the (parse_nat s)))"

definition put_u64 :: "u64 \<Rightarrow> string" where "put_u64 w = show_nat (unat w)"
definition get_u64 :: "string \<Rightarrow> u64" where "get_u64 s = of_nat (the (parse_nat s))"

lemma get_put_prims [simp]:
  "get_opt (put_opt o') = o'" "put_bool b = ''1'' \<longleftrightarrow> b" "get_u64 (put_u64 w) = w"
  by (auto simp: get_opt_def put_opt_def put_bool_def get_u64_def put_u64_def split: option.splits)

lemma get_show_int [simp]: "get_int (show_int i) = i"
proof (cases "i < 0")
  case True
  then show ?thesis by (simp add: get_int_def show_int_def)
next
  case False
  obtain c r where cr: "show_nat (nat i) = c # r" by (cases "show_nat (nat i)") auto
  then have "c \<noteq> CHR ''-''" using show_nat_no_minus [of "nat i"] by simp
  moreover have "parse_nat (c # r) = Some (nat i)" using cr parse_nat_show by metis
  ultimately show ?thesis using False by (simp add: get_int_def show_int_def cr)
qed

definition sample_fields :: "auth_token \<Rightarrow> string list" where
  "sample_fields r =
     [show_int (at_id r), uid_str (at_uid r), at_login_name r, put_opt (at_password r), at_name r,
      at_token r, show_int (auth_token_type_as_i32 (at_kind r)), put_bool (at_remember r),
      put_u64 (at_last_activity r), put_u64 (at_last_check r), put_opt (at_public_key r),
      put_opt (at_private_key r), show_int (at_version r), put_opt (at_scope r),
      put_opt (map_option put_u64 (at_expires r)), put_bool (at_password_invalid r),
      put_bool (at_remote_wipe r)]"

definition sample_row :: "string list \<Rightarrow> auth_token" where
  "sample_row f =
     \<lparr>at_id = get_int (f ! 0), at_uid = UserId (f ! 1), at_login_name = f ! 2, at_password = get_opt (f ! 3),
      at_name = f ! 4, at_token = f ! 5,
      at_kind = (if get_int (f ! 6) = 0 then Session else AppPassword), at_remember = (f ! 7 = ''1''),
      at_last_activity = get_u64 (f ! 8), at_last_check = get_u64 (f ! 9), at_public_key = get_opt (f ! 10),
      at_private_key = get_opt (f ! 11), at_version = get_int (f ! 12), at_scope = get_opt (f ! 13),
      at_expires = map_option get_u64 (get_opt (f ! 14)), at_password_invalid = (f ! 15 = ''1''),
      at_remote_wipe = (f ! 16 = ''1'')\<rparr>"

definition sample_codec :: token_codec where
  "sample_codec = \<lparr>tc_enc = (\<lambda>r. concat (map put_field (sample_fields r))),
     tc_dec = (\<lambda>s. map_option sample_row (get_fields 17 s)), tc_instance = ''oc''\<rparr>"

lemma sample_row_fields: "sample_row (sample_fields r) = r"
proof -
  have "(if get_int (show_int (auth_token_type_as_i32 (at_kind r))) = 0 then Session else AppPassword) = at_kind r"
    by (cases "at_kind r") simp_all
  then show ?thesis
    by (simp add: sample_row_def sample_fields_def option.map_comp comp_def option.map_ident nth_Cons'
        numeral_eq_Suc)
qed

lemma sample_codec_ok: "codec_ok sample_codec"
proof -
  have len: "length (sample_fields r) = 17" for r by (simp add: sample_fields_def)
  have "get_fields 17 (concat (map put_field (sample_fields r))) = Some (sample_fields r)" for r
    using get_put [of "sample_fields r"] unfolding len .
  moreover have "concat (map put_field (sample_fields r)) \<noteq> []" for r
    by (simp add: sample_fields_def put_field_def)
  ultimately show ?thesis by (simp add: codec_ok_def sample_codec_def sample_row_fields)
qed

definition sample_token_env :: token_env where
  "sample_token_env = \<lparr>te_codec = sample_codec, te_sha512 = (\<lambda>s. s), te_secret = ''k''\<rparr>"

text \<open>The service after one mint for the user \<open>alice\<close>.\<close>

definition sample_minted :: token_state where
  "sample_minted = snd (ap_mint sample_token_env ''raw'' 1000 (UserId ''alice'') ''alice'' ''phone''
     AppPassword False tok_init)"

definition sample_token :: auth_token where
  "sample_token = \<lparr>at_id = 1, at_uid = UserId ''alice'', at_login_name = ''alice'', at_password = None,
     at_name = ''phone'', at_token = ''rawk'', at_kind = AppPassword, at_remember = False,
     at_last_activity = 1000, at_last_check = 1000, at_public_key = None, at_private_key = None,
     at_version = 2, at_scope = None, at_expires = None, at_password_invalid = False,
     at_remote_wipe = False\<rparr>"

lemma sample_minted_eq:
  "ap_mint sample_token_env ''raw'' 1000 (UserId ''alice'') ''alice'' ''phone'' AppPassword False tok_init
     = (Inr (sample_token, ''raw''), sample_minted)"
  "sample_minted = \<lparr>ts_db = \<lparr>td_rows = [sample_token], td_next = 2\<rparr>, ts_cache = cache_new\<rparr>"
  by (simp_all add: ap_mint_def sample_minted_def tok_init_def tac_create_def tok_create_def Let_def
      stored_token_def db_u64_def word_sless_alt sample_token_def sample_token_env_def hash_token_def)

lemma sample_reachable: "tok_reachable sample_token_env tok_init" "tok_reachable sample_token_env sample_minted"
proof -
  show "tok_reachable sample_token_env tok_init" by (simp add: tok_reachable_def tok_steps.Refl)
  show "tok_reachable sample_token_env sample_minted"
    unfolding tok_reachable_def
    by (rule tok_steps.Step [OF tok_steps.Refl tok_step.Mint]) (rule sample_minted_eq(1))
qed

lemma sample_env_codec: "codec_ok (te_codec sample_token_env)"
  by (simp add: sample_token_env_def sample_codec_ok)

theorem tok_reachable_inv_witness:
  "db_ok (ts_db sample_minted) \<and>
   coherent (te_codec sample_token_env) (td_rows (ts_db sample_minted)) (ts_cache sample_minted)"
  by (rule tok_reachable_inv [OF sample_env_codec sample_reachable(2)])

section \<open>Verification\<close>

text \<open>
  C13. A raw token that verifies is the token of a row of the table whose password is valid, that
  is not marked for wiping and has not expired; verification changes no row but its activity times.
\<close>

theorem ap_verify_sound:
  assumes "codec_ok (te_codec E)" and "tok_reachable E s"
    and "ap_verify E inst t raw s = (Inr r, s')"
  shows "r \<in> set (td_rows (ts_db s)) \<and> at_token r = hash_token (te_sha512 E) raw (te_secret E) \<and>
    \<not> at_password_invalid r \<and> \<not> at_remote_wipe r \<and> (case at_expires r of None \<Rightarrow> True | Some e \<Rightarrow> t < e)"
proof -
  have inv: "tok_inv (te_codec E) s"
    using tok_steps_inv [OF assms(1) assms(2) [unfolded tok_reachable_def] tok_init_inv] .
  from assms(1) inv assms(3) show ?thesis
    by (cases rule: verify_cases) (auto simp: is_unusable_def not_le split: if_splits option.splits)
qed

lemma sample_verifies: "fst (ap_verify sample_token_env inst 1000 ''raw'' sample_minted) = Inr sample_token"
  by (simp add: ap_verify_def sample_minted_eq(2) sample_token_env_def hash_token_def tac_lookup_by_hash_def
      cached_row_def cache_get_def cache_new_def Let_def tok_lookup_by_hash_def sample_token_def is_unusable_def)

theorem ap_verify_sound_witness: "sample_token \<in> set (td_rows (ts_db sample_minted)) \<and> at_token sample_token = ''rawk''"
proof -
  have "ap_verify sample_token_env 5 1000 ''raw'' sample_minted =
      (Inr sample_token, snd (ap_verify sample_token_env 5 1000 ''raw'' sample_minted))"
    using sample_verifies by (metis prod.collapse)
  from ap_verify_sound [OF sample_env_codec sample_reachable(2) this]
  show ?thesis by (simp add: hash_token_def sample_token_env_def)
qed

lemma verify_row:
  assumes "codec_ok (te_codec E)" "tok_inv (te_codec E) s" "r \<in> set (td_rows (ts_db s))"
    and "at_token r = hash_token (te_sha512 E) raw (te_secret E)" "\<not> is_unusable r t"
    and "\<not> (\<exists>e. ts_cache s (hash_key (te_codec E) (at_token r)) = Some e \<and> ce_value e = [])"
  shows "fst (ap_verify E inst t raw s) = Inr r"
proof -
  let ?k = "te_codec E" and ?h = "at_token r"
  have ok: "db_ok (ts_db s)" using assms(2) by (simp add: tok_inv_def)
  have here: "tok_lookup_by_hash ?h (ts_db s) = Some r"
    using assms(3) lookup_by_hash_iff [OF ok] by blast
  have "fst (tac_lookup_by_hash ?k inst ?h s) = Inr (Some r)"
  proof -
    obtain q s1 where q: "cached_row ?k inst (hash_key ?k ?h) s = (q, s1)" by force
    have "q \<noteq> Inl e" for e using cached_row_no_error [OF assms(1,2)] q by metis
    then have "q = Inr None \<or> (\<exists>x. q = Inr (Some (Some x)))"
      using q assms(6)
      by (auto simp: cached_row_def cache_get_def split: option.splits if_splits)
    moreover have "x = r" if "q = Inr (Some (Some x))" for x
      using cached_row_hash [OF assms(1,2)] q that db_ok_token_unique [OF ok _ assms(3)] by blast
    moreover have "ts_db s1 = ts_db s" using cached_row_inv [OF assms(2) q] by blast
    ultimately show ?thesis
      using here by (elim disjE exE) (simp_all add: tac_lookup_by_hash_def q Let_def)
  qed
  then show ?thesis
    using assms(4,5) by (auto simp: ap_verify_def split: prod.splits)
qed

text \<open>
  Minting and verifying: the raw token a mint returns verifies as the row it created, when the
  token is fresh, that is, its hash was not looked up in vain within the last five seconds.
\<close>

theorem mint_then_verify:
  assumes "codec_ok (te_codec E)" and "tok_reachable E s"
    and "ap_mint E raw t u login name kind remember s = (Inr (r, raw'), s')"
    and "ts_cache s (hash_key (te_codec E) (hash_token (te_sha512 E) raw (te_secret E))) = None"
  shows "raw' = raw \<and> fst (ap_verify E inst t' raw s') = Inr (stored_token (td_next (ts_db s)) r) \<and>
    at_uid r = u \<and> at_id r = td_next (ts_db s)"
proof -
  have inv: "tok_inv (te_codec E) s"
    using tok_steps_inv [OF assms(1) assms(2) [unfolded tok_reachable_def] tok_init_inv] .
  then have inv': "tok_inv (te_codec E) s'"
    using tok_step_inv [OF assms(1) Mint [OF assms(3)]] by blast
  let ?row = "stored_token (td_next (ts_db s)) r"
  from assms(3) have r: "?row \<in> set (td_rows (ts_db s'))" "ts_cache s' = ts_cache s" "raw' = raw" "at_uid r = u"
      "at_id r = td_next (ts_db s)" "at_token r = hash_token (te_sha512 E) raw (te_secret E)"
      "\<not> is_unusable ?row t'"
    by (auto simp: ap_mint_def Let_def tac_create_def tok_create_def stored_token_def is_unusable_def
        split: if_splits)
  have "fst (ap_verify E inst t' raw s') = Inr ?row"
    by (rule verify_row [OF assms(1) inv' r(1)]) (use r assms(4) in \<open>simp_all add: stored_token_def\<close>)
  with r show ?thesis by simp
qed

theorem mint_then_verify_witness:
  "fst (ap_verify sample_token_env 7 2000 ''raw'' sample_minted) = Inr sample_token"
proof -
  have "stored_token 1 sample_token = sample_token"
    by (simp add: stored_token_def sample_token_def db_u64_def word_sless_alt)
  then show ?thesis
    using mint_then_verify [OF sample_env_codec sample_reachable(1) sample_minted_eq(1), of 7 2000]
    by (simp add: tok_init_def cache_new_def)
qed

section \<open>Revocation\<close>

lemma steps_db_grows:
  assumes "codec_ok (te_codec E)" "tok_inv (te_codec E) s" "tok_step E s s'"
  shows "td_next (ts_db s) \<le> td_next (ts_db s') \<and>
    (\<forall>r' \<in> set (td_rows (ts_db s')). at_id r' < td_next (ts_db s) \<longrightarrow>
       (\<exists>r \<in> set (td_rows (ts_db s)). at_id r = at_id r' \<and> (at_password_invalid r \<longrightarrow> at_password_invalid r')))"
  using assms(3)
proof cases
  case (Mint raw t u login name kind remember res)
  then show ?thesis
    by (auto simp: ap_mint_def Let_def tac_create_def tok_create_def stored_token_def
        split: prod.splits sum.splits if_splits)
next
  case (Verify inst t raw res')
  from verify_cases [OF assms(1,2) Verify] show ?thesis
    by cases (auto simp: tac_maybe_bump_activity_def tac_invalidate_id_def tac_invalidate_hash_def
        tok_bump_activity_def)
next
  case (LookupId inst i res'')
  then show ?thesis
    using lookup_by_id_inv [OF assms(1,2)] by (auto simp: ap_lookup_by_id_def)
next
  case (Revoke i)
  then show ?thesis
    by (auto simp: ap_revoke_def tac_revoke_def Let_def tac_invalidate_id_def tac_invalidate_hash_def
        tok_revoke_def split: option.splits)
next
  case (RevokeOthers u i)
  then show ?thesis
    by (auto simp: ap_revoke_other_sessions_def tac_revoke_all_for_user_except_def Let_def
        conjunct1 [OF fold_forget] tok_revoke_all_for_user_except_def)
next
  case (RevokeAll u)
  then show ?thesis
    by (auto simp: ap_revoke_all_for_user_def tac_revoke_all_for_user_except_def Let_def
        conjunct1 [OF fold_forget] tok_revoke_all_for_user_except_def)
next
  case (InvalidateAll u)
  then show ?thesis
    using conjunct1 [OF fold_forget, of "\<lambda>_. True" "te_codec E"]
    by (auto simp: ap_invalidate_all_for_user_def tac_invalidate_all_for_user_def Let_def
        tok_invalidate_all_for_user_def)
qed

text \<open>The ids below a bound whose row is gone or locked stay gone or locked.\<close>

definition dead :: "token_state \<Rightarrow> int \<Rightarrow> bool" where
  "dead s i \<longleftrightarrow> i < td_next (ts_db s) \<and>
     (\<forall>r \<in> set (td_rows (ts_db s)). at_id r = i \<longrightarrow> at_password_invalid r)"

lemma dead_steps:
  "\<lbrakk>codec_ok (te_codec E); tok_steps E s s'; tok_inv (te_codec E) s; dead s i\<rbrakk> \<Longrightarrow> dead s' i"
proof (rotate_tac 1, induction rule: tok_steps.induct)
  case (Step s s1 s2)
  then have d: "dead s1 i" and inv: "tok_inv (te_codec E) s1"
    using tok_steps_inv by blast+
  from steps_db_grows [OF Step.prems(3) inv Step.hyps(2)] d show ?case
    by (fastforce simp: dead_def)
qed

lemma dead_verify:
  assumes "codec_ok (te_codec E)" "tok_inv (te_codec E) s" "dead s i"
    and "ap_verify E inst t raw s = (Inr r, s')"
  shows "at_id r \<noteq> i"
  using assms(1,2,4)
  by (cases rule: verify_cases) (use assms(3) in \<open>auto simp: dead_def is_unusable_def\<close>)

lemma revoke_dead:
  assumes "tok_inv k s" "i < td_next (ts_db s)"
  shows "dead (tac_revoke k i s) i"
  using assms by (auto simp: dead_def tac_revoke_def Let_def tac_invalidate_id_def
      tac_invalidate_hash_def tok_revoke_def split: option.splits)

lemma revoke_except_db:
  "ts_db (tac_revoke_all_for_user_except k u e s) = tok_revoke_all_for_user_except u e (ts_db s)"
  by (simp add: tac_revoke_all_for_user_except_def Let_def conjunct1 [OF fold_forget])

lemma invalidate_all_db:
  "ts_db (tac_invalidate_all_for_user k u s) = tok_invalidate_all_for_user u (ts_db s)"
  using conjunct1 [OF fold_forget, of "\<lambda>_. True" k]
  by (simp add: tac_invalidate_all_for_user_def Let_def)

lemma revoke_user_dead:
  assumes "tok_inv k s" "r \<in> set (td_rows (ts_db s))" "at_uid r = u"
  shows "dead (tac_revoke_all_for_user_except k u (- (2 ^ 63)) s) (at_id r)"
proof -
  have ok: "db_ok (ts_db s)" using assms(1) by (simp add: tok_inv_def)
  then have "0 < at_id r" "at_id r < td_next (ts_db s)" using assms(2) by (auto simp: db_ok_def)
  moreover have "x = r" if "x \<in> set (td_rows (ts_db s))" "at_id x = at_id r" for x
    using db_ok_id_unique [OF ok that(1) assms(2) that(2)] .
  ultimately show ?thesis
    using assms(3) by (auto simp: dead_def revoke_except_db tok_revoke_all_for_user_except_def)
qed

lemma invalidate_user_dead:
  assumes "tok_inv k s" "r \<in> set (td_rows (ts_db s))" "at_uid r = u"
  shows "dead (tac_invalidate_all_for_user k u s) (at_id r)"
proof -
  have ok: "db_ok (ts_db s)" using assms(1) by (simp add: tok_inv_def)
  then have "at_id r < td_next (ts_db s)" using assms(2) by (auto simp: db_ok_def)
  moreover have "x = r" if "x \<in> set (td_rows (ts_db s))" "at_id x = at_id r" for x
    using db_ok_id_unique [OF ok that(1) assms(2) that(2)] .
  ultimately show ?thesis
    using assms(3) by (auto simp: dead_def invalidate_all_db tok_invalidate_all_for_user_def)
qed

text \<open>A second mint, for the witnesses: its token still verifies after the first is revoked.\<close>

definition sample_two :: token_state where
  "sample_two = snd (ap_mint sample_token_env ''raw2'' 1000 (UserId ''bob'') ''bob'' ''laptop''
     AppPassword False sample_minted)"

definition sample_token2 :: auth_token where
  "sample_token2 = sample_token\<lparr>at_id := 2, at_uid := UserId ''bob'', at_login_name := ''bob'',
     at_name := ''laptop'', at_token := ''raw2k''\<rparr>"

lemma sample_two_eq:
  "ap_mint sample_token_env ''raw2'' 1000 (UserId ''bob'') ''bob'' ''laptop'' AppPassword False sample_minted
     = (Inr (sample_token2, ''raw2''), sample_two)"
  "sample_two = \<lparr>ts_db = \<lparr>td_rows = [sample_token, sample_token2], td_next = 3\<rparr>, ts_cache = cache_new\<rparr>"
  by (simp_all add: ap_mint_def sample_two_def sample_minted_eq(2) tac_create_def tok_create_def Let_def
      stored_token_def db_u64_def word_sless_alt sample_token_def sample_token2_def sample_token_env_def
      hash_token_def)

lemma sample_two_reachable: "tok_reachable sample_token_env sample_two"
  using sample_reachable(2) tok_steps.Step [OF _ tok_step.Mint [OF sample_two_eq(1)]]
  by (auto simp: tok_reachable_def)

lemma sample_two_verifies:
  assumes "sample_token2 \<in> set (td_rows (ts_db s))" "td_rows (ts_db s) = filter P [sample_token, sample_token2]"
    and "ts_cache s (hash_key sample_codec ''raw2k'') = None"
  shows "ap_verify sample_token_env inst 1000 ''raw2'' s =
    (Inr sample_token2, snd (ap_verify sample_token_env inst 1000 ''raw2'' s))"
proof -
  have "tok_lookup_by_hash ''raw2k'' (ts_db s) = Some sample_token2"
    using assms(1,2) by (auto simp: tok_lookup_by_hash_def sample_token_def sample_token2_def split: if_splits)
  then have "fst (ap_verify sample_token_env inst 1000 ''raw2'' s) = Inr sample_token2"
    using assms(3) by (simp add: ap_verify_def sample_token_env_def hash_token_def tac_lookup_by_hash_def
        cached_row_def cache_get_def Let_def sample_token2_def sample_token_def is_unusable_def)
  then show ?thesis by (metis prod.collapse)
qed

text \<open>
  C6. Revoking an issued token is final and immediate: whatever calls follow, no raw token ever
  verifies as the revoked row, cached or not.
\<close>

theorem revoke_final:
  assumes "codec_ok (te_codec E)" and "tok_reachable E s" and "i < td_next (ts_db s)"
    and "tok_steps E (ap_revoke E i s) s'" and "ap_verify E inst t raw s' = (Inr r, s'')"
  shows "at_id r \<noteq> i"
proof -
  have inv: "tok_inv (te_codec E) s"
    using tok_steps_inv [OF assms(1) assms(2) [unfolded tok_reachable_def] tok_init_inv] .
  have inv1: "tok_inv (te_codec E) (ap_revoke E i s)"
    using tok_step_inv [OF assms(1) Revoke inv] .
  have "dead (ap_revoke E i s) i" using revoke_dead [OF inv assms(3)] by (simp add: ap_revoke_def)
  then have "dead s' i" by (rule dead_steps [OF assms(1,4) inv1])
  then show ?thesis
    by (rule dead_verify [OF assms(1) tok_steps_inv [OF assms(1,4) inv1] _ assms(5)])
qed

theorem revoke_final_witness: "at_id sample_token2 \<noteq> at_id sample_token"
proof -
  let ?s = "ap_revoke sample_token_env 1 sample_two"
  have "ap_verify sample_token_env 5 1000 ''raw2'' ?s =
      (Inr sample_token2, snd (ap_verify sample_token_env 5 1000 ''raw2'' ?s))"
    by (rule sample_two_verifies [where P = "\<lambda>r. at_id r \<noteq> 1"])
      (simp_all add: ap_revoke_def tac_revoke_def Let_def tac_invalidate_id_def tac_invalidate_hash_def
        sample_two_eq(2) tok_revoke_def tok_lookup_by_id_def cache_del_def cache_new_def
        sample_token_def sample_token2_def)
  from revoke_final [OF sample_env_codec sample_two_reachable _ tok_steps.Refl this]
  show ?thesis by (simp add: sample_two_eq(2) sample_token_def)
qed

text \<open>
  Changing a password (every token of the user is marked invalid) or revoking all of a user's
  tokens locks out every token issued to the user before, for good.
\<close>

theorem user_lockout:
  assumes "codec_ok (te_codec E)" and "tok_reachable E s"
    and "x \<in> set (td_rows (ts_db s))" "at_uid x = u"
    and "tok_steps E (if everywhere then ap_revoke_all_for_user E u s else ap_invalidate_all_for_user E u s) s'"
    and "ap_verify E inst t raw s' = (Inr r, s'')"
  shows "at_id r \<noteq> at_id x"
proof -
  have inv: "tok_inv (te_codec E) s"
    using tok_steps_inv [OF assms(1) assms(2) [unfolded tok_reachable_def] tok_init_inv] .
  let ?s = "if everywhere then ap_revoke_all_for_user E u s else ap_invalidate_all_for_user E u s"
  have inv1: "tok_inv (te_codec E) ?s"
    using tok_step_inv [OF assms(1) RevokeAll inv] tok_step_inv [OF assms(1) InvalidateAll inv] by simp
  have "dead ?s (at_id x)"
    using revoke_user_dead [OF inv assms(3,4)] invalidate_user_dead [OF inv assms(3,4)]
    by (simp add: ap_revoke_all_for_user_def ap_invalidate_all_for_user_def)
  then have "dead s' (at_id x)" by (rule dead_steps [OF assms(1,5) inv1])
  then show ?thesis
    by (rule dead_verify [OF assms(1) tok_steps_inv [OF assms(1,5) inv1] _ assms(6)])
qed

theorem user_lockout_witness: "\<not> at_id sample_token2 = at_id sample_token"
proof -
  let ?s = "ap_revoke_all_for_user sample_token_env (UserId ''alice'') sample_two"
  have "ap_verify sample_token_env 5 1000 ''raw2'' ?s =
      (Inr sample_token2, snd (ap_verify sample_token_env 5 1000 ''raw2'' ?s))"
    by (rule sample_two_verifies [where P = "\<lambda>r. at_id r \<noteq> 1"])
      (simp_all add: ap_revoke_all_for_user_def revoke_except_db tok_revoke_all_for_user_except_def
        tac_revoke_all_for_user_except_def Let_def forget_None sample_token_env_def
        sample_two_eq(2) tok_list_for_user_def cache_new_def sample_token_def sample_token2_def)
  from user_lockout [OF sample_env_codec sample_two_reachable _ _ _ this, of sample_token "UserId ''alice''" True]
  show ?thesis by (simp add: sample_two_eq(2) sample_token_def tok_steps.Refl)
qed

section \<open>Without atomic calls\<close>

text \<open>\<open>revoke\<close> is two steps of the program: it empties the cache keys, then deletes the row.\<close>

definition revoke_first :: "token_codec \<Rightarrow> int \<Rightarrow> token_state \<Rightarrow> token_state" where
  "revoke_first k i s = tac_invalidate_id k i
     (case tok_lookup_by_id i (ts_db s) of Some r \<Rightarrow> tac_invalidate_hash k (at_token r) s | None \<Rightarrow> s)"

definition revoke_second :: "int \<Rightarrow> token_state \<Rightarrow> token_state" where
  "revoke_second i s = s\<lparr>ts_db := tok_revoke i (ts_db s)\<rparr>"

lemma revoke_two_steps: "tac_revoke k i s = revoke_second i (revoke_first k i s)"
  by (simp add: tac_revoke_def revoke_first_def revoke_second_def Let_def)

text \<open>
  A verification that runs between the two steps of \<open>revoke\<close> puts the row back into the cache,
  where the deletion that follows does not reach it: the revoked token keeps verifying for up to
  30 seconds after the revocation has returned.
\<close>

theorem revoke_race:
  assumes "codec_ok (te_codec E)" and "tok_reachable E s" and "r \<in> set (td_rows (ts_db s))"
    and "at_token r = hash_token (te_sha512 E) raw (te_secret E)"
    and "\<not> is_unusable r t" and "t < at_last_activity r + ACTIVITY_BUMP_INTERVAL"
    and "inst' < inst + TOKEN_CACHE_TTL"
  shows "let s1 = revoke_first (te_codec E) (at_id r) s;
             s2 = snd (ap_verify E inst t raw s1);
             s3 = revoke_second (at_id r) s2
         in r \<notin> set (td_rows (ts_db s3)) \<and> fst (ap_verify E inst' t raw s3) = Inr r"
proof -
  let ?k = "te_codec E" and ?h = "at_token r"
  have inv: "tok_inv ?k s"
    using tok_steps_inv [OF assms(1) assms(2) [unfolded tok_reachable_def] tok_init_inv] .
  then have ok: "db_ok (ts_db s)" by (simp add: tok_inv_def)
  have byid: "tok_lookup_by_id (at_id r) (ts_db s) = Some r"
    and byh: "tok_lookup_by_hash ?h (ts_db s) = Some r"
    using lookup_by_id_iff [OF ok] lookup_by_hash_iff [OF ok] assms(3) by blast+
  let ?s1 = "revoke_first ?k (at_id r) s"
  have s1: "ts_db ?s1 = ts_db s" "ts_cache ?s1 (hash_key ?k ?h) = None"
    by (simp_all add: revoke_first_def byid tac_invalidate_id_def tac_invalidate_hash_def cache_del_def)
  have v1: "ap_verify E inst t raw ?s1 = (Inr r, cache_row ?k inst (hash_key ?k ?h) (Some r) ?s1)"
    using assms(5,6) s1 byh
    by (simp add: ap_verify_def assms(4) [symmetric] tac_lookup_by_hash_def cached_row_def cache_get_def
        Let_def tac_maybe_bump_activity_def)
  let ?s3 = "revoke_second (at_id r) (cache_row ?k inst (hash_key ?k ?h) (Some r) ?s1)"
  have c3: "cache_get inst' (hash_key ?k ?h) (ts_cache ?s3) = (Some (tc_enc ?k r), ts_cache ?s3)"
    using assms(7) by (simp add: revoke_second_def cache_row_def cache_get_def cache_set_def entry_expired_def)
  have "fst (ap_verify E inst' t raw ?s3) = Inr r"
    using assms(1,5) c3
    by (simp add: ap_verify_def assms(4) [symmetric] tac_lookup_by_hash_def cached_row_def codec_ok_def)
  moreover have "r \<notin> set (td_rows (ts_db ?s3))"
    by (simp add: revoke_second_def tok_revoke_def)
  ultimately show ?thesis by (simp add: v1)
qed

theorem revoke_race_witness:
  "fst (ap_verify sample_token_env 25 1000 ''raw''
     (revoke_second 1 (snd (ap_verify sample_token_env 0 1000 ''raw''
        (revoke_first sample_codec 1 sample_minted))))) = Inr sample_token"
proof -
  have *: "sample_token \<in> set (td_rows (ts_db sample_minted))"
    "at_token sample_token = hash_token (te_sha512 sample_token_env) ''raw'' (te_secret sample_token_env)"
    "\<not> is_unusable sample_token 1000" "1000 < at_last_activity sample_token + ACTIVITY_BUMP_INTERVAL"
    "(25 :: nat) < 0 + TOKEN_CACHE_TTL" "te_codec sample_token_env = sample_codec" "at_id sample_token = 1"
    by (simp_all add: sample_minted_eq(2) hash_token_def sample_token_env_def sample_token_def is_unusable_def
        ACTIVITY_BUMP_INTERVAL_def TOKEN_CACHE_TTL_def)
  show ?thesis
    using revoke_race [OF sample_env_codec sample_reachable(2) *(1-5)] by (simp add: Let_def *(6,7))
qed

end
