(* ===== verification/UsersService.thy ===== *)
theory UsersService
  imports UserStore_Correct AuthTokens_Correct
begin

text \<open>
  Passwords (crabcloud-users, src/password.rs), the bootstrap admin that lives in the
  configuration until it is promoted to a row (src/store/bootstrap_shim.rs), and the service
  that composes the stores with the tokens (src/service.rs). The backends are records of
  operations over any state; the service is proved once over a locale and rests on the SQL
  backend and on the bootstrap backend around it.
\<close>

section \<open>Passwords\<close>

text \<open>bcrypt: the check of a password against a hash, the salted hash, and a fixed hash nothing matches.\<close>

record bcrypt =
  bc_verify :: "string \<Rightarrow> string \<Rightarrow> bool"
  bc_hash :: "string \<Rightarrow> string + string"
  bc_sentinel :: string

definition verifier_verify :: "bcrypt \<Rightarrow> string \<Rightarrow> string option \<Rightarrow> bool" where
  "verifier_verify B password h = bc_verify B password (case h of Some x \<Rightarrow> x | None \<Rightarrow> bc_sentinel B)"

definition verifier_hash :: "bcrypt \<Rightarrow> string \<Rightarrow> users_error + string" where
  "verifier_hash B password =
     (if password = [] then Inl (UsPasswordTooWeak ''must not be empty'')
      else if length password > 72 then Inl (UsPasswordTooWeak ''max 72 bytes (bcrypt limit)'')
      else case bc_hash B password of
             Inl e \<Rightarrow> Inl (UsInternal (''bcrypt hash failed: '' @ e))
           | Inr h \<Rightarrow> Inr h)"

section \<open>The bootstrap admin\<close>

record bootstrap_admin =
  ba_username :: string
  ba_password_hash :: string

definition ret :: "'a \<Rightarrow> ('s, 'e, 'a) eff" where "ret x s = (Inr x, s)"
definition fail :: "'e \<Rightarrow> ('s, 'e, 'a) eff" where "fail e s = (Inl e, s)"
definition lift_res :: "'e + 'a \<Rightarrow> ('s, 'e, 'a) eff" where "lift_res r s = (r, s)"

definition synthesized_user :: "bootstrap_admin \<Rightarrow> users_error + user" where
  "synthesized_user A = rbind (user_id_new (ba_username A)) (\<lambda>uid.
     Inr \<lparr>user_uid = uid, user_display_name = ba_username A, user_email = None,
          user_enabled = True, user_last_seen = 0\<rparr>)"

definition shim_lookup :: "'s user_store \<Rightarrow> bootstrap_admin \<Rightarrow> user_id \<Rightarrow> ('s, users_error, user option) eff" where
  "shim_lookup st A uid =
     ebind (us_lookup st uid) (\<lambda>o'.
       case o' of Some u \<Rightarrow> ret (Some u)
       | None \<Rightarrow> if uid_str uid = ba_username A
           then lift_res (rbind (synthesized_user A) (\<lambda>u. Inr (Some u))) else ret None)"

definition shim_lookup_by_login :: "'s user_store \<Rightarrow> bootstrap_admin \<Rightarrow> string \<Rightarrow> ('s, users_error, user option) eff" where
  "shim_lookup_by_login st A login =
     ebind (us_lookup_by_login st login) (\<lambda>o'.
       case o' of Some u \<Rightarrow> ret (Some u)
       | None \<Rightarrow> if login = ba_username A
           then lift_res (rbind (synthesized_user A) (\<lambda>u. Inr (Some u))) else ret None)"

definition shim_lookup_for_auth ::
    "'s user_store \<Rightarrow> bootstrap_admin \<Rightarrow> string \<Rightarrow> ('s, users_error, (user \<times> string option) option) eff" where
  "shim_lookup_for_auth st A login =
     ebind (us_lookup_for_auth st login) (\<lambda>o'.
       case o' of Some r \<Rightarrow> ret (Some r)
       | None \<Rightarrow> if login = ba_username A
           then lift_res (rbind (synthesized_user A) (\<lambda>u. Inr (Some (u, Some (ba_password_hash A)))))
           else ret None)"

text \<open>The first password change writes the virtual admin as a row and puts it into the group \<open>admin\<close>.\<close>

definition shim_set_password ::
    "'s user_store \<Rightarrow> 's group_store \<Rightarrow> bootstrap_admin \<Rightarrow> user_id \<Rightarrow> string \<Rightarrow> ('s, users_error, unit) eff" where
  "shim_set_password st gs A uid new_hash =
     ebind (us_lookup st uid) (\<lambda>o'.
       if o' \<noteq> None then us_set_password st uid new_hash
       else if uid_str uid = ba_username A then
         ebind (lift_res (synthesized_user A)) (\<lambda>u.
         ebind (us_create st u (Some new_hash)) (\<lambda>_.
         ebind (lift_res (group_id_new ''admin'')) (\<lambda>admin.
         ebind (gs_is_in_group gs (user_uid u) admin) (\<lambda>b.
         if b then ret () else gs_add_to_group gs (user_uid u) admin))))
       else fail UsNotFound)"

definition shim_guarded :: "'s user_store \<Rightarrow> user_id \<Rightarrow> ('s, users_error, unit) eff \<Rightarrow> ('s, users_error, unit) eff
    \<Rightarrow> ('s, users_error, unit) eff" where
  "shim_guarded st uid act otherwise =
     ebind (us_lookup st uid) (\<lambda>o'. if o' \<noteq> None then act else otherwise)"

definition shim_user_store :: "'s user_store \<Rightarrow> 's group_store \<Rightarrow> bootstrap_admin \<Rightarrow> 's user_store" where
  "shim_user_store st gs A =
     \<lparr>us_lookup = shim_lookup st A, us_lookup_by_login = shim_lookup_by_login st A,
      us_lookup_for_auth = shim_lookup_for_auth st A, us_set_password = shim_set_password st gs A,
      us_set_display_name = (\<lambda>uid n. shim_guarded st uid (us_set_display_name st uid n) (fail UsReadOnly)),
      us_set_email = (\<lambda>uid e. shim_guarded st uid (us_set_email st uid e) (fail UsReadOnly)),
      us_set_enabled = (\<lambda>uid b. shim_guarded st uid (us_set_enabled st uid b) (fail UsReadOnly)),
      us_create = us_create st, us_delete = us_delete st,
      us_touch_last_seen = (\<lambda>t uid. shim_guarded st uid (us_touch_last_seen st t uid) (ret ())),
      us_list_users = us_list_users st, us_exists_in_storage = us_exists_in_storage st\<rparr>"

definition shim_is_in_group :: "'s group_store \<Rightarrow> string \<Rightarrow> user_id \<Rightarrow> group_id \<Rightarrow> ('s, users_error, bool) eff" where
  "shim_is_in_group gs admin_username uid gid =
     ebind (gs_is_in_group gs uid gid) (\<lambda>b.
       if b then ret True else ret (uid_str uid = admin_username \<and> gid_str gid = ''admin''))"

definition shim_groups_of :: "'s group_store \<Rightarrow> string \<Rightarrow> user_id \<Rightarrow> ('s, users_error, group_id list) eff" where
  "shim_groups_of gs admin_username uid =
     ebind (gs_groups_of gs uid) (\<lambda>groups.
       if uid_str uid = admin_username
       then ebind (lift_res (group_id_new ''admin'')) (\<lambda>admin.
              ret (if admin \<in> set groups then groups else groups @ [admin]))
       else ret groups)"

definition shim_group_store :: "'s group_store \<Rightarrow> string \<Rightarrow> 's group_store" where
  "shim_group_store gs admin_username =
     \<lparr>gs_lookup = gs_lookup gs, gs_is_in_group = shim_is_in_group gs admin_username,
      gs_groups_of = shim_groups_of gs admin_username, gs_members_of = gs_members_of gs,
      gs_add_to_group = gs_add_to_group gs, gs_remove_from_group = gs_remove_from_group gs,
      gs_create = gs_create gs, gs_delete = gs_delete gs, gs_list_groups = gs_list_groups gs\<rparr>"

section \<open>The service\<close>

text \<open>The state of the stores and of the tokens; the service may have no token service attached.\<close>

record 's service_state =
  sv_store :: 's
  sv_tokens :: token_state

record 's users_service =
  sv_users :: "'s user_store"
  sv_groups :: "'s group_store"
  sv_bcrypt :: bcrypt
  sv_app_passwords :: "token_env option"

definition on_store :: "('s, 'e, 'a) eff \<Rightarrow> ('s service_state, 'e, 'a) eff" where
  "on_store m s = (case m (sv_store s) of (r, t) \<Rightarrow> (r, s\<lparr>sv_store := t\<rparr>))"

definition on_tokens :: "(token_state \<Rightarrow> token_state) \<Rightarrow> ('s service_state, 'e, unit) eff" where
  "on_tokens f s = (Inr (), s\<lparr>sv_tokens := f (sv_tokens s)\<rparr>)"

definition svc_verify ::
    "'s users_service \<Rightarrow> i64 \<Rightarrow> string \<Rightarrow> string \<Rightarrow> ('s service_state, users_error, user) eff" where
  "svc_verify V t login password =
     ebind (on_store (us_lookup_for_auth (sv_users V) login)) (\<lambda>candidate.
       let hash = (case candidate of Some (u, h) \<Rightarrow> h | None \<Rightarrow> None);
           ok = verifier_verify (sv_bcrypt V) password hash
       in case candidate of
            Some (u, _) \<Rightarrow>
              if ok \<and> user_enabled u
              then ebind (on_store (us_touch_last_seen (sv_users V) t (user_uid u))) (\<lambda>_. ret u)
              else fail UsInvalidCredentials
          | None \<Rightarrow> fail UsInvalidCredentials)"

definition svc_set_password :: "'s users_service \<Rightarrow> user_id \<Rightarrow> string \<Rightarrow> ('s service_state, users_error, unit) eff" where
  "svc_set_password V uid new =
     ebind (lift_res (verifier_hash (sv_bcrypt V) new)) (\<lambda>hash.
     ebind (on_store (us_set_password (sv_users V) uid hash)) (\<lambda>_.
     case sv_app_passwords V of
       Some E \<Rightarrow> on_tokens (ap_invalidate_all_for_user E uid)
     | None \<Rightarrow> ret ()))"

definition svc_disable_user :: "'s users_service \<Rightarrow> user_id \<Rightarrow> ('s service_state, users_error, unit) eff" where
  "svc_disable_user V uid =
     ebind (on_store (us_set_enabled (sv_users V) uid False)) (\<lambda>_.
     case sv_app_passwords V of
       Some E \<Rightarrow> on_tokens (ap_revoke_all_for_user E uid)
     | None \<Rightarrow> ret ())"

definition svc_delete_user :: "'s users_service \<Rightarrow> user_id \<Rightarrow> ('s service_state, users_error, unit) eff" where
  "svc_delete_user V uid =
     ebind (case sv_app_passwords V of
              Some E \<Rightarrow> on_tokens (ap_revoke_all_for_user E uid)
            | None \<Rightarrow> ret ()) (\<lambda>_.
     on_store (us_delete (sv_users V) uid))"

definition svc_is_admin :: "'s users_service \<Rightarrow> user_id \<Rightarrow> ('s service_state, users_error, bool) eff" where
  "svc_is_admin V uid =
     ebind (lift_res (group_id_new ''admin'')) (\<lambda>admin. on_store (gs_is_in_group (sv_groups V) uid admin))"

definition svc_groups_of :: "'s users_service \<Rightarrow> user_id \<Rightarrow> ('s service_state, users_error, group_id list) eff" where
  "svc_groups_of V uid = on_store (gs_groups_of (sv_groups V) uid)"

end
