(* ===== verification/UsersService_Correct.thy ===== *)
theory UsersService_Correct
  imports UsersService
begin

text \<open>
  The service over any account store, then on the SQL backend and on the bootstrap backend
  around it: who can log in, what a password change and a disabling do to logins and tokens, how
  the bootstrap admin retires, and which of its rights do not.
\<close>

section \<open>The contract of an account store\<close>

locale account_store =
  fixes st :: "'s user_store"
    and ok :: "'s \<Rightarrow> bool"
    and clash_free :: "'s \<Rightarrow> string \<Rightarrow> bool"
  assumes auth_after_set:
      "\<lbrakk>ok s; clash_free s (uid_str uid); us_set_password st uid h s = (Inr (), s')\<rbrakk> \<Longrightarrow>
       ok s' \<and> (\<exists>u u0. us_lookup_for_auth st (uid_str uid) s' = (Inr (Some (u, Some h)), s') \<and>
         user_uid u = uid \<and> us_lookup st uid s = (Inr (Some u0), s) \<and> user_enabled u = user_enabled u0)"
    and auth_after_disable:
      "\<lbrakk>ok s; clash_free s (uid_str uid); us_set_enabled st uid False s = (Inr (), s')\<rbrakk> \<Longrightarrow>
       \<exists>u h. us_lookup_for_auth st (uid_str uid) s' = (Inr (Some (u, h)), s') \<and> \<not> user_enabled u"
    and touch_total: "ok s \<Longrightarrow> \<exists>s'. us_touch_last_seen st t uid s = (Inr (), s')"
begin

text \<open>A login after a password change succeeds exactly with a password of the new hash.\<close>

lemma verify_after_set_password:
  assumes "sv_users V = st" and "ok (sv_store s)" and "clash_free (sv_store s) (uid_str uid)"
    and "verifier_hash (sv_bcrypt V) new = Inr h"
    and "svc_set_password V uid new s = (Inr (), s')"
    and "us_lookup st uid (sv_store s) = (Inr (Some u0), sv_store s)" "user_enabled u0"
  shows "\<exists>u. user_uid u = uid \<and> (\<forall>pw. fst (svc_verify V t (uid_str uid) pw s') =
      (if bc_verify (sv_bcrypt V) pw h then Inr u else Inl UsInvalidCredentials))"
proof -
  from assms(1,4,5) obtain s1 where set: "us_set_password st uid h (sv_store s) = (Inr (), s1)"
    and s': "sv_store s' = s1"
    by (auto simp: svc_set_password_def ebind_def lift_res_def on_store_def on_tokens_def ret_def
        split: prod.splits sum.splits option.splits)
  from auth_after_set [OF assms(2,3) set] assms(6,7) obtain u where
    u: "us_lookup_for_auth st (uid_str uid) s1 = (Inr (Some (u, Some h)), s1)" "user_uid u = uid"
      "user_enabled u" and ok1: "ok s1"
    by auto
  obtain s2 where touch: "us_touch_last_seen st t uid s1 = (Inr (), s2)"
    using touch_total [OF ok1] by blast
  have "s'\<lparr>sv_store := s1\<rparr> = s'" using s' by (cases s') simp
  then have "fst (svc_verify V t (uid_str uid) pw s') =
      (if bc_verify (sv_bcrypt V) pw h then Inr u else Inl UsInvalidCredentials)" for pw
    using u touch assms(1) s'
    by (simp add: svc_verify_def ebind_def on_store_def verifier_verify_def Let_def ret_def fail_def)
  then show ?thesis using u(2) by blast
qed

text \<open>A disabled user cannot log in, whatever the password.\<close>

lemma verify_after_disable:
  assumes "sv_users V = st" and "ok (sv_store s)" and "clash_free (sv_store s) (uid_str uid)"
    and "svc_disable_user V uid s = (Inr (), s')"
  shows "fst (svc_verify V t (uid_str uid) pw s') = Inl UsInvalidCredentials"
proof -
  from assms(1,4) obtain s1 where "us_set_enabled st uid False (sv_store s) = (Inr (), s1)"
    and s': "sv_store s' = s1"
    by (auto simp: svc_disable_user_def ebind_def on_store_def on_tokens_def ret_def
        split: prod.splits sum.splits option.splits)
  with auth_after_disable [OF assms(2,3)] obtain u h where
    "us_lookup_for_auth st (uid_str uid) s1 = (Inr (Some (u, h)), s1)" "\<not> user_enabled u" by blast
  then show ?thesis
    using assms(1) s' by (simp add: svc_verify_def ebind_def on_store_def Let_def fail_def)
qed

end

section \<open>The SQL backend\<close>

lemma sql_touch_total: "\<exists>s'. sql_touch_last_seen t uid s = (Inr (), s')"
  by (simp add: sql_touch_last_seen_def)

lemma sql_auth_after_set:
  assumes "users_ok E s" "no_email_clash E s (uid_str uid)" "sql_set_password uid h s = (Inr (), s')"
  shows "users_ok E s' \<and> (\<exists>u u0. sql_lookup_for_auth E (uid_str uid) s' = (Inr (Some (u, Some h)), s') \<and>
         user_uid u = uid \<and> sql_lookup E uid s = (Inr (Some u0), s) \<and> user_enabled u = user_enabled u0)"
proof -
  obtain r where r: "row_of s uid = Some r"
    using assms(3) by (auto simp: sql_set_password_def update_user_eq split: if_splits)
  have ok: "users_ok E s'" using set_password_ok [OF assms(1), of uid h] assms(3) by simp
  let ?f = "\<lambda>r. r\<lparr>ur_password := Some h\<rparr>"
  have s': "s' = s\<lparr>db_users := map (\<lambda>r. if ur_uid r = uid_str uid then ?f r else r) (db_users s)\<rparr>"
    using assms(3) by (simp add: sql_set_password_def update_user_eq split: if_splits)
  have "no_email_clash E s' (uid_str uid)" using assms(2) by (auto simp: s' no_email_clash_def)
  moreover have "row_of s' uid = Some (?f r)"
    using r row_of_update [OF assms(1), of ?f uid uid] by (simp add: s')
  moreover have "ur_uid r = uid_str uid" using r row_of_iff [OF assms(1)] by blast
  ultimately show ?thesis
    using ok lookup_for_auth_uid [OF ok] r lookup_eq [OF assms(1), of uid]
    by (simp add: user_of_def)
qed

lemma sql_auth_after_disable:
  assumes "users_ok E s" "no_email_clash E s (uid_str uid)" "sql_set_enabled uid False s = (Inr (), s')"
  shows "\<exists>u h. sql_lookup_for_auth E (uid_str uid) s' = (Inr (Some (u, h)), s') \<and> \<not> user_enabled u"
proof -
  obtain r where r: "row_of s uid = Some r"
    using assms(3) by (auto simp: sql_set_enabled_def update_user_eq split: if_splits)
  have ok: "users_ok E s'" using set_enabled_ok [OF assms(1), of uid False] assms(3) by simp
  let ?f = "\<lambda>r. r\<lparr>ur_enabled := 0\<rparr>"
  have s': "s' = s\<lparr>db_users := map (\<lambda>r. if ur_uid r = uid_str uid then ?f r else r) (db_users s)\<rparr>"
    using assms(3) by (simp add: sql_set_enabled_def update_user_eq split: if_splits)
  have "no_email_clash E s' (uid_str uid)" using assms(2) by (auto simp: s' no_email_clash_def)
  moreover have "row_of s' uid = Some (?f r)"
    using r row_of_update [OF assms(1), of ?f uid uid] by (simp add: s')
  ultimately show ?thesis
    using lookup_for_auth_uid [OF ok] by (simp add: user_of_def)
qed

interpretation sql_accounts: account_store "sql_user_store E" "users_ok E" "no_email_clash E" for E
  by unfold_locales
    (auto simp: sql_user_store_def dest: sql_auth_after_set sql_auth_after_disable
      intro: sql_touch_total)

section \<open>The bootstrap backend\<close>

definition shim_ok :: "users_env \<Rightarrow> bootstrap_admin \<Rightarrow> users_db \<Rightarrow> bool" where
  "shim_ok E A D \<longleftrightarrow> users_ok E D \<and> uid_ok (UserId (ba_username A))"

abbreviation shim_sql :: "users_env \<Rightarrow> bootstrap_admin \<Rightarrow> users_db user_store" where
  "shim_sql E A \<equiv> shim_user_store (sql_user_store E) (sql_group_store E) A"

definition admin_user :: "bootstrap_admin \<Rightarrow> user" where
  "admin_user A = \<lparr>user_uid = UserId (ba_username A), user_display_name = ba_username A, user_email = None,
     user_enabled = True, user_last_seen = 0\<rparr>"

lemma user_uid_admin [simp]: "user_uid (admin_user A) = UserId (ba_username A)"
  by (simp add: admin_user_def)

lemma synthesized_eq: "uid_ok (UserId (ba_username A)) \<Longrightarrow> synthesized_user A = Inr (admin_user A)"
proof -
  assume "uid_ok (UserId (ba_username A))"
  then have "user_id_new (ba_username A) = Inr (UserId (ba_username A))" by (simp add: user_id_new_iff)
  then show ?thesis by (simp add: synthesized_user_def admin_user_def)
qed

lemma admin_gid: "group_id_new ''admin'' = Inr (GroupId ''admin'')"
  by (simp add: group_id_new_iff uid_char_def Let_def)

lemma shim_lookup_eq:
  assumes "shim_ok E A D"
  shows "shim_lookup (sql_user_store E) A uid D =
    (Inr (case row_of D uid of Some r \<Rightarrow> Some (user_of r)
       | None \<Rightarrow> if uid_str uid = ba_username A then Some (admin_user A) else None), D)"
  using assms
  by (auto simp: shim_lookup_def ebind_def sql_user_store_def lookup_eq shim_ok_def synthesized_eq
      ret_def lift_res_def split: option.splits)

lemma shim_auth_row:
  assumes "sql_lookup_for_auth E login D = (Inr (Some x), D)"
  shows "shim_lookup_for_auth (sql_user_store E) A login D = (Inr (Some x), D)"
  using assms by (simp add: shim_lookup_for_auth_def ebind_def sql_user_store_def ret_def)

text \<open>The state after the promotion: a row with the new hash, and the membership.\<close>

lemma shim_promote:
  assumes "shim_ok E A D" "row_of D uid = None" "uid_str uid = ba_username A"
  shows "shim_set_password (sql_user_store E) (sql_group_store E) A uid h D =
    (Inr (), (if (''admin'', uid_str uid) \<in> set (db_group_user D) then id
              else (\<lambda>D. D\<lparr>db_group_user := db_group_user D @ [(''admin'', uid_str uid)]\<rparr>))
             (snd (sql_create E (admin_user A) (Some h) D)))"
proof -
  have uid: "uid = UserId (ba_username A)" using assms(3) by (cases uid) simp
  have ok: "users_ok E D" and val: "uid_ok (UserId (ba_username A))" using assms(1) by (auto simp: shim_ok_def)
  obtain C where create: "sql_create E (admin_user A) (Some h) D = (Inr (), C)"
    and C: "db_group_user C = db_group_user D"
    using assms(2) uid by (simp add: sql_create_def lookup_eq [OF ok]) (simp add: admin_user_def)
  have mem: "sql_first (\<lambda>(g, u). u = x \<and> g = y) t \<noteq> None \<longleftrightarrow> (y, x) \<in> set t" for x y t
    by (force simp: sql_first_None_iff)
  show ?thesis
    using assms(2,3) create C
    by (simp add: shim_set_password_def ebind_def sql_user_store_def sql_group_store_def lookup_eq [OF ok]
        lift_res_def synthesized_eq [OF val] admin_gid sql_is_in_group_def mem sql_add_to_group_def ret_def uid
        del: not_None_eq)
qed

lemma promoted_users:
  assumes "shim_ok E A D" "row_of D uid = None" "uid_str uid = ba_username A"
    "no_email_clash E D (uid_str uid)"
    "shim_set_password (sql_user_store E) (sql_group_store E) A uid h D = (Inr (), D')"
  shows "users_ok E D' \<and> no_email_clash E D' (uid_str uid) \<and>
    (\<exists>r. row_of D' uid = Some r \<and> ur_password r = Some h \<and> user_of r = admin_user A) \<and>
    (''admin'', uid_str uid) \<in> set (db_group_user D')"
proof -
  have uid: "uid = UserId (ba_username A)" using assms(3) by (cases uid) simp
  have ok: "users_ok E D" and val: "uid_ok (UserId (ba_username A))" using assms(1) by (auto simp: shim_ok_def)
  let ?C = "snd (sql_create E (admin_user A) (Some h) D)"
  have users: "db_users D' = db_users ?C"
    using shim_promote [OF assms(1-3), of h] assms(5) by (auto split: if_splits)
  let ?r = "\<lparr>ur_uid = ba_username A, ur_password = Some h, ur_display = Some (ba_username A), ur_email = None,
     ur_last_seen = 0, ur_enabled = 1\<rparr>"
  have C: "db_users ?C = db_users D @ [?r]"
    using assms(2) uid by (simp add: sql_create_def lookup_eq [OF ok]) (simp add: admin_user_def)
  have groups: "db_group_user ?C = db_group_user D"
    using assms(2) uid by (simp add: sql_create_def lookup_eq [OF ok])
  have "users_ok E ?C"
    by (rule create_ok [OF ok]) (simp add: user_ok_def admin_user_def val)
  then have ok': "users_ok E D'"
    using users_ok_filter [where P = "\<lambda>_. True", of E ?C D'] users by simp
  moreover have "no_email_clash E D' (uid_str uid)"
    using assms(4) by (simp add: no_email_clash_def users C)
  moreover have "row_of D' uid = Some ?r"
    using row_of_iff [OF ok', of uid ?r] by (simp add: users C uid)
  moreover have "user_of ?r = admin_user A"
    by (simp add: user_of_def admin_user_def or_empty_def word_sless_alt)
  moreover have "(''admin'', uid_str uid) \<in> set (db_group_user D')"
    using shim_promote [OF assms(1-3), of h] assms(5) groups by (auto split: if_splits)
  ultimately show ?thesis by force
qed

lemma shim_auth_after_set:
  assumes "shim_ok E A s" "no_email_clash E s (uid_str uid)"
    "shim_set_password (sql_user_store E) (sql_group_store E) A uid h s = (Inr (), s')"
  shows "shim_ok E A s' \<and> (\<exists>u u0. shim_lookup_for_auth (sql_user_store E) A (uid_str uid) s' = (Inr (Some (u, Some h)), s') \<and>
         user_uid u = uid \<and> shim_lookup (sql_user_store E) A uid s = (Inr (Some u0), s) \<and> user_enabled u = user_enabled u0)"
proof (cases "row_of s uid")
  case None
  have ok: "users_ok E s" using assms(1) by (simp add: shim_ok_def)
  have name: "uid_str uid = ba_username A"
    using assms(3) None by (simp add: shim_set_password_def ebind_def sql_user_store_def lookup_eq [OF ok]
        fail_def split: if_splits)
  from promoted_users [OF assms(1) None name assms(2,3)] obtain r where
    r: "users_ok E s'" "no_email_clash E s' (uid_str uid)" "row_of s' uid = Some r" "ur_password r = Some h"
      "user_of r = admin_user A" by blast
  have uid: "uid = UserId (ba_username A)" using name by (cases uid) simp
  have "shim_lookup_for_auth (sql_user_store E) A (uid_str uid) s' = (Inr (Some (admin_user A, Some h)), s')"
    using lookup_for_auth_uid [OF r(1,2)] r(3-5) by (intro shim_auth_row) simp
  then show ?thesis
    using None r(1) assms(1) uid by (simp add: shim_lookup_eq [OF assms(1)] shim_ok_def)
next
  case (Some r)
  have ok: "users_ok E s" using assms(1) by (simp add: shim_ok_def)
  then have "sql_set_password uid h s = (Inr (), s')"
    using assms(3) Some by (simp add: shim_set_password_def ebind_def sql_user_store_def lookup_eq)
  from sql_auth_after_set [OF ok assms(2) this] obtain u u0 where
    u: "users_ok E s'" "sql_lookup_for_auth E (uid_str uid) s' = (Inr (Some (u, Some h)), s')" "user_uid u = uid"
      "sql_lookup E uid s = (Inr (Some u0), s)" "user_enabled u = user_enabled u0" by blast
  moreover from this(4) have "shim_lookup (sql_user_store E) A uid s = (Inr (Some u0), s)"
    by (simp add: shim_lookup_def ebind_def sql_user_store_def ret_def)
  ultimately show ?thesis using assms(1) by (auto simp: shim_auth_row shim_ok_def)
qed

interpretation shim_accounts: account_store "shim_sql E A" "shim_ok E A" "no_email_clash E" for E A
proof
  fix s uid h s'
  assume "shim_ok E A s" "no_email_clash E s (uid_str uid)" "us_set_password (shim_sql E A) uid h s = (Inr (), s')"
  then show "shim_ok E A s' \<and> (\<exists>u u0. us_lookup_for_auth (shim_sql E A) (uid_str uid) s' = (Inr (Some (u, Some h)), s') \<and>
         user_uid u = uid \<and> us_lookup (shim_sql E A) uid s = (Inr (Some u0), s) \<and> user_enabled u = user_enabled u0)"
    using shim_auth_after_set [of E A s uid h s'] by (simp add: shim_user_store_def)
next
  fix s uid s'
  assume ok: "shim_ok E A s" and clash: "no_email_clash E s (uid_str uid)"
    and set: "us_set_enabled (shim_sql E A) uid False s = (Inr (), s')"
  have uok: "users_ok E s" using ok by (simp add: shim_ok_def)
  then have "sql_set_enabled uid False s = (Inr (), s')"
    using set by (auto simp: shim_user_store_def shim_guarded_def ebind_def sql_user_store_def lookup_eq fail_def
        split: if_splits)
  from sql_auth_after_disable [OF uok clash this]
  show "\<exists>u h. us_lookup_for_auth (shim_sql E A) (uid_str uid) s' = (Inr (Some (u, h)), s') \<and> \<not> user_enabled u"
    by (auto simp: shim_user_store_def shim_auth_row)
next
  fix s t uid
  assume "shim_ok E A s"
  then show "\<exists>s'. us_touch_last_seen (shim_sql E A) t uid s = (Inr (), s')"
    by (auto simp: shim_user_store_def shim_guarded_def ebind_def sql_user_store_def lookup_eq shim_ok_def
        sql_touch_last_seen_def ret_def)
qed

section \<open>Logins\<close>

text \<open>A password scheme whose hashes are the passwords with a mark in front, and a service on it.\<close>

definition sample_bcrypt :: bcrypt where
  "sample_bcrypt = \<lparr>bc_verify = (\<lambda>p h. h = CHR ''$'' # p), bc_hash = (\<lambda>p. Inr (CHR ''$'' # p)), bc_sentinel = []\<rparr>"

definition sample_service :: "users_db users_service" where
  "sample_service = \<lparr>sv_users = sql_user_store sample_users_env, sv_groups = sql_group_store sample_users_env,
     sv_bcrypt = sample_bcrypt, sv_app_passwords = Some sample_token_env\<rparr>"

definition sample_state :: "users_db service_state" where
  "sample_state = \<lparr>sv_store = sample_users_db, sv_tokens = sample_minted\<rparr>"

definition sample_admin :: bootstrap_admin where
  "sample_admin = \<lparr>ba_username = ''root'', ba_password_hash = ''$secret''\<rparr>"

lemma sample_shim_ok: "shim_ok sample_users_env sample_admin sample_users_db"
  by (simp add: shim_ok_def sample_users_ok sample_admin_def uid_ok_def uid_char_def Let_def)

lemma sample_auth: "sql_lookup_for_auth sample_users_env ''alice'' sample_users_db =
    (Inr (Some (sample_user, Some ''h'')), sample_users_db)"
  using lookup_for_auth_uid [OF sample_users_ok(1), of "UserId ''alice''"] sample_users_ok(2)
  by (simp add: sample_row_of user_of_alice) (simp add: sample_alice_def)

lemma sample_user_enabled: "user_enabled sample_user" "user_uid sample_user = UserId ''alice''"
  by (simp_all add: sample_user_def)





text \<open>
  C8. Once an account is disabled no password logs in, and every token the user held is dead, now
  and after any later use of the token service.
\<close>

theorem disable_user_correct:
  assumes "sv_users V = (if bootstrap then shim_sql E A else sql_user_store E)"
    and "shim_ok E A (sv_store s)" and "no_email_clash E (sv_store s) (uid_str uid)"
    and "svc_disable_user V uid s = (Inr (), s')"
    and "sv_app_passwords V = Some T" "codec_ok (te_codec T)" "tok_reachable T (sv_tokens s)"
    and "x \<in> set (td_rows (ts_db (sv_tokens s)))" "at_uid x = uid"
    and "tok_steps T (sv_tokens s') ts" "ap_verify T inst now' raw ts = (Inr r, ts')"
  shows "fst (svc_verify V t (uid_str uid) pw s') = Inl UsInvalidCredentials \<and> at_id r \<noteq> at_id x"
proof -
  have "fst (svc_verify V t (uid_str uid) pw s') = Inl UsInvalidCredentials"
  proof (cases bootstrap)
    case True
    then show ?thesis using assms shim_accounts.verify_after_disable [of V E A s uid s' t pw] by simp
  next
    case False
    then show ?thesis
      using assms sql_accounts.verify_after_disable [of V E s uid s' t pw] by (simp add: shim_ok_def)
  qed
  moreover have "sv_tokens s' = ap_revoke_all_for_user T uid (sv_tokens s)"
    using assms(4,5) by (auto simp: svc_disable_user_def ebind_def on_store_def on_tokens_def
        split: prod.splits sum.splits)
  then have "dead (sv_tokens s') (at_id x)" and inv1: "tok_inv (te_codec T) (sv_tokens s')"
    using revoke_user_dead [OF _ assms(8,9)] revoke_all_inv
      tok_steps_inv [OF assms(6) assms(7) [unfolded tok_reachable_def] tok_init_inv]
    by (simp_all add: ap_revoke_all_for_user_def)
  then have "dead ts (at_id x)" using dead_steps [OF assms(6,10)] by blast
  then have "at_id r \<noteq> at_id x"
    by (rule dead_verify [OF assms(6) tok_steps_inv [OF assms(6,10) inv1] _ assms(11)])
  ultimately show ?thesis by blast
qed

theorem disable_user_correct_witness:
  "\<exists>s'. svc_disable_user sample_service (UserId ''alice'') (sample_state\<lparr>sv_tokens := sample_two\<rparr>) = (Inr (), s') \<and>
     fst (svc_verify sample_service 5 ''alice'' ''pw'' s') = Inl UsInvalidCredentials"
proof -
  let ?s = "sample_state\<lparr>sv_tokens := sample_two\<rparr>"
  obtain s' where s': "svc_disable_user sample_service (UserId ''alice'') ?s = (Inr (), s')"
    and tokens: "sv_tokens s' = ap_revoke_all_for_user sample_token_env (UserId ''alice'') sample_two"
    by (simp add: svc_disable_user_def ebind_def on_store_def on_tokens_def sample_state_def
        sample_service_def sql_user_store_def sql_set_enabled_def update_user_eq sample_row_of)
  have "ap_verify sample_token_env 7 1000 ''raw2'' (sv_tokens s') =
      (Inr sample_token2, snd (ap_verify sample_token_env 7 1000 ''raw2'' (sv_tokens s')))"
    unfolding tokens
    by (rule sample_two_verifies [where P = "\<lambda>r. at_id r \<noteq> 1"])
      (simp_all add: ap_revoke_all_for_user_def revoke_except_db tok_revoke_all_for_user_except_def
        tac_revoke_all_for_user_except_def Let_def forget_None sample_token_env_def
        sample_two_eq(2) tok_list_for_user_def cache_new_def sample_token_def sample_token2_def)
  then show ?thesis
    using disable_user_correct [where bootstrap = False and E = sample_users_env and A = sample_admin and t = 5
        and pw = "''pw''" and x = sample_token and inst = 7 and now' = 1000 and raw = "''raw2''" and r = sample_token2,
        OF _ _ _ s' _ sample_env_codec _ _ _ tok_steps.Refl]
      s' sample_shim_ok sample_users_ok(2) sample_two_reachable
    by (auto simp: sample_service_def sample_state_def sample_two_eq(2) sample_token_def)
qed

section \<open>The bootstrap admin\<close>

text \<open>
  The bootstrap admin logs in with the hash of the configuration until the first password
  change; that change makes it a row with the new hash and a member of the group \<open>admin\<close>, and
  from then on the configured hash is not consulted.
\<close>

theorem bootstrap_retires:
  assumes "shim_ok E A D" "row_of D uid = None" "uid_str uid = ba_username A"
    and "no_email_clash E D (uid_str uid)"
  shows "shim_lookup_for_auth (sql_user_store E) A (uid_str uid) D =
      (Inr (Some (admin_user A, Some (ba_password_hash A))), D) \<and>
    (\<exists>D'. shim_set_password (sql_user_store E) (sql_group_store E) A uid h D = (Inr (), D') \<and>
       shim_lookup_for_auth (sql_user_store E) A (uid_str uid) D' = (Inr (Some (admin_user A, Some h)), D') \<and>
       (''admin'', uid_str uid) \<in> set (db_group_user D'))"
proof -
  have ok: "users_ok E D" and val: "uid_ok (UserId (ba_username A))" using assms(1) by (auto simp: shim_ok_def)
  have "sql_lookup_for_auth E (uid_str uid) D = (Inr None, D)"
    using lookup_for_auth_uid [OF ok assms(4)] assms(2) by simp
  then have before: "shim_lookup_for_auth (sql_user_store E) A (uid_str uid) D =
      (Inr (Some (admin_user A, Some (ba_password_hash A))), D)"
    using assms(3) by (simp add: shim_lookup_for_auth_def ebind_def sql_user_store_def lift_res_def
        synthesized_eq [OF val])
  obtain D' where D': "shim_set_password (sql_user_store E) (sql_group_store E) A uid h D = (Inr (), D')"
    using shim_promote [OF assms(1-3)] by blast
  from promoted_users [OF assms(1-4) D'] obtain r where
    r: "users_ok E D'" "no_email_clash E D' (uid_str uid)" "row_of D' uid = Some r" "ur_password r = Some h"
      "user_of r = admin_user A" "(''admin'', uid_str uid) \<in> set (db_group_user D')" by blast
  have "shim_lookup_for_auth (sql_user_store E) A (uid_str uid) D' = (Inr (Some (admin_user A, Some h)), D')"
    using lookup_for_auth_uid [OF r(1,2)] r(3-5) by (intro shim_auth_row) simp
  then show ?thesis using before D' r(6) by blast
qed

theorem bootstrap_retires_witness:
  "fst (shim_lookup_for_auth (sql_user_store sample_users_env) sample_admin ''root'' sample_users_db) =
     Inr (Some (admin_user sample_admin, Some ''$secret''))"
proof -
  have "row_of sample_users_db (UserId ''root'') = None"
    by (simp add: sample_db_eq row_of_def sql_first_def sample_alice_def)
  moreover have "no_email_clash sample_users_env sample_users_db ''root''"
    by (simp add: no_email_clash_def sample_db_eq sample_alice_def)
  ultimately show ?thesis
    using bootstrap_retires [OF sample_shim_ok, of "UserId ''root''" "''h''"]
    by (simp add: sample_admin_def)
qed

text \<open>
  As long as the configuration names a bootstrap admin, its user is an admin for every check of
  membership: removing it from the group \<open>admin\<close> succeeds and has no effect on its rights, even
  when it is long a regular account.
\<close>

theorem bootstrap_admin_sticky:
  assumes "uid_str uid = ba_username A"
    and "sv_groups V = shim_group_store (sql_group_store E) (ba_username A)"
  shows "fst (svc_is_admin V uid (s\<lparr>sv_store :=
      snd (gs_remove_from_group (sv_groups V) uid (GroupId ''admin'') (sv_store s))\<rparr>)) = Inr True"
  using assms
  by (simp add: svc_is_admin_def ebind_def lift_res_def admin_gid on_store_def shim_group_store_def
      shim_is_in_group_def sql_group_store_def sql_is_in_group_def ret_def)

theorem bootstrap_admin_sticky_witness:
  "fst (svc_is_admin (sample_service\<lparr>sv_groups := shim_group_store (sql_group_store sample_users_env) ''root''\<rparr>)
     (UserId ''root'') (sample_state\<lparr>sv_store := snd (gs_remove_from_group
        (shim_group_store (sql_group_store sample_users_env) ''root'') (UserId ''root'') (GroupId ''admin'') sample_users_db)\<rparr>))
   = Inr True"
  using bootstrap_admin_sticky [where uid = "UserId ''root''" and A = sample_admin and E = sample_users_env and s = sample_state
      and V = "sample_service\<lparr>sv_groups := shim_group_store (sql_group_store sample_users_env) ''root''\<rparr>"]
  by (simp add: sample_admin_def sample_state_def)

end
