(* ===== verification/Filecache.thy ===== *)
theory Filecache
  imports Storage_Trait FsPaths Sql
begin

text \<open>
  The file cache (crabcloud-filecache: src/schema.rs, src/storages.rs, src/mimetypes.rs,
  src/propagate.rs, src/populate.rs): the tables \<open>oc_storages\<close>, \<open>oc_mimetypes\<close> and
  \<open>oc_filecache\<close>, the application of storage events to them with the walk up the
  ancestors, and the population of the cache from a storage on a miss. The three dialects run
  the same statements and differ in the width of times and in \<open>LIKE\<close>. Sizes are the integers
  of \<open>BIGINT\<close> columns, sums past 64 bits are not modelled; connection failures are left out, a
  violated unique index is an error that rolls its transaction back.
\<close>

section \<open>Rows\<close>

text \<open>MD5 in hex and the Unicode lower case of \<open>str::to_lowercase\<close> are parameters.\<close>

record fc_env =
  fe_dialect :: dialect
  fe_md5 :: "string \<Rightarrow> string"
  fe_lower :: "string \<Rightarrow> string"

record fc_row =
  fr_id :: int
  fr_storage :: int
  fr_path :: string
  fr_hash :: string
  fr_parent :: "int option"
  fr_name :: string
  fr_mime :: int
  fr_part :: int
  fr_size :: int
  fr_mtime :: i64
  fr_stime :: i64
  fr_etag :: string
  fr_perms :: i64

text \<open>
  The database and the two intern caches of the process. Storages and mimetypes are never
  deleted; their ids count up.
\<close>

record fc_db =
  fd_rows :: "fc_row list"
  fd_next :: int
  fd_storages :: "(int \<times> string \<times> i64 option) list"
  fd_mimes :: "(int \<times> string) list"
  fd_storage_ids :: "string \<Rightarrow> int option"
  fd_mime_ids :: "string \<Rightarrow> int option"
  fd_world :: world

definition DIRECTORY_MIMETYPE :: string where
  "DIRECTORY_MIMETYPE = ''httpd/unix-directory''"

definition path_hash :: "fc_env \<Rightarrow> storage_path \<Rightarrow> string" where
  "path_hash E p = fe_md5 E (as_str p)"

definition type_half :: "string \<Rightarrow> string" where
  "type_half m = (case find_idx (CHR ''/'') m of Some i \<Rightarrow> take i m | None \<Rightarrow> m)"

text \<open>A row as the queries return it, with the joined strings, and the typed row.\<close>

record fc_row_raw =
  rw_id :: int
  rw_storage_id :: string
  rw_path :: string
  rw_parent :: "int option"
  rw_name :: string
  rw_mime :: string
  rw_size :: int
  rw_mtime :: i64
  rw_stime :: i64
  rw_etag :: string
  rw_perms :: i64

record filecache_row =
  fcr_id :: int
  fcr_storage_id :: string
  fcr_path :: storage_path
  fcr_parent :: "int option"
  fcr_name :: string
  fcr_kind :: file_kind
  fcr_mimetype :: mimetype
  fcr_size :: u64
  fcr_mtime :: u64
  fcr_stime :: u64
  fcr_etag :: etag
  fcr_permissions :: permissions

definition into_row :: "fc_env \<Rightarrow> fc_row_raw \<Rightarrow> filecache_error + filecache_row" where
  "into_row E r =
     (case storage_path_new (rw_path r) of
        Inl _ \<Rightarrow> Inl (FcInvalid ''filecache row has invalid path'')
      | Inr p \<Rightarrow> (case etag_from_hex (rw_etag r) of
          Inl _ \<Rightarrow> Inl (FcInvalid ''filecache row has invalid etag'')
        | Inr et \<Rightarrow> (case mimetype_parse (fe_lower E) (rw_mime r) of
            Inl _ \<Rightarrow> Inl (FcInvalid ''filecache row has invalid mimetype'')
          | Inr mime \<Rightarrow>
              Inr \<lparr>fcr_id = rw_id r, fcr_storage_id = rw_storage_id r, fcr_path = p,
                   fcr_parent = rw_parent r, fcr_name = rw_name r,
                   fcr_kind = (if starts_with (rw_mime r) DIRECTORY_MIMETYPE then KDirectory else KFile),
                   fcr_mimetype = mime, fcr_size = word_of_int (rw_size r), fcr_mtime = rw_mtime r,
                   fcr_stime = rw_stime r, fcr_etag = et,
                   fcr_permissions = permissions_new (ucast (rw_perms r))\<rparr>)))"

section \<open>Interning\<close>

definition upsert_storage :: "string \<Rightarrow> fc_db \<Rightarrow> int \<times> fc_db" where
  "upsert_storage sid S =
     (case sql_first (\<lambda>(i, s, c). s = sid) (fd_storages S) of
        Some (i, _) \<Rightarrow> (i, S)
      | None \<Rightarrow>
          (let i = int (length (fd_storages S)) + 1
           in (i, S\<lparr>fd_storages := fd_storages S @ [(i, sid, None)]\<rparr>)))"

definition intern_storage :: "string \<Rightarrow> fc_db \<Rightarrow> int \<times> fc_db" where
  "intern_storage sid S =
     (case fd_storage_ids S sid of
        Some i \<Rightarrow> (i, S)
      | None \<Rightarrow>
          (case upsert_storage sid S of
             (i, S') \<Rightarrow> (i, S'\<lparr>fd_storage_ids := (fd_storage_ids S')(sid \<mapsto> i)\<rparr>)))"

definition stamp_last_checked :: "fc_env \<Rightarrow> string \<Rightarrow> fc_db \<Rightarrow> fc_db" where
  "stamp_last_checked E sid S =
     (let (t, w) = now (fd_world S); secs = word_of_nat (t div 10 ^ 9)
      in S\<lparr>fd_world := w,
           fd_storages := map (\<lambda>(i, s, c). if s = sid
             then (i, s, Some (if fe_dialect E = Postgres then bind32 Postgres secs else secs))
             else (i, s, c)) (fd_storages S)\<rparr>)"

definition upsert_mimetype :: "string \<Rightarrow> fc_db \<Rightarrow> int \<times> fc_db" where
  "upsert_mimetype m S =
     (case sql_first (\<lambda>(i, s). s = m) (fd_mimes S) of
        Some (i, _) \<Rightarrow> (i, S)
      | None \<Rightarrow>
          (let i = int (length (fd_mimes S)) + 1
           in (i, S\<lparr>fd_mimes := fd_mimes S @ [(i, m)]\<rparr>)))"

definition intern_mimetype :: "string \<Rightarrow> fc_db \<Rightarrow> int \<times> fc_db" where
  "intern_mimetype m S =
     (case fd_mime_ids S m of
        Some i \<Rightarrow> (i, S)
      | None \<Rightarrow>
          (case upsert_mimetype m S of
             (i, S') \<Rightarrow> (i, S'\<lparr>fd_mime_ids := (fd_mime_ids S')(m \<mapsto> i)\<rparr>)))"

section \<open>Lookups\<close>

definition storage_name :: "fc_db \<Rightarrow> int \<Rightarrow> string option" where
  "storage_name S k = map_option (\<lambda>(i, s, c). s) (sql_first (\<lambda>(i, s, c). i = k) (fd_storages S))"

definition mime_name :: "fc_db \<Rightarrow> int \<Rightarrow> string option" where
  "mime_name S k = map_option snd (sql_first (\<lambda>(i, s). i = k) (fd_mimes S))"

text \<open>The joins with the storages and the mimetypes.\<close>

definition join_row :: "fc_db \<Rightarrow> fc_row \<Rightarrow> fc_row_raw option" where
  "join_row S r =
     (case (storage_name S (fr_storage r), mime_name S (fr_mime r)) of
        (Some sid, Some m) \<Rightarrow>
          Some \<lparr>rw_id = fr_id r, rw_storage_id = sid, rw_path = fr_path r, rw_parent = fr_parent r,
                rw_name = fr_name r, rw_mime = m, rw_size = fr_size r, rw_mtime = fr_mtime r,
                rw_stime = fr_stime r, rw_etag = fr_etag r, rw_perms = fr_perms r\<rparr>
      | _ \<Rightarrow> None)"

definition opt_row :: "fc_env \<Rightarrow> fc_row_raw option \<Rightarrow> filecache_error + filecache_row option" where
  "opt_row E x = (case x of None \<Rightarrow> Inr None | Some r \<Rightarrow> rbind (into_row E r) (\<lambda>y. Inr (Some y)))"

definition lookup_row :: "fc_env \<Rightarrow> string \<Rightarrow> storage_path \<Rightarrow> fc_db \<Rightarrow> filecache_error + filecache_row option" where
  "lookup_row E sid p S =
     opt_row E (Option.bind (sql_first (\<lambda>r. storage_name S (fr_storage r) = Some sid
       \<and> fr_hash r = path_hash E p) (fd_rows S)) (join_row S))"

definition lookup_row_by_id :: "fc_env \<Rightarrow> int \<Rightarrow> fc_db \<Rightarrow> filecache_error + filecache_row option" where
  "lookup_row_by_id E i S =
     opt_row E (Option.bind (sql_first (\<lambda>r. fr_id r = i) (fd_rows S)) (join_row S))"

fun collect_rows :: "fc_env \<Rightarrow> fc_row_raw list \<Rightarrow> filecache_error + filecache_row list" where
  "collect_rows E [] = Inr []"
| "collect_rows E (r # rs) = rbind (into_row E r) (\<lambda>x. rbind (collect_rows E rs) (\<lambda>xs. Inr (x # xs)))"

definition walk_under :: "fc_env \<Rightarrow> string \<Rightarrow> string \<Rightarrow> fc_db \<Rightarrow> filecache_error + filecache_row list" where
  "walk_under E sid path_prefix S =
     (let pre = trim_by (\<lambda>c. c = CHR ''/'') path_prefix;
          pat = (if pre = [] then ''%'' else pre @ ''/%'')
      in collect_rows E (List.map_filter (join_row S)
           (sort_key fr_id (filter (\<lambda>r. storage_name S (fr_storage r) = Some sid \<and>
              (fr_path r = pre \<or> like_on (fe_dialect E) pat (fr_path r))) (fd_rows S)))))"

section \<open>Events\<close>

definition row_at :: "fc_env \<Rightarrow> int \<Rightarrow> storage_path \<Rightarrow> fc_row list \<Rightarrow> fc_row option" where
  "row_at E k p rows = sql_first (\<lambda>r. fr_storage r = k \<and> fr_hash r = path_hash E p) rows"

definition update_row :: "int \<Rightarrow> (fc_row \<Rightarrow> fc_row) \<Rightarrow> fc_db \<Rightarrow> fc_db" where
  "update_row i f S = S\<lparr>fd_rows := snd (sql_update (\<lambda>r. fr_id r = i) f (fd_rows S))\<rparr>"

definition sys_to_unix :: "nat \<Rightarrow> i64" where
  "sys_to_unix t = word_of_nat (t div 10 ^ 9)"

text \<open>Evaluated on binary integers.\<close>

lemma sys_to_unix_code [code]: "sys_to_unix t = word_of_int (int t div 1000000000)"
proof -
  have "int t div 1000000000 = int (t div 1000000000)" using zdiv_int [of t 1000000000] by simp
  then have "(word_of_int (int t div 1000000000) :: i64) = of_nat (t div 1000000000)"
    by (simp only: of_int_of_nat_eq)
  then show ?thesis by (simp add: sys_to_unix_def)
qed

definition unix_now :: "fc_db \<Rightarrow> i64 \<times> fc_db" where
  "unix_now S = (let (t, w) = now (fd_world S) in (sys_to_unix t, S\<lparr>fd_world := w\<rparr>))"

text \<open>A transaction: an error rolls the tables back.\<close>

definition transact :: "(fc_db, filecache_error, 'a) eff \<Rightarrow> (fc_db, filecache_error, 'a) eff" where
  "transact act S =
     (case act S of
        (Inl e, S') \<Rightarrow> (Inl e, S\<lparr>fd_world := fd_world S'\<rparr>)
      | (Inr x, S') \<Rightarrow> (Inr x, S'))"

definition resolve_parent_fileid ::
    "fc_env \<Rightarrow> int \<Rightarrow> storage_path \<Rightarrow> fc_db \<Rightarrow> filecache_error + int option" where
  "resolve_parent_fileid E k path S =
     (case storage_parent path of
        None \<Rightarrow> Inr None
      | Some q \<Rightarrow> (case row_at E k q (fd_rows S) of
          Some r \<Rightarrow> Inr (Some (fr_id r))
        | None \<Rightarrow> if is_root q then Inr None else Inl (FcAncestorMissing q)))"

text \<open>The walk up the ancestors: each gets the size delta, a fresh entity tag and the time.\<close>

lemma storage_parent_shorter: "storage_parent p = Some q \<Longrightarrow> length (as_str q) < length (as_str p)"
  using rfind_SomeD [of "CHR ''/''" "as_str p"]
  by (auto simp: storage_parent_def storage_root_def split: if_splits option.splits)

function propagate_ancestors ::
    "fc_env \<Rightarrow> int \<Rightarrow> int \<Rightarrow> i64 \<Rightarrow> storage_path option \<Rightarrow> (fc_db, filecache_error, unit) eff" where
  "propagate_ancestors E k delta mt None S = (Inr (), S)"
| "propagate_ancestors E k delta mt (Some anc) S =
     (case row_at E k anc (fd_rows S) of
        None \<Rightarrow> if is_root anc then (Inr (), S) else (Inl (FcAncestorMissing anc), S)
      | Some r \<Rightarrow>
          (let (et, w) = etag_new (fd_world S);
               S' = update_row (fr_id r) (\<lambda>r. r\<lparr>fr_size := fr_size r + delta, fr_etag := etag_str et,
                      fr_mtime := bind32 (fe_dialect E) mt\<rparr>) (S\<lparr>fd_world := w\<rparr>)
           in if is_root anc then (Inr (), S')
              else propagate_ancestors E k delta mt (storage_parent anc) S'))"
  by pat_completeness auto
termination
  by (relation "measure (\<lambda>(E, k, d, mt, x, S). case x of None \<Rightarrow> 0 | Some q \<Rightarrow> Suc (length (as_str q)))")
    (auto split: option.splits dest: storage_parent_shorter)

declare propagate_ancestors.simps [simp del]

record leaf =
  lf_parent :: "int option"
  lf_mime :: int
  lf_part :: int
  lf_size :: int
  lf_mtime :: i64
  lf_stime :: i64
  lf_etag :: string
  lf_perms :: i64

definition insert_row :: "fc_env \<Rightarrow> int \<Rightarrow> storage_path \<Rightarrow> leaf \<Rightarrow> fc_db \<Rightarrow> fc_db" where
  "insert_row E k path x S =
     S\<lparr>fd_next := fd_next S + 1,
       fd_rows := fd_rows S @
         [\<lparr>fr_id = fd_next S, fr_storage = k, fr_path = as_str path, fr_hash = path_hash E path,
           fr_parent = lf_parent x, fr_name = storage_basename path, fr_mime = lf_mime x,
           fr_part = lf_part x, fr_size = lf_size x, fr_mtime = lf_mtime x, fr_stime = lf_stime x,
           fr_etag = lf_etag x, fr_perms = lf_perms x\<rparr>]\<rparr>"

definition set_leaf :: "storage_path \<Rightarrow> leaf \<Rightarrow> fc_row \<Rightarrow> fc_row" where
  "set_leaf path x r =
     r\<lparr>fr_parent := lf_parent x, fr_name := storage_basename path, fr_mime := lf_mime x,
       fr_part := lf_part x, fr_size := lf_size x, fr_mtime := lf_mtime x, fr_stime := lf_stime x,
       fr_etag := lf_etag x, fr_perms := lf_perms x\<rparr>"

text \<open>The size before, and the row updated or inserted.\<close>

definition upsert_leaf :: "fc_env \<Rightarrow> int \<Rightarrow> storage_path \<Rightarrow> leaf \<Rightarrow> fc_db \<Rightarrow> int \<times> fc_db" where
  "upsert_leaf E k path x S =
     (case row_at E k path (fd_rows S) of
        Some r \<Rightarrow> (fr_size r, update_row (fr_id r) (set_leaf path x) S)
      | None \<Rightarrow> (0, insert_row E k path x S))"

definition apply_written ::
    "fc_env \<Rightarrow> string \<Rightarrow> storage_path \<Rightarrow> file_metadata \<Rightarrow> bool \<Rightarrow> (fc_db, filecache_error, unit) eff" where
  "apply_written E sid path md is_dir S0 =
     (let (k, S1) = intern_storage sid S0;
          mime = (if is_dir then DIRECTORY_MIMETYPE else mime_str (md_mimetype md));
          (mpk, S2) = intern_mimetype mime S1;
          (ppk, S3) = intern_mimetype (type_half mime) S2;
          new_size = (if is_dir then 0 else sint (word_of_nat (md_size md) :: i64));
          mt = sys_to_unix (md_mtime md);
          d = fe_dialect E
      in case resolve_parent_fileid E k path S3 of
           Inl e \<Rightarrow> (Inl e, S3)
         | Inr parent \<Rightarrow>
             transact (\<lambda>S.
               (let (old_size, S') = upsert_leaf E k path
                  \<lparr>lf_parent = parent, lf_mime = mpk, lf_part = ppk, lf_size = new_size,
                   lf_mtime = bind32 d mt, lf_stime = bind32 d mt,
                   lf_etag = etag_str (md_etag md),
                   lf_perms = bind32 d (ucast (perm_bits (md_permissions md)))\<rparr> S
                in propagate_ancestors E k (new_size - old_size) mt (storage_parent path) S')) S3)"

text \<open>
  \<open>ON DELETE CASCADE\<close> on the parent column: the ids reached from the given ones over the
  parent references. Each round adds rows, so as many rounds as rows are enough.
\<close>

fun cascade_ids :: "nat \<Rightarrow> int list \<Rightarrow> fc_row list \<Rightarrow> int list" where
  "cascade_ids 0 ids rows = ids"
| "cascade_ids (Suc n) ids rows =
     (let more = map fr_id (filter (\<lambda>r. fr_parent r \<in> Some ` set ids \<and> fr_id r \<notin> set ids) rows)
      in if more = [] then ids else cascade_ids n (ids @ more) rows)"

definition delete_cascade :: "int \<Rightarrow> fc_row list \<Rightarrow> fc_row list" where
  "delete_cascade i rows = filter (\<lambda>r. fr_id r \<notin> set (cascade_ids (length rows) [i] rows)) rows"

definition apply_deleted :: "fc_env \<Rightarrow> string \<Rightarrow> storage_path \<Rightarrow> (fc_db, filecache_error, unit) eff" where
  "apply_deleted E sid path S0 =
     (let (k, S1) = intern_storage sid S0
      in transact (\<lambda>S.
           (case row_at E k path (fd_rows S) of
              None \<Rightarrow> (Inr (), S)
            | Some r \<Rightarrow>
                (let S' = S\<lparr>fd_rows := delete_cascade (fr_id r) (fd_rows S)\<rparr>;
                     (t, S'') = unix_now S'
                 in propagate_ancestors E k (- fr_size r) t (storage_parent path) S''))) S1)"

definition from_prefix :: "storage_path \<Rightarrow> string" where
  "from_prefix p = (if is_root p then [] else as_str p @ ''/'')"

text \<open>The unique index on storage and hash.\<close>

definition hash_taken :: "int \<Rightarrow> string \<Rightarrow> int \<Rightarrow> fc_row list \<Rightarrow> bool" where
  "hash_taken k h i rows \<longleftrightarrow> (\<exists>r \<in> set rows. fr_storage r = k \<and> fr_hash r = h \<and> fr_id r \<noteq> i)"

definition rewritten_path :: "storage_path \<Rightarrow> storage_path \<Rightarrow> string \<Rightarrow> string" where
  "rewritten_path from to old =
     (let suffix = drop (length (from_prefix from)) old
      in if is_root to then suffix else as_str to @ CHR ''/'' # suffix)"

fun rewrite_rows ::
    "fc_env \<Rightarrow> int \<Rightarrow> storage_path \<Rightarrow> storage_path \<Rightarrow> (int \<times> string) list \<Rightarrow> (fc_db, filecache_error, unit) eff" where
  "rewrite_rows E k from to [] S = (Inr (), S)"
| "rewrite_rows E k from to ((i, old) # rest) S =
     (if length old < length (from_prefix from) then rewrite_rows E k from to rest S
      else
        (let new = rewritten_path from to old
         in case storage_path_new new of
              Inl _ \<Rightarrow> (Inl (FcInvalid ''rewrite produced invalid path''), S)
            | Inr q \<Rightarrow>
                if hash_taken k (path_hash E q) i (fd_rows S)
                then (Inl (FcDb ''UNIQUE constraint failed''), S)
                else rewrite_rows E k from to rest
                       (update_row i (\<lambda>r. r\<lparr>fr_path := new, fr_hash := path_hash E q\<rparr>) S)))"

definition rewrite_descendant_paths ::
    "fc_env \<Rightarrow> int \<Rightarrow> storage_path \<Rightarrow> storage_path \<Rightarrow> (fc_db, filecache_error, unit) eff" where
  "rewrite_descendant_paths E k from to S =
     rewrite_rows E k from to
       (map (\<lambda>r. (fr_id r, fr_path r))
         (filter (\<lambda>r. fr_storage r = k \<and> like_on (fe_dialect E) (from_prefix from @ ''%'') (fr_path r)) (fd_rows S))) S"

definition apply_moved :: "fc_env \<Rightarrow> string \<Rightarrow> storage_path \<Rightarrow> storage_path \<Rightarrow> (fc_db, filecache_error, unit) eff" where
  "apply_moved E sid from to S0 =
     (let (k, S1) = intern_storage sid S0
      in case resolve_parent_fileid E k to S1 of
           Inl e \<Rightarrow> (Inl e, S1)
         | Inr to_parent \<Rightarrow>
             (let (t, S2) = unix_now S1
              in transact (\<lambda>S.
                   (case row_at E k from (fd_rows S) of
                      None \<Rightarrow> (Inl FcNotFound, S)
                    | Some r \<Rightarrow>
                        if hash_taken k (path_hash E to) (fr_id r) (fd_rows S)
                        then (Inl (FcDb ''UNIQUE constraint failed''), S)
                        else ebind (rewrite_descendant_paths E k from to) (\<lambda>_.
                          if storage_parent from \<noteq> storage_parent to
                          then ebind (propagate_ancestors E k (- fr_size r) t (storage_parent from)) (\<lambda>_.
                               propagate_ancestors E k (fr_size r) t (storage_parent to))
                          else propagate_ancestors E k 0 t (storage_parent to))
                          (update_row (fr_id r) (\<lambda>r. r\<lparr>fr_path := as_str to, fr_hash := path_hash E to,
                             fr_parent := to_parent, fr_name := storage_basename to\<rparr>) S))) S2))"

definition apply_copied :: "fc_env \<Rightarrow> string \<Rightarrow> storage_path \<Rightarrow> storage_path \<Rightarrow> (fc_db, filecache_error, unit) eff" where
  "apply_copied E sid from to S0 =
     (let (k, S1) = intern_storage sid S0
      in case resolve_parent_fileid E k to S1 of
           Inl e \<Rightarrow> (Inl e, S1)
         | Inr to_parent \<Rightarrow>
             (let (et, w) = etag_new (fd_world S1);
                  (t, S2) = unix_now (S1\<lparr>fd_world := w\<rparr>)
              in transact (\<lambda>S.
                   (case row_at E k from (fd_rows S) of
                      None \<Rightarrow> (Inl FcNotFound, S)
                    | Some r \<Rightarrow>
                        if row_at E k to (fd_rows S) \<noteq> None
                        then (Inl (FcDb ''UNIQUE constraint failed''), S)
                        else propagate_ancestors E k (fr_size r) t (storage_parent to)
                          (insert_row E k to
                            \<lparr>lf_parent = to_parent, lf_mime = fr_mime r, lf_part = fr_part r,
                             lf_size = fr_size r, lf_mtime = bind32 (fe_dialect E) t,
                             lf_stime = fr_stime r, lf_etag = etag_str et, lf_perms = fr_perms r\<rparr> S))) S2))"

definition apply_event :: "fc_env \<Rightarrow> storage_event \<Rightarrow> (fc_db, filecache_error, unit) eff" where
  "apply_event E ev =
     (case ev of
        Written sid path md \<Rightarrow> apply_written E sid path md False
      | DirCreated sid path md \<Rightarrow> apply_written E sid path md True
      | Deleted sid path \<Rightarrow> apply_deleted E sid path
      | Moved sid from to \<Rightarrow> apply_moved E sid from to
      | Copied sid from to \<Rightarrow> apply_copied E sid from to)"

section \<open>Population on a miss\<close>

text \<open>
  Over any storage; the state is the storage's and the cache's. The lock of the path makes
  concurrent misses wait for each other and is not modelled.
\<close>

definition row_to_metadata :: "filecache_row \<Rightarrow> file_metadata" where
  "row_to_metadata r =
     \<lparr>md_path = fcr_path r, md_kind = fcr_kind r, md_size = unat (fcr_size r),
      md_mtime = unat (fcr_mtime r) * 10 ^ 9, md_etag = fcr_etag r, md_mimetype = fcr_mimetype r,
      md_permissions = fcr_permissions r\<rparr>"

definition on_cache :: "(fc_db, 'e, 'a) eff \<Rightarrow> ('s \<times> fc_db, 'e, 'a) eff" where
  "on_cache act sS = (case act (snd sS) of (r, S') \<Rightarrow> (r, (fst sS, S')))"

definition populate_row ::
    "fc_env \<Rightarrow> 's storage_ops \<Rightarrow> storage_path \<Rightarrow> file_metadata \<Rightarrow> ('s \<times> fc_db, filecache_error, file_metadata) eff" where
  "populate_row E ops path md sS =
     (let sid = op_id ops (fst sS);
          ev = (if md_kind md = KDirectory then DirCreated sid path md else Written sid path md)
      in ebind (on_cache (apply_event E ev)) (\<lambda>_. (\<lambda>x. (Inr md, x))) sS)"

function fc_stat ::
    "fc_env \<Rightarrow> 's storage_ops \<Rightarrow> storage_path \<Rightarrow> ('s \<times> fc_db, filecache_error, file_metadata) eff" where
  "fc_stat E ops path sS =
     (case lookup_row E (op_id ops (fst sS)) path (snd sS) of
        Inl e \<Rightarrow> (Inl e, sS)
      | Inr (Some row) \<Rightarrow> (Inr (row_to_metadata row), sS)
      | Inr None \<Rightarrow>
          (case op_stat ops path (fst sS) of
             (Inl e, s1) \<Rightarrow> (Inl (if e = StNotFound then FcNotFound else FcStorage e), (s1, snd sS))
           | (Inr md, s1) \<Rightarrow>
               (case storage_parent path of
                  None \<Rightarrow> populate_row E ops path md (s1, snd sS)
                | Some q \<Rightarrow>
                    if is_root q then populate_row E ops path md (s1, snd sS)
                    else (case fc_stat E ops q (s1, snd sS) of
                            (Inl e, x) \<Rightarrow> (Inl e, x)
                          | (Inr _, x) \<Rightarrow> populate_row E ops path md x))))"
  by pat_completeness auto
termination
  by (relation "measure (\<lambda>(E, ops, q, x). length (as_str q))") (auto dest: storage_parent_shorter)

declare fc_stat.simps [simp del]

fun stat_children ::
    "fc_env \<Rightarrow> 's storage_ops \<Rightarrow> storage_path \<Rightarrow> dir_entry list \<Rightarrow> ('s \<times> fc_db, filecache_error, unit) eff" where
  "stat_children E ops path [] x = (Inr (), x)"
| "stat_children E ops path (c # cs) x =
     (case (if is_root path then storage_path_new (de_name c) else storage_join path (de_name c)) of
        Inl e \<Rightarrow> (Inl (FcStorage e), x)
      | Inr q \<Rightarrow> ebind (fc_stat E ops q) (\<lambda>_. stat_children E ops path cs) x)"

definition fc_list ::
    "fc_env \<Rightarrow> 's storage_ops \<Rightarrow> storage_path \<Rightarrow> ('s \<times> fc_db, filecache_error, dir_entry list) eff" where
  "fc_list E ops path =
     ebind (fc_stat E ops path) (\<lambda>_ (s, S).
       (case op_list ops path s of
          (Inl e, s1) \<Rightarrow> (Inl (FcStorage e), (s1, S))
        | (Inr entries, s1) \<Rightarrow>
            ebind (stat_children E ops path entries) (\<lambda>_. (\<lambda>x. (Inr entries, x))) (s1, S)))"

section \<open>The full scan\<close>

definition synthetic_root_metadata :: "fc_db \<Rightarrow> file_metadata \<times> fc_db" where
  "synthetic_root_metadata S =
     (let (t, w1) = now (fd_world S); (et, w2) = etag_new w1
      in (\<lparr>md_path = storage_root, md_kind = KDirectory, md_size = 0, md_mtime = t, md_etag = et,
           md_mimetype = octet_stream, md_permissions = permissions_full\<rparr>, S\<lparr>fd_world := w2\<rparr>))"

definition ensure_cached :: "fc_env \<Rightarrow> 's storage_ops \<Rightarrow> storage_path \<Rightarrow> ('s \<times> fc_db, filecache_error, unit) eff" where
  "ensure_cached E ops path x =
     (if \<not> is_root path then ebind (fc_stat E ops path) (\<lambda>_ y. (Inr (), y)) x
      else
        (let sid = op_id ops (fst x)
         in case lookup_row E sid path (snd x) of
              Inl e \<Rightarrow> (Inl e, x)
            | Inr (Some _) \<Rightarrow> (Inr (), x)
            | Inr None \<Rightarrow>
                (case op_stat ops path (fst x) of
                   (Inr md, s1) \<Rightarrow> on_cache (apply_event E (DirCreated sid storage_root md)) (s1, snd x)
                 | (Inl StNotFound, s1) \<Rightarrow>
                     (case synthetic_root_metadata (snd x) of
                        (md, S) \<Rightarrow> on_cache (apply_event E (DirCreated sid storage_root md)) (s1, S))
                 | (Inl e, s1) \<Rightarrow> (Inl (FcStorage e), (s1, snd x)))))"

fun child_paths :: "storage_path \<Rightarrow> dir_entry list \<Rightarrow> storage_error + storage_path list" where
  "child_paths path [] = Inr []"
| "child_paths path (c # cs) =
     rbind (if is_root path then storage_path_new (de_name c) else storage_join path (de_name c)) (\<lambda>q.
     rbind (child_paths path cs) (\<lambda>qs. Inr (q # qs)))"

text \<open>
  One visit: the row is populated; the paths to visit next are the children of a directory. An
  entry that has disappeared since it was queued is skipped.
\<close>

definition scan_visit ::
    "fc_env \<Rightarrow> 's storage_ops \<Rightarrow> storage_path \<Rightarrow> ('s \<times> fc_db, filecache_error, storage_path list) eff" where
  "scan_visit E ops path =
     ebind (ensure_cached E ops path) (\<lambda>_ (s, S).
       (case (if is_root path then (Inr True, s)
              else case op_stat ops path s of
                     (Inr md, s1) \<Rightarrow> (Inr (md_kind md = KDirectory), s1)
                   | (Inl StNotFound, s1) \<Rightarrow> (Inr False, s1)
                   | (Inl e, s1) \<Rightarrow> (Inl (FcStorage e), s1)) of
          (Inl e, s1) \<Rightarrow> (Inl e, (s1, S))
        | (Inr False, s1) \<Rightarrow> (Inr [], (s1, S))
        | (Inr True, s1) \<Rightarrow>
            (case op_list ops path s1 of
               (Inr cs, s2) \<Rightarrow> (case child_paths path cs of
                   Inl e \<Rightarrow> (Inl (FcStorage e), (s2, S))
                 | Inr qs \<Rightarrow> (Inr qs, (s2, S)))
             | (Inl StNotFound, s2) \<Rightarrow> (Inr [], (s2, S))
             | (Inl e, s2) \<Rightarrow> (Inl (FcStorage e), (s2, S)))))"

text \<open>The breadth-first loop may run for ever on a storage whose listings have no end: then \<open>None\<close>.\<close>

partial_function (option) scan_loop ::
    "fc_env \<Rightarrow> 's storage_ops \<Rightarrow> storage_path list \<Rightarrow> nat \<Rightarrow> 's \<times> fc_db \<Rightarrow>
       ((filecache_error + nat) \<times> 's \<times> fc_db) option" where
  "scan_loop E ops queue count x =
     (case queue of
        [] \<Rightarrow> Some (Inr count, x)
      | path # rest \<Rightarrow>
          (case scan_visit E ops path x of
             (Inl e, x1) \<Rightarrow> Some (Inl e, x1)
           | (Inr qs, x1) \<Rightarrow> scan_loop E ops (rest @ qs) (count + 1) x1))"

definition full_scan :: "fc_env \<Rightarrow> 's storage_ops \<Rightarrow> 's \<times> fc_db \<Rightarrow> ((filecache_error + nat) \<times> 's \<times> fc_db) option" where
  "full_scan E ops x =
     map_option (\<lambda>(r, s, S). case r of
         Inl e \<Rightarrow> (Inl e, s, S)
       | Inr n \<Rightarrow> (Inr n, s, stamp_last_checked E (op_id ops s) S))
       (scan_loop E ops [storage_root] 0 x)"

end
