(* ===== verification/Filecache_Correct.thy ===== *)
theory Filecache_Correct
  imports Filecache
begin

text \<open>
  The tree the cache keeps: every reachable state has one row per path, with the row of its
  parent, and, as long as directories are announced before their children are, a directory's
  size is the sum of the sizes of its children. What moves, copies and late directories do to
  it otherwise.
\<close>

section \<open>The invariant of the tree\<close>

abbreviation fpath :: "fc_row \<Rightarrow> storage_path" where
  "fpath r \<equiv> StoragePath (fr_path r)"

text \<open>A row's parent is the row of the parent path; only the root, and what is directly below it, may have none.\<close>

definition row_key :: "fc_row \<Rightarrow> int \<times> int \<times> string" where
  "row_key r = (fr_id r, fr_storage r, fr_path r)"

definition parent_ok :: "(int \<times> int \<times> string) set \<Rightarrow> int \<Rightarrow> storage_path \<Rightarrow> int option \<Rightarrow> bool" where
  "parent_ok K k p par \<longleftrightarrow>
     (case par of
        Some i \<Rightarrow> (\<exists>q. (i, k, as_str q) \<in> K \<and> storage_parent p = Some q)
      | None \<Rightarrow> storage_parent p \<in> {None, Some storage_root})"

definition rows_ok :: "fc_env \<Rightarrow> int \<Rightarrow> fc_row list \<Rightarrow> bool" where
  "rows_ok E n rows \<longleftrightarrow>
     distinct (map fr_id rows) \<and> (\<forall>r \<in> set rows. fr_id r < n) \<and>
     (\<forall>r \<in> set rows. path_ok (fpath r) \<and> fr_hash r = path_hash E (fpath r) \<and>
        fr_name r = storage_basename (fpath r) \<and>
        parent_ok (row_key ` set rows) (fr_storage r) (fpath r) (fr_parent r)) \<and>
     (\<forall>r \<in> set rows. \<forall>r' \<in> set rows.
        fr_storage r = fr_storage r' \<and> fr_path r = fr_path r' \<longrightarrow> fr_id r = fr_id r')"

lemma rows_okD:
  assumes "rows_ok E n rows"
  shows "distinct (map fr_id rows)" "r \<in> set rows \<Longrightarrow> fr_id r < n"
    "r \<in> set rows \<Longrightarrow> path_ok (fpath r)" "r \<in> set rows \<Longrightarrow> fr_hash r = path_hash E (fpath r)"
    "r \<in> set rows \<Longrightarrow> parent_ok (row_key ` set rows) (fr_storage r) (fpath r) (fr_parent r)" "r \<in> set rows \<Longrightarrow> fr_name r = storage_basename (fpath r)"
  using assms unfolding rows_ok_def by blast+

lemma rows_okI:
  assumes "distinct (map fr_id rows)"
    and "\<And>r. r \<in> set rows \<Longrightarrow> fr_id r < n \<and> path_ok (fpath r) \<and> fr_hash r = path_hash E (fpath r) \<and>
        fr_name r = storage_basename (fpath r) \<and>
        parent_ok (row_key ` set rows) (fr_storage r) (fpath r) (fr_parent r)"
    and "\<And>r r'. r \<in> set rows \<Longrightarrow> r' \<in> set rows \<Longrightarrow> fr_storage r = fr_storage r' \<Longrightarrow>
        fr_path r = fr_path r' \<Longrightarrow> fr_id r = fr_id r'"
  shows "rows_ok E n rows"
  using assms unfolding rows_ok_def by blast

lemma id_unique: "distinct (map fr_id rows) \<Longrightarrow> r \<in> set rows \<Longrightarrow> r' \<in> set rows \<Longrightarrow> fr_id r = fr_id r' \<Longrightarrow> r = r'"
  by (simp add: distinct_map inj_on_def)

lemma path_unique:
  assumes "rows_ok E n rows" "r \<in> set rows" "r' \<in> set rows" "fr_storage r = fr_storage r'" "fr_path r = fr_path r'"
  shows "r = r'"
proof -
  have "fr_id r = fr_id r'" using assms unfolding rows_ok_def by blast
  then show ?thesis using id_unique [OF rows_okD(1) [OF assms(1)] assms(2,3)] by blast
qed

text \<open>MD5 has no collisions on paths.\<close>

definition hash_ok :: "fc_env \<Rightarrow> bool" where
  "hash_ok E \<longleftrightarrow> inj (fe_md5 E)"

lemma path_hash_eq: "hash_ok E \<Longrightarrow> path_hash E p = path_hash E q \<longleftrightarrow> p = q"
  by (auto simp: hash_ok_def path_hash_def inj_eq storage_path.expand)

lemma row_at_iff:
  assumes "hash_ok E" "rows_ok E n rows"
  shows "row_at E k p rows = Some r \<longleftrightarrow> r \<in> set rows \<and> fr_storage r = k \<and> fpath r = p"
proof
  assume "row_at E k p rows = Some r"
  from sql_first_Some [OF this [unfolded row_at_def]]
  show "r \<in> set rows \<and> fr_storage r = k \<and> fpath r = p"
    using rows_okD(4) [OF assms(2)] path_hash_eq [OF assms(1)] by metis
next
  assume r: "r \<in> set rows \<and> fr_storage r = k \<and> fpath r = p"
  show "row_at E k p rows = Some r"
    unfolding row_at_def
  proof (rule sql_first_unique)
    show "r \<in> set rows" "fr_storage r = k \<and> fr_hash r = path_hash E p"
      using r rows_okD(4) [OF assms(2)] by auto
    fix a assume "a \<in> set rows" "fr_storage a = k \<and> fr_hash a = path_hash E p"
    then have "fr_storage a = fr_storage r" "fr_path a = fr_path r" "a \<in> set rows"
      using r rows_okD(4) [OF assms(2)] path_hash_eq [OF assms(1)] by (metis storage_path.inject)+
    then show "a = r" using path_unique [OF assms(2)] r by blast
  qed
qed

lemma row_at_None:
  assumes "hash_ok E" "rows_ok E n rows"
  shows "row_at E k p rows = None \<longleftrightarrow> (\<forall>r \<in> set rows. fr_storage r = k \<longrightarrow> fpath r \<noteq> p)"
  using row_at_iff [OF assms, of k p] by (metis option.distinct(1) option.exhaust)

text \<open>The columns the tree rests on; sizes, times and tags are the rest.\<close>

definition skel :: "fc_row \<Rightarrow> int \<times> int \<times> string \<times> string \<times> int option \<times> string \<times> int" where
  "skel r = (fr_id r, fr_storage r, fr_path r, fr_hash r, fr_parent r, fr_name r, fr_mime r)"

lemma skel_mem: "map skel rows' = map skel rows \<Longrightarrow> r' \<in> set rows' \<Longrightarrow> \<exists>r \<in> set rows. skel r = skel r'"
  by (metis (no_types, lifting) image_eqI image_set imageE)

lemma rows_ok_skel:
  assumes "rows_ok E n rows" "map skel rows' = map skel rows"
  shows "rows_ok E n rows'"
proof -
  have ids: "map fr_id rows' = map fr_id rows"
  proof -
    have "map fst (map skel rows') = map fst (map skel rows)" using assms(2) by simp
    then show ?thesis by (simp add: comp_def skel_def)
  qed
  have keys: "row_key ` set rows' = row_key ` set rows"
  proof -
    have "row_key ` set xs = (\<lambda>(i, k, p, _). (i, k, p)) ` set (map skel xs)" for xs
      by (simp add: image_image row_key_def skel_def)
    then show ?thesis using assms(2) by metis
  qed
  have up: "\<exists>r \<in> set rows. skel r = skel r'" if "r' \<in> set rows'" for r'
    using skel_mem [OF assms(2) that] .
  have "path_ok (fpath r') \<and> fr_hash r' = path_hash E (fpath r') \<and> fr_name r' = storage_basename (fpath r') \<and>
      parent_ok (row_key ` set rows) (fr_storage r') (fpath r') (fr_parent r') \<and> fr_id r' < n" if "r' \<in> set rows'" for r'
  proof -
    obtain r where r: "r \<in> set rows" "skel r = skel r'" using up [OF \<open>r' \<in> set rows'\<close>] by blast
    then show ?thesis using rows_okD(2-6) [OF assms(1) r(1)] unfolding skel_def by (metis prod.inject)
  qed
  moreover have "fr_id r1 = fr_id r2" if "r1 \<in> set rows'" "r2 \<in> set rows'"
    "fr_storage r1 = fr_storage r2" "fr_path r1 = fr_path r2" for r1 r2
  proof -
    obtain q1 q2 where "q1 \<in> set rows" "skel q1 = skel r1" "q2 \<in> set rows" "skel q2 = skel r2"
      using up \<open>r1 \<in> set rows'\<close> \<open>r2 \<in> set rows'\<close> by meson
    then show ?thesis using path_unique [OF assms(1), of q1 q2] that(3,4) by (auto simp: skel_def)
  qed
  ultimately show ?thesis using rows_okD(1) [OF assms(1)] unfolding rows_ok_def ids keys by blast
qed

lemma map_update_skel:
  assumes "\<And>r. skel (f r) = skel r"
  shows "map skel (fd_rows (update_row i f S)) = map skel (fd_rows S)"
  using assms by (simp add: update_row_def sql_update_def)

lemma propagate_skel:
  assumes "propagate_ancestors E k d mt x S = (res, S')"
  shows "map skel (fd_rows S') = map skel (fd_rows S) \<and>
    fd_next S' = fd_next S \<and> fd_mimes S' = fd_mimes S \<and> fd_storages S' = fd_storages S \<and>
    fd_storage_ids S' = fd_storage_ids S \<and> fd_mime_ids S' = fd_mime_ids S"
  using assms
proof (induction E k d mt x S arbitrary: S' rule: propagate_ancestors.induct)
  case (1 E k d mt S)
  then show ?case by (simp add: propagate_ancestors.simps)
next
  case (2 E k d mt anc S)
  show ?case
  proof (cases "row_at E k anc (fd_rows S)")
    case None
    then show ?thesis using 2(2) by (simp add: propagate_ancestors.simps split: if_splits)
  next
    case (Some r)
    obtain et w where ew: "etag_new (fd_world S) = (et, w)" by fastforce
    let ?S = "update_row (fr_id r) (\<lambda>r. r\<lparr>fr_size := fr_size r + d, fr_etag := etag_str et,
                      fr_mtime := bind32 (fe_dialect E) mt\<rparr>) (S\<lparr>fd_world := w\<rparr>)"
    have step: "map skel (fd_rows ?S) = map skel (fd_rows S)" "fd_next ?S = fd_next S" "fd_mimes ?S = fd_mimes S"
      "fd_storages ?S = fd_storages S" "fd_storage_ids ?S = fd_storage_ids S" "fd_mime_ids ?S = fd_mime_ids S"
      using map_update_skel [of "\<lambda>r. r\<lparr>fr_size := fr_size r + d, fr_etag := etag_str et,
                      fr_mtime := bind32 (fe_dialect E) mt\<rparr>" "fr_id r" "S\<lparr>fd_world := w\<rparr>"]
      by (simp_all add: skel_def update_row_def)
    show ?thesis
    proof (cases "is_root anc")
      case True
      then have "S' = ?S" using 2(2) Some ew by (simp add: propagate_ancestors.simps Let_def)
      then show ?thesis using step by simp
    next
      case False
      then have "propagate_ancestors E k d mt (storage_parent anc) ?S = (res, S')"
        using 2(2) Some ew by (simp add: propagate_ancestors.simps Let_def)
      from 2(1) [OF Some ew [symmetric] refl refl False this] show ?thesis using step by simp
    qed
  qed
qed

section \<open>Inserting and updating\<close>

lemma parent_ok_mono: "parent_ok K k p x \<Longrightarrow> K \<subseteq> K' \<Longrightarrow> parent_ok K' k p x"
  by (auto simp: parent_ok_def split: option.splits)

lemma resolve_parent_ok:
  assumes "hash_ok E" "rows_ok E n (fd_rows S)" "resolve_parent_fileid E k p S = Inr x"
  shows "parent_ok (row_key ` set (fd_rows S)) k p x"
proof (cases "storage_parent p")
  case None
  then show ?thesis using assms(3) by (simp add: resolve_parent_fileid_def parent_ok_def)
next
  case (Some q)
  show ?thesis
  proof (cases "row_at E k q (fd_rows S)")
    case None
    then show ?thesis using assms(3) Some
      by (auto simp: resolve_parent_fileid_def parent_ok_def is_root_def storage_root_def
          split: if_splits intro: storage_path.expand)
  next
    case (Some r)
    have "x = Some (fr_id r)"
      using assms(3) Some \<open>storage_parent p = Some q\<close> by (simp add: resolve_parent_fileid_def)
    moreover have "r \<in> set (fd_rows S)" "fr_storage r = k" "fpath r = q"
      using Some row_at_iff [OF assms(1,2)] by auto
    moreover from this have "(fr_id r, k, as_str q) \<in> row_key ` set (fd_rows S)"
      by (auto simp: row_key_def image_iff)
    ultimately show ?thesis using \<open>storage_parent p = Some q\<close> by (auto simp: parent_ok_def)
  qed
qed

lemma rows_ok_insert:
  assumes "rows_ok E n rows" "path_ok (fpath r)" "fr_hash r = path_hash E (fpath r)" "fr_id r = n"
    "fr_name r = storage_basename (fpath r)"
    "parent_ok (row_key ` set rows) (fr_storage r) (fpath r) (fr_parent r)"
    "\<forall>q \<in> set rows. fr_storage q = fr_storage r \<longrightarrow> fpath q \<noteq> fpath r"
  shows "rows_ok E (n + 1) (rows @ [r])"
proof -
  have ids: "distinct (map fr_id (rows @ [r]))"
    using rows_okD(1,2) [OF assms(1)] assms(4) by fastforce
  have par: "parent_ok (row_key ` set (rows @ [r])) (fr_storage q) (fpath q) (fr_parent q)" if "q \<in> set (rows @ [r])" for q
  proof -
    have "parent_ok (row_key ` set rows) (fr_storage q) (fpath q) (fr_parent q)"
      using that assms(6) rows_okD(5) [OF assms(1)] by auto
    then show ?thesis by (rule parent_ok_mono) auto
  qed
  have "fr_id q < n + 1 \<and> path_ok (fpath q) \<and> fr_hash q = path_hash E (fpath q) \<and> fr_name q = storage_basename (fpath q)"
    if "q \<in> set (rows @ [r])" for q
    using that assms(2-5) rows_okD(2-4,6) [OF assms(1), of q] by auto
  moreover have "fr_id q = fr_id q'" if "q \<in> set (rows @ [r])" "q' \<in> set (rows @ [r])"
    "fr_storage q = fr_storage q'" "fr_path q = fr_path q'" for q q'
    using that assms(7) path_unique [OF assms(1), of q q'] by auto
  ultimately show ?thesis using ids par unfolding rows_ok_def by blast
qed

lemma rows_ok_map:
  assumes "rows_ok E n rows"
    and "\<And>r. r \<in> set rows \<Longrightarrow> row_key (f r) = row_key r \<and> fr_hash (f r) = fr_hash r \<and> fr_name (f r) = fr_name r"
    and "\<And>r. r \<in> set rows \<Longrightarrow> parent_ok (row_key ` set rows) (fr_storage r) (fpath r) (fr_parent (f r))"
  shows "rows_ok E n (map f rows)"
proof -
  have key: "fr_id (f r) = fr_id r" "fr_storage (f r) = fr_storage r" "fr_path (f r) = fr_path r" "fr_hash (f r) = fr_hash r"
    "fr_name (f r) = fr_name r" if "r \<in> set rows" for r
    using assms(2) [OF that] by (auto simp: row_key_def)
  have ids: "map fr_id (map f rows) = map fr_id rows" using key(1) by simp
  have keys: "row_key ` set (map f rows) = row_key ` set rows"
    using assms(2) by (simp add: image_image cong: image_cong_simp)
  have "fr_id r < n \<and> path_ok (fpath r) \<and> fr_hash r = path_hash E (fpath r) \<and> fr_name r = storage_basename (fpath r) \<and>
      parent_ok (row_key ` set rows) (fr_storage r) (fpath r) (fr_parent r)" if r: "r \<in> set (map f rows)" for r
  proof -
    obtain q where q: "q \<in> set rows" "r = f q" using r by auto
    then show ?thesis using key [OF q(1)] rows_okD(2-4,6) [OF assms(1) q(1)] assms(3) [OF q(1)] by simp
  qed
  moreover have "fr_id r = fr_id r'" if r: "r \<in> set (map f rows)" "r' \<in> set (map f rows)"
    "fr_storage r = fr_storage r'" "fr_path r = fr_path r'" for r r'
  proof -
    obtain q q' where q: "q \<in> set rows" "r = f q" "q' \<in> set rows" "r' = f q'" using r(1,2) by auto
    then show ?thesis using r(3,4) path_unique [OF assms(1) q(1,3)] key(2,3) [OF q(1)] key(2,3) [OF q(3)] by auto
  qed
  ultimately show ?thesis using rows_okD(1) [OF assms(1)] unfolding rows_ok_def ids keys by blast
qed

lemma upsert_leaf_ok:
  assumes "hash_ok E" "rows_ok E (fd_next S) (fd_rows S)" "path_ok p"
    and "parent_ok (row_key ` set (fd_rows S)) k p (lf_parent x)"
    and "upsert_leaf E k p x S = (old, S')"
  shows "rows_ok E (fd_next S') (fd_rows S')"
proof (cases "row_at E k p (fd_rows S)")
  case None
  then have S': "S' = insert_row E k p x S" using assms(5) by (simp add: upsert_leaf_def)
  show ?thesis
    unfolding S' insert_row_def fc_db.simps fc_db.select_convs fc_db.update_convs
    using None assms row_at_None [OF assms(1,2)]
    by (auto intro!: rows_ok_insert)
next
  case (Some r)
  then have r: "r \<in> set (fd_rows S)" "fr_storage r = k" "fpath r = p"
    using row_at_iff [OF assms(1,2)] by auto
  have eq: "q = r" if "q \<in> set (fd_rows S)" "fr_id q = fr_id r" for q
    using id_unique [OF rows_okD(1) [OF assms(2)] that(1) r(1) that(2)] .
  have S': "fd_rows S' = map (\<lambda>q. if fr_id q = fr_id r then set_leaf p x q else q) (fd_rows S)"
    "fd_next S' = fd_next S"
    using assms(5) Some by (auto simp: upsert_leaf_def update_row_def sql_update_def)
  show ?thesis
    unfolding S'
  proof (rule rows_ok_map [OF assms(2)])
    fix q assume q: "q \<in> set (fd_rows S)"
    show "row_key (if fr_id q = fr_id r then set_leaf p x q else q) = row_key q \<and>
       fr_hash (if fr_id q = fr_id r then set_leaf p x q else q) = fr_hash q \<and>
       fr_name (if fr_id q = fr_id r then set_leaf p x q else q) = fr_name q"
      using eq [OF q] rows_okD(6) [OF assms(2) r(1)] r(3) by (auto simp: row_key_def set_leaf_def)
    show "parent_ok (row_key ` set (fd_rows S)) (fr_storage q) (fpath q)
       (fr_parent (if fr_id q = fr_id r then set_leaf p x q else q))"
      using eq [OF q] rows_okD(5) [OF assms(2) q] r assms(4) by (auto simp: set_leaf_def)
  qed
qed

section \<open>Deleting\<close>

lemma cascade_subset: "set ids \<subseteq> set (cascade_ids n ids rows)"
  by (induction n ids rows rule: cascade_ids.induct) (auto simp: Let_def)

lemma cascade_reached:
  "i \<in> set (cascade_ids n ids rows) \<Longrightarrow> i \<in> set ids \<or>
     (\<exists>r \<in> set rows. fr_id r = i \<and> (\<exists>j \<in> set (cascade_ids n ids rows). fr_parent r = Some j))"
proof (induction n ids rows rule: cascade_ids.induct)
  case (1 ids rows)
  then show ?case by simp
next
  case (2 n ids rows)
  let ?more = "map fr_id (filter (\<lambda>r. fr_parent r \<in> Some ` set ids \<and> fr_id r \<notin> set ids) rows)"
  show ?case
  proof (cases "?more = []")
    case True
    then show ?thesis using 2(2) by (simp add: Let_def)
  next
    case False
    then have eq: "cascade_ids (Suc n) ids rows = cascade_ids n (ids @ ?more) rows"
      by (simp add: Let_def)
    have "i \<in> set (ids @ ?more) \<or>
       (\<exists>r \<in> set rows. fr_id r = i \<and> (\<exists>j \<in> set (cascade_ids n (ids @ ?more) rows). fr_parent r = Some j))"
      using 2(1) [OF refl False] 2(2) unfolding eq by blast
    moreover have "set ids \<subseteq> set (cascade_ids n (ids @ ?more) rows)"
      using cascade_subset [of "ids @ ?more" n rows] by auto
    ultimately show ?thesis unfolding eq by auto
  qed
qed

lemma cascade_closed:
  assumes "length (filter (\<lambda>r. fr_id r \<notin> set ids) rows) \<le> n" "r \<in> set rows"
    "fr_parent r = Some j" "j \<in> set (cascade_ids n ids rows)"
  shows "fr_id r \<in> set (cascade_ids n ids rows)"
  using assms
proof (induction n ids rows rule: cascade_ids.induct)
  case (1 ids rows)
  then show ?case by (auto simp: filter_empty_conv)
next
  case (2 n ids rows)
  let ?more = "map fr_id (filter (\<lambda>r. fr_parent r \<in> Some ` set ids \<and> fr_id r \<notin> set ids) rows)"
  show ?case
  proof (cases "?more = []")
    case True
    then have "cascade_ids (Suc n) ids rows = ids" by (simp add: Let_def)
    moreover have "\<not> (fr_parent r \<in> Some ` set ids \<and> fr_id r \<notin> set ids)"
      using True 2(3) by (simp add: filter_empty_conv)
    ultimately show ?thesis using 2(4,5) by auto
  next
    case False
    then have eq: "cascade_ids (Suc n) ids rows = cascade_ids n (ids @ ?more) rows"
      by (simp add: Let_def)
    obtain x where x: "x \<in> set rows" "fr_id x \<notin> set ids" "fr_id x \<in> set ?more"
      using False by (auto simp: filter_empty_conv)
    have "filter (\<lambda>r. fr_id r \<notin> set (ids @ ?more)) rows =
        filter (\<lambda>r. fr_id r \<notin> set (ids @ ?more)) (filter (\<lambda>r. fr_id r \<notin> set ids) rows)"
      by (simp add: conj_commute)
    also have "length \<dots> < length (filter (\<lambda>r. fr_id r \<notin> set ids) rows)"
      using x by (intro length_filter_less [of x]) auto
    finally have "length (filter (\<lambda>r. fr_id r \<notin> set (ids @ ?more)) rows) \<le> n" using 2(2) by simp
    then show ?thesis using 2(1) [OF refl False] 2(3-5) unfolding eq by blast
  qed
qed

lemma delete_cascade_closed:
  assumes "r \<in> set (delete_cascade i rows)" "fr_parent r = Some j" "q \<in> set rows" "fr_id q = j"
  shows "q \<in> set (delete_cascade i rows)"
  using assms cascade_closed [of "[i]" rows "length rows" r j]
  by (auto simp: delete_cascade_def)

lemma rows_ok_delete:
  assumes "rows_ok E n rows"
  shows "rows_ok E n (delete_cascade i rows)"
proof -
  let ?rows = "delete_cascade i rows"
  have sub: "set ?rows \<subseteq> set rows" by (auto simp: delete_cascade_def)
  have "distinct (map fr_id ?rows)"
    using rows_okD(1) [OF assms] by (simp add: delete_cascade_def distinct_map_filter)
  moreover have "parent_ok (row_key ` set ?rows) (fr_storage r) (fpath r) (fr_parent r)" if r: "r \<in> set ?rows" for r
  proof (cases "fr_parent r")
    case None
    then show ?thesis using rows_okD(5) [OF assms, of r] r sub by (auto simp: parent_ok_def)
  next
    case (Some j)
    then obtain p where p: "(j, fr_storage r, as_str p) \<in> row_key ` set rows" "storage_parent (fpath r) = Some p"
      using rows_okD(5) [OF assms, of r] r sub by (auto simp: parent_ok_def)
    then obtain q where q: "q \<in> set rows" "row_key q = (j, fr_storage r, as_str p)" by auto
    then have "q \<in> set ?rows" using delete_cascade_closed [OF r Some q(1)] by (simp add: row_key_def)
    then show ?thesis using Some p(2) q(2) by (force simp: parent_ok_def)
  qed
  moreover have "fr_id r = fr_id r'" if "r \<in> set ?rows" "r' \<in> set ?rows" "fr_storage r = fr_storage r'" "fr_path r = fr_path r'" for r r'
    using path_unique [OF assms, of r r'] that sub by auto
  moreover have "fr_id r < n \<and> path_ok (fpath r) \<and> fr_hash r = path_hash E (fpath r) \<and> fr_name r = storage_basename (fpath r)"
    if "r \<in> set ?rows" for r
    using rows_okD(2-4,6) [OF assms, of r] that sub by auto
  ultimately show ?thesis unfolding rows_ok_def by blast
qed

section \<open>Moving\<close>

text \<open>The segments of a path after a move.\<close>

definition relocate :: "storage_path \<Rightarrow> storage_path \<Rightarrow> storage_path \<Rightarrow> storage_path" where
  "relocate from to p =
     (if prefix (segs from) (segs p) then path_of (segs to @ drop (length (segs from)) (segs p)) else p)"

lemma below_iff:
  assumes "path_ok from" "\<not> is_root from" "path_ok p"
  shows "starts_with (as_str p) (from_prefix from) \<longleftrightarrow> strict_prefix (segs from) (segs p)"
proof
  assume "starts_with (as_str p) (from_prefix from)"
  then obtain t where t: "as_str p = as_str from @ CHR ''/'' # t"
    using assms(2) by (auto simp: from_prefix_def prefix_def)
  then have "segs p = segs from @ split_on (CHR ''/'') t"
    using assms(2) by (simp add: segs_def is_root_def split_on_append)
  then show "strict_prefix (segs from) (segs p)" by (simp add: strict_prefix_def)
next
  assume "strict_prefix (segs from) (segs p)"
  then obtain ts where ts: "segs p = segs from @ ts" "ts \<noteq> []" by (auto simp: strict_prefix_def prefix_def)
  have "segs from \<noteq> []" using assms(2) by (simp add: segs_Nil_iff is_root_def)
  moreover have "as_str p = join_with (CHR ''/'') (segs from @ ts)" using ts(1) by (metis as_str_path_of path_of_segs)
  moreover have "as_str from = join_with (CHR ''/'') (segs from)" by (metis as_str_path_of path_of_segs)
  ultimately show "starts_with (as_str p) (from_prefix from)"
    using assms(2) ts(2) by (simp add: from_prefix_def join_with_append)
qed

lemma rewritten_path_eq:
  assumes "path_ok from" "\<not> is_root from" "path_ok to" "\<not> is_root to" "path_ok p" "strict_prefix (segs from) (segs p)"
  shows "rewritten_path from to (as_str p) = as_str (relocate from to p)"
proof -
  obtain ts where ts: "segs p = segs from @ ts" "ts \<noteq> []"
    using assms(6) by (auto simp: strict_prefix_def prefix_def)
  have ne: "segs from \<noteq> []" "segs to \<noteq> []" using assms(2,4) by (simp_all add: segs_Nil_iff is_root_def)
  have str: "as_str q = join_with (CHR ''/'') (segs q)" for q by (metis as_str_path_of path_of_segs)
  have "as_str p = as_str from @ CHR ''/'' # join_with (CHR ''/'') ts"
    using ts ne by (simp add: str [of p] str [of "from"] join_with_append)
  then show ?thesis
    using ts ne assms(2,4) by (simp add: rewritten_path_def from_prefix_def relocate_def str [of to] join_with_append)
qed

lemma storage_path_new_relocate:
  assumes "path_ok to" "path_ok p" "strict_prefix (segs from) (segs p)"
    "storage_path_new (as_str (relocate from to p)) = Inr q"
  shows "q = relocate from to p \<and> path_ok q"
proof -
  obtain ts where ts: "segs p = segs from @ ts" "ts \<noteq> []"
    using assms(3) by (auto simp: strict_prefix_def prefix_def)
  have good: "\<forall>s \<in> set (segs to @ ts). good_segment s"
    using assms(1,2) ts(1) by (auto simp: path_ok_def)
  have eq: "as_str (relocate from to p) = join_with (CHR ''/'') (segs to @ ts)"
    using ts(1) by (simp add: relocate_def)
  have "last (as_str (relocate from to p)) \<noteq> CHR ''/''"
    unfolding eq using good_segments_ends(2) [OF good] ts(2) by simp
  then show ?thesis
    using storage_path_new_InrD [OF assms(4)] by (simp add: pop_while_last_id storage_path.expand)
qed

text \<open>What the rewriting loop does to the rows, when it succeeds.\<close>

lemma rewrite_rows_map:
  assumes "rewrite_rows E k from to snap S = (Inr (), S')" "distinct (map fst snap)"
    "\<forall>x \<in> set snap. length (from_prefix from) \<le> length (snd x)"
  shows "fd_rows S' = map (\<lambda>r. case map_of snap (fr_id r) of None \<Rightarrow> r
      | Some old \<Rightarrow> r\<lparr>fr_path := rewritten_path from to old,
                     fr_hash := path_hash E (projr (storage_path_new (rewritten_path from to old)))\<rparr>) (fd_rows S) \<and>
    (\<forall>i old. (i, old) \<in> set snap \<longrightarrow> \<not> isl (storage_path_new (rewritten_path from to old))) \<and>
    S' = S\<lparr>fd_rows := fd_rows S'\<rparr>"
  using assms
proof (induction E k "from" to snap S rule: rewrite_rows.induct)
  case (1 E k "from" to S)
  then show ?case by simp
next
  case (2 E k "from" to i old rest S)
  let ?new = "rewritten_path from to old"
  have len: "\<not> length old < length (from_prefix from)" using 2(5) by simp
  then obtain q where q: "storage_path_new ?new = Inr q"
    using 2(3) by (auto simp: Let_def split: sum.splits)
  let ?S = "update_row i (\<lambda>r. r\<lparr>fr_path := ?new, fr_hash := path_hash E q\<rparr>) S"
  have fresh: "\<not> hash_taken k (path_hash E q) i (fd_rows S)"
    and run: "rewrite_rows E k from to rest ?S = (Inr (), S')"
    using 2(3) len q by (auto simp: Let_def split: if_splits)
  have IH: "fd_rows S' = map (\<lambda>r. case map_of rest (fr_id r) of None \<Rightarrow> r
      | Some old \<Rightarrow> r\<lparr>fr_path := rewritten_path from to old,
                     fr_hash := path_hash E (projr (storage_path_new (rewritten_path from to old)))\<rparr>) (fd_rows ?S) \<and>
    (\<forall>i old. (i, old) \<in> set rest \<longrightarrow> \<not> isl (storage_path_new (rewritten_path from to old))) \<and>
    S' = ?S\<lparr>fd_rows := fd_rows S'\<rparr>"
    using 2(2) [OF len refl q fresh run] 2(4,5) by auto
  have "i \<notin> fst ` set rest" using 2(4) by simp
  then have i: "map_of rest i = None" by (simp add: map_of_eq_None_iff)
  have "fd_rows S' = map (\<lambda>r. case map_of ((i, old) # rest) (fr_id r) of None \<Rightarrow> r
      | Some old \<Rightarrow> r\<lparr>fr_path := rewritten_path from to old,
                     fr_hash := path_hash E (projr (storage_path_new (rewritten_path from to old)))\<rparr>) (fd_rows S)"
    using IH i q by (auto simp: update_row_def sql_update_def)
  moreover have "S' = S\<lparr>fd_rows := fd_rows S'\<rparr>"
    using IH by (metis (no_types, lifting) fc_db.surjective fc_db.update_convs(1) update_row_def)
  ultimately show ?case using IH q by auto
qed

text \<open>The pattern of the move matches what is below the source and nothing else.\<close>

definition clean_move :: "fc_env \<Rightarrow> int \<Rightarrow> storage_path \<Rightarrow> storage_path \<Rightarrow> fc_row list \<Rightarrow> bool" where
  "clean_move E k from to rows \<longleftrightarrow>
     \<not> like_on (fe_dialect E) (from_prefix from @ ''%'') (as_str to) \<and>
     (\<forall>r \<in> set rows. fr_storage r = k \<and> like_on (fe_dialect E) (from_prefix from @ ''%'') (fr_path r) \<longrightarrow>
        starts_with (fr_path r) (from_prefix from))"

lemma clean_move_plain:
  assumes "fe_dialect E \<noteq> Sqlite" "CHR ''%'' \<notin> set (as_str from)" "CHR ''_'' \<notin> set (as_str from)"
    "\<not> starts_with (as_str to) (from_prefix from)"
  shows "clean_move E k from to rows"
proof -
  have "CHR ''%'' \<notin> set (from_prefix from)" "CHR ''_'' \<notin> set (from_prefix from)"
    using assms(2,3) by (auto simp: from_prefix_def)
  then show ?thesis
    using assms(1,4) by (simp add: clean_move_def like_on_def like_prefix_pattern)
qed

definition move_row :: "fc_env \<Rightarrow> int \<Rightarrow> storage_path \<Rightarrow> storage_path \<Rightarrow> int option \<Rightarrow> fc_row \<Rightarrow> fc_row" where
  "move_row E k from to par r =
     (if fr_storage r \<noteq> k then r
      else if fpath r = from
      then r\<lparr>fr_path := as_str to, fr_hash := path_hash E to, fr_parent := par, fr_name := storage_basename to\<rparr>
      else if strict_prefix (segs from) (segs (fpath r))
      then r\<lparr>fr_path := as_str (relocate from to (fpath r)), fr_hash := path_hash E (relocate from to (fpath r))\<rparr>
      else r)"

lemma map_of_snapshot:
  assumes "distinct (map fr_id rows)" "r \<in> set rows"
  shows "map_of (map (\<lambda>r. (fr_id r, fr_path r)) (filter P rows)) (fr_id r) = (if P r then Some (fr_path r) else None)"
proof -
  let ?snap = "map (\<lambda>r. (fr_id r, fr_path r)) (filter P rows)"
  have "distinct (map fst ?snap)" using assms(1) by (simp add: comp_def distinct_map_filter)
  show ?thesis
  proof (cases "P r")
    case True
    then have "(fr_id r, fr_path r) \<in> set ?snap" using assms(2) by auto
    then show ?thesis using True map_of_is_SomeI [OF \<open>distinct (map fst ?snap)\<close>] by simp
  next
    case False
    have "fr_id r \<notin> fst ` set ?snap"
    proof
      assume "fr_id r \<in> fst ` set ?snap"
      then obtain q where "q \<in> set rows" "P q" "fr_id q = fr_id r" by auto
      then show False using id_unique [OF assms(1) _ assms(2)] False by blast
    qed
    then show ?thesis using False by (simp add: map_of_eq_None_iff)
  qed
qed

lemma moved_rows:
  assumes "hash_ok E" "rows_ok E n (fd_rows S)" "path_ok from" "path_ok to" "\<not> is_root from" "\<not> is_root to"
    and "row_at E k from (fd_rows S) = Some r" "clean_move E k from to (fd_rows S)"
    and "rewrite_descendant_paths E k from to (update_row (fr_id r) (\<lambda>r. r\<lparr>fr_path := as_str to,
           fr_hash := path_hash E to, fr_parent := par, fr_name := storage_basename to\<rparr>) S) = (Inr (), S')"
  shows "fd_rows S' = map (move_row E k from to par) (fd_rows S) \<and> S' = S\<lparr>fd_rows := fd_rows S'\<rparr> \<and>
    (\<forall>q \<in> set (fd_rows S). fr_storage q = k \<longrightarrow> strict_prefix (segs from) (segs (fpath q)) \<longrightarrow>
       path_ok (relocate from to (fpath q)))"
proof -
  let ?leaf = "\<lambda>r. r\<lparr>fr_path := as_str to, fr_hash := path_hash E to, fr_parent := par, fr_name := storage_basename to\<rparr>"
  let ?S1 = "update_row (fr_id r) ?leaf S"
  let ?P = "\<lambda>r. fr_storage r = k \<and> like_on (fe_dialect E) (from_prefix from @ ''%'') (fr_path r)"
  let ?snap = "map (\<lambda>r. (fr_id r, fr_path r)) (filter ?P (fd_rows ?S1))"
  let ?below = "\<lambda>q. fr_storage q = k \<and> strict_prefix (segs from) (segs (fpath q))"
  have r: "r \<in> set (fd_rows S)" "fr_storage r = k" "fpath r = from" using row_at_iff [OF assms(1,2)] assms(7) by auto
  have rows1: "fd_rows ?S1 = map (\<lambda>q. if fr_id q = fr_id r then ?leaf q else q) (fd_rows S)"
    by (simp add: update_row_def sql_update_def)
  have is_r: "q = r" if "q \<in> set (fd_rows S)" "fr_id q = fr_id r" for q
    using id_unique [OF rows_okD(1) [OF assms(2)] that(1) r(1) that(2)] .
  have dist1: "distinct (map fr_id (fd_rows ?S1))"
    using rows_okD(1) [OF assms(2)] unfolding rows1 by (simp add: comp_def if_distrib cong: if_cong)
  have P_old: "?P q \<longleftrightarrow> ?below q" if "q \<in> set (fd_rows S)" for q
  proof -
    have "starts_with (fr_path q) (from_prefix from) \<longleftrightarrow> strict_prefix (segs from) (segs (fpath q))"
      using below_iff [OF assms(3,5) rows_okD(3) [OF assms(2) that]] by simp
    then show ?thesis using assms(8) that like_on_prefix [of "from_prefix from" "fr_path q"] by (auto simp: clean_move_def)
  qed
  have snapD: "\<exists>q \<in> set (fd_rows S). fr_id q = i \<and> fr_path q = old \<and> ?below q \<and> fr_id q \<noteq> fr_id r"
    if snap: "(i, old) \<in> set ?snap" for i old
  proof -
    obtain q where q: "q \<in> set (fd_rows S)" "?P (if fr_id q = fr_id r then ?leaf q else q)"
      "(i, old) = (fr_id q, fr_path (if fr_id q = fr_id r then ?leaf q else q))"
      using snap unfolding rows1 by auto
    then have "fr_id q \<noteq> fr_id r" using assms(8) by (auto simp: clean_move_def)
    then show ?thesis using q P_old [OF q(1)] by auto
  qed
  have len: "length (from_prefix from) \<le> length old" if in_snap: "(i, old) \<in> set ?snap" for i old
  proof -
    obtain q where q: "q \<in> set (fd_rows S)" "fr_path q = old" "?below q" using snapD [OF in_snap] by blast
    then have "starts_with old (from_prefix from)"
      using below_iff [OF assms(3,5) rows_okD(3) [OF assms(2) q(1)]] by auto
    then show ?thesis by (rule prefix_length_le)
  qed
  have dsnap: "distinct (map fst ?snap)" using dist1 by (simp add: comp_def distinct_map_filter)
  have "\<forall>x \<in> set ?snap. length (from_prefix from) \<le> length (snd x)"
  proof
    fix x assume "x \<in> set ?snap"
    then have "(fst x, snd x) \<in> set ?snap" by (simp only: prod.collapse)
    then show "length (from_prefix from) \<le> length (snd x)" by (rule len)
  qed
  note rr = rewrite_rows_map [OF assms(9) [unfolded rewrite_descendant_paths_def] dsnap this]
  note run = rr [THEN conjunct1] rr [THEN conjunct2, THEN conjunct1, rule_format] rr [THEN conjunct2, THEN conjunct2]
  have reloc: "storage_path_new (rewritten_path from to (fr_path q)) = Inr (relocate from to (fpath q)) \<and>
      rewritten_path from to (fr_path q) = as_str (relocate from to (fpath q)) \<and>
      path_ok (relocate from to (fpath q))"
    if q: "q \<in> set (fd_rows S)" "?below q" for q
  proof -
    have ne: "fr_id q \<noteq> fr_id r" using is_r [OF q(1)] q(2) r(3) by auto
    then have "(fr_id q, fr_path q) \<in> set ?snap" using q P_old [OF q(1)] unfolding rows1 by force
    then have "\<not> isl (storage_path_new (rewritten_path from to (fr_path q)))" by (rule run(2))
    then obtain p where p: "storage_path_new (rewritten_path from to (fr_path q)) = Inr p"
      by (auto simp: isl_def split: sum.splits) (metis sum.exhaust)
    have eq: "rewritten_path from to (fr_path q) = as_str (relocate from to (fpath q))"
      using rewritten_path_eq [OF assms(3,5,4,6) rows_okD(3) [OF assms(2) q(1)]] q(2) by simp
    have "p = relocate from to (fpath q)" "path_ok p"
      using storage_path_new_relocate [OF assms(4) rows_okD(3) [OF assms(2) q(1)] _ p [unfolded eq]] q(2) by auto
    then show ?thesis using p eq by simp
  qed
  let ?g = "\<lambda>r. case map_of ?snap (fr_id r) of None \<Rightarrow> r
      | Some old \<Rightarrow> r\<lparr>fr_path := rewritten_path from to old,
                     fr_hash := path_hash E (projr (storage_path_new (rewritten_path from to old)))\<rparr>"
  let ?u = "\<lambda>q. if fr_id q = fr_id r then ?leaf q else q"
  have step: "?g (?u q) = move_row E k from to par q" if q: "q \<in> set (fd_rows S)" for q
  proof -
    have "?u q \<in> set (fd_rows ?S1)" using q unfolding rows1 set_map by (rule imageI)
    then have snap: "map_of ?snap (fr_id (?u q)) = (if ?P (?u q) then Some (fr_path (?u q)) else None)"
      by (rule map_of_snapshot [OF dist1])
    show ?thesis
    proof (cases "fr_id q = fr_id r")
      case True
      then have "\<not> ?P (?u q)" using assms(8) by (simp add: clean_move_def)
      then show ?thesis unfolding snap using True is_r [OF q] r by (simp add: move_row_def)
    next
      case False
      then have "fr_storage q = k \<Longrightarrow> fpath q \<noteq> from" using path_unique [OF assms(2) q r(1)] r by auto
      then show ?thesis unfolding snap using False P_old [OF q] reloc [OF q] by (auto simp: move_row_def)
    qed
  qed
  have "fd_rows S' = map ?g (map ?u (fd_rows S))" using run(1) arg_cong [OF rows1] by (rule trans)
  also have "\<dots> = map (\<lambda>q. ?g (?u q)) (fd_rows S)" by (simp only: map_map comp_def)
  also have "\<dots> = map (move_row E k from to par) (fd_rows S)" by (rule map_cong [OF refl]) (rule step)
  finally have "fd_rows S' = map (move_row E k from to par) (fd_rows S)" .
  then show ?thesis using run(3) reloc by (auto simp: update_row_def)
qed

lemma parent_of_root_child:
  assumes "path_ok p" "storage_parent p = Some q" "length (segs p) \<noteq> 1"
  shows "q \<noteq> storage_root"
proof -
  have "segs p \<noteq> []" "q = path_of (butlast (segs p))" using assms(1,2) storage_parent_segs [OF assms(1)] by (auto split: if_splits)
  then have "segs q = butlast (segs p)" using segs_butlast_path [OF assms(1)] by simp
  moreover have "butlast (segs p) \<noteq> []"
    using \<open>segs p \<noteq> []\<close> assms(3) by (metis length_Suc_conv_rev One_nat_def append_butlast_last_id append_Nil length_Cons list.size(3))
  ultimately show ?thesis by (auto simp: storage_root_def)
qed

text \<open>The parent row of a row below the top level.\<close>

lemma parent_row:
  assumes "rows_ok E n rows" "r \<in> set rows" "2 \<le> length (segs (fpath r))"
  shows "\<exists>q \<in> set rows. fr_parent r = Some (fr_id q) \<and> fr_storage q = fr_storage r \<and>
     segs (fpath q) = butlast (segs (fpath r))"
proof -
  have ok: "path_ok (fpath r)" using rows_okD(3) [OF assms(1,2)] .
  have sp: "storage_parent (fpath r) = Some (path_of (butlast (segs (fpath r))))"
    using assms(3) storage_parent_segs [OF ok] by auto
  have "path_of (butlast (segs (fpath r))) \<noteq> storage_root"
    using parent_of_root_child [OF ok sp] assms(3) by simp
  then obtain i q where q: "fr_parent r = Some i" "(i, fr_storage r, as_str q) \<in> row_key ` set rows"
    "q = path_of (butlast (segs (fpath r)))"
    using rows_okD(5) [OF assms(1,2)] sp by (auto simp: parent_ok_def split: option.splits)
  then obtain p where "p \<in> set rows" "row_key p = (i, fr_storage r, as_str q)" by auto
  moreover from this have "fpath p = q" by (cases q) (simp add: row_key_def)
  ultimately show ?thesis using q segs_butlast_path [OF ok] by (auto simp: row_key_def)
qed

text \<open>Every proper ancestor except the root has a row.\<close>

lemma ancestor_row:
  assumes "rows_ok E n rows" "r \<in> set rows" "prefix ss (segs (fpath r))" "ss \<noteq> []"
  shows "\<exists>q \<in> set rows. fr_storage q = fr_storage r \<and> segs (fpath q) = ss"
  using assms(2,3)
proof (induction "length (segs (fpath r))" arbitrary: r)
  case 0
  then show ?case using assms(4) by auto
next
  case (Suc m)
  show ?case
  proof (cases "ss = segs (fpath r)")
    case True
    then show ?thesis using Suc.prems(1) by blast
  next
    case False
    then have sp: "strict_prefix ss (segs (fpath r))" using Suc.prems(2) by (simp add: strict_prefix_def)
    then have "length ss < length (segs (fpath r))" by (rule prefix_length_less)
    then have "2 \<le> length (segs (fpath r))" using assms(4) by (cases ss) auto
    from parent_row [OF assms(1) Suc.prems(1) this] obtain q where
      q: "q \<in> set rows" "fr_storage q = fr_storage r" "segs (fpath q) = butlast (segs (fpath r))" by blast
    have "prefix ss (segs (fpath q))" using sp q(3) by (metis strict_prefix_def prefix_snoc append_butlast_last_id prefix_bot.extremum_strict)
    then show ?thesis using Suc.hyps(1) [of q] Suc.hyps(2) q by auto
  qed
qed

text \<open>Where the rows end up.\<close>

lemma segs_relocate:
  assumes "path_ok to" "path_ok p" "prefix (segs from) (segs p)"
  shows "segs (relocate from to p) = segs to @ drop (length (segs from)) (segs p)"
proof -
  have "good_segment s" if "s \<in> set (drop (length (segs from)) (segs p))" for s
    using in_set_dropD [OF that] assms(2) by (simp add: path_ok_def)
  then have "\<forall>s \<in> set (segs to @ drop (length (segs from)) (segs p)). good_segment s"
    using assms(1) by (auto simp: path_ok_def)
  then show ?thesis using assms(3) by (simp add: relocate_def segs_path_of)
qed

lemma move_row_path:
  "fpath (move_row E k from to par r) = (if fr_storage r = k then relocate from to (fpath r) else fpath r)"
  using segs_inj [of "from" "fpath r"]
  by (cases to) (auto simp: move_row_def relocate_def strict_prefix_def path_of_segs simp flip: path_of_def
      intro: storage_path.expand)

lemma move_row_fields [simp]:
  "fr_id (move_row E k from to par r) = fr_id r" "fr_storage (move_row E k from to par r) = fr_storage r"
  "fr_size (move_row E k from to par r) = fr_size r" "fr_mime (move_row E k from to par r) = fr_mime r"
  by (simp_all add: move_row_def)

lemma relocate_outside: "\<not> prefix (segs from) (segs p) \<Longrightarrow> relocate from to p = p"
  by (simp add: relocate_def)

lemma no_row_below_new:
  assumes "rows_ok E n rows" "\<not> is_root to" "from \<noteq> to"
    "\<And>q. q \<in> set rows \<Longrightarrow> fr_storage q = k \<Longrightarrow> fpath q = to \<Longrightarrow> fpath q = from"
    "q \<in> set rows" "fr_storage q = k"
  shows "\<not> prefix (segs to) (segs (fpath q))"
proof
  assume "prefix (segs to) (segs (fpath q))"
  moreover have "segs to \<noteq> []" using assms(2) by (simp add: segs_Nil_iff is_root_def)
  ultimately obtain p where "p \<in> set rows" "fr_storage p = k" "segs (fpath p) = segs to"
    using ancestor_row [OF assms(1,5)] assms(6) by blast
  moreover from this have "fpath p = to" using segs_inj by blast
  ultimately show False using assms(3,4) by metis
qed

lemma relocate_inj:
  assumes "rows_ok E n rows" "path_ok to" "\<not> is_root to"
    "\<And>q. q \<in> set rows \<Longrightarrow> fr_storage q = k \<Longrightarrow> fpath q = to \<Longrightarrow> fpath q = from"
    "q \<in> set rows" "fr_storage q = k" "q' \<in> set rows" "fr_storage q' = k"
    "relocate from to (fpath q) = relocate from to (fpath q')"
  shows "fpath q = fpath q'"
proof -
  let ?in = "\<lambda>p. prefix (segs from) (segs p)"
  have ok: "path_ok (fpath q)" "path_ok (fpath q')" using rows_okD(3) [OF assms(1)] assms(5,7) by auto
  have sep: "\<not> prefix (segs to) (segs (fpath x))" if "x \<in> set rows" "fr_storage x = k" "\<not> ?in (fpath x)" for x
  proof (cases "from = to")
    case True
    then show ?thesis using that(3) by simp
  next
    case False
    show ?thesis by (rule no_row_below_new [OF assms(1,3) False assms(4) that(1,2)])
  qed
  have seg: "segs (relocate from to (fpath x)) = segs to @ drop (length (segs from)) (segs (fpath x))"
    if "x \<in> set rows" "?in (fpath x)" for x
    using segs_relocate [OF assms(2) rows_okD(3) [OF assms(1) that(1)] that(2)] .
  show ?thesis
  proof (cases "?in (fpath q)"; cases "?in (fpath q')")
    assume "?in (fpath q)" "?in (fpath q')"
    moreover from this have "drop (length (segs from)) (segs (fpath q)) = drop (length (segs from)) (segs (fpath q'))"
      using seg [of q] seg [of q'] assms(5,7,9) by simp
    ultimately have "segs (fpath q) = segs (fpath q')" by (auto simp: prefix_def)
    then show ?thesis by (rule segs_inj)
  next
    assume "?in (fpath q)" "\<not> ?in (fpath q')"
    then have "segs (fpath q') = segs to @ drop (length (segs from)) (segs (fpath q))"
      using seg [of q] assms(5,9) by (simp add: relocate_outside)
    then show ?thesis using sep [OF assms(7,8)] \<open>\<not> ?in (fpath q')\<close> by auto
  next
    assume "\<not> ?in (fpath q)" "?in (fpath q')"
    then have "segs (fpath q) = segs to @ drop (length (segs from)) (segs (fpath q'))"
      using seg [of q'] assms(7,9) by (simp add: relocate_outside)
    then show ?thesis using sep [OF assms(5,6)] \<open>\<not> ?in (fpath q)\<close> by auto
  next
    assume "\<not> ?in (fpath q)" "\<not> ?in (fpath q')"
    then show ?thesis using assms(9) by (simp add: relocate_outside)
  qed
qed

lemma moved_parent_ok:
  assumes "rows_ok E n rows" "path_ok from" "path_ok to" "\<not> is_root from"
    "\<not> strict_prefix (segs from) (segs to)" "parent_ok (row_key ` set rows) k to par" "q \<in> set rows"
    "fr_storage q = k \<Longrightarrow> strict_prefix (segs from) (segs (fpath q)) \<Longrightarrow> path_ok (relocate from to (fpath q))"
  shows "parent_ok (row_key ` set (map (move_row E k from to par) rows)) (fr_storage q)
    (fpath (move_row E k from to par q)) (fr_parent (move_row E k from to par q))"
proof -
  let ?m = "move_row E k from to par"
  let ?K = "row_key ` set rows" and ?K' = "row_key ` set (map ?m rows)"
  have keep: "(i, st, as_str p) \<in> ?K'" if old: "(i, st, as_str p) \<in> ?K" "st \<noteq> k \<or> \<not> prefix (segs from) (segs p)" for i st p
  proof -
    obtain x where x: "x \<in> set rows" "row_key x = (i, st, as_str p)" using old(1) by auto
    then have "fpath x = p" by (cases p) (simp add: row_key_def)
    then have "fpath (?m x) = p" using old(2) x by (auto simp: move_row_path relocate_outside row_key_def)
    then have "row_key (?m x) = (i, st, as_str p)" using x by (auto simp: row_key_def)
    then show ?thesis using x(1) by (force simp: image_iff)
  qed
  have bl: "prefix (segs from) (segs p) \<Longrightarrow> strict_prefix (segs from) (segs c)"
    if "path_ok c" "storage_parent c = Some p" for c p
  proof -
    have c: "segs c \<noteq> []" "segs p = butlast (segs c)"
      using that storage_parent_segs [OF that(1)] segs_butlast_path [OF that(1)] by (auto split: if_splits)
    then have "strict_prefix (segs p) (segs c)" by (metis append_butlast_last_id strict_prefix_def prefixI not_Cons_self2 self_append_conv)
    then show "strict_prefix (segs from) (segs c)" if "prefix (segs from) (segs p)"
      using that by (metis prefix_order.le_less_trans)
  qed
  have stays: "parent_ok ?K' st c x"
    if old: "parent_ok ?K st c x" "path_ok c" "st \<noteq> k \<or> \<not> strict_prefix (segs from) (segs c)" for st c x
  proof (cases x)
    case None
    then show ?thesis using old(1) by (simp add: parent_ok_def)
  next
    case (Some i)
    then obtain p where p: "(i, st, as_str p) \<in> ?K" "storage_parent c = Some p"
      using old(1) by (auto simp: parent_ok_def)
    then have "st \<noteq> k \<or> \<not> prefix (segs from) (segs p)" using bl [OF old(2) p(2)] old(3) by auto
    then have "(i, st, as_str p) \<in> ?K'" by (rule keep [OF p(1)])
    then show ?thesis using Some p(2) by (simp add: parent_ok_def)
  qed
  have ok: "path_ok (fpath q)" using rows_okD(3) [OF assms(1,7)] .
  consider (other) "fr_storage q \<noteq> k \<or> \<not> prefix (segs from) (segs (fpath q))"
    | (leaf) "fr_storage q = k" "fpath q = from"
    | (below) "fr_storage q = k" "strict_prefix (segs from) (segs (fpath q))"
    using segs_inj [of "from" "fpath q"] by (auto simp: strict_prefix_def)
  then show ?thesis
  proof cases
    case other
    then have m: "?m q = q" using segs_inj [of "from" "fpath q"] by (auto simp: move_row_def strict_prefix_def)
    show ?thesis
      unfolding m using other by (intro stays [OF rows_okD(5) [OF assms(1,7)] ok]) (auto simp: strict_prefix_def)
  next
    case leaf
    then have "fpath (?m q) = to" "fr_parent (?m q) = par" by (cases to; simp add: move_row_def)+
    then show ?thesis using stays [OF assms(6,3)] leaf(1) assms(5) by simp
  next
    case below
    let ?p = "relocate from to (fpath q)"
    have ne: "segs from \<noteq> []" using assms(4) by (simp add: segs_Nil_iff is_root_def)
    then have "2 \<le> length (segs (fpath q))"
      using prefix_length_less [OF below(2)] by (cases "segs from") auto
    from parent_row [OF assms(1,7) this] obtain x where
      x: "x \<in> set rows" "fr_parent q = Some (fr_id x)" "fr_storage x = k" "segs (fpath x) = butlast (segs (fpath q))"
      using below(1) by auto
    have px: "prefix (segs from) (segs (fpath x))"
      using below(2) x(4) by (metis append_butlast_last_id prefix_bot.extremum_strict prefix_snoc strict_prefix_def)
    have okp: "path_ok ?p" using assms(8) below by blast
    have sp: "segs ?p = segs to @ drop (length (segs from)) (segs (fpath q))"
      using segs_relocate [OF assms(3) ok] below(2) by (simp add: strict_prefix_def)
    have sx: "segs (relocate from to (fpath x)) = segs to @ drop (length (segs from)) (segs (fpath x))"
      using segs_relocate [OF assms(3) rows_okD(3) [OF assms(1) x(1)] px] .
    have "length (segs from) < length (segs (fpath q))" by (rule prefix_length_less [OF below(2)])
    then have "butlast (segs ?p) = segs (relocate from to (fpath x))"
      unfolding sp sx x(4) by (simp add: butlast_append drop_butlast)
    then have "storage_parent ?p = Some (relocate from to (fpath x))"
      using storage_parent_segs [OF okp] sp \<open>length (segs from) < _\<close> by auto
    moreover have "(fr_id x, k, as_str (relocate from to (fpath x))) \<in> ?K'"
    proof -
      have "row_key (?m x) = (fr_id x, k, as_str (relocate from to (fpath x)))"
        using move_row_path [of E k "from" to par x] x(3) by (metis row_key_def move_row_fields(1,2) storage_path.sel)
      then show ?thesis using x(1) by (force simp: image_iff)
    qed
    moreover have "fpath (?m q) = ?p" "fr_parent (?m q) = fr_parent q"
      using below by (auto simp: move_row_path) (auto simp: move_row_def strict_prefix_def)
    ultimately show ?thesis using x(2) below(1) by (auto simp: parent_ok_def)
  qed
qed

lemma rows_ok_move:
  assumes "rows_ok E n rows" "path_ok from" "path_ok to" "\<not> is_root from" "\<not> is_root to"
    "\<not> strict_prefix (segs from) (segs to)" "parent_ok (row_key ` set rows) k to par"
    "\<And>q. q \<in> set rows \<Longrightarrow> fr_storage q = k \<Longrightarrow> strict_prefix (segs from) (segs (fpath q)) \<Longrightarrow>
       path_ok (relocate from to (fpath q))"
    "\<And>q. q \<in> set rows \<Longrightarrow> fr_storage q = k \<Longrightarrow> fpath q = to \<Longrightarrow> fpath q = from"
  shows "rows_ok E n (map (move_row E k from to par) rows)"
proof -
  let ?m = "move_row E k from to par"
  have ids: "map fr_id (map ?m rows) = map fr_id rows" by simp
  have each: "path_ok (fpath (?m q)) \<and> fr_hash (?m q) = path_hash E (fpath (?m q)) \<and>
      fr_name (?m q) = storage_basename (fpath (?m q))" if q: "q \<in> set rows" for q
  proof -
    have ok: "path_ok (fpath q)" "fr_hash q = path_hash E (fpath q)" "fr_name q = storage_basename (fpath q)"
      using rows_okD(3,4,6) [OF assms(1) q] by auto
    consider (leaf) "fr_storage q = k" "fpath q = from"
      | (below) "fr_storage q = k" "fpath q \<noteq> from" "strict_prefix (segs from) (segs (fpath q))"
      | (same) "?m q = q"
      by (cases "fr_storage q = k"; cases "fpath q = from"; cases "strict_prefix (segs from) (segs (fpath q))")
        (simp_all add: move_row_def)
    then show ?thesis
    proof cases
      case leaf
      then show ?thesis using assms(3) by (cases to) (simp add: move_row_def path_hash_def)
    next
      case below
      let ?p = "relocate from to (fpath q)"
      have okp: "path_ok ?p" using assms(8) [OF q] below by blast
      have len: "length (segs from) < length (segs (fpath q))" by (rule prefix_length_less [OF below(3)])
      have "segs ?p = segs to @ drop (length (segs from)) (segs (fpath q))"
        using segs_relocate [OF assms(3) ok(1)] below(3) by (simp add: strict_prefix_def)
      then have "last (segs ?p) = last (segs (fpath q))" "segs ?p \<noteq> []" "segs (fpath q) \<noteq> []"
        using len by (auto simp: last_append last_drop)
      then have "storage_basename ?p = storage_basename (fpath q)"
        using storage_basename_segs [OF okp] storage_basename_segs [OF ok(1)] by simp
      then show ?thesis using below okp ok by (simp add: move_row_def)
    next
      case same
      then show ?thesis using ok by simp
    qed
  qed
  have all: "fr_id q < n \<and> path_ok (fpath q) \<and> fr_hash q = path_hash E (fpath q) \<and> fr_name q = storage_basename (fpath q) \<and>
      parent_ok (row_key ` set (map ?m rows)) (fr_storage q) (fpath q) (fr_parent q)" if q: "q \<in> set (map ?m rows)" for q
  proof -
    obtain x where x: "x \<in> set rows" "q = ?m x" using q by auto
    have "parent_ok (row_key ` set (map ?m rows)) (fr_storage x) (fpath (?m x)) (fr_parent (?m x))"
      by (rule moved_parent_ok [OF assms(1-4,6,7) x(1)]) (rule assms(8) [OF x(1)])
    then show ?thesis using each [OF x(1)] rows_okD(2) [OF assms(1) x(1)] x(2) by simp
  qed
  have unique: "fr_id q = fr_id q'" if q: "q \<in> set (map ?m rows)" "q' \<in> set (map ?m rows)"
    "fr_storage q = fr_storage q'" "fr_path q = fr_path q'" for q q'
  proof -
    obtain x y where xy: "x \<in> set rows" "q = ?m x" "y \<in> set rows" "q' = ?m y" using q(1,2) by auto
    have st: "fr_storage x = fr_storage y" using q(3) xy(2,4) by simp
    have m: "fpath (?m x) = fpath (?m y)" using q(4) xy(2,4) by simp
    have "fpath x = fpath y"
    proof (cases "fr_storage x = k")
      case True
      then have "relocate from to (fpath x) = relocate from to (fpath y)"
        using m st unfolding move_row_path by simp
      then show ?thesis
        by (intro relocate_inj [OF assms(1,3,5) _ xy(1) True xy(3)]) (rule assms(9), use st True in simp_all)
    next
      case False
      then show ?thesis using m st unfolding move_row_path by simp
    qed
    then have "x = y" using path_unique [OF assms(1) xy(1,3) st] by simp
    then show ?thesis using xy by simp
  qed
  show ?thesis
  proof (rule rows_okI)
    show "distinct (map fr_id (map ?m rows))" unfolding ids by (rule rows_okD(1) [OF assms(1)])
  qed (rule all, assumption, rule unique, assumption+)
qed

section \<open>Interning\<close>

text \<open>Ids count up from one, names are unique, and the process caches agree with the tables.\<close>

definition table_ok :: "(int \<times> string) list \<Rightarrow> (string \<Rightarrow> int option) \<Rightarrow> bool" where
  "table_ok t ids \<longleftrightarrow>
     map fst t = map int [1 ..< Suc (length t)] \<and> distinct (map snd t) \<and>
     (\<forall>m i. ids m = Some i \<longrightarrow> (i, m) \<in> set t)"

abbreviation storages_of :: "fc_db \<Rightarrow> (int \<times> string) list" where
  "storages_of S \<equiv> map (\<lambda>(i, s, c). (i, s)) (fd_storages S)"

definition intern_ok :: "fc_db \<Rightarrow> bool" where
  "intern_ok S \<longleftrightarrow> table_ok (fd_mimes S) (fd_mime_ids S) \<and> table_ok (storages_of S) (fd_storage_ids S)"

lemma table_ok_fst: "table_ok t ids \<Longrightarrow> distinct (map fst t)"
  by (auto simp: table_ok_def distinct_map)

lemma table_ok_unique:
  assumes "table_ok t ids" "(i, m) \<in> set t"
  shows "(i, m') \<in> set t \<Longrightarrow> m' = m" "(i', m) \<in> set t \<Longrightarrow> i' = i"
proof -
  show "(i, m') \<in> set t \<Longrightarrow> m' = m"
    using assms(2) eq_key_imp_eq_value [OF table_ok_fst [OF assms(1)]] by blast
  have "distinct (map snd t)" using assms(1) by (simp add: table_ok_def)
  then show "(i', m) \<in> set t \<Longrightarrow> i' = i"
    using assms(2) by (force simp: distinct_map inj_on_def)
qed

lemma table_ok_append:
  assumes "table_ok t ids" "\<forall>(i, s) \<in> set t. s \<noteq> m"
  shows "table_ok (t @ [(int (length t) + 1, m)]) (ids(m \<mapsto> int (length t) + 1))"
proof -
  have "map fst (t @ [(int (length t) + 1, m)]) = map int [1 ..< Suc (length (t @ [(int (length t) + 1, m)]))]"
    using assms(1) by (simp add: table_ok_def)
  moreover have "distinct (map snd (t @ [(int (length t) + 1, m)]))"
    using assms by (auto simp: table_ok_def)
  ultimately show ?thesis using assms(1) by (auto simp: table_ok_def)
qed

lemma table_ok_hit: "table_ok t ids \<Longrightarrow> (i, m) \<in> set t \<Longrightarrow> table_ok t (ids(m \<mapsto> i))"
  by (auto simp: table_ok_def)

lemma intern_mimetype_ok:
  assumes "intern_ok S" "intern_mimetype m S = (i, S')"
  shows "intern_ok S' \<and> (i, m) \<in> set (fd_mimes S') \<and> set (fd_mimes S) \<subseteq> set (fd_mimes S') \<and>
    fd_rows S' = fd_rows S \<and> fd_next S' = fd_next S \<and> fd_storages S' = fd_storages S \<and>
    fd_storage_ids S' = fd_storage_ids S \<and> fd_world S' = fd_world S"
proof (cases "fd_mime_ids S m")
  case (Some j)
  then show ?thesis using assms by (auto simp: intern_mimetype_def intern_ok_def table_ok_def)
next
  case None
  show ?thesis
  proof (cases "sql_first (\<lambda>(i, s). s = m) (fd_mimes S)")
    case (Some x)
    then have "x \<in> set (fd_mimes S)" "snd x = m" using sql_first_Some [OF Some] by auto
    then show ?thesis using assms None Some table_ok_hit [of "fd_mimes S" "fd_mime_ids S" i m]
      by (auto simp: intern_mimetype_def upsert_mimetype_def intern_ok_def split: prod.splits)
  next
    case none: None
    then have "\<forall>(i, s) \<in> set (fd_mimes S). s \<noteq> m" by (auto simp: sql_first_None_iff)
    then show ?thesis using assms None none table_ok_append [of "fd_mimes S" "fd_mime_ids S" m]
      by (auto simp: intern_mimetype_def upsert_mimetype_def intern_ok_def Let_def)
  qed
qed

lemma intern_storage_ok:
  assumes "intern_ok S" "intern_storage sid S = (i, S')"
  shows "intern_ok S' \<and> (i, sid) \<in> set (storages_of S') \<and> set (storages_of S) \<subseteq> set (storages_of S') \<and>
    fd_rows S' = fd_rows S \<and> fd_next S' = fd_next S \<and> fd_mimes S' = fd_mimes S \<and>
    fd_mime_ids S' = fd_mime_ids S \<and> fd_world S' = fd_world S"
proof (cases "fd_storage_ids S sid")
  case (Some j)
  then have "(j, sid) \<in> set (storages_of S)" using assms(1) unfolding intern_ok_def table_ok_def by blast
  then show ?thesis using assms Some by (simp add: intern_storage_def)
next
  case None
  show ?thesis
  proof (cases "sql_first (\<lambda>(i, s, c). s = sid) (fd_storages S)")
    case (Some x)
    obtain a c where x: "x = (a, sid, c)" using sql_first_Some [OF Some] by (cases x) auto
    then have mem: "(a, sid) \<in> set (storages_of S)" using sql_first_Some [OF Some] by force
    have S': "S' = S\<lparr>fd_storage_ids := (fd_storage_ids S)(sid \<mapsto> a)\<rparr>" "i = a"
      using assms(2) None Some x by (auto simp: intern_storage_def upsert_storage_def)
    show ?thesis using S' mem table_ok_hit [OF _ mem] assms(1) by (simp add: intern_ok_def)
  next
    case none: None
    have fresh: "\<forall>(i, s) \<in> set (storages_of S). s \<noteq> sid" using none by (force simp: sql_first_None_iff)
    have S': "S' = S\<lparr>fd_storages := fd_storages S @ [(i, sid, None)], fd_storage_ids := (fd_storage_ids S)(sid \<mapsto> i)\<rparr>"
      "i = int (length (storages_of S)) + 1"
      using assms(2) None none by (auto simp: intern_storage_def upsert_storage_def Let_def)
    have st: "storages_of S' = storages_of S @ [(i, sid)]" using S'(1) by simp
    have "set (storages_of S) \<subseteq> set (storages_of S')" "(i, sid) \<in> set (storages_of S')"
      unfolding st set_append by (rule Un_upper1) simp
    then show ?thesis
      using S' st table_ok_append [OF _ fresh] assms(1) by (simp add: intern_ok_def)
  qed
qed

section \<open>Every event keeps the tree\<close>

definition known_mimes :: "fc_db \<Rightarrow> int set" where
  "known_mimes S = fst ` set (fd_mimes S)"

definition known_storages :: "fc_db \<Rightarrow> int set" where
  "known_storages S = fst ` set (storages_of S)"

lemma known_cong:
  "fd_mimes S' = fd_mimes S \<Longrightarrow> known_mimes S' = known_mimes S"
  "fd_storages S' = fd_storages S \<Longrightarrow> known_storages S' = known_storages S"
  by (simp_all add: known_mimes_def known_storages_def)

definition refs_ok :: "fc_db \<Rightarrow> bool" where
  "refs_ok S \<longleftrightarrow> (\<forall>r \<in> set (fd_rows S). fr_mime r \<in> known_mimes S \<and> fr_storage r \<in> known_storages S)"

definition fc_inv :: "fc_env \<Rightarrow> fc_db \<Rightarrow> bool" where
  "fc_inv E S \<longleftrightarrow> rows_ok E (fd_next S) (fd_rows S) \<and> intern_ok S \<and> refs_ok S"

lemma refs_okD: "refs_ok S \<Longrightarrow> r \<in> set (fd_rows S) \<Longrightarrow> fr_mime r \<in> known_mimes S \<and> fr_storage r \<in> known_storages S"
  by (simp add: refs_ok_def)

lemma fc_invD:
  "fc_inv E S \<Longrightarrow> rows_ok E (fd_next S) (fd_rows S)" "fc_inv E S \<Longrightarrow> intern_ok S" "fc_inv E S \<Longrightarrow> refs_ok S"
  by (simp_all add: fc_inv_def)

lemma fc_inv_world [simp]: "fc_inv E (S\<lparr>fd_world := w\<rparr>) = fc_inv E S"
  by (simp add: fc_inv_def intern_ok_def refs_ok_def known_mimes_def known_storages_def)

lemma fc_inv_mime:
  assumes "fc_inv E S" "intern_mimetype m S = (i, S')"
  shows "fc_inv E S' \<and> i \<in> known_mimes S' \<and> known_mimes S \<subseteq> known_mimes S' \<and>
    fd_rows S' = fd_rows S \<and> fd_storages S' = fd_storages S"
proof -
  note S' = intern_mimetype_ok [OF fc_invD(2) [OF assms(1)] assms(2)]
  have mimes: "known_mimes S \<subseteq> known_mimes S'" "i \<in> known_mimes S'"
    using S' unfolding known_mimes_def by (blast, metis fst_conv image_eqI)
  moreover have "refs_ok S'"
    using refs_okD [OF fc_invD(3) [OF assms(1)]] mimes(1) S' known_cong(2) [of S' S] unfolding refs_ok_def by auto
  ultimately show ?thesis using S' fc_invD(1) [OF assms(1)] by (simp add: fc_inv_def)
qed

lemma fc_inv_storage:
  assumes "fc_inv E S" "intern_storage sid S = (k, S')"
  shows "fc_inv E S' \<and> k \<in> known_storages S' \<and> fd_rows S' = fd_rows S \<and> fd_next S' = fd_next S"
proof -
  note S' = intern_storage_ok [OF fc_invD(2) [OF assms(1)] assms(2)]
  have st: "known_storages S \<subseteq> known_storages S'" "k \<in> known_storages S'"
    using S' unfolding known_storages_def by (blast, metis fst_conv image_eqI)
  moreover have "refs_ok S'"
    using refs_okD [OF fc_invD(3) [OF assms(1)]] st(1) S' known_cong(1) [of S' S] unfolding refs_ok_def by auto
  ultimately show ?thesis using S' fc_invD(1) [OF assms(1)] by (simp add: fc_inv_def)
qed

text \<open>A change of the rows that keeps the tables.\<close>

lemma fc_inv_rows:
  assumes "fc_inv E S" "rows_ok E (fd_next S') (fd_rows S')"
    "fd_mimes S' = fd_mimes S" "fd_storages S' = fd_storages S"
    "fd_mime_ids S' = fd_mime_ids S" "fd_storage_ids S' = fd_storage_ids S"
    "\<And>r. r \<in> set (fd_rows S') \<Longrightarrow> fr_mime r \<in> known_mimes S \<and> fr_storage r \<in> known_storages S"
  shows "fc_inv E S'"
  using assms known_cong [of S' S] unfolding fc_inv_def intern_ok_def refs_ok_def by simp

lemma fc_inv_propagate:
  assumes "fc_inv E S" "propagate_ancestors E k d mt x S = (res, S')"
  shows "fc_inv E S'"
proof -
  note S' = propagate_skel [OF assms(2)]
  have ok: "rows_ok E (fd_next S) (fd_rows S)" "refs_ok S" using assms(1) by (auto simp: fc_inv_def)
  show ?thesis
  proof (rule fc_inv_rows [OF assms(1)])
    show "rows_ok E (fd_next S') (fd_rows S')" using rows_ok_skel [OF ok(1)] S' by simp
    fix r assume "r \<in> set (fd_rows S')"
    then obtain q where q: "q \<in> set (fd_rows S)" "skel q = skel r" using skel_mem S' by blast
    then show "fr_mime r \<in> known_mimes S \<and> fr_storage r \<in> known_storages S"
      using refs_okD [OF ok(2) q(1)] by (simp add: skel_def)
  qed (use S' in simp_all)
qed

lemma fc_inv_transact:
  assumes "fc_inv E S" "transact act S = (res, S')" "\<And>x S1. act S = (Inr x, S1) \<Longrightarrow> fc_inv E S1"
  shows "fc_inv E S'"
  using assms by (auto simp: transact_def split: prod.splits sum.splits)

lemma fc_inv_upsert:
  assumes "hash_ok E" "fc_inv E S" "path_ok p" "parent_ok (row_key ` set (fd_rows S)) k p (lf_parent x)"
    "lf_mime x \<in> known_mimes S" "k \<in> known_storages S" "upsert_leaf E k p x S = (old, S')"
  shows "fc_inv E S'"
proof (rule fc_inv_rows [OF assms(2)])
  have ok: "rows_ok E (fd_next S) (fd_rows S)" "refs_ok S" using assms(2) by (auto simp: fc_inv_def)
  show "rows_ok E (fd_next S') (fd_rows S')" using upsert_leaf_ok [OF assms(1) ok(1) assms(3,4,7)] .
  show "fd_mimes S' = fd_mimes S" "fd_storages S' = fd_storages S"
    "fd_mime_ids S' = fd_mime_ids S" "fd_storage_ids S' = fd_storage_ids S"
    using assms(7) by (auto simp: upsert_leaf_def insert_row_def update_row_def split: option.splits)
  fix r assume "r \<in> set (fd_rows S')"
  then have "r \<in> set (fd_rows S) \<or> fr_storage r = k \<and> fr_mime r = lf_mime x \<or>
      (\<exists>q \<in> set (fd_rows S). r = set_leaf p x q)"
    using assms(7) by (auto simp: upsert_leaf_def insert_row_def update_row_def sql_update_def split: option.splits if_splits)
  then show "fr_mime r \<in> known_mimes S \<and> fr_storage r \<in> known_storages S"
    using refs_okD [OF ok(2)] assms(5,6) by (auto simp: set_leaf_def)
qed

text \<open>Paths are valid; a move renames neither the root nor, by its pattern, rows it should not.\<close>

definition event_ok :: "fc_env \<Rightarrow> fc_db \<Rightarrow> storage_event \<Rightarrow> bool" where
  "event_ok E S ev \<longleftrightarrow>
     (case ev of
        Written sid p md \<Rightarrow> path_ok p
      | DirCreated sid p md \<Rightarrow> path_ok p
      | Deleted sid p \<Rightarrow> path_ok p
      | Moved sid from to \<Rightarrow> path_ok from \<and> path_ok to \<and> \<not> is_root from \<and> \<not> is_root to \<and>
          clean_move E (fst (intern_storage sid S)) from to (fd_rows S)
      | Copied sid from to \<Rightarrow> path_ok from \<and> path_ok to)"

lemma apply_written_inv:
  assumes "hash_ok E" "fc_inv E S" "path_ok p" "apply_written E sid p md d S = (res, S')"
  shows "fc_inv E S'"
proof -
  let ?mime = "if d then DIRECTORY_MIMETYPE else mime_str (md_mimetype md)"
  obtain k S1 where 1: "intern_storage sid S = (k, S1)" by fastforce
  obtain mpk S2 where 2: "intern_mimetype ?mime S1 = (mpk, S2)" by fastforce
  obtain ppk S3 where 3: "intern_mimetype (type_half ?mime) S2 = (ppk, S3)" by fastforce
  note i1 = fc_inv_storage [OF assms(2) 1]
  then have inv1: "fc_inv E S1" by blast
  note i2 = fc_inv_mime [OF inv1 2]
  then have inv2: "fc_inv E S2" by blast
  note i3 = fc_inv_mime [OF inv2 3]
  have inv3: "fc_inv E S3" and mpk: "mpk \<in> known_mimes S3" and k: "k \<in> known_storages S3"
    using i1 i2 i3 known_cong(2) [of S2 S1] known_cong(2) [of S3 S2] by auto
  have ok: "rows_ok E (fd_next S3) (fd_rows S3)" using inv3 by (simp add: fc_inv_def)
  show ?thesis
  proof (cases "resolve_parent_fileid E k p S3")
    case (Inl e)
    then show ?thesis using assms(4) 1 2 3 inv3 unfolding apply_written_def Let_def by simp
  next
    case (Inr parent)
    let ?size = "if d then 0 else sint (word_of_nat (md_size md) :: i64)"
    let ?x = "\<lparr>lf_parent = parent, lf_mime = mpk, lf_part = ppk, lf_size = ?size,
                   lf_mtime = bind32 (fe_dialect E) (sys_to_unix (md_mtime md)),
                   lf_stime = bind32 (fe_dialect E) (sys_to_unix (md_mtime md)),
                   lf_etag = etag_str (md_etag md),
                   lf_perms = bind32 (fe_dialect E) (ucast (perm_bits (md_permissions md)))\<rparr>"
    have par: "parent_ok (row_key ` set (fd_rows S3)) k p (lf_parent ?x)"
      using resolve_parent_ok [OF assms(1) ok Inr] by simp
    have run: "transact (\<lambda>S. let (old_size, S') = upsert_leaf E k p ?x S
        in propagate_ancestors E k (?size - old_size) (sys_to_unix (md_mtime md)) (storage_parent p) S') S3 = (res, S')"
      using assms(4) 1 2 3 Inr unfolding apply_written_def Let_def by simp
    show ?thesis
    proof (rule fc_inv_transact [OF inv3 run])
      fix x S4 assume tx: "(let (old_size, S') = upsert_leaf E k p ?x S3
        in propagate_ancestors E k (?size - old_size) (sys_to_unix (md_mtime md)) (storage_parent p) S') = (Inr x, S4)"
      obtain old S5 where up: "upsert_leaf E k p ?x S3 = (old, S5)" by fastforce
      have "fc_inv E S5" by (rule fc_inv_upsert [OF assms(1) inv3 assms(3) par _ k up]) (simp add: mpk)
      then show "fc_inv E S4" using fc_inv_propagate tx up by simp
    qed
  qed
qed

lemma apply_deleted_inv:
  assumes "fc_inv E S" "apply_deleted E sid p S = (res, S')"
  shows "fc_inv E S'"
proof -
  obtain k S1 where 1: "intern_storage sid S = (k, S1)" by fastforce
  have inv1: "fc_inv E S1" using fc_inv_storage [OF assms(1) 1] by blast
  have "transact (\<lambda>S. case row_at E k p (fd_rows S) of None \<Rightarrow> (Inr (), S)
      | Some r \<Rightarrow> let S' = S\<lparr>fd_rows := delete_cascade (fr_id r) (fd_rows S)\<rparr>; (t, S'') = unix_now S'
                 in propagate_ancestors E k (- fr_size r) t (storage_parent p) S'') S1 = (res, S')"
    using assms(2) 1 by (simp add: apply_deleted_def Let_def)
  then show ?thesis
  proof (rule fc_inv_transact [OF inv1])
    fix x S4 assume tx: "(case row_at E k p (fd_rows S1) of None \<Rightarrow> (Inr (), S1)
      | Some r \<Rightarrow> let S' = S1\<lparr>fd_rows := delete_cascade (fr_id r) (fd_rows S1)\<rparr>; (t, S'') = unix_now S'
                 in propagate_ancestors E k (- fr_size r) t (storage_parent p) S'') = (Inr x, S4)"
    show "fc_inv E S4"
    proof (cases "row_at E k p (fd_rows S1)")
      case None
      then show ?thesis using tx inv1 by simp
    next
      case (Some r)
      let ?S = "S1\<lparr>fd_rows := delete_cascade (fr_id r) (fd_rows S1)\<rparr>"
      have "fc_inv E ?S"
      proof (rule fc_inv_rows [OF inv1])
        show "rows_ok E (fd_next ?S) (fd_rows ?S)" using rows_ok_delete [OF fc_invD(1) [OF inv1]] by simp
        fix q assume "q \<in> set (fd_rows ?S)"
        then show "fr_mime q \<in> known_mimes S1 \<and> fr_storage q \<in> known_storages S1"
          using refs_okD [OF fc_invD(3) [OF inv1]] by (auto simp: delete_cascade_def)
      qed simp_all
      then have "fc_inv E (snd (unix_now ?S))" by (simp add: unix_now_def Let_def split: prod.splits)
      then show ?thesis using tx Some fc_inv_propagate by (auto simp: Let_def split: prod.splits)
    qed
  qed
qed

lemma unix_now_world: "unix_now S = (t, S') \<Longrightarrow> \<exists>w. S' = S\<lparr>fd_world := w\<rparr>"
  by (auto simp: unix_now_def Let_def split: prod.splits)

lemma known_world [simp]:
  "known_storages (S\<lparr>fd_world := w\<rparr>) = known_storages S" "known_mimes (S\<lparr>fd_world := w\<rparr>) = known_mimes S"
  by (simp_all add: known_storages_def known_mimes_def)

lemma resolve_parent_world [simp]: "resolve_parent_fileid E k p (S\<lparr>fd_world := w\<rparr>) = resolve_parent_fileid E k p S"
  by (cases "storage_parent p") (simp_all add: resolve_parent_fileid_def)

lemma apply_copied_inv:
  assumes "hash_ok E" "fc_inv E S" "path_ok to" "apply_copied E sid from to S = (res, S')"
  shows "fc_inv E S'"
proof -
  obtain k S1 where 1: "intern_storage sid S = (k, S1)" by fastforce
  have inv1: "fc_inv E S1" and k: "k \<in> known_storages S1" using fc_inv_storage [OF assms(2) 1] by auto
  show ?thesis
  proof (cases "resolve_parent_fileid E k to S1")
    case (Inl e)
    then show ?thesis using assms(4) 1 inv1 by (simp add: apply_copied_def)
  next
    case (Inr par)
    obtain et w where w: "etag_new (fd_world S1) = (et, w)" by fastforce
    obtain t S2 where t: "unix_now (S1\<lparr>fd_world := w\<rparr>) = (t, S2)" by fastforce
    then obtain w' where S2: "S2 = S1\<lparr>fd_world := w'\<rparr>" using unix_now_world by fastforce
    have inv2: "fc_inv E S2" using inv1 S2 by simp
    let ?x = "\<lambda>r. \<lparr>lf_parent = par, lf_mime = fr_mime r, lf_part = fr_part r,
                             lf_size = fr_size r, lf_mtime = bind32 (fe_dialect E) t,
                             lf_stime = fr_stime r, lf_etag = etag_str et, lf_perms = fr_perms r\<rparr>"
    let ?tx = "\<lambda>S. case row_at E k from (fd_rows S) of None \<Rightarrow> (Inl FcNotFound, S)
        | Some r \<Rightarrow> if row_at E k to (fd_rows S) \<noteq> None then (Inl (FcDb ''UNIQUE constraint failed''), S)
            else propagate_ancestors E k (fr_size r) t (storage_parent to) (insert_row E k to (?x r) S)"
    have run: "transact ?tx S2 = (res, S')"
      using assms(4) 1 Inr w t by (simp add: apply_copied_def)
    show ?thesis
    proof (rule fc_inv_transact [OF inv2 run])
      fix x S4 assume tx: "?tx S2 = (Inr x, S4)"
      then obtain r where r: "row_at E k from (fd_rows S2) = Some r" "row_at E k to (fd_rows S2) = None"
        "propagate_ancestors E k (fr_size r) t (storage_parent to) (insert_row E k to (?x r) S2) = (Inr x, S4)"
        by (auto split: option.splits if_splits)
      have mem: "r \<in> set (fd_rows S2)" using r(1) row_at_iff [OF assms(1) fc_invD(1) [OF inv2]] by blast
      have up: "upsert_leaf E k to (?x r) S2 = (0, insert_row E k to (?x r) S2)"
        using r(2) by (simp add: upsert_leaf_def)
      have "resolve_parent_fileid E k to S2 = Inr par" using Inr S2 by simp
      from resolve_parent_ok [OF assms(1) fc_invD(1) [OF inv2] this]
      have par: "parent_ok (row_key ` set (fd_rows S2)) k to (lf_parent (?x r))" by simp
      have "fc_inv E (insert_row E k to (?x r) S2)"
        by (rule fc_inv_upsert [OF assms(1) inv2 assms(3) par _ _ up])
          (use refs_okD [OF fc_invD(3) [OF inv2] mem] k S2 in simp_all)
      then show "fc_inv E S4" by (rule fc_inv_propagate [OF _ r(3)])
    qed
  qed
qed

lemma hash_not_taken:
  assumes "rows_ok E n rows" "r \<in> set rows" "q \<in> set rows" "fr_storage q = k" "fpath q = to"
    "\<not> hash_taken k (path_hash E to) (fr_id r) rows"
  shows "fpath q = fpath r"
proof -
  have "fr_hash q = path_hash E to" using rows_okD(4) [OF assms(1,3)] assms(5) by simp
  then have "fr_id q = fr_id r" using assms(3,4,6) by (auto simp: hash_taken_def)
  then have "q = r" by (rule id_unique [OF rows_okD(1) [OF assms(1)] assms(3,2)])
  then show ?thesis by simp
qed

lemma moved_inv:
  assumes "hash_ok E" "fc_inv E S" "path_ok from" "path_ok to" "\<not> is_root from" "\<not> is_root to"
    and "clean_move E k from to (fd_rows S)"
    and "row_at E k from (fd_rows S) = Some r" "\<not> hash_taken k (path_hash E to) (fr_id r) (fd_rows S)"
    and "resolve_parent_fileid E k to S = Inr par"
    and "rewrite_descendant_paths E k from to (update_row (fr_id r) (\<lambda>r. r\<lparr>fr_path := as_str to,
           fr_hash := path_hash E to, fr_parent := par, fr_name := storage_basename to\<rparr>) S) = (Inr (), S')"
  shows "fc_inv E S'"
proof (rule fc_inv_rows [OF assms(2)])
  have ok: "rows_ok E (fd_next S) (fd_rows S)" by (rule fc_invD(1) [OF assms(2)])
  note mr = moved_rows [OF assms(1) ok assms(3-6,8,7,11)]
  have S': "S' = S\<lparr>fd_rows := fd_rows S'\<rparr>" using mr by blast
  have rows: "fd_rows S' = map (move_row E k from to par) (fd_rows S)" using mr by blast
  show "fd_mimes S' = fd_mimes S" "fd_storages S' = fd_storages S"
    "fd_mime_ids S' = fd_mime_ids S" "fd_storage_ids S' = fd_storage_ids S"
    by (subst S', simp)+
  have nx: "fd_next S' = fd_next S" by (subst S') simp
  have r: "r \<in> set (fd_rows S)" "fpath r = from" using row_at_iff [OF assms(1) ok] assms(8) by auto
  show "rows_ok E (fd_next S') (fd_rows S')"
    unfolding rows nx
  proof (rule rows_ok_move [OF ok assms(3-6)])
    show "\<not> strict_prefix (segs from) (segs to)"
      using below_iff [OF assms(3,5,4)] assms(7) like_on_prefix by (auto simp: clean_move_def)
    show "parent_ok (row_key ` set (fd_rows S)) k to par" by (rule resolve_parent_ok [OF assms(1) ok assms(10)])
    show "path_ok (relocate from to (fpath q))" if "q \<in> set (fd_rows S)" "fr_storage q = k"
      "strict_prefix (segs from) (segs (fpath q))" for q
      using mr that by blast
    show "fpath q = from" if "q \<in> set (fd_rows S)" "fr_storage q = k" "fpath q = to" for q
      by (rule hash_not_taken [OF ok r(1) that assms(9), unfolded r(2)])
  qed
  fix q assume "q \<in> set (fd_rows S')"
  then obtain x where "x \<in> set (fd_rows S)" "q = move_row E k from to par x" unfolding rows by auto
  then show "fr_mime q \<in> known_mimes S \<and> fr_storage q \<in> known_storages S"
    using refs_okD [OF fc_invD(3) [OF assms(2)]] by simp
qed

lemma apply_moved_inv:
  assumes "hash_ok E" "fc_inv E S" "event_ok E S (Moved sid from to)" "apply_moved E sid from to S = (res, S')"
  shows "fc_inv E S'"
proof -
  obtain k S1 where 1: "intern_storage sid S = (k, S1)" by fastforce
  have inv1: "fc_inv E S1" and rows1: "fd_rows S1 = fd_rows S" using fc_inv_storage [OF assms(2) 1] by auto
  have ev: "path_ok from" "path_ok to" "\<not> is_root from" "\<not> is_root to" "clean_move E k from to (fd_rows S1)"
    using assms(3) 1 rows1 by (simp_all add: event_ok_def)
  show ?thesis
  proof (cases "resolve_parent_fileid E k to S1")
    case (Inl e)
    then show ?thesis using assms(4) 1 inv1 by (simp add: apply_moved_def)
  next
    case (Inr par)
    obtain t S2 where t: "unix_now S1 = (t, S2)" by fastforce
    then obtain w' where S2: "S2 = S1\<lparr>fd_world := w'\<rparr>" using unix_now_world by fastforce
    have inv2: "fc_inv E S2" using inv1 S2 by simp
    let ?leaf = "\<lambda>r. r\<lparr>fr_path := as_str to, fr_hash := path_hash E to, fr_parent := par, fr_name := storage_basename to\<rparr>"
    let ?tx = "\<lambda>S. case row_at E k from (fd_rows S) of None \<Rightarrow> (Inl FcNotFound, S)
        | Some r \<Rightarrow> if hash_taken k (path_hash E to) (fr_id r) (fd_rows S)
            then (Inl (FcDb ''UNIQUE constraint failed''), S)
            else ebind (rewrite_descendant_paths E k from to) (\<lambda>_.
              if storage_parent from \<noteq> storage_parent to
              then ebind (propagate_ancestors E k (- fr_size r) t (storage_parent from)) (\<lambda>_.
                   propagate_ancestors E k (fr_size r) t (storage_parent to))
              else propagate_ancestors E k 0 t (storage_parent to)) (update_row (fr_id r) ?leaf S)"
    have run: "transact ?tx S2 = (res, S')"
      using assms(4) 1 Inr t by (simp add: apply_moved_def)
    show ?thesis
    proof (rule fc_inv_transact [OF inv2 run])
      fix x S4 assume tx: "?tx S2 = (Inr x, S4)"
      then obtain r where r: "row_at E k from (fd_rows S2) = Some r" "\<not> hash_taken k (path_hash E to) (fr_id r) (fd_rows S2)"
        and seq: "ebind (rewrite_descendant_paths E k from to) (\<lambda>_.
              if storage_parent from \<noteq> storage_parent to
              then ebind (propagate_ancestors E k (- fr_size r) t (storage_parent from)) (\<lambda>_.
                   propagate_ancestors E k (fr_size r) t (storage_parent to))
              else propagate_ancestors E k 0 t (storage_parent to)) (update_row (fr_id r) ?leaf S2) = (Inr x, S4)"
        by (auto split: option.splits if_splits)
      then obtain S3 where rw: "rewrite_descendant_paths E k from to (update_row (fr_id r) ?leaf S2) = (Inr (), S3)"
        by (auto simp: ebind_def split: prod.splits sum.splits)
      have inv3: "fc_inv E S3"
        by (rule moved_inv [OF assms(1) inv2 ev(1-4) _ r _ rw])
          (use ev(5) Inr S2 in simp_all)
      show "fc_inv E S4"
        using seq rw inv3
        by (auto simp: ebind_def split: prod.splits sum.splits if_splits) (metis fc_inv_propagate)+
    qed
  qed
qed

lemma apply_event_inv:
  assumes "hash_ok E" "fc_inv E S" "event_ok E S ev" "apply_event E ev S = (res, S')"
  shows "fc_inv E S'"
proof (cases ev)
  case (Written sid p md)
  then show ?thesis using assms apply_written_inv [of E S p sid md False] by (simp add: apply_event_def event_ok_def)
next
  case (DirCreated sid p md)
  then show ?thesis using assms apply_written_inv [of E S p sid md True] by (simp add: apply_event_def event_ok_def)
next
  case (Deleted sid p)
  then show ?thesis using assms apply_deleted_inv [of E S sid p] by (simp add: apply_event_def)
next
  case (Moved sid p q)
  then show ?thesis using assms apply_moved_inv [of E S sid p q] by (simp add: apply_event_def)
next
  case (Copied sid p q)
  then show ?thesis using assms apply_copied_inv [of E S q sid p] by (simp add: apply_event_def event_ok_def)
qed

text \<open>The states a cache can reach from empty tables, failed applications included.\<close>

definition fc_new :: "world \<Rightarrow> fc_db" where
  "fc_new w = \<lparr>fd_rows = [], fd_next = 1, fd_storages = [], fd_mimes = [], fd_storage_ids = (\<lambda>_. None),
     fd_mime_ids = (\<lambda>_. None), fd_world = w\<rparr>"

inductive fc_reachable :: "fc_env \<Rightarrow> fc_db \<Rightarrow> bool" for E where
  New: "fc_reachable E (fc_new w)"
| Event: "fc_reachable E S \<Longrightarrow> event_ok E S ev \<Longrightarrow> fc_reachable E (snd (apply_event E ev S))"

lemma fc_inv_new: "fc_inv E (fc_new w)"
  by (simp add: fc_inv_def fc_new_def rows_ok_def intern_ok_def refs_ok_def table_ok_def)

lemma fc_reachable_inv:
  assumes "fc_reachable E S" "hash_ok E"
  shows "fc_inv E S"
  using assms
proof (induction rule: fc_reachable.induct)
  case (New w)
  then show ?case by (simp add: fc_inv_new)
next
  case (Event S ev)
  then show ?case using apply_event_inv [of E S ev "fst (apply_event E ev S)" "snd (apply_event E ev S)"] by simp
qed

end
