(* ===== verification/Filecache_Sizes.thy ===== *)
theory Filecache_Sizes
  imports Filecache_Correct
begin

text \<open>
  Recursive sizes: the size of a cached directory is the sum of the sizes of its cached children,
  as long as a directory is announced before its children are cached and only files are copied.
  The walk up the ancestors is proved to settle exactly the difference an event makes.
\<close>

section \<open>Sums over the children\<close>

definition dir_row :: "fc_db \<Rightarrow> fc_row \<Rightarrow> bool" where
  "dir_row S r \<longleftrightarrow> (fr_mime r, DIRECTORY_MIMETYPE) \<in> set (fd_mimes S)"

definition child_size :: "int \<Rightarrow> storage_path \<Rightarrow> fc_row \<Rightarrow> int" where
  "child_size k p r = (if fr_storage r = k \<and> storage_parent (fpath r) = Some p then fr_size r else 0)"

definition children_size :: "fc_row list \<Rightarrow> int \<Rightarrow> storage_path \<Rightarrow> int" where
  "children_size rows k p = sum_list (map (child_size k p) rows)"

text \<open>Sizes that lack the difference \<open>D\<close>.\<close>

definition sizes_off :: "fc_db \<Rightarrow> (int \<Rightarrow> storage_path \<Rightarrow> int) \<Rightarrow> bool" where
  "sizes_off S D \<longleftrightarrow>
     (\<forall>r \<in> set (fd_rows S). dir_row S r \<longrightarrow>
        fr_size r + D (fr_storage r) (fpath r) = children_size (fd_rows S) (fr_storage r) (fpath r))"

definition owe :: "int \<Rightarrow> storage_path option \<Rightarrow> int \<Rightarrow> int \<Rightarrow> storage_path \<Rightarrow> int" where
  "owe k x d k' q = (if k' = k \<and> x = Some q then d else 0)"

abbreviation sizes_ok :: "fc_db \<Rightarrow> bool" where
  "sizes_ok S \<equiv> sizes_off S (\<lambda>_ _. 0)"

lemma sizes_off_cong:
  assumes "sizes_off S D" "\<And>r. r \<in> set (fd_rows S) \<Longrightarrow> dir_row S r \<Longrightarrow> D' (fr_storage r) (fpath r) = D (fr_storage r) (fpath r)"
  shows "sizes_off S D'"
  using assms by (auto simp: sizes_off_def)

lemma sum_list_update:
  fixes g :: "fc_row \<Rightarrow> int"
  assumes "distinct (map fr_id rows)" "r \<in> set rows"
  shows "sum_list (map g (map (\<lambda>q. if fr_id q = fr_id r then f q else q) rows)) = sum_list (map g rows) - g r + g (f r)"
  using assms
proof (induction rows)
  case (Cons x xs)
  show ?case
  proof (cases "r = x")
    case True
    have "fr_id x \<notin> fr_id ` set xs" using Cons.prems(1) by simp
    then have "fr_id q \<noteq> fr_id r" if "q \<in> set xs" for q using that True by (metis imageI)
    then have "map (\<lambda>q. if fr_id q = fr_id r then f q else q) xs = xs" by (simp add: map_idI)
    then show ?thesis using True by simp
  next
    case False
    then have "r \<in> set xs" "fr_id x \<noteq> fr_id r" using Cons.prems by auto
    then show ?thesis using Cons by simp
  qed
qed simp

lemma parent_irrefl: "storage_parent p \<noteq> Some p"
  using storage_parent_shorter [of p p] by auto

text \<open>One row changes its size, and possibly its mimetype.\<close>

lemma sizes_off_update:
  assumes "rows_ok E n (fd_rows S)" "r \<in> set (fd_rows S)" "sizes_off S D"
    and "fr_storage (f r) = fr_storage r" "fr_path (f r) = fr_path r"
    and "dir_row S (f r) \<Longrightarrow> fr_size (f r) + D' (fr_storage r) (fpath r) = children_size (fd_rows S) (fr_storage r) (fpath r)"
    and "\<And>q. q \<in> set (fd_rows S) \<Longrightarrow> q \<noteq> r \<Longrightarrow> D' (fr_storage q) (fpath q) =
        D (fr_storage q) (fpath q) + owe (fr_storage r) (storage_parent (fpath r)) (fr_size (f r) - fr_size r) (fr_storage q) (fpath q)"
  shows "sizes_off (update_row (fr_id r) f S) D'"
proof -
  let ?S = "update_row (fr_id r) f S"
  have rows: "fd_rows ?S = map (\<lambda>q. if fr_id q = fr_id r then f q else q) (fd_rows S)"
    by (simp add: update_row_def sql_update_def)
  have dir: "dir_row ?S q = dir_row S q" for q by (simp add: dir_row_def update_row_def)
  have is_r: "q = r" if "q \<in> set (fd_rows S)" "fr_id q = fr_id r" for q
    by (rule id_unique [OF rows_okD(1) [OF assms(1)] that(1) assms(2) that(2)])
  have sum: "children_size (fd_rows ?S) k p = children_size (fd_rows S) k p
      + owe (fr_storage r) (storage_parent (fpath r)) (fr_size (f r) - fr_size r) k p" for k p
    unfolding children_size_def rows sum_list_update [OF rows_okD(1) [OF assms(1)] assms(2)]
    using assms(4,5) by (auto simp: child_size_def owe_def)
  show ?thesis
    unfolding sizes_off_def
  proof (intro ballI impI)
    fix x assume x: "x \<in> set (fd_rows ?S)" "dir_row ?S x"
    then obtain q where q: "q \<in> set (fd_rows S)" "x = (if fr_id q = fr_id r then f q else q)" unfolding rows by auto
    show "fr_size x + D' (fr_storage x) (fpath x) = children_size (fd_rows ?S) (fr_storage x) (fpath x)"
    proof (cases "fr_id q = fr_id r")
      case True
      then have "x = f r" using q is_r by auto
      then show ?thesis
        using x(2) assms(4-6) dir sum parent_irrefl [of "fpath r"] by (simp add: owe_def)
    next
      case False
      then have "x = q" "q \<noteq> r" using q by auto
      then show ?thesis using assms(3,7) q(1) x(2) dir sum unfolding sizes_off_def by simp
    qed
  qed
qed

text \<open>The walk settles what its first ancestor is owed.\<close>

lemma propagate_sizes:
  assumes "propagate_ancestors E k d mt x S = (Inr (), S')" "hash_ok E" "rows_ok E n (fd_rows S)"
    "sizes_off S (\<lambda>k' q. D k' q + owe k x d k' q)"
  shows "sizes_off S' D"
  using assms
proof (induction E k d mt x S arbitrary: S' rule: propagate_ancestors.induct)
  case (1 E k d mt S)
  then show ?case by (simp add: propagate_ancestors.simps owe_def)
next
  case (2 E k d mt anc S)
  show ?case
  proof (cases "row_at E k anc (fd_rows S)")
    case None
    then have "S' = S" using 2(2) by (simp add: propagate_ancestors.simps split: if_splits)
    moreover have "owe k (Some anc) d (fr_storage r) (fpath r) = 0" if "r \<in> set (fd_rows S)" for r
      using None row_at_None [OF 2(3,4)] that by (auto simp: owe_def)
    ultimately show ?thesis using 2(5) by (auto simp: sizes_off_def)
  next
    case (Some r)
    then have r: "r \<in> set (fd_rows S)" "fr_storage r = k" "fpath r = anc" using row_at_iff [OF 2(3,4)] by auto
    obtain et w where ew: "etag_new (fd_world S) = (et, w)" by fastforce
    let ?f = "\<lambda>r. r\<lparr>fr_size := fr_size r + d, fr_etag := etag_str et, fr_mtime := bind32 (fe_dialect E) mt\<rparr>"
    let ?S = "update_row (fr_id r) ?f (S\<lparr>fd_world := w\<rparr>)"
    have off: "sizes_off (S\<lparr>fd_world := w\<rparr>) (\<lambda>k' q. D k' q + owe k (Some anc) d k' q)"
      using 2(5) by (simp add: sizes_off_def dir_row_def)
    have step: "sizes_off ?S (\<lambda>k' q. D k' q + owe k (storage_parent anc) d k' q)"
    proof (rule sizes_off_update [OF _ _ off])
      show "rows_ok E n (fd_rows (S\<lparr>fd_world := w\<rparr>))" "r \<in> set (fd_rows (S\<lparr>fd_world := w\<rparr>))" using 2(4) r by simp_all
    next
      assume "dir_row (S\<lparr>fd_world := w\<rparr>) (?f r)"
      then have "dir_row S r" by (simp add: dir_row_def)
      then show "fr_size (?f r) + (D (fr_storage r) (fpath r) + owe k (storage_parent anc) d (fr_storage r) (fpath r)) =
          children_size (fd_rows (S\<lparr>fd_world := w\<rparr>)) (fr_storage r) (fpath r)"
        using 2(5) r parent_irrefl [of anc] by (auto simp: sizes_off_def owe_def)
    next
      fix q assume q: "q \<in> set (fd_rows (S\<lparr>fd_world := w\<rparr>))" "q \<noteq> r"
      then have "\<not> (fr_storage q = k \<and> fpath q = anc)" using path_unique [OF 2(4), of q r] r by auto
      then show "D (fr_storage q) (fpath q) + owe k (storage_parent anc) d (fr_storage q) (fpath q) =
          D (fr_storage q) (fpath q) + owe k (Some anc) d (fr_storage q) (fpath q) +
          owe (fr_storage r) (storage_parent (fpath r)) (fr_size (?f r) - fr_size r) (fr_storage q) (fpath q)"
        using r by (auto simp: owe_def)
    qed simp_all
    show ?thesis
    proof (cases "is_root anc")
      case True
      then have "S' = ?S" "storage_parent anc = None"
        using 2(2) Some ew by (simp_all add: propagate_ancestors.simps Let_def storage_parent_def is_root_def)
      then show ?thesis using step by (simp add: owe_def)
    next
      case False
      then have run: "propagate_ancestors E k d mt (storage_parent anc) ?S = (Inr (), S')"
        using 2(2) Some ew by (simp add: propagate_ancestors.simps Let_def)
      have "map skel (fd_rows ?S) = map skel (fd_rows S)"
        using map_update_skel [of ?f "fr_id r" "S\<lparr>fd_world := w\<rparr>"] by (simp add: skel_def)
      then have "rows_ok E n (fd_rows ?S)" by (rule rows_ok_skel [OF 2(4)])
      from 2(1) [OF Some ew [symmetric] refl refl False run 2(3) this step] show ?thesis .
    qed
  qed
qed

section \<open>The debt of each event\<close>

lemma children_size_append: "children_size (rows @ [r]) k p = children_size rows k p + child_size k p r"
  by (simp add: children_size_def)

lemma upsert_row:
  assumes "hash_ok E" "rows_ok E n (fd_rows S)" "upsert_leaf E k p x S = (old, S')"
    "r \<in> set (fd_rows S')" "fr_storage r = k" "fpath r = p"
  shows "fr_mime r = lf_mime x \<and> fr_size r = lf_size x"
proof (cases "row_at E k p (fd_rows S)")
  case None
  then have "r \<notin> set (fd_rows S)" using row_at_None [OF assms(1,2)] assms(5,6) by blast
  moreover have "S' = insert_row E k p x S" using None assms(3) by (simp add: upsert_leaf_def)
  ultimately have "r \<in> {\<lparr>fr_id = fd_next S, fr_storage = k, fr_path = as_str p, fr_hash = path_hash E p,
           fr_parent = lf_parent x, fr_name = storage_basename p, fr_mime = lf_mime x,
           fr_part = lf_part x, fr_size = lf_size x, fr_mtime = lf_mtime x, fr_stime = lf_stime x,
           fr_etag = lf_etag x, fr_perms = lf_perms x\<rparr>}"
    using assms(4) by (simp add: insert_row_def)
  then show ?thesis by simp
next
  case (Some q)
  then have q: "q \<in> set (fd_rows S)" "fr_storage q = k" "fpath q = p" using row_at_iff [OF assms(1,2)] by auto
  obtain c where c: "c \<in> set (fd_rows S)" "r = (if fr_id c = fr_id q then set_leaf p x c else c)"
    using assms(3,4) Some by (auto simp: upsert_leaf_def update_row_def sql_update_def)
  then have "fr_storage c = k" "fpath c = p" using assms(5,6) by (auto simp: set_leaf_def split: if_splits)
  then have "c = q" using path_unique [OF assms(2) c(1) q(1)] q(2,3) by (metis storage_path.inject)
  then show ?thesis using c(2) by (simp add: set_leaf_def)
qed

lemma upsert_debt:
  assumes "hash_ok E" "rows_ok E n (fd_rows S)" "sizes_ok S" "upsert_leaf E k p x S = (old, S')"
  shows "sizes_off S' (\<lambda>k' q. owe k (Some p) (children_size (fd_rows S) k p - lf_size x) k' q +
      owe k (storage_parent p) (lf_size x - old) k' q)"
proof (cases "row_at E k p (fd_rows S)")
  case None
  have S': "S' = insert_row E k p x S" "old = 0" using assms(4) None by (simp_all add: upsert_leaf_def)
  let ?r = "\<lparr>fr_id = fd_next S, fr_storage = k, fr_path = as_str p, fr_hash = path_hash E p,
           fr_parent = lf_parent x, fr_name = storage_basename p, fr_mime = lf_mime x,
           fr_part = lf_part x, fr_size = lf_size x, fr_mtime = lf_mtime x, fr_stime = lf_stime x,
           fr_etag = lf_etag x, fr_perms = lf_perms x\<rparr>"
  have rows: "fd_rows S' = fd_rows S @ [?r]" "fd_mimes S' = fd_mimes S" by (simp_all add: S'(1) insert_row_def)
  have child: "child_size k' q ?r = owe k (storage_parent p) (lf_size x) k' q" for k' q
    by (auto simp: child_size_def owe_def)
  show ?thesis
    unfolding sizes_off_def
  proof (intro ballI impI)
    fix r assume r: "r \<in> set (fd_rows S')" "dir_row S' r"
    show "fr_size r + (owe k (Some p) (children_size (fd_rows S) k p - lf_size x) (fr_storage r) (fpath r) +
        owe k (storage_parent p) (lf_size x - old) (fr_storage r) (fpath r)) =
        children_size (fd_rows S') (fr_storage r) (fpath r)"
    proof (cases "r \<in> set (fd_rows S)")
      case True
      then have "fr_size r = children_size (fd_rows S) (fr_storage r) (fpath r)"
        using assms(3) r(2) rows(2) by (simp add: sizes_off_def dir_row_def)
      moreover have "\<not> (fr_storage r = k \<and> fpath r = p)" using None row_at_None [OF assms(1,2)] True by auto
      ultimately show ?thesis unfolding rows children_size_append child using S'(2) by (auto simp: owe_def)
    next
      case False
      then have new: "r = ?r" using r(1) unfolding rows by simp
      show ?thesis
        unfolding rows children_size_append child new using S'(2) parent_irrefl [of p] by (simp add: owe_def)
    qed
  qed
next
  case (Some r)
  then have r: "r \<in> set (fd_rows S)" "fr_storage r = k" "fpath r = p" using row_at_iff [OF assms(1,2)] by auto
  have S': "S' = update_row (fr_id r) (set_leaf p x) S" "old = fr_size r"
    using assms(4) Some by (simp_all add: upsert_leaf_def)
  show ?thesis
    unfolding S'
  proof (rule sizes_off_update [OF assms(2) r(1) assms(3)])
    show "fr_size (set_leaf p x r) + (owe k (Some p) (children_size (fd_rows S) k p - lf_size x) (fr_storage r) (fpath r) +
        owe k (storage_parent p) (lf_size x - fr_size r) (fr_storage r) (fpath r)) =
        children_size (fd_rows S) (fr_storage r) (fpath r)"
      using r parent_irrefl [of p] by (simp add: set_leaf_def owe_def)
  next
    fix q assume q: "q \<in> set (fd_rows S)" "q \<noteq> r"
    then have "\<not> (fr_storage q = k \<and> fpath q = p)" using path_unique [OF assms(2), of q r] r by auto
    then show "owe k (Some p) (children_size (fd_rows S) k p - lf_size x) (fr_storage q) (fpath q) +
        owe k (storage_parent p) (lf_size x - fr_size r) (fr_storage q) (fpath q) =
        0 + owe (fr_storage r) (storage_parent (fpath r)) (fr_size (set_leaf p x r) - fr_size r) (fr_storage q) (fpath q)"
      using r by (auto simp: owe_def set_leaf_def)
  qed (use r in \<open>simp_all add: set_leaf_def\<close>)
qed

lemma upsert_sizes:
  assumes "hash_ok E" "rows_ok E n (fd_rows S)" "sizes_ok S" "upsert_leaf E k p x S = (old, S')"
    "(lf_mime x, DIRECTORY_MIMETYPE) \<in> set (fd_mimes S) \<Longrightarrow> lf_size x = children_size (fd_rows S) k p"
  shows "sizes_off S' (owe k (storage_parent p) (lf_size x - old))"
proof (rule sizes_off_cong [OF upsert_debt [OF assms(1-4)]])
  fix r assume r: "r \<in> set (fd_rows S')" "dir_row S' r"
  have "fd_mimes S' = fd_mimes S"
    using assms(4) by (auto simp: upsert_leaf_def insert_row_def update_row_def split: option.splits)
  then have "fr_storage r = k \<and> fpath r = p \<Longrightarrow> lf_size x = children_size (fd_rows S) k p"
    using assms(5) upsert_row [OF assms(1,2,4) r(1)] r(2) by (simp add: dir_row_def)
  then show "owe k (storage_parent p) (lf_size x - old) (fr_storage r) (fpath r) =
      owe k (Some p) (children_size (fd_rows S) k p - lf_size x) (fr_storage r) (fpath r) +
      owe k (storage_parent p) (lf_size x - old) (fr_storage r) (fpath r)"
    by (auto simp: owe_def)
qed

lemma sum_list_split:
  fixes g :: "'a \<Rightarrow> int"
  shows "sum_list (map g xs) = sum_list (map g (filter (\<lambda>x. \<not> P x) xs)) + sum_list (map g (filter P xs))"
  by (induction xs) auto

lemma sum_list_single:
  fixes g :: "fc_row \<Rightarrow> int"
  assumes "distinct (map fr_id rows)" "r \<in> set rows" "\<And>c. c \<in> set rows \<Longrightarrow> c \<noteq> r \<Longrightarrow> g c = 0"
  shows "sum_list (map g rows) = g r"
proof -
  have "sum_list (map g rows) = (\<Sum>c \<in> set rows. g c)"
    using assms(1) by (simp add: distinct_map sum_list_distinct_conv_sum_set)
  also have "\<dots> = (\<Sum>c \<in> {r}. g c)" using assms(2,3) by (intro sum.mono_neutral_right) auto
  finally show ?thesis by simp
qed

lemma delete_sizes:
  assumes "rows_ok E n (fd_rows S)" "r \<in> set (fd_rows S)" "sizes_ok S"
  shows "sizes_off (S\<lparr>fd_rows := delete_cascade (fr_id r) (fd_rows S)\<rparr>)
    (owe (fr_storage r) (storage_parent (fpath r)) (- fr_size r))"
proof -
  let ?ids = "cascade_ids (length (fd_rows S)) [fr_id r] (fd_rows S)"
  let ?rows = "delete_cascade (fr_id r) (fd_rows S)"
  have gone_r: "fr_id r \<in> set ?ids"
    using cascade_subset [of "[fr_id r]" "length (fd_rows S)" "fd_rows S"] by simp
  have "children_size ?rows (fr_storage q) (fpath q) = children_size (fd_rows S) (fr_storage q) (fpath q)
      + owe (fr_storage r) (storage_parent (fpath r)) (- fr_size r) (fr_storage q) (fpath q)" if q: "q \<in> set ?rows" for q
  proof -
    let ?g = "child_size (fr_storage q) (fpath q)"
    have q': "q \<in> set (fd_rows S)" "fr_id q \<notin> set ?ids" using q by (auto simp: delete_cascade_def)
    have zero: "?g c = 0" if c: "c \<in> set (fd_rows S)" "fr_id c \<in> set ?ids" "c \<noteq> r" for c
    proof -
      have "fr_id c \<noteq> fr_id r" using id_unique [OF rows_okD(1) [OF assms(1)] c(1) assms(2)] c(3) by blast
      then obtain c' j where "c' \<in> set (fd_rows S)" "fr_id c' = fr_id c" "j \<in> set ?ids" "fr_parent c' = Some j"
        using cascade_reached [OF c(2)] by auto
      then have j: "j \<in> set ?ids" "fr_parent c = Some j"
        using id_unique [OF rows_okD(1) [OF assms(1)] _ c(1)] by auto
      then obtain p where p: "(j, fr_storage c, as_str p) \<in> row_key ` set (fd_rows S)" "storage_parent (fpath c) = Some p"
        using rows_okD(5) [OF assms(1) c(1)] by (auto simp: parent_ok_def)
      have "\<not> (fr_storage c = fr_storage q \<and> fpath q = p)"
      proof
        assume same: "fr_storage c = fr_storage q \<and> fpath q = p"
        obtain y where y: "y \<in> set (fd_rows S)" "row_key y = (j, fr_storage c, as_str p)" using p(1) by auto
        then have "y = q" using path_unique [OF assms(1) y(1) q'(1)] same by (auto simp: row_key_def)
        then show False using y(2) j(1) q'(2) by (simp add: row_key_def)
      qed
      then show ?thesis using p(2) by (auto simp: child_size_def)
    qed
    have "sum_list (map ?g (filter (\<lambda>q. fr_id q \<in> set ?ids) (fd_rows S))) = ?g r"
      by (rule sum_list_single) (use zero gone_r assms(2) rows_okD(1) [OF assms(1)] in \<open>auto simp: distinct_map_filter\<close>)
    moreover have "?g r = - owe (fr_storage r) (storage_parent (fpath r)) (- fr_size r) (fr_storage q) (fpath q)"
      by (auto simp: child_size_def owe_def)
    ultimately show ?thesis
      using sum_list_split [of ?g "fd_rows S" "\<lambda>q. fr_id q \<in> set ?ids"]
      by (simp add: children_size_def delete_cascade_def)
  qed
  moreover have "q \<in> set (fd_rows S)" if "q \<in> set ?rows" for q using that by (simp add: delete_cascade_def)
  ultimately show ?thesis
    using assms(3) by (simp add: sizes_off_def dir_row_def)
qed

lemma parent_prefix:
  assumes "path_ok c" "storage_parent c = Some p"
  shows "strict_prefix (segs p) (segs c)"
proof -
  have c: "segs c \<noteq> []" "segs p = butlast (segs c)"
    using assms storage_parent_segs [OF assms(1)] segs_butlast_path [OF assms(1)] by (auto split: if_splits)
  then show ?thesis
    by (metis append_butlast_last_id strict_prefix_def prefixI not_Cons_self2 self_append_conv)
qed

lemma parent_relocate:
  assumes "path_ok c" "path_ok to" "path_ok (relocate from to c)" "strict_prefix (segs from) (segs c)" "storage_parent c = Some p"
  shows "storage_parent (relocate from to c) = Some (relocate from to p)" "prefix (segs from) (segs p)"
proof -
  have c: "segs c \<noteq> []" "segs p = butlast (segs c)" "p = path_of (butlast (segs c))"
    using assms(1,5) storage_parent_segs [OF assms(1)] segs_butlast_path [OF assms(1)] by (auto split: if_splits)
  show pre: "prefix (segs from) (segs p)"
    using assms(4) c by (metis append_butlast_last_id prefix_snoc strict_prefix_def)
  have len: "length (segs from) < length (segs c)" by (rule prefix_length_less [OF assms(4)])
  have sc: "segs (relocate from to c) = segs to @ drop (length (segs from)) (segs c)"
    using segs_relocate [OF assms(2,1)] assms(4) by (simp add: strict_prefix_def)
  have "path_ok p" using path_ok_parent [OF assms(1,5)] .
  then have "segs (relocate from to p) = butlast (segs (relocate from to c))"
    using segs_relocate [OF assms(2) _ pre] c(2) len unfolding sc by (simp add: butlast_append drop_butlast)
  then show "storage_parent (relocate from to c) = Some (relocate from to p)"
    using storage_parent_segs [OF assms(3)] sc len by (auto simp: segs_inj) (metis path_of_segs)
qed

text \<open>Which rows become children of a moved directory.\<close>

lemma moved_child:
  assumes ok: "rows_ok E n rows" "path_ok from" "path_ok to" "\<not> is_root from" "\<not> is_root to"
    and nb: "\<not> strict_prefix (segs from) (segs to)"
    and rel: "\<And>q. q \<in> set rows \<Longrightarrow> fr_storage q = k \<Longrightarrow> strict_prefix (segs from) (segs (fpath q)) \<Longrightarrow>
       path_ok (relocate from to (fpath q))"
    and new: "\<And>q. q \<in> set rows \<Longrightarrow> fr_storage q = k \<Longrightarrow> fpath q = to \<Longrightarrow> fpath q = from"
    and c: "c \<in> set rows" "fr_storage c = k" and q: "q \<in> set rows" "fr_storage q = k"
  shows "storage_parent (relocate from to (fpath c)) = Some (relocate from to (fpath q)) \<longleftrightarrow>
    (if fpath c = from then storage_parent to = Some (fpath q) else storage_parent (fpath c) = Some (fpath q))"
proof -
  let ?in = "\<lambda>p. prefix (segs from) (segs p)"
  have okp: "path_ok (fpath c)" "path_ok (fpath q)" using rows_okD(3) [OF ok(1)] c(1) q(1) by auto
  have outside: "\<not> prefix (segs to) (segs (fpath x))" if "x \<in> set rows" "fr_storage x = k" "\<not> ?in (fpath x)" for x
  proof (cases "from = to")
    case True
    then show ?thesis using that(3) by simp
  next
    case False
    show ?thesis by (rule no_row_below_new [OF ok(1,5) False _ that(1,2)]) (erule (2) new)
  qed
  have to_q: "prefix (segs to) (segs (relocate from to (fpath q)))" if "?in (fpath q)"
    using segs_relocate [OF ok(3) okp(2) that] by simp
  consider (leaf) "fpath c = from" | (below) "strict_prefix (segs from) (segs (fpath c))" | (out) "\<not> ?in (fpath c)"
    using segs_inj [of "from" "fpath c"] by (auto simp: strict_prefix_def)
  then show ?thesis
  proof cases
    case leaf
    then have c_to: "relocate from to (fpath c) = to" by (simp add: relocate_def)
    have "storage_parent to = Some (relocate from to (fpath q)) \<longleftrightarrow> storage_parent to = Some (fpath q)"
    proof (cases "?in (fpath q)")
      case True
      have "storage_parent to \<noteq> Some (fpath q)"
        using parent_prefix [OF ok(3)] True nb by (metis prefix_order.le_less_trans)
      moreover have "storage_parent to \<noteq> Some (relocate from to (fpath q))"
        using parent_prefix [OF ok(3)] to_q [OF True] by (metis prefix_order.less_le_not_le)
      ultimately show ?thesis by simp
    qed (simp add: relocate_outside)
    then show ?thesis using leaf c_to by simp
  next
    case below
    have ne: "fpath c \<noteq> from" using below by auto
    have "segs (fpath c) \<noteq> []" using below by auto
    then obtain p where p: "storage_parent (fpath c) = Some p" using storage_parent_segs [OF okp(1)] by simp
    note pr = parent_relocate [OF okp(1) ok(3) rel [OF c below] below p]
    have "segs from \<noteq> []" using ok(4) by (simp add: segs_Nil_iff is_root_def)
    then have "2 \<le> length (segs (fpath c))" using prefix_length_less [OF below] by (cases "segs from") auto
    from parent_row [OF ok(1) c(1) this] obtain x where
      x: "x \<in> set rows" "fr_storage x = k" "segs (fpath x) = butlast (segs (fpath c))" using c(2) by auto
    have "segs p = butlast (segs (fpath c))"
      using p storage_parent_segs [OF okp(1)] segs_butlast_path [OF okp(1)] by (auto split: if_splits)
    then have px: "fpath x = p" using x(3) segs_inj by metis
    have "relocate from to p = relocate from to (fpath q) \<longleftrightarrow> p = fpath q"
      using relocate_inj [OF ok(1,3,5) _ x(1,2) q, of "from"] new px by auto
    then show ?thesis using pr(1) p ne by simp
  next
    case out
    have ne: "fpath c \<noteq> from" using out by auto
    have "storage_parent (fpath c) = Some (relocate from to (fpath q)) \<longleftrightarrow> storage_parent (fpath c) = Some (fpath q)"
    proof (cases "?in (fpath q)")
      case True
      have "storage_parent (fpath c) \<noteq> Some (fpath q)"
        using parent_prefix [OF okp(1)] True out by (metis prefix_order.le_less_trans prefix_order.less_imp_le)
      moreover have "storage_parent (fpath c) \<noteq> Some (relocate from to (fpath q))"
        using parent_prefix [OF okp(1)] to_q [OF True] outside [OF c out]
        by (metis prefix_order.le_less_trans prefix_order.less_imp_le)
      ultimately show ?thesis by simp
    qed (simp add: relocate_outside)
    then show ?thesis using out ne by (simp add: relocate_outside)
  qed
qed

lemma move_sizes:
  assumes ok: "rows_ok E n (fd_rows S)" "path_ok from" "path_ok to" "\<not> is_root from" "\<not> is_root to"
    and nb: "\<not> strict_prefix (segs from) (segs to)"
    and rel: "\<And>q. q \<in> set (fd_rows S) \<Longrightarrow> fr_storage q = k \<Longrightarrow> strict_prefix (segs from) (segs (fpath q)) \<Longrightarrow>
       path_ok (relocate from to (fpath q))"
    and new: "\<And>q. q \<in> set (fd_rows S) \<Longrightarrow> fr_storage q = k \<Longrightarrow> fpath q = to \<Longrightarrow> fpath q = from"
    and r: "r \<in> set (fd_rows S)" "fr_storage r = k" "fpath r = from" and sizes: "sizes_ok S"
  shows "sizes_off (S\<lparr>fd_rows := map (move_row E k from to par) (fd_rows S)\<rparr>)
    (\<lambda>k' q. owe k (storage_parent to) (fr_size r) k' q + owe k (storage_parent from) (- fr_size r) k' q)"
proof -
  let ?m = "move_row E k from to par" and ?rows = "fd_rows S"
  let ?D = "\<lambda>k' q. owe k (storage_parent to) (fr_size r) k' q + owe k (storage_parent from) (- fr_size r) k' q"
  have uniq: "c = r" if "c \<in> set ?rows" "fr_storage c = k" "fpath c = from" for c
  proof (rule path_unique [OF ok(1) that(1) r(1)])
    show "fr_storage c = fr_storage r" using that(2) r(2) by simp
    have "fpath c = fpath r" using that(3) r(3) by (rule trans [OF _ sym])
    then show "fr_path c = fr_path r" by simp
  qed
  have sum: "children_size (map ?m ?rows) (fr_storage q) (fpath (?m q)) =
      children_size ?rows (fr_storage q) (fpath q) + ?D (fr_storage q) (fpath (?m q))" if q: "q \<in> set ?rows" for q
  proof (cases "fr_storage q = k")
    case False
    have "child_size (fr_storage q) (fpath (?m q)) (?m c) = child_size (fr_storage q) (fpath q) c" for c
      using False by (simp add: child_size_def move_row_path)
    then show ?thesis using False by (simp add: children_size_def comp_def owe_def)
  next
    case True
    have at_q: "storage_parent (relocate from to (fpath c)) = Some (relocate from to (fpath q)) \<longleftrightarrow>
      (if fpath c = from then storage_parent to = Some (fpath q) else storage_parent (fpath c) = Some (fpath q))"
      if "c \<in> set ?rows" "fr_storage c = k" for c
      by (rule moved_child [OF ok nb _ _ that q True]) (erule (2) rel, erule (2) new)
    have to_q: "storage_parent to = Some (relocate from to (fpath q)) \<longleftrightarrow> storage_parent to = Some (fpath q)"
      using at_q [OF r(1,2)] r(3) by (simp add: relocate_def)
    have from_q: "storage_parent from = Some (relocate from to (fpath q)) \<longleftrightarrow> storage_parent from = Some (fpath q)"
    proof (cases "prefix (segs from) (segs (fpath q))")
      case in_q: True
      have "storage_parent from \<noteq> Some (fpath q)"
        using parent_prefix [OF ok(2)] in_q by (metis prefix_order.less_le_not_le)
      moreover have "storage_parent from \<noteq> Some (relocate from to (fpath q))"
      proof
        assume p: "storage_parent from = Some (relocate from to (fpath q))"
        have "prefix (segs to) (segs (relocate from to (fpath q)))"
          using segs_relocate [OF ok(3) rows_okD(3) [OF ok(1) q] in_q] by simp
        then have below: "strict_prefix (segs to) (segs from)"
          using parent_prefix [OF ok(2) p] by (metis prefix_order.le_less_trans)
        then have "from \<noteq> to" by auto
        have "\<not> prefix (segs to) (segs (fpath r))"
          by (rule no_row_below_new [OF ok(1,5) \<open>from \<noteq> to\<close> _ r(1,2)]) (erule (2) new)
        then show False using below r(3) by (simp add: strict_prefix_def)
      qed
      ultimately show ?thesis by simp
    qed (simp add: relocate_outside)
    have child: "child_size k (fpath (?m q)) (?m c) = child_size k (fpath q) c +
        (if c = r then ?D k (fpath (?m q)) else 0)" if "c \<in> set ?rows" for c
    proof (cases "fr_storage c = k")
      case False
      then show ?thesis using r(2) by (auto simp: child_size_def)
    next
      case c: True
      have mq: "fpath (?m q) = relocate from to (fpath q)" "fpath (?m c) = relocate from to (fpath c)"
        using True c by (simp_all add: move_row_path)
      show ?thesis
      proof (cases "c = r")
        case True
        then have "fpath (?m c) = to" using mq(2) r(3) by (simp add: relocate_def)
        then show ?thesis
          unfolding mq(1) child_size_def owe_def using True r(2) to_q from_q
          by (simp only: move_row_fields r(3) simp_thms if_True if_False) simp
      next
        case False
        then have "fpath c \<noteq> from" using uniq [OF that c] by blast
        then show ?thesis
          unfolding mq child_size_def using False c at_q [OF that c] by (simp only: move_row_fields if_False simp_thms add_0_right)
      qed
    qed
    have "children_size (map ?m ?rows) k (fpath (?m q)) =
        sum_list (map (\<lambda>c. child_size k (fpath q) c + (if c = r then ?D k (fpath (?m q)) else 0)) ?rows)"
      unfolding children_size_def map_map comp_def by (intro arg_cong [of _ _ sum_list] map_cong refl child)
    also have "\<dots> = children_size ?rows k (fpath q) + sum_list (map (\<lambda>c. if c = r then ?D k (fpath (?m q)) else 0) ?rows)"
      by (simp add: children_size_def sum_list_addf)
    also have "sum_list (map (\<lambda>c. if c = r then ?D k (fpath (?m q)) else 0) ?rows) = ?D k (fpath (?m q))"
      using sum_list_single [OF rows_okD(1) [OF ok(1)] r(1), of "\<lambda>c. if c = r then ?D k (fpath (?m q)) else 0"] by simp
    finally show ?thesis using True by simp
  qed
  show ?thesis
    unfolding sizes_off_def
  proof (intro ballI impI)
    fix x assume x: "x \<in> set (fd_rows (S\<lparr>fd_rows := map ?m ?rows\<rparr>))" "dir_row (S\<lparr>fd_rows := map ?m ?rows\<rparr>) x"
    then obtain q where q: "q \<in> set ?rows" "x = ?m q" by auto
    then have "fr_size q = children_size ?rows (fr_storage q) (fpath q)"
      using sizes x(2) by (simp add: sizes_off_def dir_row_def)
    then show "fr_size x + ?D (fr_storage x) (fpath x) =
        children_size (fd_rows (S\<lparr>fd_rows := map ?m ?rows\<rparr>)) (fr_storage x) (fpath x)"
      using sum [OF q(1)] q(2) by simp
  qed
qed

section \<open>Regular events\<close>

lemma intern_mimetype_sizes:
  assumes "fc_inv E S" "intern_mimetype m S = (i, S')" "sizes_ok S"
  shows "sizes_ok S'"
proof -
  note S' = intern_mimetype_ok [OF fc_invD(2) [OF assms(1)] assms(2)]
  have "dir_row S r" if r: "r \<in> set (fd_rows S)" "dir_row S' r" for r
  proof -
    obtain m' where m': "(fr_mime r, m') \<in> set (fd_mimes S)"
      using refs_okD [OF fc_invD(3) [OF assms(1)] r(1)] by (auto simp: known_mimes_def)
    then have "(fr_mime r, m') \<in> set (fd_mimes S')" using S' by blast
    then have "m' = DIRECTORY_MIMETYPE"
      using table_ok_unique(1) [of "fd_mimes S'"] S' r(2) unfolding intern_ok_def dir_row_def by blast
    then show ?thesis using m' by (simp add: dir_row_def)
  qed
  then show ?thesis using assms(3) S' by (simp add: sizes_off_def)
qed

lemma intern_storage_sizes:
  assumes "fc_inv E S" "intern_storage sid S = (k, S')" "sizes_ok S"
  shows "sizes_ok S'"
  using intern_storage_ok [OF fc_invD(2) [OF assms(1)] assms(2)] assms(3)
  by (simp add: sizes_off_def dir_row_def)

lemma sizes_world [simp]: "sizes_off (S\<lparr>fd_world := w\<rparr>) D = sizes_off S D"
  by (simp add: sizes_off_def dir_row_def)

lemma sizes_transact:
  assumes "sizes_ok S" "transact act S = (res, S')" "\<And>x S1. act S = (Inr x, S1) \<Longrightarrow> sizes_ok S1"
  shows "sizes_ok S'"
  using assms by (auto simp: transact_def split: prod.splits sum.splits)

lemma settle:
  assumes "propagate_ancestors E k d mt x S = (Inr u, S')" "hash_ok E" "rows_ok E n (fd_rows S)" "sizes_off S (owe k x d)"
  shows "sizes_ok S'"
  using propagate_sizes [of E k d mt x S S' n "\<lambda>_ _. 0"] assms by simp

text \<open>
  Directories are announced while no child of theirs takes up space in the cache, only files are
  copied, and no file has the mimetype of directories.
\<close>

definition sized_event :: "fc_env \<Rightarrow> fc_db \<Rightarrow> storage_event \<Rightarrow> bool" where
  "sized_event E S ev \<longleftrightarrow> event_ok E S ev \<and>
     (case ev of
        Written sid p md \<Rightarrow> mime_str (md_mimetype md) \<noteq> DIRECTORY_MIMETYPE
      | DirCreated sid p md \<Rightarrow> children_size (fd_rows S) (fst (intern_storage sid S)) p = 0
      | Copied sid from to \<Rightarrow> (\<forall>r. row_at E (fst (intern_storage sid S)) from (fd_rows S) = Some r \<longrightarrow> \<not> dir_row S r)
      | _ \<Rightarrow> True)"

lemma apply_written_sizes:
  assumes "hash_ok E" "fc_inv E S" "path_ok p" "sizes_ok S"
    "if d then children_size (fd_rows S) (fst (intern_storage sid S)) p = 0
     else mime_str (md_mimetype md) \<noteq> DIRECTORY_MIMETYPE"
    "apply_written E sid p md d S = (res, S')"
  shows "sizes_ok S'"
proof -
  let ?mime = "if d then DIRECTORY_MIMETYPE else mime_str (md_mimetype md)"
  obtain k S1 where 1: "intern_storage sid S = (k, S1)" by fastforce
  obtain mpk S2 where 2: "intern_mimetype ?mime S1 = (mpk, S2)" by fastforce
  obtain ppk S3 where 3: "intern_mimetype (type_half ?mime) S2 = (ppk, S3)" by fastforce
  note i1 = fc_inv_storage [OF assms(2) 1]
  then have inv1: "fc_inv E S1" by blast
  note i2 = fc_inv_mime [OF inv1 2]
  then have inv2: "fc_inv E S2" by blast
  note i3 = fc_inv_mime [OF inv2 3]
  have inv3: "fc_inv E S3" and rows: "fd_rows S3 = fd_rows S" using i1 i2 i3 by auto
  have s3: "sizes_ok S3"
    by (rule intern_mimetype_sizes [OF inv2 3 intern_mimetype_sizes [OF inv1 2 intern_storage_sizes [OF assms(2) 1 assms(4)]]])
  have mpk: "(mpk, ?mime) \<in> set (fd_mimes S3)" "intern_ok S3"
    using intern_mimetype_ok [OF fc_invD(2) [OF inv1] 2] intern_mimetype_ok [OF fc_invD(2) [OF inv2] 3] by blast+
  have ok: "rows_ok E (fd_next S3) (fd_rows S3)" by (rule fc_invD(1) [OF inv3])
  show ?thesis
  proof (cases "resolve_parent_fileid E k p S3")
    case (Inl e)
    then show ?thesis using assms(6) 1 2 3 s3 unfolding apply_written_def Let_def by simp
  next
    case (Inr parent)
    let ?size = "if d then 0 else sint (word_of_nat (md_size md) :: i64)"
    let ?x = "\<lparr>lf_parent = parent, lf_mime = mpk, lf_part = ppk, lf_size = ?size,
                   lf_mtime = bind32 (fe_dialect E) (sys_to_unix (md_mtime md)),
                   lf_stime = bind32 (fe_dialect E) (sys_to_unix (md_mtime md)),
                   lf_etag = etag_str (md_etag md),
                   lf_perms = bind32 (fe_dialect E) (ucast (perm_bits (md_permissions md)))\<rparr>"
    have par: "parent_ok (row_key ` set (fd_rows S3)) k p (lf_parent ?x)"
      using resolve_parent_ok [OF assms(1) ok Inr] by simp
    have run: "transact (\<lambda>S. let (old_size, S') = upsert_leaf E k p ?x S
        in propagate_ancestors E k (?size - old_size) (sys_to_unix (md_mtime md)) (storage_parent p) S') S3 = (res, S')"
      using assms(6) 1 2 3 Inr unfolding apply_written_def Let_def by simp
    have dir: "lf_size ?x = children_size (fd_rows S3) k p" if "(lf_mime ?x, DIRECTORY_MIMETYPE) \<in> set (fd_mimes S3)"
    proof -
      have "?mime = DIRECTORY_MIMETYPE"
        using table_ok_unique(1) [of "fd_mimes S3" "fd_mime_ids S3" mpk DIRECTORY_MIMETYPE ?mime] mpk that
        unfolding intern_ok_def by simp
      then show ?thesis using assms(5) 1 rows by (auto split: if_splits)
    qed
    show ?thesis
    proof (rule sizes_transact [OF s3 run])
      fix x S4 assume tx: "(let (old_size, S') = upsert_leaf E k p ?x S3
        in propagate_ancestors E k (?size - old_size) (sys_to_unix (md_mtime md)) (storage_parent p) S') = (Inr x, S4)"
      obtain old S5 where up: "upsert_leaf E k p ?x S3 = (old, S5)" by fastforce
      have run': "propagate_ancestors E k (lf_size ?x - old) (sys_to_unix (md_mtime md)) (storage_parent p) S5 = (Inr x, S4)"
        using tx up by simp
      have "sizes_off S5 (owe k (storage_parent p) (lf_size ?x - old))"
        by (rule upsert_sizes [OF assms(1) ok s3 up dir])
      then show "sizes_ok S4"
        using settle [OF run' assms(1) upsert_leaf_ok [OF assms(1) ok assms(3) par up]] by simp
    qed
  qed
qed

lemma apply_deleted_sizes:
  assumes "hash_ok E" "fc_inv E S" "sizes_ok S" "apply_deleted E sid p S = (res, S')"
  shows "sizes_ok S'"
proof -
  obtain k S1 where 1: "intern_storage sid S = (k, S1)" by fastforce
  have inv1: "fc_inv E S1" using fc_inv_storage [OF assms(2) 1] by blast
  have s1: "sizes_ok S1" by (rule intern_storage_sizes [OF assms(2) 1 assms(3)])
  let ?tx = "\<lambda>S. case row_at E k p (fd_rows S) of None \<Rightarrow> (Inr (), S)
      | Some r \<Rightarrow> let S' = S\<lparr>fd_rows := delete_cascade (fr_id r) (fd_rows S)\<rparr>; (t, S'') = unix_now S'
                 in propagate_ancestors E k (- fr_size r) t (storage_parent p) S''"
  have run: "transact ?tx S1 = (res, S')"
    using assms(4) 1 by (simp add: apply_deleted_def Let_def)
  show ?thesis
  proof (rule sizes_transact [OF s1 run])
    fix x S4 assume tx: "?tx S1 = (Inr x, S4)"
    show "sizes_ok S4"
    proof (cases "row_at E k p (fd_rows S1)")
      case None
      then show ?thesis using tx s1 by simp
    next
      case (Some r)
      have ok: "rows_ok E (fd_next S1) (fd_rows S1)" by (rule fc_invD(1) [OF inv1])
      have r: "r \<in> set (fd_rows S1)" "fr_storage r = k" "fpath r = p" using Some row_at_iff [OF assms(1) ok] by auto
      let ?S = "S1\<lparr>fd_rows := delete_cascade (fr_id r) (fd_rows S1)\<rparr>"
      obtain t S2 where t: "unix_now ?S = (t, S2)" by fastforce
      then obtain w where S2: "S2 = ?S\<lparr>fd_world := w\<rparr>" using unix_now_world by blast
      have run': "propagate_ancestors E k (- fr_size r) t (storage_parent p) S2 = (Inr x, S4)"
        using tx Some t by (simp add: Let_def)
      have "rows_ok E (fd_next S1) (fd_rows S2)" using rows_ok_delete [OF ok] S2 by simp
      moreover have "sizes_off S2 (owe k (storage_parent p) (- fr_size r))"
        using delete_sizes [OF ok r(1) s1] r(2,3) S2 by simp
      ultimately show ?thesis using settle [OF run' assms(1)] by simp
    qed
  qed
qed

lemma apply_copied_sizes:
  assumes "hash_ok E" "fc_inv E S" "path_ok to" "sizes_ok S"
    "\<forall>r. row_at E (fst (intern_storage sid S)) from (fd_rows S) = Some r \<longrightarrow> \<not> dir_row S r"
    "apply_copied E sid from to S = (res, S')"
  shows "sizes_ok S'"
proof -
  obtain k S1 where 1: "intern_storage sid S = (k, S1)" by fastforce
  have inv1: "fc_inv E S1" and rows1: "fd_rows S1 = fd_rows S" using fc_inv_storage [OF assms(2) 1] by auto
  have mimes1: "fd_mimes S1 = fd_mimes S" using intern_storage_ok [OF fc_invD(2) [OF assms(2)] 1] by blast
  have s1: "sizes_ok S1" by (rule intern_storage_sizes [OF assms(2) 1 assms(4)])
  show ?thesis
  proof (cases "resolve_parent_fileid E k to S1")
    case (Inl e)
    then show ?thesis using assms(6) 1 s1 by (simp add: apply_copied_def)
  next
    case (Inr par)
    obtain et w where w: "etag_new (fd_world S1) = (et, w)" by fastforce
    obtain t S2 where t: "unix_now (S1\<lparr>fd_world := w\<rparr>) = (t, S2)" by fastforce
    then obtain w' where S2: "S2 = S1\<lparr>fd_world := w'\<rparr>" using unix_now_world by fastforce
    have inv2: "fc_inv E S2" and s2: "sizes_ok S2" using inv1 s1 S2 by simp_all
    let ?x = "\<lambda>r. \<lparr>lf_parent = par, lf_mime = fr_mime r, lf_part = fr_part r,
                             lf_size = fr_size r, lf_mtime = bind32 (fe_dialect E) t,
                             lf_stime = fr_stime r, lf_etag = etag_str et, lf_perms = fr_perms r\<rparr>"
    let ?tx = "\<lambda>S. case row_at E k from (fd_rows S) of None \<Rightarrow> (Inl FcNotFound, S)
        | Some r \<Rightarrow> if row_at E k to (fd_rows S) \<noteq> None then (Inl (FcDb ''UNIQUE constraint failed''), S)
            else propagate_ancestors E k (fr_size r) t (storage_parent to) (insert_row E k to (?x r) S)"
    have run: "transact ?tx S2 = (res, S')"
      using assms(6) 1 Inr w t by (simp add: apply_copied_def)
    show ?thesis
    proof (rule sizes_transact [OF s2 run])
      fix x S4 assume tx: "?tx S2 = (Inr x, S4)"
      then obtain r where r: "row_at E k from (fd_rows S2) = Some r" "row_at E k to (fd_rows S2) = None"
        "propagate_ancestors E k (fr_size r) t (storage_parent to) (insert_row E k to (?x r) S2) = (Inr x, S4)"
        by (auto split: option.splits if_splits)
      have ok: "rows_ok E (fd_next S2) (fd_rows S2)" by (rule fc_invD(1) [OF inv2])
      have up: "upsert_leaf E k to (?x r) S2 = (0, insert_row E k to (?x r) S2)"
        using r(2) by (simp add: upsert_leaf_def)
      have "resolve_parent_fileid E k to S2 = Inr par" using Inr S2 by simp
      from resolve_parent_ok [OF assms(1) ok this]
      have par: "parent_ok (row_key ` set (fd_rows S2)) k to (lf_parent (?x r))" by simp
      have "\<not> dir_row S r" using assms(5) 1 r(1) rows1 S2 by simp
      then have "(lf_mime (?x r), DIRECTORY_MIMETYPE) \<notin> set (fd_mimes S2)" using mimes1 S2 by (simp add: dir_row_def)
      then have "sizes_off (insert_row E k to (?x r) S2) (owe k (storage_parent to) (lf_size (?x r) - 0))"
        by (intro upsert_sizes [OF assms(1) ok s2 up]) blast
      then show "sizes_ok S4"
        using settle [OF r(3) assms(1) upsert_leaf_ok [OF assms(1) ok assms(3) par up]] by simp
    qed
  qed
qed

lemma moved_sizes:
  assumes "hash_ok E" "fc_inv E S" "path_ok from" "path_ok to" "\<not> is_root from" "\<not> is_root to"
    and "clean_move E k from to (fd_rows S)"
    and "row_at E k from (fd_rows S) = Some r" "\<not> hash_taken k (path_hash E to) (fr_id r) (fd_rows S)"
    and "rewrite_descendant_paths E k from to (update_row (fr_id r) (\<lambda>r. r\<lparr>fr_path := as_str to,
           fr_hash := path_hash E to, fr_parent := par, fr_name := storage_basename to\<rparr>) S) = (Inr (), S')"
    and "sizes_ok S"
  shows "sizes_off S' (\<lambda>k' q. owe k (storage_parent to) (fr_size r) k' q + owe k (storage_parent from) (- fr_size r) k' q)"
proof -
  have ok: "rows_ok E (fd_next S) (fd_rows S)" by (rule fc_invD(1) [OF assms(2)])
  note mr = moved_rows [OF assms(1) ok assms(3-6,8,7,10)]
  have r: "r \<in> set (fd_rows S)" "fr_storage r = k" "fpath r = from" using row_at_iff [OF assms(1) ok] assms(8) by auto
  have S': "S' = S\<lparr>fd_rows := map (move_row E k from to par) (fd_rows S)\<rparr>" using mr by metis
  show ?thesis
    unfolding S'
  proof (rule move_sizes [OF ok assms(3-6) _ _ _ r assms(11)])
    show "\<not> strict_prefix (segs from) (segs to)"
      using below_iff [OF assms(3,5,4)] assms(7) like_on_prefix by (auto simp: clean_move_def)
    show "path_ok (relocate from to (fpath q))" if "q \<in> set (fd_rows S)" "fr_storage q = k"
      "strict_prefix (segs from) (segs (fpath q))" for q
      using mr that by blast
    show "fpath q = from" if "q \<in> set (fd_rows S)" "fr_storage q = k" "fpath q = to" for q
      by (rule hash_not_taken [OF ok r(1) that assms(9), unfolded r(3)])
  qed
qed

lemma apply_moved_sizes:
  assumes "hash_ok E" "fc_inv E S" "event_ok E S (Moved sid from to)" "sizes_ok S" "apply_moved E sid from to S = (res, S')"
  shows "sizes_ok S'"
proof -
  obtain k S1 where 1: "intern_storage sid S = (k, S1)" by fastforce
  have inv1: "fc_inv E S1" and rows1: "fd_rows S1 = fd_rows S" using fc_inv_storage [OF assms(2) 1] by auto
  have s1: "sizes_ok S1" by (rule intern_storage_sizes [OF assms(2) 1 assms(4)])
  have ev: "path_ok from" "path_ok to" "\<not> is_root from" "\<not> is_root to" "clean_move E k from to (fd_rows S1)"
    using assms(3) 1 rows1 by (simp_all add: event_ok_def)
  show ?thesis
  proof (cases "resolve_parent_fileid E k to S1")
    case (Inl e)
    then show ?thesis using assms(5) 1 s1 by (simp add: apply_moved_def)
  next
    case (Inr par)
    obtain t S2 where t: "unix_now S1 = (t, S2)" by fastforce
    then obtain w' where S2: "S2 = S1\<lparr>fd_world := w'\<rparr>" using unix_now_world by fastforce
    have inv2: "fc_inv E S2" and s2: "sizes_ok S2" using inv1 s1 S2 by simp_all
    let ?leaf = "\<lambda>r. r\<lparr>fr_path := as_str to, fr_hash := path_hash E to, fr_parent := par, fr_name := storage_basename to\<rparr>"
    let ?walk = "\<lambda>r. if storage_parent from \<noteq> storage_parent to
              then ebind (propagate_ancestors E k (- fr_size r) t (storage_parent from)) (\<lambda>_.
                   propagate_ancestors E k (fr_size r) t (storage_parent to))
              else propagate_ancestors E k 0 t (storage_parent to)"
    let ?tx = "\<lambda>S. case row_at E k from (fd_rows S) of None \<Rightarrow> (Inl FcNotFound, S)
        | Some r \<Rightarrow> if hash_taken k (path_hash E to) (fr_id r) (fd_rows S)
            then (Inl (FcDb ''UNIQUE constraint failed''), S)
            else ebind (rewrite_descendant_paths E k from to) (\<lambda>_. ?walk r) (update_row (fr_id r) ?leaf S)"
    have run: "transact ?tx S2 = (res, S')"
      using assms(5) 1 Inr t by (simp add: apply_moved_def)
    show ?thesis
    proof (rule sizes_transact [OF s2 run])
      fix x S4 assume tx: "?tx S2 = (Inr x, S4)"
      then obtain r where r: "row_at E k from (fd_rows S2) = Some r" "\<not> hash_taken k (path_hash E to) (fr_id r) (fd_rows S2)"
        and seq: "ebind (rewrite_descendant_paths E k from to) (\<lambda>_. ?walk r) (update_row (fr_id r) ?leaf S2) = (Inr x, S4)"
        by (auto split: option.splits if_splits)
      obtain S3 where rw: "rewrite_descendant_paths E k from to (update_row (fr_id r) ?leaf S2) = (Inr (), S3)"
        and walk: "?walk r S3 = (Inr x, S4)"
        using seq by (auto simp: ebind_def split: prod.splits sum.splits)
      have clean: "clean_move E k from to (fd_rows S2)" and par: "resolve_parent_fileid E k to S2 = Inr par"
        using ev(5) Inr S2 by simp_all
      have inv3: "fc_inv E S3" by (rule moved_inv [OF assms(1) inv2 ev(1-4) clean r par rw])
      have off: "sizes_off S3 (\<lambda>k' q. owe k (storage_parent to) (fr_size r) k' q + owe k (storage_parent from) (- fr_size r) k' q)"
        by (rule moved_sizes [OF assms(1) inv2 ev(1-4) clean r rw s2])
      show "sizes_ok S4"
      proof (cases "storage_parent from = storage_parent to")
        case True
        then have "sizes_off S3 (owe k (storage_parent to) 0)"
          by (intro sizes_off_cong [OF off]) (simp add: owe_def)
        then show ?thesis using settle [OF _ assms(1) fc_invD(1) [OF inv3], of k 0 t "storage_parent to" x S4] walk True by simp
      next
        case False
        then obtain S5 where w1: "propagate_ancestors E k (- fr_size r) t (storage_parent from) S3 = (Inr (), S5)"
          and w2: "propagate_ancestors E k (fr_size r) t (storage_parent to) S5 = (Inr x, S4)"
          using walk by (auto simp: ebind_def split: prod.splits sum.splits)
        have inv5: "fc_inv E S5" by (rule fc_inv_propagate [OF inv3 w1])
        have "sizes_off S5 (owe k (storage_parent to) (fr_size r))"
          by (rule propagate_sizes [OF w1 assms(1) fc_invD(1) [OF inv3] off])
        then show ?thesis by (rule settle [OF w2 assms(1) fc_invD(1) [OF inv5]])
      qed
    qed
  qed
qed

lemma apply_event_sizes:
  assumes "hash_ok E" "fc_inv E S" "sized_event E S ev" "sizes_ok S" "apply_event E ev S = (res, S')"
  shows "sizes_ok S'"
proof (cases ev)
  case (Written sid p md)
  then show ?thesis using assms apply_written_sizes [of E S p False sid md]
    by (simp add: apply_event_def sized_event_def event_ok_def)
next
  case (DirCreated sid p md)
  then show ?thesis using assms apply_written_sizes [of E S p True sid md]
    by (simp add: apply_event_def sized_event_def event_ok_def)
next
  case (Deleted sid p)
  then show ?thesis using assms apply_deleted_sizes [of E S sid p] by (simp add: apply_event_def)
next
  case (Moved sid p q)
  then show ?thesis using assms apply_moved_sizes [of E S sid p q] by (simp add: apply_event_def sized_event_def)
next
  case (Copied sid p q)
  then show ?thesis using assms apply_copied_sizes [of E S q sid p] by (simp add: apply_event_def sized_event_def event_ok_def)
qed

inductive sized_reachable :: "fc_env \<Rightarrow> fc_db \<Rightarrow> bool" for E where
  New: "sized_reachable E (fc_new w)"
| Event: "sized_reachable E S \<Longrightarrow> sized_event E S ev \<Longrightarrow> sized_reachable E (snd (apply_event E ev S))"

lemma sized_reachable_sizes:
  assumes "sized_reachable E S" "hash_ok E"
  shows "fc_inv E S \<and> sizes_ok S"
  using assms
proof (induction rule: sized_reachable.induct)
  case (New w)
  then show ?case by (simp add: fc_inv_new) (simp add: fc_new_def sizes_off_def)
next
  case (Event S ev)
  then have "event_ok E S ev" by (simp add: sized_event_def)
  then show ?case
    using Event apply_event_inv [of E S ev "fst (apply_event E ev S)" "snd (apply_event E ev S)"]
      apply_event_sizes [of E S ev "fst (apply_event E ev S)" "snd (apply_event E ev S)"] by simp
qed

end
