(* ===== verification/Filecache_Props.thy ===== *)
theory Filecache_Props
  imports Filecache_Sizes
begin

text \<open>
  The properties of the file cache: the shape of the tree, recursive sizes, when an event is
  refused, what a lookup returns after a write, and the events that break the sizes or the
  paths.
\<close>

section \<open>When a write is applied\<close>

lemma row_at_None_iff: "row_at E k p rows = None \<longleftrightarrow> (\<forall>r \<in> set rows. \<not> (fr_storage r = k \<and> fr_hash r = path_hash E p))"
  by (simp add: row_at_def sql_first_None_iff)

lemma row_at_skel:
  assumes "map skel rows' = map skel rows"
  shows "row_at E k p rows' = None \<longleftrightarrow> row_at E k p rows = None"
proof -
  have mono: "row_at E k p b = None" if m: "map skel b = map skel a" and none: "row_at E k p a = None" for a b
    unfolding row_at_None_iff
  proof
    fix r assume "r \<in> set b"
    from skel_mem [OF m this] obtain r' where "r' \<in> set a" "skel r' = skel r" by blast
    then show "\<not> (fr_storage r = k \<and> fr_hash r = path_hash E p)"
      using none unfolding row_at_None_iff skel_def by auto
  qed
  show ?thesis using mono [OF assms] mono [OF assms [symmetric]] by blast
qed

lemma parent_cached:
  assumes "hash_ok E" "rows_ok E n rows" "r \<in> set rows" "storage_parent (fpath r) = Some q"
  shows "is_root q \<or> (\<exists>r'. row_at E (fr_storage r) q rows = Some r' \<and> fr_parent r = Some (fr_id r'))"
proof (cases "fr_parent r")
  case None
  then show ?thesis using rows_okD(5) [OF assms(2,3)] assms(4)
    by (auto simp: parent_ok_def is_root_def storage_root_def)
next
  case (Some i)
  then obtain q' where "(i, fr_storage r, as_str q') \<in> row_key ` set rows" "storage_parent (fpath r) = Some q'"
    using rows_okD(5) [OF assms(2,3)] by (auto simp: parent_ok_def)
  then obtain r' where r': "r' \<in> set rows" "fr_id r' = i" "fr_storage r' = fr_storage r" "fr_path r' = as_str q"
    using assms(4) by (auto simp: row_key_def)
  then have "row_at E (fr_storage r) q rows = Some r'" using row_at_iff [OF assms(1,2)] by simp
  then show ?thesis using Some r'(2) by blast
qed

text \<open>The walk reaches the root once its first ancestor is cached.\<close>

lemma propagate_succeeds:
  assumes "hash_ok E" "rows_ok E n (fd_rows S)"
    "\<forall>q. x = Some q \<longrightarrow> is_root q \<or> row_at E k q (fd_rows S) \<noteq> None"
  shows "fst (propagate_ancestors E k d mt x S) = Inr ()"
  using assms
proof (induction E k d mt x S rule: propagate_ancestors.induct)
  case (1 E k d mt S)
  then show ?case by (simp add: propagate_ancestors.simps)
next
  case (2 E k d mt anc S)
  show ?case
  proof (cases "row_at E k anc (fd_rows S)")
    case None
    then show ?thesis using 2(4) by (simp add: propagate_ancestors.simps)
  next
    case (Some r)
    obtain et w where ew: "etag_new (fd_world S) = (et, w)" by fastforce
    let ?f = "\<lambda>r. r\<lparr>fr_size := fr_size r + d, fr_etag := etag_str et, fr_mtime := bind32 (fe_dialect E) mt\<rparr>"
    let ?S = "update_row (fr_id r) ?f (S\<lparr>fd_world := w\<rparr>)"
    have skel: "map skel (fd_rows ?S) = map skel (fd_rows S)"
      using map_update_skel [of ?f "fr_id r" "S\<lparr>fd_world := w\<rparr>"] by (simp add: skel_def update_row_def)
    have r: "r \<in> set (fd_rows S)" "fr_storage r = k" "fpath r = anc" using row_at_iff [OF 2(2,3)] Some by auto
    have up: "\<forall>q. storage_parent anc = Some q \<longrightarrow> is_root q \<or> row_at E k q (fd_rows ?S) \<noteq> None"
      using parent_cached [OF 2(2,3) r(1)] r row_at_skel [OF skel] by auto
    show ?thesis
    proof (cases "is_root anc")
      case True
      then show ?thesis using Some ew by (simp add: propagate_ancestors.simps Let_def)
    next
      case False
      then show ?thesis
        using 2(1) [OF Some ew [symmetric] refl refl False 2(2) rows_ok_skel [OF 2(3) skel] up] Some ew
        by (simp add: propagate_ancestors.simps Let_def)
    qed
  qed
qed

lemma upsert_keeps_cached:
  assumes "upsert_leaf E k p x S = (old, S')" "row_at E k' q (fd_rows S) \<noteq> None"
  shows "row_at E k' q (fd_rows S') \<noteq> None"
proof -
  obtain r where r: "r \<in> set (fd_rows S)" "fr_storage r = k'" "fr_hash r = path_hash E q"
    using assms(2) unfolding row_at_None_iff by blast
  have "\<exists>r' \<in> set (fd_rows S'). fr_storage r' = k' \<and> fr_hash r' = path_hash E q"
  proof (cases "row_at E k p (fd_rows S)")
    case None
    then have "fd_rows S' = fd_rows S @ [last (fd_rows S')]"
      using assms(1) by (auto simp: upsert_leaf_def insert_row_def)
    then show ?thesis using r by (metis UnI1 set_append)
  next
    case (Some r0)
    let ?f = "\<lambda>q. if fr_id q = fr_id r0 then set_leaf p x q else q"
    have "fd_rows S' = map ?f (fd_rows S)"
      using assms(1) Some by (auto simp: upsert_leaf_def update_row_def sql_update_def)
    then have "?f r \<in> set (fd_rows S')" using r(1) by simp
    then show ?thesis using r(2,3) by (intro bexI [of _ "?f r"]) (simp_all add: set_leaf_def)
  qed
  then show ?thesis unfolding row_at_None_iff by blast
qed


definition written_mime :: "file_metadata \<Rightarrow> bool \<Rightarrow> string" where
  "written_mime md d = (if d then DIRECTORY_MIMETYPE else mime_str (md_mimetype md))"

definition written_leaf :: "fc_env \<Rightarrow> file_metadata \<Rightarrow> bool \<Rightarrow> int option \<Rightarrow> int \<Rightarrow> int \<Rightarrow> leaf" where
  "written_leaf E md d par mpk ppk =
     \<lparr>lf_parent = par, lf_mime = mpk, lf_part = ppk,
      lf_size = (if d then 0 else sint (word_of_nat (md_size md) :: i64)),
      lf_mtime = bind32 (fe_dialect E) (sys_to_unix (md_mtime md)),
      lf_stime = bind32 (fe_dialect E) (sys_to_unix (md_mtime md)),
      lf_etag = etag_str (md_etag md),
      lf_perms = bind32 (fe_dialect E) (ucast (perm_bits (md_permissions md)))\<rparr>"

text \<open>The steps of a write that is applied, and the outcome of every write.\<close>

lemma written_outcome:
  assumes E: "hash_ok E" and inv: "fc_inv E S" and p: "path_ok p"
  obtains k S3 mpk ppk where "k = fst (intern_storage sid S)" "fc_inv E S3" "fd_rows S3 = fd_rows S"
    "(k, sid) \<in> set (storages_of S3)" "(mpk, written_mime md d) \<in> set (fd_mimes S3)" "sizes_ok S \<Longrightarrow> sizes_ok S3"
    "case resolve_parent_fileid E k p S3 of
       Inl e \<Rightarrow> apply_written E sid p md d S = (Inl e, S3)
     | Inr par \<Rightarrow> \<exists>old S5 S6. upsert_leaf E k p (written_leaf E md d par mpk ppk) S3 = (old, S5) \<and>
         rows_ok E (fd_next S5) (fd_rows S5) \<and>
         propagate_ancestors E k (lf_size (written_leaf E md d par mpk ppk) - old) (sys_to_unix (md_mtime md))
           (storage_parent p) S5 = (Inr (), S6) \<and>
         apply_written E sid p md d S = (Inr (), S6)"
proof -
  obtain k S1 where 1: "intern_storage sid S = (k, S1)" by fastforce
  obtain mpk S2 where 2: "intern_mimetype (written_mime md d) S1 = (mpk, S2)" by fastforce
  obtain ppk S3 where 3: "intern_mimetype (type_half (written_mime md d)) S2 = (ppk, S3)" by fastforce
  note i1 = fc_inv_storage [OF inv 1]
  then have inv1: "fc_inv E S1" by blast
  note i2 = fc_inv_mime [OF inv1 2]
  then have inv2: "fc_inv E S2" by blast
  note i3 = fc_inv_mime [OF inv2 3]
  have inv3: "fc_inv E S3" and rows: "fd_rows S3 = fd_rows S" using i1 i2 i3 by auto
  have ok: "rows_ok E (fd_next S3) (fd_rows S3)" by (rule fc_invD(1) [OF inv3])
  have st: "(k, sid) \<in> set (storages_of S3)"
    using intern_storage_ok [OF fc_invD(2) [OF inv] 1] i2 i3 by simp
  have mime: "(mpk, written_mime md d) \<in> set (fd_mimes S3)"
    using intern_mimetype_ok [OF fc_invD(2) [OF inv1] 2] intern_mimetype_ok [OF fc_invD(2) [OF inv2] 3] by blast
  have out: "case resolve_parent_fileid E k p S3 of
       Inl e \<Rightarrow> apply_written E sid p md d S = (Inl e, S3)
     | Inr par \<Rightarrow> \<exists>old S5 S6. upsert_leaf E k p (written_leaf E md d par mpk ppk) S3 = (old, S5) \<and>
         rows_ok E (fd_next S5) (fd_rows S5) \<and>
         propagate_ancestors E k (lf_size (written_leaf E md d par mpk ppk) - old) (sys_to_unix (md_mtime md))
           (storage_parent p) S5 = (Inr (), S6) \<and>
         apply_written E sid p md d S = (Inr (), S6)"
  proof (cases "resolve_parent_fileid E k p S3")
    case (Inl e)
    then show ?thesis using 1 2 3 unfolding apply_written_def written_mime_def Let_def by simp
  next
    case (Inr par)
    let ?x = "written_leaf E md d par mpk ppk"
    obtain old S5 where up: "upsert_leaf E k p ?x S3 = (old, S5)" by fastforce
    have "parent_ok (row_key ` set (fd_rows S3)) k p (lf_parent ?x)"
      using resolve_parent_ok [OF E ok Inr] by (simp add: written_leaf_def)
    note ok5 = upsert_leaf_ok [OF E ok p this up]
    have "\<forall>q. storage_parent p = Some q \<longrightarrow> is_root q \<or> row_at E k q (fd_rows S5) \<noteq> None"
      using Inr upsert_keeps_cached [OF up] by (auto simp: resolve_parent_fileid_def split: option.splits if_splits)
    from propagate_succeeds [OF E ok5 this] obtain S6 where
      run: "propagate_ancestors E k (lf_size ?x - old) (sys_to_unix (md_mtime md)) (storage_parent p) S5 = (Inr (), S6)"
      by (metis prod.collapse)
    have "apply_written E sid p md d S = (Inr (), S6)"
      using 1 2 3 Inr up run unfolding apply_written_def written_mime_def written_leaf_def Let_def
      by (simp add: transact_def)
    then show ?thesis using Inr up ok5 run by auto
  qed
  have sizes: "sizes_ok S3" if s: "sizes_ok S"
    by (rule intern_mimetype_sizes [OF inv2 3 intern_mimetype_sizes [OF inv1 2 intern_storage_sizes [OF inv 1 s]]])
  show ?thesis by (rule that [OF _ inv3 rows st mime sizes out]) (simp_all add: 1)
qed


text \<open>The walk changes rows of ancestors only, which have shorter paths.\<close>

lemma propagate_keeps_longer:
  assumes "propagate_ancestors E k d mt x S = (res, S')" "hash_ok E" "rows_ok E n (fd_rows S)"
    "r \<in> set (fd_rows S)" "\<forall>q. x = Some q \<longrightarrow> length (as_str q) < length (fr_path r)"
  shows "r \<in> set (fd_rows S')"
  using assms
proof (induction E k d mt x S arbitrary: S' rule: propagate_ancestors.induct)
  case (1 E k d mt S)
  then show ?case by (simp add: propagate_ancestors.simps)
next
  case (2 E k d mt anc S)
  show ?case
  proof (cases "row_at E k anc (fd_rows S)")
    case None
    then show ?thesis using 2(2,5) by (simp add: propagate_ancestors.simps split: if_splits)
  next
    case (Some a)
    obtain et w where ew: "etag_new (fd_world S) = (et, w)" by fastforce
    let ?f = "\<lambda>r. r\<lparr>fr_size := fr_size r + d, fr_etag := etag_str et, fr_mtime := bind32 (fe_dialect E) mt\<rparr>"
    let ?S = "update_row (fr_id a) ?f (S\<lparr>fd_world := w\<rparr>)"
    have skel: "map skel (fd_rows ?S) = map skel (fd_rows S)"
      using map_update_skel [of ?f "fr_id a" "S\<lparr>fd_world := w\<rparr>"] by (simp add: skel_def update_row_def)
    have a: "a \<in> set (fd_rows S)" "fr_path a = as_str anc" using row_at_iff [OF 2(3,4)] Some by auto
    then have "fr_id r \<noteq> fr_id a"
      using id_unique [OF rows_okD(1) [OF 2(4)] 2(5) a(1)] 2(6) by auto
    then have r: "r \<in> set (fd_rows ?S)" using 2(5) by (force simp: update_row_def sql_update_def)
    have len: "\<forall>q. storage_parent anc = Some q \<longrightarrow> length (as_str q) < length (fr_path r)"
      using 2(6) storage_parent_shorter [of anc] by fastforce
    show ?thesis
    proof (cases "is_root anc")
      case True
      then have "S' = ?S" using 2(2) Some ew by (simp add: propagate_ancestors.simps Let_def)
      then show ?thesis using r by simp
    next
      case False
      then have "propagate_ancestors E k d mt (storage_parent anc) ?S = (res, S')"
        using 2(2) Some ew by (simp add: propagate_ancestors.simps Let_def)
      then show ?thesis by (rule 2(1) [OF Some ew [symmetric] refl refl False _ 2(3) rows_ok_skel [OF 2(4) skel] r len])
    qed
  qed
qed

lemma upsert_written_row:
  assumes "hash_ok E" "rows_ok E n (fd_rows S)" "upsert_leaf E k p x S = (old, S')"
  shows "\<exists>r \<in> set (fd_rows S'). fr_storage r = k \<and> fr_path r = as_str p \<and> fr_mime r = lf_mime x \<and>
    fr_size r = lf_size x \<and> fr_mtime r = lf_mtime x \<and> fr_etag r = lf_etag x \<and> fr_perms r = lf_perms x"
proof (cases "row_at E k p (fd_rows S)")
  case None
  then show ?thesis using assms(3) by (auto simp: upsert_leaf_def insert_row_def)
next
  case (Some r)
  then have r: "r \<in> set (fd_rows S)" "fr_storage r = k" "fr_path r = as_str p"
    using row_at_iff [OF assms(1,2)] by auto
  have "set_leaf p x r \<in> set (fd_rows S')"
    using assms(3) Some r(1) by (force simp: upsert_leaf_def update_row_def sql_update_def)
  then show ?thesis using r by (intro bexI [of _ "set_leaf p x r"]) (simp_all add: set_leaf_def)
qed

lemma storage_name_known:
  assumes "intern_ok S" "(k, sid) \<in> set (storages_of S)"
  shows "storage_name S k' = Some sid \<longleftrightarrow> k' = k"
proof -
  have ok: "table_ok (storages_of S) (fd_storage_ids S)" using assms(1) by (simp add: intern_ok_def)
  have name: "storage_name S j = Some s \<Longrightarrow> (j, s) \<in> set (storages_of S)" for j s
    by (auto simp: storage_name_def dest!: sql_first_Some) force
  have "storage_name S k \<noteq> None" using assms(2) by (auto simp: storage_name_def sql_first_None_iff)
  then obtain s where s: "storage_name S k = Some s" by auto
  then have "s = sid" using table_ok_unique(1) [OF ok assms(2)] name by blast
  then show ?thesis using s name [of k' sid] table_ok_unique(2) [OF ok assms(2)] by blast
qed

lemma mime_name_known:
  assumes "intern_ok S" "(k, m) \<in> set (fd_mimes S)"
  shows "mime_name S k = Some m"
proof -
  have ok: "table_ok (fd_mimes S) (fd_mime_ids S)" using assms(1) by (simp add: intern_ok_def)
  have "mime_name S k \<noteq> None" using assms(2) by (auto simp: mime_name_def sql_first_None_iff)
  then obtain s where s: "mime_name S k = Some s" by auto
  then have "(k, s) \<in> set (fd_mimes S)" by (auto simp: mime_name_def dest!: sql_first_Some)
  then show ?thesis using s table_ok_unique(1) [OF ok assms(2)] by blast
qed

text \<open>A lookup of a cached path finds its row and the joined strings.\<close>

lemma lookup_row_at:
  assumes "hash_ok E" "fc_inv E S" "r \<in> set (fd_rows S)" "(fr_storage r, sid) \<in> set (storages_of S)"
    "(fr_mime r, m) \<in> set (fd_mimes S)"
  shows "lookup_row E sid (fpath r) S = opt_row E (Some
    \<lparr>rw_id = fr_id r, rw_storage_id = sid, rw_path = fr_path r, rw_parent = fr_parent r,
     rw_name = fr_name r, rw_mime = m, rw_size = fr_size r, rw_mtime = fr_mtime r,
     rw_stime = fr_stime r, rw_etag = fr_etag r, rw_perms = fr_perms r\<rparr>)"
proof -
  have ok: "rows_ok E (fd_next S) (fd_rows S)" "intern_ok S" using fc_invD [OF assms(2)] by auto
  have name: "storage_name S k = Some sid \<longleftrightarrow> k = fr_storage r" for k by (rule storage_name_known [OF ok(2) assms(4)])
  have "sql_first (\<lambda>a. storage_name S (fr_storage a) = Some sid \<and> fr_hash a = path_hash E (fpath r)) (fd_rows S) = Some r"
    using row_at_iff [OF assms(1) ok(1), of "fr_storage r" "fpath r" r] assms(3) unfolding name row_at_def by simp
  then show ?thesis
    using name [of "fr_storage r"] mime_name_known [OF ok(2) assms(5)] by (simp add: lookup_row_def join_row_def)
qed


lemma bind32_small: "n < 2 ^ 31 \<Longrightarrow> bind32 d (word_of_nat n) = word_of_nat n"
proof -
  assume n: "n < 2 ^ 31"
  then have "(ucast (word_of_nat n :: i64) :: u32) = word_of_nat n"
    by (simp add: unsigned_of_nat take_bit_nat_eq_self)
  moreover have "ucast (word_of_nat n :: u32) = (word_of_nat n :: i64)"
    using n by (simp add: unsigned_of_nat take_bit_nat_eq_self)
  moreover have "signed_take_bit 31 (int n) = int n" using n by (simp add: signed_take_bit_int_eq_self_iff)
  then have "scast (word_of_nat n :: u32) = (word_of_nat n :: i64)"
    by (simp add: signed_of_nat)
  ultimately show ?thesis by (cases d) (simp_all add: bind32_def)
qed

lemma bind32_byte: "ucast (bind32 d (ucast (b :: u8) :: i64)) = b"
proof -
  have "(ucast b :: i64) = word_of_nat (unat b)" by simp
  moreover have "unat b < 256" using unsigned_less [of b] by simp
  then have "unat b < 2 ^ 31" by simp
  ultimately have "bind32 d (ucast b :: i64) = ucast b" using bind32_small [of "unat b" d] by simp
  moreover have "ucast (ucast b :: i64) = b" by transfer simp
  ultimately show ?thesis by simp
qed

section \<open>What a move rewrites\<close>

lemma rewrite_rows_long:
  "rewrite_rows E k from to snap S =
     rewrite_rows E k from to (filter (\<lambda>x. length (from_prefix from) \<le> length (snd x)) snap) S"
  by (induction E k "from" to snap S rule: rewrite_rows.induct) (auto simp: Let_def split: sum.splits)

lemma rewrite_matches:
  assumes "rewrite_descendant_paths E k from to S = (Inr (), S')" "distinct (map fr_id (fd_rows S))"
    "r \<in> set (fd_rows S)" "fr_storage r = k" "like_on (fe_dialect E) (from_prefix from @ ''%'') (fr_path r)"
    "length (from_prefix from) \<le> length (fr_path r)"
  shows "\<exists>r' \<in> set (fd_rows S'). fr_id r' = fr_id r \<and> fr_parent r' = fr_parent r \<and>
    fr_path r' = rewritten_path from to (fr_path r)"
proof -
  let ?P = "\<lambda>r. (fr_storage r = k \<and> like_on (fe_dialect E) (from_prefix from @ ''%'') (fr_path r)) \<and>
    length (from_prefix from) \<le> length (fr_path r)"
  let ?snap = "map (\<lambda>r. (fr_id r, fr_path r)) (filter ?P (fd_rows S))"
  have run: "rewrite_rows E k from to ?snap S = (Inr (), S')"
    using assms(1) unfolding rewrite_descendant_paths_def
    by (subst (asm) rewrite_rows_long) (simp add: filter_map comp_def conj_commute)
  have "distinct (map fst ?snap)" using assms(2) by (simp add: comp_def distinct_map_filter)
  note rr = rewrite_rows_map [OF run this, THEN conjunct1]
  have snap: "map_of ?snap (fr_id r) = Some (fr_path r)"
    unfolding map_of_snapshot [OF assms(2,3)] using assms(4-6) by simp
  let ?g = "\<lambda>r. case map_of ?snap (fr_id r) of None \<Rightarrow> r
      | Some old \<Rightarrow> r\<lparr>fr_path := rewritten_path from to old,
                     fr_hash := path_hash E (projr (storage_path_new (rewritten_path from to old)))\<rparr>"
  have "fd_rows S' = map ?g (fd_rows S)" by (rule rr) auto
  then have "?g r \<in> set (fd_rows S')" using assms(3) by simp
  then show ?thesis unfolding snap by (intro bexI) auto
qed

lemma moved_run:
  assumes "apply_event E (Moved sid from to) S = (Inr (), S')"
    "intern_storage sid S = (k, S1)" "resolve_parent_fileid E k to S1 = Inr par" "unix_now S1 = (t, S2)"
  obtains a S3 where "row_at E k from (fd_rows S2) = Some a"
    "rewrite_descendant_paths E k from to (update_row (fr_id a) (\<lambda>r. r\<lparr>fr_path := as_str to,
       fr_hash := path_hash E to, fr_parent := par, fr_name := storage_basename to\<rparr>) S2) = (Inr (), S3)"
    "map skel (fd_rows S') = map skel (fd_rows S3)"
proof -
  let ?leaf = "\<lambda>r. r\<lparr>fr_path := as_str to, fr_hash := path_hash E to, fr_parent := par, fr_name := storage_basename to\<rparr>"
  obtain a where a: "row_at E k from (fd_rows S2) = Some a"
    using assms by (auto simp: apply_event_def apply_moved_def transact_def split: option.splits)
  let ?walk = "\<lambda>_. if storage_parent from \<noteq> storage_parent to
                          then ebind (propagate_ancestors E k (- fr_size a) t (storage_parent from)) (\<lambda>_.
                               propagate_ancestors E k (fr_size a) t (storage_parent to))
                          else propagate_ancestors E k 0 t (storage_parent to)"
  have "ebind (rewrite_descendant_paths E k from to) ?walk (update_row (fr_id a) ?leaf S2) = (Inr (), S')"
    using assms a by (simp add: apply_event_def apply_moved_def transact_def split: if_splits sum.splits prod.splits)
  from this [unfolded ebind_eq_Inr] obtain x S3 where S3: "rewrite_descendant_paths E k from to (update_row (fr_id a) ?leaf S2) = (Inr x, S3)"
    "?walk x S3 = (Inr (), S')" by blast
  have "map skel (fd_rows S') = map skel (fd_rows S3)"
    using S3(2) by (auto simp: ebind_eq_Inr split: if_splits dest!: propagate_skel)
  then show ?thesis using that a S3(1) by simp
qed

section \<open>Properties\<close>

text \<open>A concrete cache, for the witnesses.\<close>

definition sample_fc_env :: fc_env where
  "sample_fc_env = \<lparr>fe_dialect = Postgres, fe_md5 = (\<lambda>s. s), fe_lower = (\<lambda>s. s)\<rparr>"

definition sample_md :: "file_kind \<Rightarrow> nat \<Rightarrow> file_metadata" where
  "sample_md kd n = \<lparr>md_path = storage_root, md_kind = kd, md_size = n, md_mtime = 0, md_etag = ETag (replicate 40 (CHR ''0'')),
     md_mimetype = (if kd = KFile then Mimetype ''text/plain'' else octet_stream), md_permissions = permissions_full\<rparr>"

fun apply_events :: "fc_env \<Rightarrow> storage_event list \<Rightarrow> fc_db \<Rightarrow> fc_db" where
  "apply_events E [] S = S"
| "apply_events E (ev # evs) S = apply_events E evs (snd (apply_event E ev S))"

definition sample_events :: "storage_event list" where
  "sample_events =
    [DirCreated ''home'' storage_root (sample_md KDirectory 0),
     DirCreated ''home'' (StoragePath ''a_b'') (sample_md KDirectory 0),
     DirCreated ''home'' (StoragePath ''axb'') (sample_md KDirectory 0),
     Written ''home'' (StoragePath ''axb/f'') (sample_md KFile 3)]"

definition sample_cache :: fc_db where
  "sample_cache = apply_events sample_fc_env sample_events (fc_new sample_world)"

lemma sample_hash_ok: "hash_ok sample_fc_env"
  by (simp add: hash_ok_def sample_fc_env_def inj_def)

lemma sample_paths: "path_ok storage_root" "path_ok (StoragePath ''a_b'')" "path_ok (StoragePath ''axb'')"
  "path_ok (StoragePath ''axb/f'')" "path_ok (StoragePath ''c'')"
  by (simp_all add: path_ok_def segs_def good_segment_def MAX_PATH_LEN_def storage_root_def Let_def)

lemma sample_sized: "sized_reachable sample_fc_env sample_cache"
proof -
  have ev: "sized_event sample_fc_env S ev" if "case ev of Written sid p md \<Rightarrow> path_ok p \<and> mime_str (md_mimetype md) \<noteq> DIRECTORY_MIMETYPE
      | DirCreated sid p md \<Rightarrow> path_ok p \<and> children_size (fd_rows S) (fst (intern_storage sid S)) p = 0 | _ \<Rightarrow> False" for S ev
    using that by (simp add: sized_event_def event_ok_def split: storage_event.splits)
  let ?S = "\<lambda>n. apply_events sample_fc_env (take n sample_events) (fc_new sample_world)"
  have "children_size (fd_rows (?S 0)) (fst (intern_storage ''home'' (?S 0))) storage_root = 0"
    "children_size (fd_rows (?S 1)) (fst (intern_storage ''home'' (?S 1))) (StoragePath ''a_b'') = 0"
    "children_size (fd_rows (?S 2)) (fst (intern_storage ''home'' (?S 2))) (StoragePath ''axb'') = 0"
    by code_simp+
  then show ?thesis
    unfolding sample_cache_def sample_events_def apply_events.simps
    by (intro sized_reachable.intros ev)
      (simp_all add: sample_paths sample_md_def DIRECTORY_MIMETYPE_def sample_events_def)
qed

lemma sized_is_reachable: "sized_reachable E S \<Longrightarrow> fc_reachable E S"
  by (induction rule: sized_reachable.induct) (auto intro: fc_reachable.intros simp: sized_event_def)






text \<open>
  A write or a new directory is refused exactly when its parent is not the root and not
  cached, with the missing path in the error, and the rows are then as before.
\<close>

theorem written_fails_iff:
  assumes "fc_reachable E S" "hash_ok E" "path_ok p"
  shows "fst (apply_written E sid p md d S) =
    (case storage_parent p of
       None \<Rightarrow> Inr ()
     | Some q \<Rightarrow> if is_root q \<or> row_at E (fst (intern_storage sid S)) q (fd_rows S) \<noteq> None then Inr ()
                 else Inl (FcAncestorMissing q)) \<and>
    (isl (fst (apply_written E sid p md d S)) \<longrightarrow> fd_rows (snd (apply_written E sid p md d S)) = fd_rows S)"
  by (rule written_outcome [OF assms(2) fc_reachable_inv [OF assms(1,2)] assms(3), of sid md d])
    (auto simp: resolve_parent_fileid_def split: option.splits if_splits)

theorem written_fails_iff_witness:
  "fst (apply_written sample_fc_env ''home'' (StoragePath ''x/y'') (sample_md KFile 1) False sample_cache) =
     Inl (FcAncestorMissing (StoragePath ''x''))"
proof -
  have "path_ok (StoragePath ''x/y'')"
    by (simp add: path_ok_def segs_def good_segment_def MAX_PATH_LEN_def Let_def)
  note w = written_fails_iff [OF sized_is_reachable [OF sample_sized] sample_hash_ok this, of "''home''" "sample_md KFile 1" False]
  have "storage_parent (StoragePath ''x/y'') = Some (StoragePath ''x'')" by code_simp
  moreover have "\<not> is_root (StoragePath ''x'')" by code_simp
  moreover have "Option.is_none (row_at sample_fc_env (fst (intern_storage ''home'' sample_cache)) (StoragePath ''x'') (fd_rows sample_cache))"
    by code_simp
  ultimately show ?thesis using w by (simp add: Option.is_none_def)
qed

text \<open>
  C11. What a lookup of a path returns after a write of a file there: the metadata that was
  written, with whole seconds and the known permission bits, on every database, for sizes below
  2 to the 64 and times before 2038.
\<close>

theorem written_lookup:
  assumes "fc_reachable E S" "hash_ok E" "path_ok p"
    and "apply_event E (Written sid p md) S = (Inr (), S')"
    and "etag_from_hex (etag_str (md_etag md)) = Inr (md_etag md)"
    and "mimetype_parse (fe_lower E) (mime_str (md_mimetype md)) = Inr (md_mimetype md)"
    and "\<not> starts_with (mime_str (md_mimetype md)) DIRECTORY_MIMETYPE"
    and "md_size md < 2 ^ 64" "md_mtime md div 10 ^ 9 < 2 ^ 31"
  shows "\<exists>row. lookup_row E sid p S' = Inr (Some row) \<and>
    row_to_metadata row = md\<lparr>md_path := p, md_kind := KFile, md_mtime := md_mtime md div 10 ^ 9 * 10 ^ 9,
      md_permissions := permissions_new (perm_bits (md_permissions md))\<rparr>"
proof -
  have E: "hash_ok E" and inv: "fc_inv E S" using assms(2) fc_reachable_inv [OF assms(1,2)] by auto
  have run: "apply_written E sid p md False S = (Inr (), S')" using assms(4) by (simp add: apply_event_def)
  obtain k S3 mpk ppk where st: "(k, sid) \<in> set (storages_of S3)"
    and mime: "(mpk, written_mime md False) \<in> set (fd_mimes S3)" and inv3: "fc_inv E S3"
    and out: "case resolve_parent_fileid E k p S3 of
       Inl e \<Rightarrow> apply_written E sid p md False S = (Inl e, S3)
     | Inr par \<Rightarrow> \<exists>old S5 S6. upsert_leaf E k p (written_leaf E md False par mpk ppk) S3 = (old, S5) \<and>
         rows_ok E (fd_next S5) (fd_rows S5) \<and>
         propagate_ancestors E k (lf_size (written_leaf E md False par mpk ppk) - old) (sys_to_unix (md_mtime md))
           (storage_parent p) S5 = (Inr (), S6) \<and>
         apply_written E sid p md False S = (Inr (), S6)"
    by (rule written_outcome [OF E inv assms(3), of sid md False])
  obtain par old S5 where up: "upsert_leaf E k p (written_leaf E md False par mpk ppk) S3 = (old, S5)"
    and ok5: "rows_ok E (fd_next S5) (fd_rows S5)"
    and walk: "propagate_ancestors E k (lf_size (written_leaf E md False par mpk ppk) - old)
        (sys_to_unix (md_mtime md)) (storage_parent p) S5 = (Inr (), S')"
    using out run by (auto split: sum.splits)
  have mime: "(mpk, mime_str (md_mimetype md)) \<in> set (fd_mimes S3)" using mime by (simp add: written_mime_def)
  let ?x = "written_leaf E md False par mpk ppk"
  have mpk: "lf_mime ?x = mpk" by (simp add: written_leaf_def)
  obtain r where r: "r \<in> set (fd_rows S5)" "fr_storage r = k" "fr_path r = as_str p"
    "fr_mime r = mpk" "fr_size r = lf_size ?x" "fr_mtime r = lf_mtime ?x" "fr_etag r = lf_etag ?x" "fr_perms r = lf_perms ?x"
    using upsert_written_row [OF E fc_invD(1) [OF inv3] up] unfolding mpk by blast
  have keep: "r \<in> set (fd_rows S')"
    using propagate_keeps_longer [OF walk E ok5 r(1)] storage_parent_shorter [of p] r(3) by simp
  have inv': "fc_inv E S'" using apply_written_inv [OF E inv assms(3) run] .
  have tabs: "fd_mimes S' = fd_mimes S3" "fd_storages S' = fd_storages S3"
    using propagate_skel [OF walk] up by (auto simp: upsert_leaf_def insert_row_def update_row_def split: option.splits)
  have secs: "unat (bind32 (fe_dialect E) (sys_to_unix (md_mtime md))) = md_mtime md div 10 ^ 9"
    unfolding sys_to_unix_def bind32_small [OF assms(9)] using assms(9) by (simp add: unsigned_of_nat take_bit_nat_eq_self)
  have size: "unat (word_of_nat (md_size md) :: i64) = md_size md"
    using assms(8) by (simp add: unsigned_of_nat take_bit_nat_eq_self)
  have "lookup_row E sid (fpath r) S' = opt_row E (Some
    \<lparr>rw_id = fr_id r, rw_storage_id = sid, rw_path = fr_path r, rw_parent = fr_parent r,
     rw_name = fr_name r, rw_mime = mime_str (md_mimetype md), rw_size = fr_size r, rw_mtime = fr_mtime r,
     rw_stime = fr_stime r, rw_etag = fr_etag r, rw_perms = fr_perms r\<rparr>)"
    by (rule lookup_row_at [OF E inv' keep]) (use r st mime tabs in simp_all)
  then show ?thesis
    using r assms(5,6,7) secs size assms(3) [folded storage_path_new_iff]
    by (cases md) (simp add: opt_row_def into_row_def row_to_metadata_def written_leaf_def bind32_byte)
qed


theorem written_lookup_witness:
  "\<exists>row. lookup_row sample_fc_env ''home'' (StoragePath ''axb/f'')
      (snd (apply_event sample_fc_env (Written ''home'' (StoragePath ''axb/f'') (sample_md KFile 7)) sample_cache)) = Inr (Some row) \<and>
    md_size (row_to_metadata row) = 7"
proof -
  let ?ev = "Written ''home'' (StoragePath ''axb/f'') (sample_md KFile 7)"
  have "fst (apply_event sample_fc_env ?ev sample_cache) = Inr ()" by code_simp
  then have run: "apply_event sample_fc_env ?ev sample_cache = (Inr (), snd (apply_event sample_fc_env ?ev sample_cache))"
    by (metis prod.collapse)
  have "etag_from_hex (etag_str (md_etag (sample_md KFile 7))) = Inr (md_etag (sample_md KFile 7))"
    "mimetype_parse (fe_lower sample_fc_env) (mime_str (md_mimetype (sample_md KFile 7))) = Inr (md_mimetype (sample_md KFile 7))"
    "\<not> starts_with (mime_str (md_mimetype (sample_md KFile 7))) DIRECTORY_MIMETYPE"
    by code_simp+
  from written_lookup [OF sized_is_reachable [OF sample_sized] sample_hash_ok sample_paths(4) run this]
  show ?thesis by (auto simp: sample_md_def)
qed

text \<open>
  The move rewrites every row its \<open>LIKE\<close> pattern matches, also rows that are not below the
  source: an underscore or a percent sign in the source's name is a wildcard, and SQLite ignores
  case. The matched row gets a path below the target, made from the tail of its old one.
\<close>

theorem move_rewrites_matches:
  assumes "apply_event E (Moved sid from to) S = (Inr (), S')" "fc_reachable E S" "hash_ok E"
    and "r \<in> set (fd_rows S)" "fr_storage r = fst (intern_storage sid S)" "fpath r \<noteq> from"
    and "like_on (fe_dialect E) (from_prefix from @ ''%'') (fr_path r)"
    and "length (from_prefix from) \<le> length (fr_path r)"
  shows "\<exists>r' \<in> set (fd_rows S'). fr_id r' = fr_id r \<and> fr_parent r' = fr_parent r \<and>
    fr_path r' = rewritten_path from to (fr_path r)"
proof -
  have inv: "fc_inv E S" by (rule fc_reachable_inv [OF assms(2,3)])
  obtain k S1 where 1: "intern_storage sid S = (k, S1)" by fastforce
  have rows1: "fd_rows S1 = fd_rows S" and ok1: "rows_ok E (fd_next S1) (fd_rows S1)"
    using fc_inv_storage [OF inv 1] fc_invD(1) [of E S1] by auto
  obtain par where par: "resolve_parent_fileid E k to S1 = Inr par"
    using assms(1) 1 by (auto simp: apply_event_def apply_moved_def split: sum.splits)
  obtain t S2 where 2: "unix_now S1 = (t, S2)" by fastforce
  obtain w where S2: "S2 = S1\<lparr>fd_world := w\<rparr>" using unix_now_world [OF 2] by blast
  let ?leaf = "\<lambda>r. r\<lparr>fr_path := as_str to, fr_hash := path_hash E to, fr_parent := par, fr_name := storage_basename to\<rparr>"
  obtain a S3 where a: "row_at E k from (fd_rows S2) = Some a"
    and rw: "rewrite_descendant_paths E k from to (update_row (fr_id a) ?leaf S2) = (Inr (), S3)"
    and skel: "map skel (fd_rows S') = map skel (fd_rows S3)"
    by (rule moved_run [OF assms(1) 1 par 2])
  have "fpath a = from" "a \<in> set (fd_rows S)" using a row_at_iff [OF assms(3) ok1] S2 rows1 by auto
  then have ne: "fr_id r \<noteq> fr_id a" using id_unique [OF rows_okD(1) [OF fc_invD(1) [OF inv]] assms(4)] assms(6) by auto
  have mem: "r \<in> set (fd_rows (update_row (fr_id a) ?leaf S2))"
    using assms(4) ne S2 rows1 by (force simp: update_row_def sql_update_def)
  have dist: "distinct (map fr_id (fd_rows (update_row (fr_id a) ?leaf S2)))"
    using rows_okD(1) [OF ok1] S2 by (simp add: update_row_def sql_update_def comp_def if_distrib cong: if_cong)
  obtain r' where r': "r' \<in> set (fd_rows S3)" "fr_id r' = fr_id r" "fr_parent r' = fr_parent r"
    "fr_path r' = rewritten_path from to (fr_path r)"
    using rewrite_matches [OF rw dist mem _ assms(7,8)] assms(5) 1 by auto
  then show ?thesis using skel_mem [OF skel [symmetric] r'(1)] by (auto simp: skel_def)
qed


definition moved_sample :: fc_db where
  "moved_sample = snd (apply_event sample_fc_env (Moved ''home'' (StoragePath ''a_b'') (StoragePath ''c'')) sample_cache)"

text \<open>The file of the unrelated folder \<open>axb\<close> is listed below \<open>c\<close> while its parent is still \<open>axb\<close>.\<close>

theorem move_rewrites_matches_witness:
  "\<exists>r \<in> set (fd_rows moved_sample). fr_path r = ''c/f'' \<and>
     (\<exists>q \<in> set (fd_rows moved_sample). fr_parent r = Some (fr_id q) \<and> fr_path q = ''axb'')"
proof -
  let ?from = "StoragePath ''a_b''" and ?to = "StoragePath ''c''"
  have "fst (apply_event sample_fc_env (Moved ''home'' ?from ?to) sample_cache) = Inr ()" by code_simp
  then have run: "apply_event sample_fc_env (Moved ''home'' ?from ?to) sample_cache = (Inr (), moved_sample)"
    unfolding moved_sample_def by (metis prod.collapse)
  have "list_ex (\<lambda>r. fr_path r = ''axb/f'' \<and> fr_parent r = Some 3 \<and> fr_storage r = fst (intern_storage ''home'' sample_cache))
    (fd_rows sample_cache)" by code_simp
  then obtain r where r: "r \<in> set (fd_rows sample_cache)" "fr_path r = ''axb/f''" "fr_parent r = Some 3"
    "fr_storage r = fst (intern_storage ''home'' sample_cache)" by (auto simp: list_ex_iff)
  have like: "like_on (fe_dialect sample_fc_env) (from_prefix ?from @ ''%'') ''axb/f''"
    "length (from_prefix ?from) \<le> length ''axb/f''" "rewritten_path ?from ?to ''axb/f'' = ''c/f''" by code_simp+
  have "\<exists>r' \<in> set (fd_rows moved_sample). fr_id r' = fr_id r \<and> fr_parent r' = fr_parent r \<and>
    fr_path r' = rewritten_path ?from ?to (fr_path r)"
    using move_rewrites_matches [OF run sized_is_reachable [OF sample_sized] sample_hash_ok r(1,4)] r(2) like by simp
  then obtain r' where r': "r' \<in> set (fd_rows moved_sample)" "fr_path r' = ''c/f''" "fr_parent r' = Some 3"
    using r(2,3) like(3) by auto
  have "list_ex (\<lambda>q. fr_id q = 3 \<and> fr_path q = ''axb'') (fd_rows moved_sample)" by code_simp
  then obtain q where "q \<in> set (fd_rows moved_sample)" "fr_id q = 3" "fr_path q = ''axb''" by (auto simp: list_ex_iff)
  then show ?thesis using r' by metis
qed

text \<open>
  A directory that is announced when some of its children are cached already, as the scan
  does for the root after paths below it were looked up, is left with a size that does not count
  them: its size is reset to zero and nothing adds the children's sizes.
\<close>

theorem late_directory_drift:
  assumes "sized_reachable E S" "hash_ok E" "path_ok p"
    and "apply_event E (DirCreated sid p md) S = (Inr (), S')"
    and "children_size (fd_rows S) (fst (intern_storage sid S)) p = missing" "missing \<noteq> 0"
  shows "\<exists>r \<in> set (fd_rows S'). fr_storage r = fst (intern_storage sid S) \<and> fpath r = p \<and> dir_row S' r \<and>
    fr_size r + missing = children_size (fd_rows S') (fr_storage r) p"
proof -
  have inv: "fc_inv E S" and sizes: "sizes_ok S" using sized_reachable_sizes [OF assms(1,2)] by auto
  have run: "apply_written E sid p md True S = (Inr (), S')" using assms(4) by (simp add: apply_event_def)
  obtain k S3 mpk ppk where k: "k = fst (intern_storage sid S)" and rows3: "fd_rows S3 = fd_rows S"
    and mime: "(mpk, written_mime md True) \<in> set (fd_mimes S3)" and inv3: "fc_inv E S3"
    and sizes3: "sizes_ok S3"
    and out: "case resolve_parent_fileid E k p S3 of
       Inl e \<Rightarrow> apply_written E sid p md True S = (Inl e, S3)
     | Inr par \<Rightarrow> \<exists>old S5 S6. upsert_leaf E k p (written_leaf E md True par mpk ppk) S3 = (old, S5) \<and>
         rows_ok E (fd_next S5) (fd_rows S5) \<and>
         propagate_ancestors E k (lf_size (written_leaf E md True par mpk ppk) - old) (sys_to_unix (md_mtime md))
           (storage_parent p) S5 = (Inr (), S6) \<and>
         apply_written E sid p md True S = (Inr (), S6)"
    by (rule written_outcome [OF assms(2) inv assms(3), of sid md True]) (simp add: sizes)
  obtain par old S5 where up: "upsert_leaf E k p (written_leaf E md True par mpk ppk) S3 = (old, S5)"
    and ok5: "rows_ok E (fd_next S5) (fd_rows S5)"
    and walk: "propagate_ancestors E k (lf_size (written_leaf E md True par mpk ppk) - old)
        (sys_to_unix (md_mtime md)) (storage_parent p) S5 = (Inr (), S')"
    using out run by (auto split: sum.splits)
  let ?x = "written_leaf E md True par mpk ppk"
  have x: "lf_size ?x = 0" "lf_mime ?x = mpk" by (simp_all add: written_leaf_def)
  have miss: "children_size (fd_rows S3) k p = missing" using assms(5) k rows3 by simp
  have "sizes_off S5 (\<lambda>k' q. owe k (Some p) missing k' q + owe k (storage_parent p) (lf_size ?x - old) k' q)"
    using upsert_debt [OF assms(2) fc_invD(1) [OF inv3] sizes3 up] miss x by simp
  from propagate_sizes [OF walk assms(2) ok5 this] have off: "sizes_off S' (owe k (Some p) missing)" .
  obtain r where r: "r \<in> set (fd_rows S5)" "fr_storage r = k" "fr_path r = as_str p" "fr_mime r = mpk"
    using upsert_written_row [OF assms(2) fc_invD(1) [OF inv3] up] x(2) by auto
  have keep: "r \<in> set (fd_rows S')"
    using propagate_keeps_longer [OF walk assms(2) ok5 r(1)] storage_parent_shorter [of p] r(3) by simp
  have "fd_mimes S' = fd_mimes S3"
    using propagate_skel [OF walk] up by (auto simp: upsert_leaf_def insert_row_def update_row_def split: option.splits)
  then have dir: "dir_row S' r" using mime r(4) by (simp add: dir_row_def written_mime_def)
  then have "fr_size r + owe k (Some p) missing (fr_storage r) (fpath r) = children_size (fd_rows S') (fr_storage r) (fpath r)"
    using off keep by (simp add: sizes_off_def)
  then show ?thesis using r k keep dir by (intro bexI [of _ r]) (simp_all add: owe_def)
qed

definition late_cache :: fc_db where
  "late_cache = apply_events sample_fc_env [Written ''home'' (StoragePath ''f'') (sample_md KFile 3)] (fc_new sample_world)"

theorem late_directory_drift_witness:
  "\<exists>r \<in> set (fd_rows (snd (apply_event sample_fc_env (DirCreated ''home'' storage_root (sample_md KDirectory 0)) late_cache))).
     fpath r = storage_root \<and> fr_size r + 3 =
       children_size (fd_rows (snd (apply_event sample_fc_env (DirCreated ''home'' storage_root (sample_md KDirectory 0)) late_cache)))
         (fr_storage r) storage_root"
proof -
  let ?ev = "DirCreated ''home'' storage_root (sample_md KDirectory 0)"
  have path: "path_ok (StoragePath ''f'')"
    by (simp add: path_ok_def segs_def good_segment_def MAX_PATH_LEN_def Let_def)
  have reach: "sized_reachable sample_fc_env late_cache"
    unfolding late_cache_def apply_events.simps
    by (intro sized_reachable.intros) (simp add: sized_event_def event_ok_def path sample_md_def DIRECTORY_MIMETYPE_def)
  have "fst (apply_event sample_fc_env ?ev late_cache) = Inr ()" by code_simp
  then have run: "apply_event sample_fc_env ?ev late_cache = (Inr (), snd (apply_event sample_fc_env ?ev late_cache))"
    by (metis prod.collapse)
  have "children_size (fd_rows late_cache) (fst (intern_storage ''home'' late_cache)) storage_root = 3" by code_simp
  from late_directory_drift [OF reach sample_hash_ok sample_paths(1) run this] show ?thesis by auto
qed

end
