(* ===== verification/Filecache_Scan.thy ===== *)
theory Filecache_Scan
  imports Filecache_Props MemStorage_Correct
begin

text \<open>
  The full scan over the in-memory storage: the queue always runs empty, and a scan that does
  not fail has visited the root and every entry exactly once.
\<close>

section \<open>Looking up does not change the storage\<close>

lemma on_cache_fst: "fst (snd (on_cache act x)) = fst x"
  by (simp add: on_cache_def split: prod.splits)

lemma mem_ops_simps [simp]:
  "op_id mem_ops = ms_id" "op_stat mem_ops = mem_stat" "op_list mem_ops = mem_list"
  by (simp_all add: mem_ops_def)

lemma mem_stat_snd [simp]: "snd (mem_stat p st) = st"
  by (simp add: mem_stat_def)

lemma mem_list_snd [simp]: "snd (mem_list p st) = st"
  by (simp add: mem_list_def Let_def)

lemma populate_row_fst: "fst (snd (populate_row E ops p md x)) = fst x"
  by (simp add: populate_row_def Let_def ebind_def on_cache_def split: prod.splits sum.splits)

lemma fc_stat_fst: "fst (snd (fc_stat E mem_ops p x)) = fst x"
proof (induction "length (as_str p)" arbitrary: p x rule: less_induct)
  case less
  obtain s S where x: "x = (s, S)" by fastforce
  obtain r where stat: "mem_stat p s = (r, s)" by (simp add: mem_stat_def)
  show ?case
  proof (cases "lookup_row E (ms_id s) p S")
    case (Inr found)
    show ?thesis
    proof (cases "found = None \<and> \<not> isl r \<and> storage_parent p \<noteq> None \<and> \<not> is_root (the (storage_parent p))")
      case True
      then obtain md q where r: "r = Inr md" and q: "storage_parent p = Some q" by (auto simp: isl_def) (metis sum.exhaust)
      obtain res s' S' where up: "fc_stat E mem_ops q (s, S) = (res, s', S')" by (metis prod.collapse)
      then have "s' = s" using less [of q "(s, S)"] storage_parent_shorter [OF q] by simp
      then show ?thesis using True Inr x stat r q up populate_row_fst [of E mem_ops p md "(s', S')"]
        by (simp add: fc_stat.simps [of E mem_ops p] split: sum.splits)
    next
      case False
      then show ?thesis using Inr x stat populate_row_fst [of E mem_ops p _ "(s, S)"]
        by (auto simp: fc_stat.simps [of E mem_ops p] split: sum.splits option.splits)
    qed
  qed (simp add: fc_stat.simps [of E mem_ops p] x)
qed

lemma ensure_cached_fst: "fst (snd (ensure_cached E mem_ops p x)) = fst x"
proof -
  have stat: "mem_stat p (fst x) = (r, s) \<Longrightarrow> s = fst x" for r s by (simp add: mem_stat_def)
  show ?thesis
    using fc_stat_fst [of E p x]
    by (auto simp: ensure_cached_def Let_def ebind_def on_cache_fst split: sum.splits option.splits prod.splits storage_error.splits dest!: stat)
qed


section \<open>Children\<close>

definition mem_keys :: "mem_storage \<Rightarrow> storage_path set" where
  "mem_keys st = fst ` set (ms_entries st)"

definition mem_children :: "mem_storage \<Rightarrow> storage_path \<Rightarrow> storage_path set" where
  "mem_children st p = {k \<in> mem_keys st. \<exists>n. segs k = segs p @ [n]}"

lemma finite_mem_keys [simp]: "finite (mem_keys st)"
  by (simp add: mem_keys_def)

lemma mem_keys_entry:
  assumes "mem_wf st"
  shows "k \<in> mem_keys st \<longleftrightarrow> entry_at st k \<noteq> None"
  using bt_get_None_iff [of "ms_entries st" k] by (auto simp: mem_keys_def)

lemma mem_keys_ok: "mem_wf st \<Longrightarrow> k \<in> mem_keys st \<Longrightarrow> path_ok k"
  using mem_keys_entry [of st k] by (auto simp: mem_wf_def)

definition child_of :: "string \<Rightarrow> storage_path \<Rightarrow> bool" where
  "child_of pre k \<longleftrightarrow> starts_with (as_str k) pre \<and>
     drop (length pre) (as_str k) \<noteq> [] \<and> CHR ''/'' \<notin> set (drop (length pre) (as_str k))"

lemma list_children_map:
  "list_children pre m =
     map (\<lambda>(k, v). \<lparr>de_name = drop (length pre) (as_str k), de_metadata = to_metadata v k\<rparr>)
       (filter (\<lambda>(k, v). child_of pre k) m)"
  by (induction pre m rule: list_children.induct) (auto simp: child_of_def Let_def)

lemma list_children_keys:
  "map (\<lambda>c. StoragePath (pre @ de_name c)) (list_children pre m) = filter (child_of pre) (map fst m)"
proof (induction m)
  case (Cons x m)
  then show ?case by (cases x) (auto simp: list_children_map child_of_def prefix_def storage_path.expand)
qed simp

lemma child_of_iff:
  assumes "path_ok p" "path_ok k"
  shows "child_of (from_prefix p) k \<longleftrightarrow> (\<exists>n. segs k = segs p @ [n])"
proof
  assume c: "child_of (from_prefix p) k"
  then obtain rest where rest: "as_str k = from_prefix p @ rest" "rest \<noteq> []" "CHR ''/'' \<notin> set rest"
    by (auto simp: child_of_def prefix_def)
  show "\<exists>n. segs k = segs p @ [n]"
  proof (cases "is_root p")
    case True
    then show ?thesis using rest split_on_no_sep [OF rest(3)] by (simp add: from_prefix_def segs_def is_root_def)
  next
    case False
    then have "as_str k = as_str p @ CHR ''/'' # rest" "as_str p \<noteq> []"
      using rest(1) by (auto simp: from_prefix_def is_root_def)
    then show ?thesis using split_on_no_sep [OF rest(3)] by (simp add: segs_def split_on_append)
  qed
next
  assume "\<exists>n. segs k = segs p @ [n]"
  then obtain n where n: "segs k = segs p @ [n]" by blast
  then have good: "good_segment n" using assms(2) by (simp add: path_ok_def)
  have str: "as_str k = join_with (CHR ''/'') (segs p @ [n])" "as_str p = join_with (CHR ''/'') (segs p)"
    using n by (metis as_str_path_of path_of_segs)+
  have "as_str k = from_prefix p @ n"
  proof (cases "segs p = []")
    case True
    then have "is_root p" by (simp add: is_root_def segs_Nil_iff)
    then show ?thesis unfolding str(1) True by (simp add: from_prefix_def)
  next
    case False
    then have "\<not> is_root p" by (simp add: is_root_def segs_Nil_iff)
    then show ?thesis using str join_with_snoc [OF False] by (simp add: from_prefix_def)
  qed
  then show "child_of (from_prefix p) k" using good by (auto simp: child_of_def good_segment_def)
qed

lemma child_paths_ok:
  assumes "\<forall>c \<in> set cs. path_ok (StoragePath (from_prefix p @ de_name c))"
  shows "child_paths p cs = Inr (map (\<lambda>c. StoragePath (from_prefix p @ de_name c)) cs)"
  using assms
proof (induction cs)
  case (Cons c cs)
  have "storage_path_new (from_prefix p @ de_name c) = Inr (StoragePath (from_prefix p @ de_name c))"
    using Cons.prems storage_path_new_iff [of "StoragePath (from_prefix p @ de_name c)"] by simp
  then show ?case using Cons by (auto simp: from_prefix_def storage_join_def is_root_def)
qed simp

lemma children_listed:
  assumes "mem_wf st" "path_ok p" "mem_list p st = (Inr cs, st)"
  shows "\<exists>qs. child_paths p cs = Inr qs \<and> distinct qs \<and> set qs = mem_children st p"
proof -
  let ?pre = "from_prefix p"
  let ?m = "ms_entries st"
  let ?f = "\<lambda>c. StoragePath (?pre @ de_name c)"
  have cs: "cs = sort_key de_name (list_children ?pre ?m)"
    using assms(3) by (auto simp: mem_list_def Let_def from_prefix_def rbind_Inr_iff)
  let ?ks = "filter (child_of ?pre) (map fst ?m)"
  have inv: "map ?f (list_children ?pre ?m) = ?ks" by (rule list_children_keys)
  have keys: "set ?ks = mem_children st p"
    using child_of_iff [OF assms(2) mem_keys_ok [OF assms(1)]] by (auto simp: mem_children_def mem_keys_def)
  have set_qs: "set (map ?f cs) = set ?ks" unfolding cs inv [symmetric] by simp
  have "distinct (map fst ?m)" using assms(1) bt_ok_distinct unfolding mem_wf_def by blast
  then have "distinct ?ks" by (rule distinct_filter)
  then have "distinct (map ?f cs)"
    unfolding inv [symmetric] cs distinct_map by (metis card_distinct distinct_card distinct_sort set_sort)
  moreover have "\<forall>q \<in> set (map ?f cs). path_ok q"
    unfolding set_qs using keys mem_keys_ok [OF assms(1)] by (auto simp: mem_children_def)
  then have "child_paths p cs = Inr (map ?f cs)" by (intro child_paths_ok) simp
  ultimately show ?thesis using set_qs keys by blast
qed


section \<open>The weight of the queue\<close>

definition scan_weight :: "mem_storage \<Rightarrow> storage_path \<Rightarrow> nat" where
  "scan_weight st p = Suc (card {k \<in> mem_keys st. strict_prefix (segs p) (segs k)})"

lemma child_towards:
  assumes "mem_wf st" "k \<in> mem_keys st" "strict_prefix (segs p) (segs k)" "path_ok p"
  shows "\<exists>c \<in> mem_children st p. prefix (segs c) (segs k)"
proof -
  obtain n rest where k: "segs k = segs p @ n # rest"
    using assms(3) by (auto simp: strict_prefix_def prefix_def neq_Nil_conv)
  show ?thesis
  proof (cases "rest = []")
    case True
    then show ?thesis using k assms(2) by (auto simp: mem_children_def intro!: bexI [of _ k])
  next
    case False
    let ?c = "path_of (segs p @ [n])"
    have "\<forall>s \<in> set (segs k). good_segment s" using mem_keys_ok [OF assms(1,2)] by (simp add: path_ok_def)
    then have c: "segs ?c = segs p @ [n]" using k by (intro segs_path_of) auto
    have len: "Suc (length (segs p)) \<le> length (butlast (segs k))" using k False by (cases rest) auto
    have "take (Suc (length (segs p))) (butlast (segs k)) = segs p @ [n]"
      using k False by (simp add: butlast_append)
    then have "dir_at st ?c"
      using assms(1,2) mem_keys_entry [OF assms(1), of k] len unfolding mem_wf_def dirs_along_def
      by (metis option.exhaust zero_less_Suc)
    then have "?c \<in> mem_keys st" unfolding mem_keys_entry [OF assms(1)] by (auto simp: dir_at_def split: option.splits)
    then show ?thesis using c k by (intro bexI [of _ ?c]) (auto simp: mem_children_def)
  qed
qed

lemma weight_children:
  assumes "mem_wf st" "path_ok p"
  shows "scan_weight st p = Suc (\<Sum>c \<in> mem_children st p. scan_weight st c)"
proof -
  let ?at = "\<lambda>c. {k \<in> mem_keys st. prefix (segs c) (segs k)}"
  have fin: "finite (mem_children st p)" by (simp add: mem_children_def)
  have same: "c = c'" if "c \<in> mem_children st p" "c' \<in> mem_children st p"
      "prefix (segs c) (segs k)" "prefix (segs c') (segs k)" for c c' k
  proof -
    have "length (segs c) = length (segs c')" using that by (auto simp: mem_children_def)
    then have "segs c = segs c'" using that(3,4) by (metis prefix_length_prefix prefix_order.antisym order_refl)
    then show ?thesis by (rule segs_inj)
  qed
  have self: "?at c = insert c {k \<in> mem_keys st. strict_prefix (segs c) (segs k)}" if "c \<in> mem_children st p" for c
    using that segs_inj by (auto simp: mem_children_def strict_prefix_def)
  have card: "card (?at c) = scan_weight st c" if "c \<in> mem_children st p" for c
    unfolding self [OF that] scan_weight_def by (subst card_insert_disjoint) auto
  have "{k \<in> mem_keys st. strict_prefix (segs p) (segs k)} = (\<Union>c \<in> mem_children st p. ?at c)"
  proof
    show "{k \<in> mem_keys st. strict_prefix (segs p) (segs k)} \<subseteq> (\<Union>c \<in> mem_children st p. ?at c)"
      using child_towards [OF assms(1) _ _ assms(2)] by blast
    show "(\<Union>c \<in> mem_children st p. ?at c) \<subseteq> {k \<in> mem_keys st. strict_prefix (segs p) (segs k)}"
      by (auto simp: mem_children_def strict_prefix_def prefix_def)
  qed
  moreover have "card (\<Union>c \<in> mem_children st p. ?at c) = (\<Sum>c \<in> mem_children st p. card (?at c))"
    by (rule card_UN_disjoint) (use fin same in auto)
  ultimately show ?thesis using card by (simp add: scan_weight_def)
qed

lemma file_childless:
  assumes "mem_wf st" "\<not> is_root p" "\<not> dir_at st p"
  shows "mem_children st p = {}"
proof -
  have "dir_at st p" if child: "k \<in> mem_children st p" for k
  proof -
    obtain n where k: "k \<in> mem_keys st" "segs k = segs p @ [n]" using child by (auto simp: mem_children_def)
    then have "dirs_along st (segs p)"
      using assms(1) mem_keys_entry [OF assms(1), of k] by (auto simp: mem_wf_def)
    moreover have "segs p \<noteq> []" using assms(2) by (simp add: is_root_def segs_Nil_iff)
    ultimately have "dir_at st (path_of (take (length (segs p)) (segs p)))"
      unfolding dirs_along_def by (metis length_greater_0_conv order_refl)
    then show ?thesis by simp
  qed
  then show ?thesis using assms(3) by blast
qed


section \<open>The scan\<close>

definition scannable :: "mem_storage \<Rightarrow> storage_path \<Rightarrow> bool" where
  "scannable st p \<longleftrightarrow> path_ok p \<and> (is_root p \<or> p \<in> mem_keys st)"

lemma visit_outcome:
  assumes "mem_wf st" "scannable st p" "scan_visit E mem_ops p (st, S) = (res, st', S')"
  shows "st' = st \<and> (\<forall>qs. res = Inr qs \<longrightarrow> distinct qs \<and> set qs = mem_children st p)"
proof -
  obtain r s1 S1 where e: "ensure_cached E mem_ops p (st, S) = (r, s1, S1)" by (metis prod.collapse)
  have s1: "s1 = st" using ensure_cached_fst [of E p "(st, S)"] e by simp
  have path: "path_ok p" using assms(2) by (simp add: scannable_def)
  have listed: "st' = st \<and> (\<forall>qs. res = Inr qs \<longrightarrow> distinct qs \<and> set qs = mem_children st p)"
    if run: "(case mem_list p st of
               (Inr cs, s2) \<Rightarrow> (case child_paths p cs of
                   Inl e \<Rightarrow> (Inl (FcStorage e), (s2, S1))
                 | Inr qs \<Rightarrow> (Inr qs, (s2, S1)))
             | (Inl StNotFound, s2) \<Rightarrow> (Inr [], (s2, S1))
             | (Inl e, s2) \<Rightarrow> (Inl (FcStorage e), (s2, S1))) = (res, st', S')"
      and dir: "is_root p \<or> dir_at st p"
  proof -
    obtain cs where cs: "mem_list p st = (Inr cs, st)"
    proof (cases "is_root p")
      case True
      then show ?thesis using that by (simp add: mem_list_def Let_def)
    next
      case False
      then obtain en where "entry_at st p = Some en" "is_dir en" using dir by (auto simp: dir_at_def split: option.splits)
      then show ?thesis using that False by (cases en) (simp_all add: mem_list_def Let_def)
    qed
    from children_listed [OF assms(1) path cs] obtain qs where
      qs: "child_paths p cs = Inr qs" "distinct qs" "set qs = mem_children st p" by blast
    have "res = Inr qs" "st' = st" using run by (simp_all add: cs qs(1))
    then show ?thesis using qs(2,3) by simp
  qed
  show ?thesis
  proof (cases r)
    case (Inl x)
    then show ?thesis using assms(3) e s1 by (auto simp: scan_visit_def ebind_def)
  next
    case r: (Inr u)
    show ?thesis
    proof (cases "is_root p")
      case True
      then show ?thesis using assms(3) e s1 r by (intro listed) (simp_all add: scan_visit_def ebind_def)
    next
      case False
      then have "p \<in> mem_keys st" using assms(2) by (simp add: scannable_def)
      then obtain en where en: "entry_at st p = Some en" using mem_keys_entry [OF assms(1)] by auto
      show ?thesis
      proof (cases en)
        case (MemDirectory et t)
        then show ?thesis using assms(3) e s1 r en False
          by (intro listed) (simp_all add: scan_visit_def ebind_def mem_stat_def dir_at_def)
      next
        case (MemFile b et t m)
        then have "mem_children st p = {}" using file_childless [OF assms(1) False] en by (simp add: dir_at_def)
        then show ?thesis using assms(3) e s1 r en False MemFile
          by (auto simp: scan_visit_def ebind_def mem_stat_def)
      qed
    qed
  qed
qed

lemma scan_loop_returns:
  assumes "mem_wf st" "\<forall>p \<in> set queue. scannable st p" "sum_list (map (scan_weight st) queue) = n"
  shows "\<exists>r S'. scan_loop E mem_ops queue count (st, S) = Some (r, st, S') \<and>
    (\<forall>m. r = Inr m \<longrightarrow> m = count + n)"
  using assms(2,3)
proof (induction n arbitrary: queue count S rule: less_induct)
  case (less n)
  show ?case
  proof (cases queue)
    case Nil
    then show ?thesis using less.prems by (subst scan_loop.simps) simp
  next
    case (Cons p rest)
    obtain r st' S' where v: "scan_visit E mem_ops p (st, S) = (r, st', S')" by (metis prod.collapse)
    have p: "scannable st p" using less.prems Cons by simp
    note out = visit_outcome [OF assms(1) p v]
    show ?thesis
    proof (cases r)
      case (Inl e)
      then show ?thesis using Cons v out by (subst scan_loop.simps) simp
    next
      case (Inr qs)
      then have qs: "distinct qs" "set qs = mem_children st p" and st': "st' = st" using out by auto
      have "scan_weight st p = Suc (sum_list (map (scan_weight st) qs))"
        using weight_children [OF assms(1), of p] p qs by (simp add: scannable_def sum_list_distinct_conv_sum_set)
      then have sum: "Suc (sum_list (map (scan_weight st) (rest @ qs))) = n" using less.prems(2) Cons by simp
      have "\<forall>q \<in> set (rest @ qs). scannable st q"
        using less.prems(1) Cons qs(2) mem_keys_ok [OF assms(1)] by (auto simp: scannable_def mem_children_def)
      from less.IH [OF _ this refl] sum obtain r2 S2 where
        IH: "scan_loop E mem_ops (rest @ qs) (count + 1) (st, S') = Some (r2, st, S2)"
        "\<forall>m. r2 = Inr m \<longrightarrow> m = count + 1 + sum_list (map (scan_weight st) (rest @ qs))"
        by (metis lessI)
      then show ?thesis using Cons v Inr st' sum by (subst scan_loop.simps) auto
    qed
  qed
qed


definition scan_sample :: mem_storage where
  "scan_sample = snd (mem_put_file (StoragePath ''a/b.txt'') (Inr [1, 2]) (mem_new ''m'' sample_world))"


end
