(* ===== verification/Activity.thy ===== *)
theory Activity
  imports Sql Ids
begin

text \<open>
  The activity feed (crabcloud-activity: src/types.rs, src/settings.rs, src/service.rs,
  src/subjects.rs): one row per recipient and event, with repeated events inside a window
  merged into a counter, the per-user switches of the stream, and the rendering of subjects.
  Database failures are left out; the text form of JSON is a parameter.
\<close>

section \<open>Types\<close>

datatype event_type =
    FileCreated | FileUpdated | FileDeleted | FileRenamed | FileRestored
  | ShareCreated | ShareDeleted | ShareUnaccepted | VersionRestored

fun event_type_str :: "event_type \<Rightarrow> string" where
  "event_type_str FileCreated = ''file_created''"
| "event_type_str FileUpdated = ''file_updated''"
| "event_type_str FileDeleted = ''file_deleted''"
| "event_type_str FileRenamed = ''file_renamed''"
| "event_type_str FileRestored = ''file_restored''"
| "event_type_str ShareCreated = ''share_created''"
| "event_type_str ShareDeleted = ''share_deleted''"
| "event_type_str ShareUnaccepted = ''share_unaccepted''"
| "event_type_str VersionRestored = ''version_restored''"

definition event_type_from_str :: "string \<Rightarrow> event_type option" where
  "event_type_from_str s =
     (if s = ''file_created'' then Some FileCreated
      else if s = ''file_updated'' then Some FileUpdated
      else if s = ''file_deleted'' then Some FileDeleted
      else if s = ''file_renamed'' then Some FileRenamed
      else if s = ''file_restored'' then Some FileRestored
      else if s = ''share_created'' then Some ShareCreated
      else if s = ''share_deleted'' then Some ShareDeleted
      else if s = ''share_unaccepted'' then Some ShareUnaccepted
      else if s = ''version_restored'' then Some VersionRestored
      else None)"

datatype object_type = ObjFile | ObjShare | ObjVersion

fun object_type_str :: "object_type \<Rightarrow> string" where
  "object_type_str ObjFile = ''file''"
| "object_type_str ObjShare = ''share''"
| "object_type_str ObjVersion = ''version''"

definition object_type_from_str :: "string \<Rightarrow> object_type option" where
  "object_type_from_str s =
     (if s = ''file'' then Some ObjFile else if s = ''share'' then Some ObjShare
      else if s = ''version'' then Some ObjVersion else None)"

text \<open>A JSON value, and the codec of the crate \<open>serde_json\<close>.\<close>

datatype json = JNull | JBool bool | JNumber int | JString string | JArray "json list" | JObject "(string \<times> json) list"

record json_codec =
  jc_write :: "json \<Rightarrow> string"
  jc_read :: "string \<Rightarrow> json option"

record activity_event =
  ae_actor :: string
  ae_type :: event_type
  ae_subject_actor :: string
  ae_subject_recipient :: string
  ae_params :: json
  ae_object_type :: object_type
  ae_object_id :: "int option"
  ae_recipients :: "user_id list"
  ae_occurred :: int

text \<open>A stored row and the decoded row a listing returns.\<close>

record activity_row =
  ay_id :: int
  ay_user :: string
  ay_actor :: string
  ay_type :: string
  ay_subject :: string
  ay_params :: string
  ay_object_type :: string
  ay_object_id :: "int option"
  ay_occurred :: int
  ay_seen :: int
  ay_count :: int

record activity_view =
  av_row :: activity_row
  av_params :: json

record activity_db =
  ad_rows :: "activity_row list"
  ad_next :: int
  ad_settings :: "((string \<times> string) \<times> bool) list"

record activity_cfg =
  ac_codec :: json_codec
  ac_window :: int

section \<open>Settings\<close>

definition stream_enabled :: "string \<Rightarrow> string \<Rightarrow> activity_db \<Rightarrow> bool" where
  "stream_enabled u t D =
     (case sql_first (\<lambda>x. fst x = (u, t)) (ad_settings D) of Some (_, b) \<Rightarrow> b | None \<Rightarrow> True)"

definition settings_of :: "string \<Rightarrow> activity_db \<Rightarrow> (string \<times> bool) list" where
  "settings_of u D = map (\<lambda>((_, t), b). (t, b)) (filter (\<lambda>x. fst (fst x) = u) (ad_settings D))"

definition set_stream :: "string \<Rightarrow> string \<Rightarrow> bool \<Rightarrow> activity_db \<Rightarrow> activity_db" where
  "set_stream u t b D =
     (case sql_update (\<lambda>x. fst x = (u, t)) (\<lambda>x. (fst x, b)) (ad_settings D) of
        (n, rows) \<Rightarrow> D\<lparr>ad_settings := (if n = 0 then ad_settings D @ [((u, t), b)] else rows)\<rparr>)"

section \<open>The feed\<close>

definition decode_row :: "json_codec \<Rightarrow> activity_row \<Rightarrow> activity_view" where
  "decode_row C r =
     \<lparr>av_row = r, av_params = (case jc_read C (ay_params r) of Some v \<Rightarrow> v | None \<Rightarrow> JNull)\<rparr>"

text \<open>Newest first; a cursor of 0 is no cursor.\<close>

definition activity_list :: "json_codec \<Rightarrow> string \<Rightarrow> int option \<Rightarrow> nat \<Rightarrow> activity_db \<Rightarrow> activity_view list" where
  "activity_list C u since limit D =
     (let s = (case since of Some i \<Rightarrow> i | None \<Rightarrow> 0)
      in map (decode_row C) (take limit (sort_key (\<lambda>r. - ay_id r)
           (filter (\<lambda>r. ay_user r = u \<and> (s = 0 \<or> ay_id r < s)) (ad_rows D)))))"

definition sweep_expired :: "int \<Rightarrow> activity_db \<Rightarrow> nat \<times> activity_db" where
  "sweep_expired cutoff D =
     (case sql_delete (\<lambda>r. ay_occurred r < cutoff) (ad_rows D) of (n, rows) \<Rightarrow> (n, D\<lparr>ad_rows := rows\<rparr>))"

definition coalesce_probe ::
    "string \<Rightarrow> string \<Rightarrow> string \<Rightarrow> int option \<Rightarrow> int \<Rightarrow> activity_db \<Rightarrow> int option" where
  "coalesce_probe u actor ty ob cutoff D =
     map_option ay_id (sql_first (\<lambda>_. True) (sort_key (\<lambda>r. - ay_seen r)
       (filter (\<lambda>r. ay_user r = u \<and> ay_actor r = actor \<and> ay_type r = ty \<and> ay_object_id r = ob \<and>
          cutoff \<le> ay_seen r) (ad_rows D))))"

definition coalesce_update :: "int \<Rightarrow> int \<Rightarrow> string \<Rightarrow> activity_db \<Rightarrow> activity_db" where
  "coalesce_update i seen params D =
     D\<lparr>ad_rows := snd (sql_update (\<lambda>r. ay_id r = i)
         (\<lambda>r. r\<lparr>ay_count := ay_count r + 1, ay_seen := seen, ay_params := params\<rparr>) (ad_rows D))\<rparr>"

definition insert_activity ::
    "string \<Rightarrow> string \<Rightarrow> string \<Rightarrow> string \<Rightarrow> string \<Rightarrow> string \<Rightarrow> int option \<Rightarrow> int \<Rightarrow> activity_db \<Rightarrow> activity_db" where
  "insert_activity u actor ty subject params obty ob t D =
     D\<lparr>ad_next := ad_next D + 1,
       ad_rows := ad_rows D @
         [\<lparr>ay_id = ad_next D, ay_user = u, ay_actor = actor, ay_type = ty, ay_subject = subject,
           ay_params = params, ay_object_type = obty, ay_object_id = ob, ay_occurred = t,
           ay_seen = t, ay_count = 1\<rparr>]\<rparr>"

text \<open>Duplicates dropped against a set of what was seen: the first of each stays.\<close>

fun keep_new :: "'a set \<Rightarrow> 'a list \<Rightarrow> 'a list" where
  "keep_new seen [] = []"
| "keep_new seen (x # xs) = (if x \<in> seen then keep_new seen xs else x # keep_new (insert x seen) xs)"

definition emit_to :: "activity_cfg \<Rightarrow> activity_event \<Rightarrow> user_id \<Rightarrow> activity_db \<Rightarrow> activity_db" where
  "emit_to C ev recipient D =
     (let u = uid_str recipient;
          is_actor = (u = ae_actor ev);
          ty = event_type_str (ae_type ev);
          params = jc_write (ac_codec C) (ae_params ev);
          subject = (if is_actor then ae_subject_actor ev else ae_subject_recipient ev)
      in if \<not> is_actor \<and> \<not> stream_enabled u ty D then D
         else case (if 0 < ac_window C
                    then coalesce_probe u (ae_actor ev) ty (ae_object_id ev) (ae_occurred ev - ac_window C) D
                    else None) of
                Some i \<Rightarrow> coalesce_update i (ae_occurred ev) params D
              | None \<Rightarrow> insert_activity u (ae_actor ev) ty subject params
                          (object_type_str (ae_object_type ev)) (ae_object_id ev) (ae_occurred ev) D)"

definition activity_emit :: "activity_cfg \<Rightarrow> activity_event \<Rightarrow> activity_db \<Rightarrow> activity_db" where
  "activity_emit C ev D = fold (emit_to C ev) (keep_new {} (ae_recipients ev)) D"

section \<open>Subjects\<close>

definition template_for :: "string \<Rightarrow> string option" where
  "template_for s =
     map_of [(''file_created_by'', ''{actor} created {file}''),
       (''file_created_you'', ''You created {file}''),
       (''file_updated_by'', ''{actor} updated {file}''),
       (''file_updated_you'', ''You updated {file}''),
       (''file_deleted_by'', ''{actor} deleted {file}''),
       (''file_deleted_you'', ''You deleted {file}''),
       (''file_renamed_by'', ''{actor} renamed {old} to {file}''),
       (''file_renamed_you'', ''You renamed {old} to {file}''),
       (''file_restored_by'', ''{actor} restored {file} from the trash''),
       (''file_restored_you'', ''You restored {file} from the trash''),
       (''share_created_by'', ''{actor} shared {file} with you''),
       (''share_created_you'', ''You shared {file} with {recipient}''),
       (''share_deleted_by'', ''{actor} unshared {file} from you''),
       (''share_deleted_you'', ''You unshared {file} from {recipient}''),
       (''share_unaccepted_by'', ''{actor} declined your share of {file}''),
       (''share_unaccepted_you'', ''You declined a share of {file} from {actor}''),
       (''version_restored_by'', ''{actor} restored a previous version of {file}''),
       (''version_restored_you'', ''You restored a previous version of {file}''),
       (''file_created_link'', ''Someone created {file} via a shared link''),
       (''file_updated_link'', ''Someone updated {file} via a shared link''),
       (''file_deleted_link'', ''Someone deleted {file} via a shared link'')] s"

definition json_str_at :: "json \<Rightarrow> string \<Rightarrow> string option" where
  "json_str_at v key =
     (case v of
        JObject kvs \<Rightarrow> (case map_of kvs key of Some (JString s) \<Rightarrow> Some s | _ \<Rightarrow> None)
      | _ \<Rightarrow> None)"

text \<open>The key runs up to the closing brace, or to the end of the template.\<close>

fun take_key :: "string \<Rightarrow> string \<times> string" where
  "take_key [] = ([], [])"
| "take_key (c # cs) = (if c = CHR ''}'' then ([], cs) else (case take_key cs of (k, rest) \<Rightarrow> (c # k, rest)))"

lemma take_key_shorter: "length (snd (take_key cs)) \<le> length cs"
  by (induction cs rule: take_key.induct) (auto split: prod.splits)

function interpolate :: "json \<Rightarrow> string \<Rightarrow> string" where
  "interpolate v [] = []"
| "interpolate v (c # cs) =
     (if c \<noteq> CHR ''{'' then c # interpolate v cs
      else (case json_str_at v (fst (take_key cs)) of Some s \<Rightarrow> s | None \<Rightarrow> []) @ interpolate v (snd (take_key cs)))"
  by pat_completeness auto
termination
  by (relation "measure (\<lambda>(v, cs). length cs)") (use take_key_shorter in \<open>auto simp: less_Suc_eq_le\<close>)

definition render_subject :: "string \<Rightarrow> json \<Rightarrow> string" where
  "render_subject subject_id params =
     (case template_for subject_id of Some t \<Rightarrow> interpolate params t | None \<Rightarrow> subject_id)"

end
