(* ===== verification/Shares.thy ===== *)
theory Shares
  imports Activity SharePerms UsersService Filecache
begin

text \<open>
  The sharing service (crabcloud-sharing: src/service/mod.rs, src/service/notifications.rs,
  src/service/sweeper_support.rs, src/sql.rs), with the tokens and passwords of public links
  (crabcloud-publiclinks: src/tokens.rs, src/passwords.rs) and the notification switches
  (crabcloud-users: src/notification_prefs.rs). The three databases run the same statements.
  Mail and search are the lists of what was handed to them; a database failure other than a
  violated unique index and the widths of the columns are left out.
\<close>

section \<open>Rows and requests\<close>

text \<open>Times are seconds, a date is a number of days.\<close>

record row_parts =
  rp_id :: int
  rp_type :: int
  rp_with :: "string option"
  rp_owner :: string
  rp_initiator :: string
  rp_parent :: "int option"
  rp_item_type :: string
  rp_item_source :: int
  rp_file_source :: int
  rp_file_target :: string
  rp_permissions :: "32 word"
  rp_stime :: int
  rp_accepted :: int
  rp_expiration :: "int option"
  rp_token :: "string option"
  rp_password :: "string option"
  rp_last_warned :: "int option"

record share_row =
  shr_id :: int
  shr_type :: share_type
  shr_with :: "string option"
  shr_owner :: string
  shr_initiator :: string
  shr_parent :: "int option"
  shr_item_type :: item_type
  shr_item_source :: int
  shr_file_source :: int
  shr_file_target :: string
  shr_permissions :: share_permissions
  shr_stime :: int
  shr_accepted :: bool
  shr_expiration :: "int option"
  shr_token :: "string option"
  shr_password :: "string option"
  shr_last_warned :: "int option"

definition assemble_row :: "row_parts \<Rightarrow> share_error + share_row" where
  "assemble_row p =
     (case share_type_try_from (rp_type p) of
        Inl _ \<Rightarrow> Inl ShInvalidShareType
      | Inr ty \<Rightarrow>
          (case from_db_str (rp_item_type p) of
             None \<Rightarrow> Inl (ShDbError ''unknown item_type'')
           | Some it \<Rightarrow>
               Inr \<lparr>shr_id = rp_id p, shr_type = ty, shr_with = rp_with p, shr_owner = rp_owner p,
                    shr_initiator = rp_initiator p, shr_parent = rp_parent p, shr_item_type = it,
                    shr_item_source = rp_item_source p, shr_file_source = rp_file_source p,
                    shr_file_target = rp_file_target p,
                    shr_permissions = from_wire (rp_permissions p), shr_stime = rp_stime p,
                    shr_accepted = (rp_accepted p \<noteq> 0), shr_expiration = rp_expiration p,
                    shr_token = rp_token p, shr_password = rp_password p,
                    shr_last_warned = rp_last_warned p\<rparr>))"

record create_share_request =
  cr_requester :: string
  cr_path :: string
  cr_type :: share_type
  cr_with :: string
  cr_permissions :: u32
  cr_home :: string
  cr_password :: "string option"
  cr_expire :: "int option"

record update_share_fields =
  uf_permissions :: "u32 option"
  uf_expire :: "int option option"
  uf_password :: "string option option"
  uf_note :: "string option"

record expiring_link =
  el_id :: int
  el_owner :: string
  el_target :: string
  el_token :: string
  el_expiration :: int

record share_fanout_context =
  sf_recipients :: "user_id list"
  sf_storage :: string
  sf_subroot :: string
  sf_prefix :: string

text \<open>What mail and search are handed.\<close>

record mail_context =
  mc_event :: string
  mc_name :: string
  mc_address :: string
  mc_owner_name :: string
  mc_basename :: string
  mc_link :: "string option"
  mc_protected :: bool
  mc_expiration :: "int option"

datatype fanout_call =
    FanOut "user_id list" string string string
  | FanIn "user_id list" string string

record 's shares_state =
  sh_rows :: "row_parts list"
  sh_next :: int
  sh_store :: 's
  sh_cache :: fc_db
  sh_activity :: activity_db
  sh_mail :: "mail_context list"
  sh_fanout :: "fanout_call list"
  sh_prefs :: "((string \<times> string) \<times> int) list"
  sh_world :: world

record 's shares_cfg =
  sc_users :: "'s user_store"
  sc_groups :: "'s group_store"
  sc_fc :: fc_env
  sc_bcrypt :: bcrypt
  sc_activity :: activity_cfg
  sc_url :: string

type_synonym ('s, 'a) share_op = "('s shares_state, share_error, 'a) eff"

definition on_users :: "('s, users_error, 'a) eff \<Rightarrow> ('s shares_state, users_error, 'a) eff" where
  "on_users m st = (case m (sh_store st) of (r, s) \<Rightarrow> (r, st\<lparr>sh_store := s\<rparr>))"

definition map_users :: "users_error \<Rightarrow> share_error" where
  "map_users e = (case e of UsDb m \<Rightarrow> ShDbError m | _ \<Rightarrow> ShDbError ''users service'')"

definition map_filecache :: "filecache_error \<Rightarrow> share_error" where
  "map_filecache e = (case e of FcDb m \<Rightarrow> ShDbError m | _ \<Rightarrow> ShPathNotOwned)"

definition map_err :: "('e \<Rightarrow> 'f) \<Rightarrow> ('s, 'e, 'a) eff \<Rightarrow> ('s, 'f, 'a) eff" where
  "map_err f m s = (case m s of (Inl e, s') \<Rightarrow> (Inl (f e), s') | (Inr x, s') \<Rightarrow> (Inr x, s'))"

definition parse_wire_path :: "string \<Rightarrow> share_error + storage_path" where
  "parse_wire_path p =
     (case storage_path_new (trim_start_by (\<lambda>c. c = CHR ''/'') p) of
        Inl _ \<Rightarrow> Inl ShPathNotOwned
      | Inr q \<Rightarrow> Inr q)"

definition share_now :: "'s shares_state \<Rightarrow> int \<times> 's shares_state" where
  "share_now st = (let (t, w) = now (sh_world st) in (int t div 1000000000, st\<lparr>sh_world := w\<rparr>))"

section \<open>Tokens and passwords of links\<close>

definition ALPHABET :: string where
  "ALPHABET = ''ABCDEFGHIJKLMNOPQRSTUVWXYZabcdefghijklmnopqrstuvwxyz0123456789''"

definition TOKEN_LEN :: nat where "TOKEN_LEN = 15"

definition token_generate :: "world \<Rightarrow> string \<times> world" where
  "token_generate w =
     (case draw_bytes TOKEN_LEN w of
        (bs, w') \<Rightarrow> (map (\<lambda>b. ALPHABET ! (unat b mod length ALPHABET)) bs, w'))"

definition token_parse :: "string \<Rightarrow> string option" where
  "token_parse s =
     (if length s \<noteq> TOKEN_LEN then None
      else if \<not> list_all (\<lambda>c. c \<in> set ALPHABET) s then None
      else Some s)"

definition MAX_PASSWORD_BYTES :: nat where "MAX_PASSWORD_BYTES = 72"

definition link_password_hash :: "bcrypt \<Rightarrow> string \<Rightarrow> string + string" where
  "link_password_hash B pw =
     (if MAX_PASSWORD_BYTES < length pw then Inl ''max 72 bytes (bcrypt limit)'' else bc_hash B pw)"

definition link_password_verify :: "bcrypt \<Rightarrow> string \<Rightarrow> string \<Rightarrow> bool" where
  "link_password_verify B pw h = bc_verify B pw h"

definition hash_link_password :: "bcrypt \<Rightarrow> string option \<Rightarrow> share_error + string option" where
  "hash_link_password B o' =
     (case o' of
        None \<Rightarrow> Inr None
      | Some pw \<Rightarrow> (case link_password_hash B pw of
            Inl _ \<Rightarrow> Inl (ShDbError ''password hash failed'')
          | Inr h \<Rightarrow> Inr (Some h)))"

section \<open>Notification switches\<close>

definition prefs_get :: "string \<Rightarrow> string \<Rightarrow> 's shares_state \<Rightarrow> bool" where
  "prefs_get u ev st =
     (case sql_first (\<lambda>x. fst x = (u, ev)) (sh_prefs st) of Some (_, v) \<Rightarrow> v \<noteq> 0 | None \<Rightarrow> True)"

definition prefs_set :: "string \<Rightarrow> string \<Rightarrow> bool \<Rightarrow> 's shares_state \<Rightarrow> 's shares_state" where
  "prefs_set u ev b st =
     (let v = (if b then 1 else 0) in
      case sql_update (\<lambda>x. fst x = (u, ev)) (\<lambda>x. (fst x, v)) (sh_prefs st) of
        (n, rows) \<Rightarrow> st\<lparr>sh_prefs := (if n = 0 then sh_prefs st @ [((u, ev), v)] else rows)\<rparr>)"

section \<open>Mail\<close>

definition display_name_of :: "'s shares_cfg \<Rightarrow> string \<Rightarrow> 's shares_state \<Rightarrow> string \<times> 's shares_state" where
  "display_name_of C raw st =
     (case user_id_new raw of
        Inl _ \<Rightarrow> (raw, st)
      | Inr uid \<Rightarrow>
          (case on_users (us_lookup (sc_users C) uid) st of
             (Inr (Some u), st') \<Rightarrow> (if user_display_name u \<noteq> [] then user_display_name u else raw, st')
           | (_, st') \<Rightarrow> (raw, st')))"

definition build_link_url :: "string \<Rightarrow> string \<Rightarrow> string" where
  "build_link_url url token =
     (let t = trim_end_by (\<lambda>c. c = CHR ''/'') url
      in if t = [] then ''/s/'' @ token else t @ ''/s/'' @ token)"

text \<open>The template is rendered and queued by the mail crate; here its context is recorded.\<close>

definition share_created_mail :: "'s shares_cfg \<Rightarrow> string \<Rightarrow> string \<Rightarrow> storage_path \<Rightarrow> 's shares_state \<Rightarrow> 's shares_state" where
  "share_created_mail C recipient_uid owner_uid path st =
     (case user_id_new recipient_uid of
        Inl _ \<Rightarrow> st
      | Inr recipient \<Rightarrow>
          (case on_users (us_lookup (sc_users C) recipient) st of
             (Inr (Some u), st1) \<Rightarrow>
               (case user_email u of
                  None \<Rightarrow> st1
                | Some e \<Rightarrow>
                    if \<not> prefs_get (uid_str recipient) ''share_created'' st1 then st1
                    else (case display_name_of C owner_uid st1 of
                            (owner_name, st2) \<Rightarrow>
                              st2\<lparr>sh_mail := sh_mail st2 @
                                [\<lparr>mc_event = ''share_created'', mc_name = user_display_name u,
                                  mc_address = email_str e, mc_owner_name = owner_name,
                                  mc_basename = storage_basename path, mc_link = None,
                                  mc_protected = False, mc_expiration = None\<rparr>]\<rparr>))
           | (_, st1) \<Rightarrow> st1))"

definition link_emailed_mail ::
    "'s shares_cfg \<Rightarrow> string \<Rightarrow> string \<Rightarrow> storage_path \<Rightarrow> string \<Rightarrow> bool \<Rightarrow> int option \<Rightarrow> 's shares_state \<Rightarrow> 's shares_state" where
  "link_emailed_mail C address owner_uid path token protected expiration st =
     (case display_name_of C owner_uid st of
        (owner_name, st') \<Rightarrow>
          st'\<lparr>sh_mail := sh_mail st' @
            [\<lparr>mc_event = ''link_emailed'', mc_name = address, mc_address = address,
              mc_owner_name = owner_name, mc_basename = storage_basename path,
              mc_link = Some (build_link_url (sc_url C) token), mc_protected = protected,
              mc_expiration = expiration\<rparr>]\<rparr>)"

section \<open>Recipients\<close>

text \<open>The uids a share reaches: its user, or the members of its group; a failing lookup reaches nobody.\<close>

definition share_targets :: "'s shares_cfg \<Rightarrow> share_type \<Rightarrow> string option \<Rightarrow> 's shares_state \<Rightarrow> string list \<times> 's shares_state" where
  "share_targets C ty target st =
     (case (ty, target) of
        (ShareUser, Some s) \<Rightarrow> ([s], st)
      | (ShareGroup, Some g) \<Rightarrow>
          (case group_id_new g of
             Inl _ \<Rightarrow> ([], st)
           | Inr gid \<Rightarrow>
               (case on_users (gs_members_of (sc_groups C) gid) st of
                  (Inr ms, st') \<Rightarrow> (map uid_str ms, st')
                | (Inl _, st') \<Rightarrow> ([], st')))
      | _ \<Rightarrow> ([], st))"

text \<open>Valid uids, each once.\<close>

definition unique_uids :: "string list \<Rightarrow> user_id list" where
  "unique_uids raw =
     keep_new {} (List.map_filter (\<lambda>s. case user_id_new s of Inr u \<Rightarrow> Some u | Inl _ \<Rightarrow> None) raw)"

definition share_activity_recipients ::
    "'s shares_cfg \<Rightarrow> string \<Rightarrow> share_type \<Rightarrow> string option \<Rightarrow> 's shares_state \<Rightarrow> user_id list \<times> 's shares_state" where
  "share_activity_recipients C actor ty target st =
     (case share_targets C ty target st of (ts, st') \<Rightarrow> (unique_uids (actor # ts), st'))"

definition search_fanout_recipients ::
    "'s shares_cfg \<Rightarrow> share_type \<Rightarrow> string option \<Rightarrow> 's shares_state \<Rightarrow> user_id list \<times> 's shares_state" where
  "search_fanout_recipients C ty target st =
     (case share_targets C ty target st of (ts, st') \<Rightarrow> (unique_uids ts, st'))"

definition emit_share_activity ::
    "'s shares_cfg \<Rightarrow> event_type \<Rightarrow> string \<Rightarrow> string \<Rightarrow> int \<Rightarrow> string \<Rightarrow> share_type \<Rightarrow> string option \<Rightarrow> string
       \<Rightarrow> string option \<Rightarrow> 's shares_state \<Rightarrow> 's shares_state" where
  "emit_share_activity C ev sub_actor sub_recipient i actor ty target path extra st =
     (let (rs, st1) = share_activity_recipients C actor ty target st;
          rs' = (case extra of
                   None \<Rightarrow> rs
                 | Some x \<Rightarrow> (case user_id_new x of
                      Inr u \<Rightarrow> if u \<in> set rs then rs else rs @ [u]
                    | Inl _ \<Rightarrow> rs));
          (t, st2) = share_now st1
      in st2\<lparr>sh_activity := activity_emit (sc_activity C)
           \<lparr>ae_actor = actor, ae_type = ev, ae_subject_actor = sub_actor,
            ae_subject_recipient = sub_recipient,
            ae_params = JObject [(''actor'', JString actor), (''file'', JString path),
              (''recipient'', JString (case target of Some s \<Rightarrow> s | None \<Rightarrow> []))],
            ae_object_type = ObjShare, ae_object_id = Some i, ae_recipients = rs',
            ae_occurred = t\<rparr> (sh_activity st2)\<rparr>)"

section \<open>Creation\<close>

text \<open>The unique index on tokens.\<close>

definition insert_share :: "row_parts \<Rightarrow> ('s, int) share_op" where
  "insert_share p st =
     (if rp_token p \<noteq> None \<and> sql_first (\<lambda>r. rp_token r = rp_token p) (sh_rows st) \<noteq> None
      then (Inl (ShDbError ''UNIQUE constraint failed''), st)
      else (Inr (sh_next st),
            st\<lparr>sh_rows := sh_rows st @ [p\<lparr>rp_id := sh_next st\<rparr>], sh_next := sh_next st + 1\<rparr>))"

definition owned_row :: "'s shares_cfg \<Rightarrow> string \<Rightarrow> storage_path \<Rightarrow> 's shares_state \<Rightarrow> share_error + filecache_row" where
  "owned_row C home path st =
     (case lookup_row (sc_fc C) home path (sh_cache st) of
        Inl e \<Rightarrow> Inl (map_filecache e)
      | Inr None \<Rightarrow> Inl ShPathNotOwned
      | Inr (Some row) \<Rightarrow> if fcr_storage_id row \<noteq> home then Inl ShReshareRejected else Inr row)"

definition item_type_of :: "filecache_row \<Rightarrow> item_type" where
  "item_type_of row = (if mime_str (fcr_mimetype row) = DIRECTORY_MIMETYPE then ItemFolder else ItemFile)"

definition check_recipient :: "'s shares_cfg \<Rightarrow> share_type \<Rightarrow> string \<Rightarrow> ('s, unit) share_op" where
  "check_recipient C ty target =
     (case ty of
        ShareUser \<Rightarrow>
          (case user_id_new target of
             Inl _ \<Rightarrow> fail ShRecipientUnknown
           | Inr uid \<Rightarrow> ebind (map_err map_users (on_users (us_lookup (sc_users C) uid)))
               (\<lambda>u. if u = None then fail ShRecipientUnknown else ret ()))
      | _ \<Rightarrow>
          (case group_id_new target of
             Inl _ \<Rightarrow> fail ShRecipientUnknown
           | Inr gid \<Rightarrow> ebind (map_err map_users (on_users (gs_lookup (sc_groups C) gid)))
               (\<lambda>g. if g = None then fail ShRecipientUnknown else ret ())))"

definition share_parts ::
    "create_share_request \<Rightarrow> string option \<Rightarrow> filecache_row \<Rightarrow> string \<Rightarrow> int \<Rightarrow> int option \<Rightarrow> string option \<Rightarrow> string option \<Rightarrow> row_parts" where
  "share_parts req target row file_target stime expiration token password =
     \<lparr>rp_id = 0, rp_type = share_type_to_i16 (cr_type req), rp_with = target,
      rp_owner = cr_requester req, rp_initiator = cr_requester req, rp_parent = None,
      rp_item_type = as_db_str (item_type_of row), rp_item_source = fcr_id row,
      rp_file_source = fcr_id row, rp_file_target = file_target,
      rp_permissions = as_u32 (from_wire (cr_permissions req)), rp_stime = stime, rp_accepted = 1,
      rp_expiration = expiration, rp_token = token, rp_password = password, rp_last_warned = None\<rparr>"

definition created_row :: "create_share_request \<Rightarrow> int \<Rightarrow> filecache_row \<Rightarrow> row_parts \<Rightarrow> share_row" where
  "created_row req i row p =
     \<lparr>shr_id = i, shr_type = cr_type req, shr_with = rp_with p, shr_owner = cr_requester req,
      shr_initiator = cr_requester req, shr_parent = None, shr_item_type = item_type_of row,
      shr_item_source = fcr_id row, shr_file_source = fcr_id row, shr_file_target = rp_file_target p,
      shr_permissions = from_wire (cr_permissions req), shr_stime = rp_stime p, shr_accepted = True,
      shr_expiration = rp_expiration p, shr_token = rp_token p, shr_password = rp_password p,
      shr_last_warned = None\<rparr>"

text \<open>A public link, or a link mailed to an address.\<close>

definition create_link :: "'s shares_cfg \<Rightarrow> create_share_request \<Rightarrow> ('s, share_row) share_op" where
  "create_link C req st =
     (if cr_permissions req AND 1 = 0 \<and> cr_permissions req AND 4 = 0 then (Inl ShBadPermissions, st)
      else case parse_wire_path (cr_path req) of
        Inl e \<Rightarrow> (Inl e, st)
      | Inr path \<Rightarrow>
      (case owned_row C (cr_home req) path st of
        Inl e \<Rightarrow> (Inl e, st)
      | Inr row \<Rightarrow>
        (let (stime, st1) = share_now st in
         case hash_link_password (sc_bcrypt C) (cr_password req) of
           Inl e \<Rightarrow> (Inl e, st1)
         | Inr password \<Rightarrow>
             (let (token, w) = token_generate (sh_world st1);
                  target = (if cr_type req = ShareEmail then Some (cr_with req) else None);
                  p = share_parts req target row (''/'' @ as_str path) stime
                        (map_option (\<lambda>d. d * 86400) (cr_expire req)) (Some token) password
              in case insert_share p (st1\<lparr>sh_world := w\<rparr>) of
                   (Inl e, st2) \<Rightarrow> (Inl e, st2)
                 | (Inr i, st2) \<Rightarrow>
                     (let st3 = (if cr_type req = ShareEmail
                            then link_emailed_mail C (cr_with req) (cr_requester req) path token
                                   (password \<noteq> None) (rp_expiration p) st2
                            else st2);
                          st4 = emit_share_activity C ShareCreated ''share_created_you'' ''share_created_by''
                            i (cr_requester req) (cr_type req) None (cr_path req) None st3
                      in (Inr (created_row req i row p), st4))))))"

definition share_create :: "'s shares_cfg \<Rightarrow> create_share_request \<Rightarrow> ('s, share_row) share_op" where
  "share_create C req st =
     (if cr_type req = ShareLink \<or> cr_type req = ShareEmail then create_link C req st
      else if cr_permissions req AND 1 = 0 then (Inl ShBadPermissions, st)
      else case parse_wire_path (cr_path req) of
        Inl e \<Rightarrow> (Inl e, st)
      | Inr path \<Rightarrow>
      (case owned_row C (cr_home req) path st of
        Inl e \<Rightarrow> (Inl e, st)
      | Inr row \<Rightarrow>
      (case check_recipient C (cr_type req) (cr_with req) st of
        (Inl e, st1) \<Rightarrow> (Inl e, st1)
      | (Inr _, st1) \<Rightarrow>
        (let (stime, st2) = share_now st1;
             p = share_parts req (Some (cr_with req)) row (''/'' @ storage_basename path) stime None None None
         in case insert_share p st2 of
              (Inl e, st3) \<Rightarrow> (Inl e, st3)
            | (Inr i, st3) \<Rightarrow>
                (let st4 = (if cr_type req = ShareUser
                       then share_created_mail C (cr_with req) (cr_requester req) path st3 else st3);
                     st5 = emit_share_activity C ShareCreated ''share_created_you'' ''share_created_by''
                       i (cr_requester req) (cr_type req) (Some (cr_with req)) (cr_path req) None st4;
                     (rs, st6) = search_fanout_recipients C (cr_type req) (Some (cr_with req)) st5;
                     slash = (\<lambda>s. CHR ''/'' # trim_start_by (\<lambda>c. c = CHR ''/'') s);
                     st7 = (if rs = [] then st6
                            else st6\<lparr>sh_fanout := sh_fanout st6 @
                              [FanOut rs (cr_home req) (slash (cr_path req)) (slash (rp_file_target p))]\<rparr>)
                 in (Inr (created_row req i row p), st7))))))"

section \<open>Queries\<close>

definition opt_share :: "row_parts option \<Rightarrow> share_error + share_row option" where
  "opt_share o' = (case o' of None \<Rightarrow> Inr None | Some p \<Rightarrow> rbind (assemble_row p) (\<lambda>r. Inr (Some r)))"

definition share_get :: "int \<Rightarrow> 's shares_state \<Rightarrow> share_error + share_row option" where
  "share_get i st = opt_share (sql_first (\<lambda>r. rp_id r = i) (sh_rows st))"

definition resolve_by_token :: "string \<Rightarrow> 's shares_state \<Rightarrow> share_error + share_row option" where
  "resolve_by_token t st =
     opt_share (sql_first (\<lambda>r. rp_token r = Some t \<and> rp_type r \<in> {3, 4}) (sh_rows st))"

definition select_shares :: "(row_parts \<Rightarrow> bool) \<Rightarrow> 's shares_state \<Rightarrow> share_error + share_row list" where
  "select_shares P st = collect assemble_row (sort_key rp_id (filter P (sh_rows st)))"

definition list_outgoing :: "user_id \<Rightarrow> 's shares_state \<Rightarrow> share_error + share_row list" where
  "list_outgoing owner = select_shares (\<lambda>r. rp_owner r = uid_str owner)"

definition list_for_owner_path ::
    "'s shares_cfg \<Rightarrow> user_id \<Rightarrow> string \<Rightarrow> string \<Rightarrow> 's shares_state \<Rightarrow> share_error + share_row list" where
  "list_for_owner_path C owner home path st =
     rbind (parse_wire_path path) (\<lambda>q.
     case lookup_row (sc_fc C) home q (sh_cache st) of
       Inl e \<Rightarrow> Inl (map_filecache e)
     | Inr None \<Rightarrow> Inl ShNotFound
     | Inr (Some row) \<Rightarrow>
         select_shares (\<lambda>r. rp_owner r = uid_str owner \<and> rp_file_source r = fcr_id row) st)"

definition incoming :: "user_id \<Rightarrow> group_id list \<Rightarrow> row_parts \<Rightarrow> bool" where
  "incoming u gs r \<longleftrightarrow> rp_accepted r = 1 \<and> rp_type r \<in> {0, 1} \<and>
     (rp_type r = 0 \<and> rp_with r = Some (uid_str u) \<or> rp_type r = 1 \<and> rp_with r \<in> Some ` gid_str ` set gs)"

definition list_incoming :: "'s shares_cfg \<Rightarrow> user_id \<Rightarrow> ('s, share_row list) share_op" where
  "list_incoming C u =
     ebind (map_err map_users (on_users (gs_groups_of (sc_groups C) u))) (\<lambda>gs st.
       (select_shares (incoming u gs) st, st))"

definition share_counts_for :: "user_id \<Rightarrow> int list \<Rightarrow> 's shares_state \<Rightarrow> int \<Rightarrow> nat option" where
  "share_counts_for owner ids st =
     (\<lambda>i. let n = length (filter (\<lambda>r. rp_owner r = uid_str owner \<and> rp_file_source r = i) (sh_rows st))
          in if i \<in> set ids \<and> n \<noteq> 0 then Some n else None)"

section \<open>Changes\<close>

definition set_share :: "int \<Rightarrow> (row_parts \<Rightarrow> row_parts) \<Rightarrow> 's shares_state \<Rightarrow> 's shares_state" where
  "set_share i f st = st\<lparr>sh_rows := snd (sql_update (\<lambda>r. rp_id r = i) f (sh_rows st))\<rparr>"

definition run_update_permissions :: "int \<Rightarrow> 32 word \<Rightarrow> 's shares_state \<Rightarrow> 's shares_state" where
  "run_update_permissions i v = set_share i (\<lambda>r. r\<lparr>rp_permissions := v\<rparr>)"

definition run_update_password :: "int \<Rightarrow> string option \<Rightarrow> 's shares_state \<Rightarrow> 's shares_state" where
  "run_update_password i v = set_share i (\<lambda>r. r\<lparr>rp_password := v\<rparr>)"

definition run_update_expiration :: "int \<Rightarrow> int option \<Rightarrow> 's shares_state \<Rightarrow> 's shares_state" where
  "run_update_expiration i v = set_share i (\<lambda>r. r\<lparr>rp_expiration := v\<rparr>)"

definition is_link :: "share_type \<Rightarrow> bool" where
  "is_link ty \<longleftrightarrow> ty = ShareLink \<or> ty = ShareEmail"

definition found :: "share_error + share_row option \<Rightarrow> share_error + share_row" where
  "found x = rbind x (\<lambda>o'. case o' of None \<Rightarrow> Inl ShNotFound | Some r \<Rightarrow> Inr r)"

definition update_password_step :: "'s shares_cfg \<Rightarrow> int \<Rightarrow> share_row \<Rightarrow> string option option \<Rightarrow> ('s, unit) share_op" where
  "update_password_step C i row o' =
     (case o' of
        None \<Rightarrow> ret ()
      | Some pw \<Rightarrow>
          if \<not> is_link (shr_type row) then fail ShBadPermissions
          else (case hash_link_password (sc_bcrypt C) pw of
                  Inl e \<Rightarrow> fail e
                | Inr h \<Rightarrow> (\<lambda>st. (Inr (), run_update_password i h st))))"

definition update_permissions_step :: "int \<Rightarrow> share_row \<Rightarrow> u32 option \<Rightarrow> ('s, unit) share_op" where
  "update_permissions_step i row o' =
     (case o' of
        None \<Rightarrow> ret ()
      | Some raw \<Rightarrow>
          if \<not> (if is_link (shr_type row) then raw AND 1 \<noteq> 0 \<or> raw AND 4 \<noteq> 0 else raw AND 1 \<noteq> 0)
          then fail ShBadPermissions
          else (\<lambda>st. (Inr (), run_update_permissions i (as_u32 (from_wire raw)) st)))"

definition share_update :: "'s shares_cfg \<Rightarrow> int \<Rightarrow> user_id \<Rightarrow> update_share_fields \<Rightarrow> ('s, share_row) share_op" where
  "share_update C i requester f st =
     (case found (share_get i st) of
        Inl e \<Rightarrow> (Inl e, st)
      | Inr row \<Rightarrow>
          if shr_owner row \<noteq> uid_str requester then (Inl ShForbidden, st)
          else if uf_note f \<noteq> None then (Inl ShNotImplemented, st)
          else ebind (update_password_step C i row (uf_password f)) (\<lambda>_.
               ebind (update_permissions_step i row (uf_permissions f)) (\<lambda>_ st2.
               (let st3 = (case uf_expire f of
                      None \<Rightarrow> st2
                    | Some d \<Rightarrow> run_update_expiration i (map_option (\<lambda>d. d * 86400) d) st2)
                in (found (share_get i st3), st3)))) st)"

definition is_recipient :: "'s shares_cfg \<Rightarrow> share_row \<Rightarrow> user_id \<Rightarrow> ('s, bool) share_op" where
  "is_recipient C row requester =
     (if shr_type row = ShareUser then ret (shr_with row = Some (uid_str requester))
      else if shr_type row = ShareGroup \<and> shr_with row \<noteq> None
      then ebind (map_err map_users (on_users (gs_groups_of (sc_groups C) requester)))
             (\<lambda>gs. ret (the (shr_with row) \<in> gid_str ` set gs))
      else ret False)"

definition unshare_fanout :: "'s shares_cfg \<Rightarrow> share_row \<Rightarrow> 's shares_state \<Rightarrow> 's shares_state" where
  "unshare_fanout C row st =
     (case search_fanout_recipients C (shr_type row) (shr_with row) st of
        (rs, st') \<Rightarrow>
          if rs = [] then st'
          else (case lookup_row_by_id (sc_fc C) (shr_item_source row) (sh_cache st') of
                  Inr (Some fc) \<Rightarrow>
                    st'\<lparr>sh_fanout := sh_fanout st' @ [FanIn rs (fcr_storage_id fc) (CHR ''/'' # as_str (fcr_path fc))]\<rparr>
                | _ \<Rightarrow> st'))"

definition share_delete :: "'s shares_cfg \<Rightarrow> int \<Rightarrow> user_id \<Rightarrow> ('s, unit) share_op" where
  "share_delete C i requester st =
     (case found (share_get i st) of
        Inl e \<Rightarrow> (Inl e, st)
      | Inr row \<Rightarrow>
          (case is_recipient C row requester st of
             (Inl e, st1) \<Rightarrow> (Inl e, st1)
           | (Inr recipient, st1) \<Rightarrow>
               if shr_owner row = uid_str requester then
                 (let st2 = st1\<lparr>sh_rows := snd (sql_delete (\<lambda>r. rp_id r = i) (sh_rows st1))\<rparr>;
                      st3 = emit_share_activity C ShareDeleted ''share_deleted_you'' ''share_deleted_by'' i
                        (uid_str requester) (shr_type row) (shr_with row) (shr_file_target row) None st2
                  in (Inr (), unshare_fanout C row st3))
               else if recipient then
                 (if \<not> shr_accepted row then (Inl ShNotFound, st1)
                  else (Inr (), emit_share_activity C ShareUnaccepted ''share_unaccepted_you'' ''share_unaccepted_by'' i
                          (uid_str requester) (shr_type row) (shr_with row) (shr_file_target row)
                          (Some (shr_owner row)) (set_share i (\<lambda>r. r\<lparr>rp_accepted := 0\<rparr>) st1)))
               else (Inl ShForbidden, st1)))"

section \<open>Who sees a file\<close>

text \<open>The ids of a row's ancestors, at most \<open>n\<close> of them; the code's bound is 64.\<close>

fun ancestor_ids :: "fc_env \<Rightarrow> nat \<Rightarrow> int \<Rightarrow> fc_db \<Rightarrow> share_error + int list" where
  "ancestor_ids E 0 cursor S = Inr []"
| "ancestor_ids E (Suc n) cursor S =
     (case lookup_row_by_id E cursor S of
        Inl e \<Rightarrow> Inl (map_filecache e)
      | Inr None \<Rightarrow> Inr []
      | Inr (Some row) \<Rightarrow>
          (case fcr_parent row of
             None \<Rightarrow> Inr []
           | Some i \<Rightarrow> rbind (ancestor_ids E n i S) (\<lambda>is. Inr (i # is))))"

definition shares_covering :: "int list \<Rightarrow> 's shares_state \<Rightarrow> (int \<times> string \<times> string \<times> int \<times> string) list" where
  "shares_covering ids st =
     List.map_filter (\<lambda>r. map_option (\<lambda>w. (rp_type r, w, rp_owner r, rp_item_source r, rp_file_target r)) (rp_with r))
       (filter (\<lambda>r. rp_type r \<in> {0, 1} \<and> rp_accepted r = 1 \<and> rp_item_source r \<in> set ids) (sh_rows st))"

text \<open>The types come from the database as numbers; other numbers reach nobody.\<close>

definition db_targets :: "'s shares_cfg \<Rightarrow> int \<Rightarrow> string \<Rightarrow> 's shares_state \<Rightarrow> string list \<times> 's shares_state" where
  "db_targets C ty target st =
     (if ty = 0 then share_targets C ShareUser (Some target) st
      else if ty = 1 then share_targets C ShareGroup (Some target) st
      else ([], st))"

fun expand_shares :: "'s shares_cfg \<Rightarrow> (int \<times> string \<times> string \<times> int \<times> string) list \<Rightarrow> 's shares_state
    \<Rightarrow> string list \<times> 's shares_state" where
  "expand_shares C [] st = ([], st)"
| "expand_shares C ((ty, w, owner, _, _) # rest) st =
     (let (ts, st1) = db_targets C ty w st; (us, st2) = expand_shares C rest st1
      in (owner # ts @ us, st2))"

definition recipients_for_fileid :: "'s shares_cfg \<Rightarrow> int \<Rightarrow> ('s, user_id list) share_op" where
  "recipients_for_fileid C fileid st =
     (case ancestor_ids (sc_fc C) 64 fileid (sh_cache st) of
        Inl e \<Rightarrow> (Inl e, st)
      | Inr ids \<Rightarrow>
          (case expand_shares C (shares_covering (fileid # ids) st) st of
             (us, st') \<Rightarrow> (Inr (unique_uids us), st')))"

fun fanout_contexts :: "'s shares_cfg \<Rightarrow> (int \<times> string \<times> string \<times> int \<times> string) list \<Rightarrow> ('s, share_fanout_context list) share_op" where
  "fanout_contexts C [] st = (Inr [], st)"
| "fanout_contexts C ((ty, w, _, source, target) # rest) st =
     (case lookup_row_by_id (sc_fc C) source (sh_cache st) of
        Inl e \<Rightarrow> (Inl (map_filecache e), st)
      | Inr None \<Rightarrow> fanout_contexts C rest st
      | Inr (Some row) \<Rightarrow>
          (let (ts, st1) = db_targets C ty w st; rs = unique_uids ts;
               slash = (\<lambda>s. CHR ''/'' # trim_start_by (\<lambda>c. c = CHR ''/'') s)
           in if rs = [] then fanout_contexts C rest st1
              else ebind (fanout_contexts C rest) (\<lambda>cs. ret
                (\<lparr>sf_recipients = rs, sf_storage = fcr_storage_id row,
                  sf_subroot = slash (as_str (fcr_path row)), sf_prefix = slash target\<rparr> # cs)) st1))"

definition share_fanout_contexts_for_fileid :: "'s shares_cfg \<Rightarrow> int \<Rightarrow> ('s, share_fanout_context list) share_op" where
  "share_fanout_contexts_for_fileid C fileid st =
     (case ancestor_ids (sc_fc C) 64 fileid (sh_cache st) of
        Inl e \<Rightarrow> (Inl e, st)
      | Inr ids \<Rightarrow> fanout_contexts C (shares_covering (fileid # ids) st) st)"

section \<open>Expiry warnings\<close>

definition expiring_link_of :: "row_parts \<Rightarrow> share_error + expiring_link" where
  "expiring_link_of r =
     (case (rp_token r, rp_expiration r) of
        (Some t, Some e) \<Rightarrow>
          Inr \<lparr>el_id = rp_id r, el_owner = rp_owner r, el_target = rp_file_target r, el_token = t,
               el_expiration = e\<rparr>
      | _ \<Rightarrow> Inl (ShDbError ''unexpected null''))"

definition find_expiring_links :: "int \<Rightarrow> int \<Rightarrow> nat \<Rightarrow> 's shares_state \<Rightarrow> share_error + expiring_link list" where
  "find_expiring_links t until limit st =
     collect expiring_link_of
       (take limit (sort_key rp_id (filter (\<lambda>r. rp_type r \<in> {3, 4} \<and> rp_last_warned r = None \<and>
          (case rp_expiration r of Some e \<Rightarrow> t < e \<and> e \<le> until | None \<Rightarrow> False)) (sh_rows st))))"

definition stamp_last_warned :: "int \<Rightarrow> int \<Rightarrow> 's shares_state \<Rightarrow> 's shares_state" where
  "stamp_last_warned i t = set_share i (\<lambda>r. r\<lparr>rp_last_warned := Some t\<rparr>)"

end
