(* ===== verification/Shares_Correct.thy ===== *)
theory Shares_Correct
  imports Shares
begin

text \<open>
  What sharing promises: stored shares decode, never carry the re-share bit and have unique ids
  and tokens; a user changes other users' shares only by declining those addressed to it; a
  created share is what its recipient and its token find. What an update that fails half-way and
  a member that declines a group share do.
\<close>

section \<open>What leaves the shares alone\<close>

definition share_core :: "'s shares_state \<Rightarrow> row_parts list \<times> int" where
  "share_core st = (sh_rows st, sh_next st)"

lemma share_coreD:
  "share_core st = share_core st' \<Longrightarrow> sh_rows st = sh_rows st'" "share_core st = share_core st' \<Longrightarrow> sh_next st = sh_next st'"
  by (simp_all add: share_core_def)

named_theorems core

lemma on_users_core [core]: "on_users m st = (r, st') \<Longrightarrow> share_core st' = share_core st"
  by (auto simp: on_users_def share_core_def split: prod.splits)

lemma share_now_core [core]: "share_now st = (t, st') \<Longrightarrow> share_core st' = share_core st"
  by (auto simp: share_now_def share_core_def Let_def split: prod.splits)

lemma display_name_core [core]: "display_name_of C x st = (n, st') \<Longrightarrow> share_core st' = share_core st"
  by (auto simp: display_name_of_def split: sum.splits prod.splits option.splits dest: on_users_core)

lemma mail_core [simp]: "share_core (st\<lparr>sh_mail := m\<rparr>) = share_core st"
  "share_core (st\<lparr>sh_activity := a\<rparr>) = share_core st" "share_core (st\<lparr>sh_fanout := f\<rparr>) = share_core st"
  "share_core (st\<lparr>sh_world := w\<rparr>) = share_core st"
  by (simp_all add: share_core_def)

lemma share_created_mail_core [simp]: "share_core (share_created_mail C a b p st) = share_core st"
  by (auto simp: share_created_mail_def split: sum.splits prod.splits option.splits dest!: on_users_core display_name_core)

lemma link_emailed_mail_core [simp]: "share_core (link_emailed_mail C a b p t q e st) = share_core st"
  by (auto simp: link_emailed_mail_def split: prod.splits dest!: display_name_core)

lemma share_targets_core [core]: "share_targets C ty w st = (ts, st') \<Longrightarrow> share_core st' = share_core st"
  by (auto simp: share_targets_def split: share_type.splits option.splits sum.splits prod.splits dest: on_users_core)

lemma emit_share_activity_core [simp]: "share_core (emit_share_activity C ev s1 s2 i a ty w p x st) = share_core st"
  by (auto simp: emit_share_activity_def share_activity_recipients_def Let_def split: prod.splits
      dest!: share_targets_core share_now_core)

lemma search_recipients_core [core]: "search_fanout_recipients C ty w st = (rs, st') \<Longrightarrow> share_core st' = share_core st"
  by (auto simp: search_fanout_recipients_def split: prod.splits dest!: share_targets_core)

lemma unshare_fanout_core [simp]: "share_core (unshare_fanout C row st) = share_core st"
  by (auto simp: unshare_fanout_def split: prod.splits sum.splits option.splits dest!: search_recipients_core)

lemma map_err_on_users_core [core]: "map_err f (on_users m) st = (r, st') \<Longrightarrow> share_core st' = share_core st"
  by (auto simp: map_err_def split: prod.splits sum.splits dest!: on_users_core)

lemma check_recipient_core [core]: "check_recipient C ty w st = (r, st') \<Longrightarrow> share_core st' = share_core st"
  by (auto simp: check_recipient_def fail_def ret_def ebind_def
      split: share_type.splits sum.splits prod.splits if_splits dest!: map_err_on_users_core)

lemma is_recipient_core [core]: "is_recipient C row u st = (r, st') \<Longrightarrow> share_core st' = share_core st"
  by (auto simp: is_recipient_def ret_def ebind_def split: if_splits sum.splits prod.splits dest!: map_err_on_users_core)

section \<open>The invariant\<close>

definition share_ok :: "row_parts \<Rightarrow> bool" where
  "share_ok r \<longleftrightarrow> (\<exists>row. assemble_row r = Inr row) \<and> as_u32 (from_wire (rp_permissions r)) = rp_permissions r \<and>
     (rp_token r \<noteq> None \<longleftrightarrow> rp_type r \<in> {3, 4}) \<and> (rp_type r \<in> {0, 1} \<longrightarrow> rp_with r \<noteq> None)"

definition shares_inv :: "'s shares_state \<Rightarrow> bool" where
  "shares_inv st \<longleftrightarrow> distinct (map rp_id (sh_rows st)) \<and> (\<forall>r \<in> set (sh_rows st). share_ok r \<and> rp_id r < sh_next st) \<and>
     (\<forall>r \<in> set (sh_rows st). \<forall>r' \<in> set (sh_rows st). rp_token r \<noteq> None \<and> rp_token r = rp_token r' \<longrightarrow> rp_id r = rp_id r')"

lemma shares_invI:
  assumes "distinct (map rp_id (sh_rows st))" "\<And>r. r \<in> set (sh_rows st) \<Longrightarrow> share_ok r \<and> rp_id r < sh_next st"
    "\<And>r r'. r \<in> set (sh_rows st) \<Longrightarrow> r' \<in> set (sh_rows st) \<Longrightarrow> rp_token r \<noteq> None \<Longrightarrow> rp_token r = rp_token r' \<Longrightarrow> rp_id r = rp_id r'"
  shows "shares_inv st"
  using assms unfolding shares_inv_def by blast

lemma shares_inv_core: "share_core st' = share_core st \<Longrightarrow> shares_inv st' = shares_inv st"
  by (simp add: shares_inv_def share_core_def)

lemma row_unique:
  assumes "shares_inv st" "r \<in> set (sh_rows st)" "r' \<in> set (sh_rows st)" "rp_id r = rp_id r'"
  shows "r = r'"
  using assms by (simp add: shares_inv_def distinct_map inj_on_def)

lemma first_by_id:
  assumes "shares_inv st" "r \<in> set (sh_rows st)"
  shows "sql_first (\<lambda>x. rp_id x = rp_id r) (sh_rows st) = Some r"
  by (rule sql_first_unique [OF assms(2) refl]) (rule row_unique [OF assms(1) _ assms(2)])

lemma from_wire_as_u32: "from_wire (as_u32 (from_wire b)) = from_wire b"
proof -
  have "sp_bits (from_wire (ucast (sp_bits (from_wire b)))) = sp_bits (from_wire b)"
    by (rule bit_eqI) (auto simp: bit_from_wire bit_ucast_iff)
  then show ?thesis by (simp add: as_u32_def share_permissions.expand)
qed

lemma assemble_share_parts:
  "assemble_row ((share_parts req w row target t ex tok pw)\<lparr>rp_id := i\<rparr>) =
     Inr (created_row req i row (share_parts req w row target t ex tok pw))"
  by (simp add: assemble_row_def share_parts_def created_row_def from_wire_as_u32)

lemma assembles_iff:
  "(\<exists>row. assemble_row p = Inr row) \<longleftrightarrow>
     (\<exists>ty. share_type_try_from (rp_type p) = Inr ty) \<and> from_db_str (rp_item_type p) \<noteq> None"
  by (auto simp: assemble_row_def split: sum.splits option.splits)

lemma share_ok_parts:
  assumes "tok \<noteq> None \<longleftrightarrow> is_link (cr_type req)" "\<not> is_link (cr_type req) \<Longrightarrow> w \<noteq> None"
  shows "share_ok ((share_parts req w row target t ex tok pw)\<lparr>rp_id := i\<rparr>)"
proof -
  have ty: "rp_type (share_parts req w row target t ex tok pw) \<in> {3, 4} \<longleftrightarrow> is_link (cr_type req)"
    "rp_type (share_parts req w row target t ex tok pw) \<in> {0, 1} \<longleftrightarrow> \<not> is_link (cr_type req)"
    by (cases "cr_type req"; simp add: share_parts_def is_link_def)+
  show ?thesis
    unfolding share_ok_def
  proof (intro conjI)
    show "\<exists>x. assemble_row ((share_parts req w row target t ex tok pw)\<lparr>rp_id := i\<rparr>) = Inr x"
      by (rule exI, rule assemble_share_parts)
  qed (use assms ty in \<open>simp_all add: share_parts_def from_wire_as_u32\<close>)
qed

text \<open>A row changed in place keeps its id, its token and its type.\<close>

lemma shares_inv_set:
  assumes "shares_inv st" "\<And>r. rp_id (f r) = rp_id r" "\<And>r. rp_token (f r) = rp_token r"
    "\<And>r. r \<in> set (sh_rows st) \<Longrightarrow> share_ok r \<Longrightarrow> share_ok (f r)"
  shows "shares_inv (set_share i f st)"
proof -
  let ?g = "\<lambda>r. if rp_id r = i then f r else r"
  have rows: "sh_rows (set_share i f st) = map ?g (sh_rows st)" "sh_next (set_share i f st) = sh_next st"
    by (simp_all add: set_share_def sql_update_def)
  have g: "rp_id (?g r) = rp_id r" "rp_token (?g r) = rp_token r" for r using assms(2,3) by auto
  have ids: "map rp_id (map ?g (sh_rows st)) = map rp_id (sh_rows st)" by (simp add: g del: if_split)
  have inv: "distinct (map rp_id (sh_rows st))" "\<And>r. r \<in> set (sh_rows st) \<Longrightarrow> share_ok r \<and> rp_id r < sh_next st"
    "\<And>r r'. r \<in> set (sh_rows st) \<Longrightarrow> r' \<in> set (sh_rows st) \<Longrightarrow> rp_token r \<noteq> None \<Longrightarrow> rp_token r = rp_token r' \<Longrightarrow> rp_id r = rp_id r'"
    using assms(1) unfolding shares_inv_def by blast+
  show ?thesis
  proof (rule shares_invI)
    show "distinct (map rp_id (sh_rows (set_share i f st)))" unfolding rows ids by (rule inv(1))
  next
    fix x assume "x \<in> set (sh_rows (set_share i f st))"
    then obtain r where r: "r \<in> set (sh_rows st)" "x = ?g r" unfolding rows by auto
    then show "share_ok x \<and> rp_id x < sh_next (set_share i f st)"
      using inv(2) [OF r(1)] assms(4) [OF r(1)] g(1) [of r] unfolding rows(2) by simp
  next
    fix x x' assume "x \<in> set (sh_rows (set_share i f st))" "x' \<in> set (sh_rows (set_share i f st))"
      and tok: "rp_token x \<noteq> None" "rp_token x = rp_token x'"
    then obtain r r' where r: "r \<in> set (sh_rows st)" "x = ?g r" "r' \<in> set (sh_rows st)" "x' = ?g r'" unfolding rows by auto
    then show "rp_id x = rp_id x'" using inv(3) [OF r(1,3)] tok unfolding r(2,4) g by blast
  qed
qed

lemma share_ok_cong:
  assumes "share_ok r" "rp_type r' = rp_type r" "rp_item_type r' = rp_item_type r" "rp_permissions r' = rp_permissions r"
    "rp_token r' = rp_token r" "rp_with r' = rp_with r"
  shows "share_ok r'"
  using assms unfolding share_ok_def assembles_iff by simp

lemma shares_inv_updates:
  assumes "shares_inv st"
  shows "shares_inv (run_update_password i v st)" "shares_inv (run_update_expiration i e st)"
    "shares_inv (run_update_permissions i (as_u32 (from_wire b)) st)" "shares_inv (set_share i (\<lambda>r. r\<lparr>rp_accepted := a\<rparr>) st)"
    "shares_inv (stamp_last_warned i t st)"
proof -
  have "share_ok r \<Longrightarrow> share_ok (r\<lparr>rp_permissions := as_u32 (from_wire b)\<rparr>)" for r
    unfolding share_ok_def assembles_iff by (simp add: from_wire_as_u32)
  then show "shares_inv (run_update_permissions i (as_u32 (from_wire b)) st)"
    unfolding run_update_permissions_def by (intro shares_inv_set [OF assms]) simp_all
  show "shares_inv (run_update_password i v st)" "shares_inv (run_update_expiration i e st)"
    "shares_inv (set_share i (\<lambda>r. r\<lparr>rp_accepted := a\<rparr>) st)" "shares_inv (stamp_last_warned i t st)"
    unfolding run_update_password_def run_update_expiration_def stamp_last_warned_def
    by (rule shares_inv_set [OF assms]; simp add: share_ok_cong)+
qed

section \<open>Creation\<close>

lemma insert_share_cases:
  assumes "insert_share p st = (r, st')"
  obtains (taken) e where "r = Inl e" "st' = st"
    | (inserted) "r = Inr (sh_next st)" "share_core st' = (sh_rows st @ [p\<lparr>rp_id := sh_next st\<rparr>], sh_next st + 1)"
        "\<And>x. x \<in> set (sh_rows st) \<Longrightarrow> rp_token p \<noteq> None \<Longrightarrow> rp_token x \<noteq> rp_token p"
        "sh_store st' = sh_store st"
  using assms by (fastforce simp: insert_share_def share_core_def sql_first_None_iff split: if_splits)

lemma token_generate_ok:
  assumes "token_generate w = (t, w')"
  shows "token_parse t = Some t"
proof -
  have "ALPHABET ! (n mod length ALPHABET) \<in> set ALPHABET" for n
    by (rule nth_mem) (simp add: ALPHABET_def)
  then show ?thesis
    using assms by (auto simp: token_generate_def draw_bytes_def token_parse_def TOKEN_LEN_def list_all_iff)
qed

text \<open>What creating a share does to the table, and the row it answers.\<close>

definition stored :: "create_share_request \<Rightarrow> 's shares_state \<Rightarrow> row_parts \<Rightarrow> share_row \<Rightarrow> 's shares_state \<Rightarrow> bool" where
  "stored req st p s st' \<longleftrightarrow>
     share_core st' = (sh_rows st @ [p], sh_next st + 1) \<and> rp_id p = sh_next st \<and> assemble_row p = Inr s \<and> share_ok p \<and>
     rp_accepted p = 1 \<and> rp_owner p = cr_requester req \<and> rp_type p = share_type_to_i16 (cr_type req) \<and>
     (\<not> is_link (cr_type req) \<longrightarrow> rp_with p = Some (cr_with req)) \<and>
     (\<forall>t. rp_token p = Some t \<longrightarrow> token_parse t = Some t \<and> (\<forall>x \<in> set (sh_rows st). rp_token x \<noteq> Some t))"

lemma storedI:
  assumes "insert_share (share_parts req w row target t ex tok pw) st = (Inr i, st1)"
    "tok \<noteq> None \<longleftrightarrow> is_link (cr_type req)" "\<not> is_link (cr_type req) \<Longrightarrow> w = Some (cr_with req)"
    "\<And>k. tok = Some k \<Longrightarrow> token_parse k = Some k" "share_core st = share_core st0" "share_core st' = share_core st1"
  shows "\<exists>p. stored req st0 p (created_row req i row (share_parts req w row target t ex tok pw)) st'"
proof -
  let ?p = "share_parts req w row target t ex tok pw"
  have simps: "rp_accepted ?p = 1" "rp_owner ?p = cr_requester req" "rp_type ?p = share_type_to_i16 (cr_type req)"
    "rp_with ?p = w" "rp_token ?p = tok"
    by (simp_all add: share_parts_def)
  from assms(1) show ?thesis
  proof (cases rule: insert_share_cases)
    case inserted
    then have i: "i = sh_next st" by simp
    have ok: "share_ok (?p\<lparr>rp_id := i\<rparr>)" by (rule share_ok_parts) (use assms(2,3) in auto)
    have asm: "assemble_row (?p\<lparr>rp_id := i\<rparr>) = Inr (created_row req i row ?p)" by (rule assemble_share_parts)
    have "stored req st0 (?p\<lparr>rp_id := i\<rparr>) (created_row req i row ?p) st'"
      unfolding stored_def asm
    proof (intro conjI impI allI ballI)
      show "share_core st' = (sh_rows st0 @ [?p\<lparr>rp_id := i\<rparr>], sh_next st0 + 1)"
        using inserted(2) assms(6) share_coreD [OF assms(5)] by (simp add: i)
    next
      fix t x assume "rp_token (?p\<lparr>rp_id := i\<rparr>) = Some t" "x \<in> set (sh_rows st0)"
      then show "rp_token x \<noteq> Some t"
        using inserted(3) [of x, unfolded simps] share_coreD(1) [OF assms(5)] by (simp add: simps del: not_None_eq)
    qed (use ok share_coreD(2) [OF assms(5)] assms(3,4) in \<open>simp_all add: share_parts_def i\<close>)
    then show ?thesis by blast
  qed simp
qed

lemma create_link_stored:
  assumes "create_link C req st = (r, st')" "is_link (cr_type req)"
  shows "(\<exists>e. r = Inl e \<and> share_core st' = share_core st) \<or> (\<exists>s p. r = Inr s \<and> stored req st p s st')"
proof (rule disjCI)
  assume none: "\<not> (\<exists>s p. r = Inr s \<and> stored req st p s st')"
  show "\<exists>e. r = Inl e \<and> share_core st' = share_core st"
  proof (cases r)
    case (Inl e)
    then show ?thesis
      using assms(1)
      by (auto simp: create_link_def Let_def split: if_splits sum.splits prod.splits
          dest!: share_now_core elim!: insert_share_cases)
  next
    case (Inr s)
    then obtain path row t st1 pw tok w i st2 p where
      now: "share_now st = (t, st1)" and tok: "token_generate (sh_world st1) = (tok, w)"
      and p: "p = share_parts req (if cr_type req = ShareEmail then Some (cr_with req) else None) row (''/'' @ as_str path) t
          (map_option (\<lambda>d. d * 86400) (cr_expire req)) (Some tok) pw"
      and ins: "insert_share p (st1\<lparr>sh_world := w\<rparr>) = (Inr i, st2)"
      and s: "s = created_row req i row p" and core: "share_core st' = share_core st2"
      using assms(1) by (fastforce simp: create_link_def Let_def split: if_splits sum.splits prod.splits)
    have "\<exists>q. stored req st q s st'"
      unfolding s p
      by (rule storedI [OF ins [unfolded p] _ _ _ _ core]) (use assms(2) token_generate_ok [OF tok] share_now_core [OF now] in auto)
    with none Inr show ?thesis by simp
  qed
qed

lemma share_create_stored:
  assumes "share_create C req st = (r, st')"
  shows "(\<exists>e. r = Inl e \<and> share_core st' = share_core st) \<or> (\<exists>s p. r = Inr s \<and> stored req st p s st')"
proof (cases "is_link (cr_type req)")
  case True
  then show ?thesis using create_link_stored assms by (simp add: share_create_def is_link_def)
next
  case False
  show ?thesis
  proof (rule disjCI)
    assume none: "\<not> (\<exists>s p. r = Inr s \<and> stored req st p s st')"
    show "\<exists>e. r = Inl e \<and> share_core st' = share_core st"
    proof (cases r)
      case (Inl e)
      then show ?thesis
        using assms False
        by (auto simp: share_create_def is_link_def Let_def split: if_splits sum.splits prod.splits
            dest!: share_now_core check_recipient_core elim!: insert_share_cases)
    next
      case (Inr s)
      note run = assms [unfolded Inr share_create_def]
      have nl: "\<not> (cr_type req = ShareLink \<or> cr_type req = ShareEmail)" using False by (simp add: is_link_def)
      obtain path where path: "parse_wire_path (cr_path req) = Inr path"
        using run nl by (simp split: if_splits sum.splits)
      obtain row where row: "owned_row C (cr_home req) path st = Inr row"
        using run nl by (simp add: path split: if_splits sum.splits)
      obtain st1 where chk: "check_recipient C (cr_type req) (cr_with req) st = (Inr (), st1)"
        using run nl by (cases "check_recipient C (cr_type req) (cr_with req) st")
          (simp add: path row split: if_splits sum.splits)
      obtain t st2 where now: "share_now st1 = (t, st2)" by (cases "share_now st1")
      define p where "p = share_parts req (Some (cr_with req)) row (CHR ''/'' # storage_basename path) t None None None"
      obtain i st3 where ins: "insert_share p st2 = (Inr i, st3)"
        using run nl
        by (cases "insert_share p st2"; cases "fst (insert_share p st2)")
          (auto simp: path row chk now p_def [symmetric] Let_def [of "share_parts _ _ _ _ _ _ _ _"] split: if_splits)
      define st4 where "st4 = emit_share_activity C ShareCreated ''share_created_you'' ''share_created_by''
        i (cr_requester req) (cr_type req) (Some (cr_with req)) (cr_path req) None
        (if cr_type req = ShareUser then share_created_mail C (cr_with req) (cr_requester req) path st3 else st3)"
      have c3: "share_core st4 = share_core st3" by (simp add: st4_def)
      obtain rs st5 where rs: "search_fanout_recipients C (cr_type req) (Some (cr_with req)) st4 = (rs, st5)"
        by (cases "search_fanout_recipients C (cr_type req) (Some (cr_with req)) st4")
      have s: "s = created_row req i row p" and core: "share_core st' = share_core st5"
        using run nl ins rs
        by (auto simp: path row chk now p_def [symmetric] st4_def [symmetric] Let_def split: if_splits)
      have "\<exists>q. stored req st q s st'"
        unfolding s p_def
        by (rule storedI [OF ins [unfolded p_def]])
          (use False share_now_core [OF now] check_recipient_core [OF chk] search_recipients_core [OF rs] core c3 in auto)
      with none Inr show ?thesis by simp
    qed
  qed
qed

section \<open>Updates and removals\<close>

inductive edits :: "int \<Rightarrow> 's shares_state \<Rightarrow> 's shares_state \<Rightarrow> bool" for i where
  none: "edits i st st"
| password: "edits i st st1 \<Longrightarrow> edits i st (run_update_password i h st1)"
| permissions: "edits i st st1 \<Longrightarrow> edits i st (run_update_permissions i (as_u32 (from_wire b)) st1)"
| expiration: "edits i st st1 \<Longrightarrow> edits i st (run_update_expiration i e st1)"

lemma set_share_other: "r \<in> set (sh_rows st) \<Longrightarrow> rp_id r \<noteq> i \<Longrightarrow> r \<in> set (sh_rows (set_share i f st))"
  by (auto simp: set_share_def sql_update_def image_iff)

lemma set_share_this:
  "r \<in> set (sh_rows st) \<Longrightarrow> rp_id r = i \<Longrightarrow> f r \<in> set (sh_rows (set_share i f st))"
  by (auto simp: set_share_def sql_update_def image_iff)

lemma edits_ok: "edits i st st' \<Longrightarrow> shares_inv st \<Longrightarrow> shares_inv st' \<and> (\<forall>r \<in> set (sh_rows st). rp_id r \<noteq> i \<longrightarrow> r \<in> set (sh_rows st'))"
  by (induction rule: edits.induct)
    (simp_all add: shares_inv_updates, simp_all add: run_update_password_def run_update_permissions_def
      run_update_expiration_def set_share_other)

lemma found_share:
  assumes "shares_inv st" "found (share_get i st) = Inr row"
  obtains r where "r \<in> set (sh_rows st)" "rp_id r = i" "assemble_row r = Inr row"
  using assms sql_first_Some
  by (fastforce simp: found_def share_get_def opt_share_def rbind_Inr_iff split: option.splits)

lemma assemble_simps:
  assumes "assemble_row r = Inr row"
  shows "shr_id row = rp_id r" "shr_owner row = rp_owner r" "shr_with row = rp_with r"
    "shr_accepted row \<longleftrightarrow> rp_accepted r \<noteq> 0" "shr_type row = ty \<longleftrightarrow> rp_type r = share_type_to_i16 ty"
    "shr_token row = rp_token r" "shr_password row = rp_password r" "shr_file_source row = rp_file_source r"
    "shr_permissions row = from_wire (rp_permissions r)" "shr_expiration row = rp_expiration r"
proof -
  have from16: "share_type_try_from n = Inr t \<Longrightarrow> n = share_type_to_i16 t" for n t
    by (auto simp: share_type_try_from_def split: if_splits)
  show "shr_type row = ty \<longleftrightarrow> rp_type r = share_type_to_i16 ty"
    using assms by (auto simp: assemble_row_def split: sum.splits option.splits dest!: from16
      dest: arg_cong [where f = share_type_try_from])
qed (use assms in \<open>auto simp: assemble_row_def split: sum.splits option.splits\<close>)

lemma share_ok_assembles: "shares_inv st \<Longrightarrow> r \<in> set (sh_rows st) \<Longrightarrow> \<exists>row. assemble_row r = Inr row"
  by (auto simp: shares_inv_def share_ok_def)

lemma share_get_row:
  assumes "shares_inv st" "r \<in> set (sh_rows st)" "assemble_row r = Inr row"
  shows "share_get (rp_id r) st = Inr (Some row)"
  using first_by_id [OF assms(1,2)] assms(3) by (simp add: share_get_def opt_share_def)

lemma update_password_step_cases:
  "update_password_step C i row o' st = (r, st') \<Longrightarrow> edits i st st'"
  by (auto simp: update_password_step_def ret_def fail_def split: option.splits if_splits sum.splits intro: edits.intros)

lemma update_permissions_step_cases:
  "update_permissions_step i row o' st1 = (r, st') \<Longrightarrow> edits i st st1 \<Longrightarrow> edits i st st'"
  by (auto simp: update_permissions_step_def ret_def fail_def split: option.splits if_splits intro: edits.intros)

lemma share_update_cases:
  assumes "share_update C i u f st = (r, st')"
  obtains (refused) "st' = st"
    | (edited) row where "found (share_get i st) = Inr row" "shr_owner row = uid_str u" "edits i st st'"
  using assms
  by (auto simp: share_update_def ebind_def Let_def split: sum.splits if_splits prod.splits option.splits
      dest!: update_password_step_cases dest: update_permissions_step_cases intro: edits.intros)

text \<open>The users a row is addressed to.\<close>

definition addressed :: "'s shares_cfg \<Rightarrow> 's \<Rightarrow> user_id \<Rightarrow> row_parts \<Rightarrow> bool" where
  "addressed C s u r \<longleftrightarrow> rp_type r = 0 \<and> rp_with r = Some (uid_str u) \<or>
     rp_type r = 1 \<and> (case fst (gs_groups_of (sc_groups C) u s) of
        Inr gs \<Rightarrow> rp_with r \<in> Some ` gid_str ` set gs | Inl _ \<Rightarrow> False)"

lemma is_recipient_addressed:
  assumes "is_recipient C row u st = (Inr True, st')" "assemble_row r = Inr row"
  shows "addressed C (sh_store st) u r"
  using assms(1) assemble_simps(3,5) [OF assms(2)]
  by (auto simp: is_recipient_def addressed_def ret_def ebind_def map_err_def on_users_def
      split: if_splits sum.splits prod.splits)

lemma share_delete_cases:
  assumes "share_delete C i u st = (r, st')" "shares_inv st"
  obtains (refused) "share_core st' = share_core st" "r \<noteq> Inr ()"
    | (removed) x where "x \<in> set (sh_rows st)" "rp_id x = i" "rp_owner x = uid_str u"
        "share_core st' = (filter (\<lambda>r. rp_id r \<noteq> i) (sh_rows st), sh_next st)" "r = Inr ()"
    | (declined) x where "x \<in> set (sh_rows st)" "rp_id x = i" "rp_owner x \<noteq> uid_str u" "rp_accepted x \<noteq> 0"
        "addressed C (sh_store st) u x"
        "share_core st' = share_core (set_share i (\<lambda>r. r\<lparr>rp_accepted := 0\<rparr>) st)" "r = Inr ()"
proof (cases "found (share_get i st)")
  case (Inl e)
  then show ?thesis using assms(1) refused by (auto simp: share_delete_def)
next
  case (Inr row)
  obtain x where x: "x \<in> set (sh_rows st)" "rp_id x = i" "assemble_row x = Inr row"
    by (rule found_share [OF assms(2) Inr])
  note row = assemble_simps [OF x(3)]
  obtain b st1 where rec: "is_recipient C row u st = (b, st1)" by (cases "is_recipient C row u st")
  have core: "share_core st1 = share_core st" by (rule is_recipient_core [OF rec])
  show ?thesis
  proof (cases b)
    case (Inl e)
    then show ?thesis using assms(1) refused Inr rec core by (auto simp add: share_delete_def)
  next
    case b: (Inr b')
    consider "rp_owner x = uid_str u" | "rp_owner x \<noteq> uid_str u" "b'" "rp_accepted x \<noteq> 0"
      | "rp_owner x \<noteq> uid_str u" "\<not> b' \<or> rp_accepted x = 0" by blast
    then show ?thesis
    proof cases
      case 1
      then have "share_core st' = (filter (\<lambda>r. rp_id r \<noteq> i) (sh_rows st), sh_next st)" "r = Inr ()"
        using assms(1) Inr rec b row share_coreD [OF core]
        by (auto simp: share_delete_def Let_def) (simp_all add: share_core_def sql_delete_def)
      then show ?thesis using removed x 1 by blast
    next
      case 2
      then have "share_core st' = share_core (set_share i (\<lambda>r. r\<lparr>rp_accepted := 0\<rparr>) st)" "r = Inr ()"
        using assms(1) Inr rec b row share_coreD [OF core]
        by (auto simp: share_delete_def) (simp_all add: share_core_def set_share_def)
      moreover have "addressed C (sh_store st) u x"
        by (rule is_recipient_addressed [OF _ x(3), of C u st st1]) (use rec b 2(2) in simp)
      ultimately show ?thesis by (intro declined [OF x(1,2) 2(1,3)])
    next
      case 3
      then show ?thesis using assms(1) Inr rec b row core refused
        by (auto simp: share_delete_def split: if_splits)
    qed
  qed
qed

section \<open>Reachable states\<close>

text \<open>
  A step with the user it is done for; the warnings of the sweeper and the changes of the other
  components' state have none.
\<close>

inductive share_step :: "'s shares_cfg \<Rightarrow> user_id option \<Rightarrow> 's shares_state \<Rightarrow> 's shares_state \<Rightarrow> bool" for C where
  create: "share_create C req st = (r, st') \<Longrightarrow> cr_requester req = uid_str u \<Longrightarrow> share_step C (Some u) st st'"
| update: "share_update C i u f st = (r, st') \<Longrightarrow> share_step C (Some u) st st'"
| delete: "share_delete C i u st = (r, st') \<Longrightarrow> share_step C (Some u) st st'"
| warned: "share_step C None st (stamp_last_warned i t st)"
| others: "share_core st' = share_core st \<Longrightarrow> share_step C None st st'"

inductive share_reachable :: "'s shares_cfg \<Rightarrow> 's shares_state \<Rightarrow> bool" for C where
  start: "sh_rows st = [] \<Longrightarrow> share_reachable C st"
| step: "share_reachable C st \<Longrightarrow> share_step C a st st' \<Longrightarrow> share_reachable C st'"

lemma stored_rows:
  assumes "stored req st p s st'"
  shows "sh_rows st' = sh_rows st @ [p]" "sh_next st' = sh_next st + 1" "p \<in> set (sh_rows st')"
  using assms by (simp_all add: stored_def share_core_def)

lemma stored_inv:
  assumes "stored req st p s st'" "shares_inv st"
  shows "shares_inv st'"
proof (rule shares_invI)
  have p: "rp_id p = sh_next st" "share_ok p" "\<And>t x. rp_token p = Some t \<Longrightarrow> x \<in> set (sh_rows st) \<Longrightarrow> rp_token x \<noteq> Some t"
    using assms(1) by (simp_all add: stored_def)
  note rows = stored_rows [OF assms(1)]
  have old: "rp_id x < sh_next st" if "x \<in> set (sh_rows st)" for x using assms(2) that by (simp add: shares_inv_def)
  show "distinct (map rp_id (sh_rows st'))"
    using assms(2) old by (force simp: rows(1) p(1) shares_inv_def)
  show "share_ok x \<and> rp_id x < sh_next st'" if "x \<in> set (sh_rows st')" for x
    using assms(2) that p(1,2) unfolding rows(1,2) shares_inv_def by (auto dest: old)
  show "rp_id x = rp_id y" if xy: "x \<in> set (sh_rows st')" "y \<in> set (sh_rows st')" and tok: "rp_token x \<noteq> None" "rp_token x = rp_token y" for x y
  proof -
    consider "x \<in> set (sh_rows st)" "y \<in> set (sh_rows st)" | "x = p" "y = p" | "x = p" "y \<in> set (sh_rows st)"
      | "y = p" "x \<in> set (sh_rows st)" using xy unfolding rows(1) by auto
    then show ?thesis
    proof cases
      case 1
      then show ?thesis using assms(2) tok unfolding shares_inv_def by blast
    qed (use tok p(3) in auto)
  qed
qed

lemma share_step_inv: "share_step C a st st' \<Longrightarrow> shares_inv st \<Longrightarrow> shares_inv st'"
proof (induction rule: share_step.induct)
  case (create req st r st' u)
  from share_create_stored [OF create(1)] show ?case
    by (elim disjE exE conjE) (use create(3) shares_inv_core stored_inv in blast)+
next
  case (update i u f st r st')
  from update(1) show ?case by (cases rule: share_update_cases) (use update(2) edits_ok in blast)+
next
  case (delete i u st r st')
  from delete(1,2) show ?case
  proof (cases rule: share_delete_cases)
    case refused
    then show ?thesis using delete(2) shares_inv_core by blast
  next
    case (removed x)
    then have rows: "sh_rows st' = filter (\<lambda>r. rp_id r \<noteq> i) (sh_rows st)" "sh_next st' = sh_next st"
      by (simp_all add: share_core_def)
    show ?thesis using delete(2) by (auto simp: shares_inv_def rows distinct_map_filter)
  next
    case (declined x)
    show ?thesis using shares_inv_core [OF declined(6)] shares_inv_updates(4) [OF delete(2)] by blast
  qed
next
  case (warned i t st)
  then show ?case using shares_inv_updates(5) by blast
next
  case (others st' st)
  then show ?case using shares_inv_core by blast
qed

lemma share_reachable_inv: "share_reachable C st \<Longrightarrow> shares_inv st"
proof (induction rule: share_reachable.induct)
  case (start st)
  then show ?case by (simp add: shares_inv_def)
qed (rule share_step_inv)

end
