(* ===== verification/Shares_Props.thy ===== *)
theory Shares_Props
  imports Shares_Correct
begin

text \<open>
  The properties of sharing, with a small installation for the witnesses: alice owns the folder
  docs; bob and carol are the members of the group staff, whatever the account tables say.
\<close>

section \<open>A concrete installation\<close>

definition shares_sample_users :: users_env where
  "shares_sample_users = \<lparr>ue_valid_email = (\<lambda>e. True), ue_sql_lower = ascii_lower\<rparr>"

definition shares_sample_db :: users_db where
  "shares_sample_db =
     \<lparr>db_users = map (\<lambda>u. \<lparr>ur_uid = u, ur_password = None, ur_display = None, ur_email = None, ur_last_seen = 0,
        ur_enabled = 1\<rparr>) [''alice'', ''bob'', ''carol''],
      db_groups = [(''staff'', None)], db_group_user = [(''staff'', ''bob''), (''staff'', ''carol'')], db_prefs = []\<rparr>"

definition shares_sample_row :: "int \<Rightarrow> string \<Rightarrow> int option \<Rightarrow> fc_row" where
  "shares_sample_row i path par =
     \<lparr>fr_id = i, fr_storage = 1, fr_path = path, fr_hash = path, fr_parent = par, fr_name = path, fr_mime = 1,
      fr_part = 1, fr_size = 0, fr_mtime = 0, fr_stime = 0, fr_etag = replicate 40 (CHR ''0''), fr_perms = 31\<rparr>"

definition shares_sample_cache :: fc_db where
  "shares_sample_cache =
     \<lparr>fd_rows = [shares_sample_row 1 [] None, shares_sample_row 2 ''docs'' (Some 1), shares_sample_row 3 ''docs/a'' (Some 2)],
      fd_next = 4, fd_storages = [(1, ''home::alice'', None)], fd_mimes = [(1, DIRECTORY_MIMETYPE)],
      fd_storage_ids = (\<lambda>s. None), fd_mime_ids = (\<lambda>s. None), fd_world = sample_world\<rparr>"

definition shares_sample_cfg :: "users_db shares_cfg" where
  "shares_sample_cfg =
     \<lparr>sc_users = sql_user_store shares_sample_users,
      sc_groups = (sql_group_store shares_sample_users)
        \<lparr>gs_groups_of := \<lambda>u s. (Inr (if uid_str u \<in> {''bob'', ''carol''} then [GroupId ''staff''] else []), s)\<rparr>,
      sc_fc = \<lparr>fe_dialect = Postgres, fe_md5 = (\<lambda>s. s), fe_lower = (\<lambda>s. s)\<rparr>,
      sc_bcrypt = \<lparr>bc_verify = (\<lambda>p h. h = CHR ''$'' # p), bc_hash = (\<lambda>p. Inr (CHR ''$'' # p)), bc_sentinel = []\<rparr>,
      sc_activity = \<lparr>ac_codec = \<lparr>jc_write = (\<lambda>v. []), jc_read = (\<lambda>s. None)\<rparr>, ac_window = 60\<rparr>,
      sc_url = ''https://c''\<rparr>"

definition shares_sample_start :: "users_db shares_state" where
  "shares_sample_start =
     \<lparr>sh_rows = [], sh_next = 1, sh_store = shares_sample_db, sh_cache = shares_sample_cache,
      sh_activity = \<lparr>ad_rows = [], ad_next = 1, ad_settings = []\<rparr>, sh_mail = [], sh_fanout = [], sh_prefs = [],
      sh_world = sample_world\<rparr>"

definition shares_sample_req :: "share_type \<Rightarrow> string \<Rightarrow> create_share_request" where
  "shares_sample_req ty w =
     \<lparr>cr_requester = ''alice'', cr_path = ''/docs'', cr_type = ty, cr_with = w, cr_permissions = 17,
      cr_home = ''home::alice'', cr_password = None, cr_expire = None\<rparr>"

definition shares_sample_parts :: "share_type \<Rightarrow> string \<Rightarrow> row_parts" where
  "shares_sample_parts ty w =
     \<lparr>rp_id = 1, rp_type = share_type_to_i16 ty, rp_with = (if is_link ty then None else Some w), rp_owner = ''alice'',
      rp_initiator = ''alice'', rp_parent = None, rp_item_type = ''folder'', rp_item_source = 2, rp_file_source = 2,
      rp_file_target = ''/docs'', rp_permissions = 1, rp_stime = 0, rp_accepted = 1, rp_expiration = None,
      rp_token = (if is_link ty then Some (map (nth ALPHABET) [0..<15]) else None), rp_password = None, rp_last_warned = None\<rparr>"

definition shares_sample :: "share_type \<Rightarrow> string \<Rightarrow> users_db shares_state" where
  "shares_sample ty w = shares_sample_start\<lparr>sh_rows := [shares_sample_parts ty w], sh_next := 2\<rparr>"

lemma share_create_core:
  assumes "\<not> is_link (cr_type req)" "cr_permissions req AND 1 \<noteq> 0" "parse_wire_path (cr_path req) = Inr path"
    "owned_row C (cr_home req) path st = Inr row" "check_recipient C (cr_type req) (cr_with req) st = (Inr (), st1)"
  shows "share_core (snd (share_create C req st)) =
    (sh_rows st @ [(share_parts req (Some (cr_with req)) row (CHR ''/'' # storage_basename path) (fst (share_now st1)) None None None)
       \<lparr>rp_id := sh_next st\<rparr>], sh_next st + 1)"
proof -
  let ?p = "share_parts req (Some (cr_with req)) row (CHR ''/'' # storage_basename path) (fst (share_now st1)) None None None"
  obtain t st2 where now: "share_now st1 = (t, st2)" by (cases "share_now st1")
  have core: "share_core st2 = share_core st" using share_now_core [OF now] check_recipient_core [OF assms(5)] by simp
  define st3 where "st3 = st2\<lparr>sh_rows := sh_rows st2 @ [?p\<lparr>rp_id := sh_next st2\<rparr>], sh_next := sh_next st2 + 1\<rparr>"
  have ins: "insert_share ?p st2 = (Inr (sh_next st2), st3)"
    by (simp add: insert_share_def share_parts_def st3_def)
  have "share_core (snd (share_create C req st)) = share_core st3"
    using assms now ins
    by (auto simp: share_create_def is_link_def Let_def split: prod.splits dest!: search_recipients_core)
  then show ?thesis using share_coreD [OF core] by (simp add: st3_def share_core_def)
qed

lemma create_link_core:
  assumes "cr_permissions req AND 1 \<noteq> 0" "parse_wire_path (cr_path req) = Inr path" "cr_type req = ShareLink"
    "owned_row C (cr_home req) path st = Inr row" "cr_password req = None" "sh_rows st = []"
    "share_now st = (t, st1)" "token_generate (sh_world st1) = (k, w)"
  shows "share_core (snd (share_create C req st)) =
    ([(share_parts req None row (CHR ''/'' # as_str path) t (map_option (\<lambda>d. d * 86400) (cr_expire req)) (Some k) None)
       \<lparr>rp_id := sh_next st\<rparr>], sh_next st + 1)"
proof -
  let ?p = "share_parts req None row (CHR ''/'' # as_str path) t (map_option (\<lambda>d. d * 86400) (cr_expire req)) (Some k) None"
  have core: "share_core (st1\<lparr>sh_world := w\<rparr>) = share_core st" using share_now_core [OF assms(7)] by simp
  define st3 where "st3 = st1\<lparr>sh_world := w, sh_rows := sh_rows st1 @ [?p\<lparr>rp_id := sh_next st1\<rparr>], sh_next := sh_next st1 + 1\<rparr>"
  have ins: "insert_share ?p (st1\<lparr>sh_world := w\<rparr>) = (Inr (sh_next st1), st3)"
    using share_coreD(1) [OF core] assms(6) by (simp add: insert_share_def st3_def sql_first_def)
  have "share_core (snd (share_create C req st)) = share_core st3"
    using assms ins by (simp add: share_create_def create_link_def hash_link_password_def Let_def)
  then show ?thesis using share_coreD [OF core] assms(6) by (simp add: st3_def share_core_def)
qed

lemma shares_sample_eval:
  "parse_wire_path ''/docs'' = Inr (StoragePath ''docs'')"
  "case owned_row shares_sample_cfg ''home::alice'' (StoragePath ''docs'') shares_sample_start of
     Inr row \<Rightarrow> fcr_id row = 2 \<and> item_type_of row = ItemFolder | Inl _ \<Rightarrow> False"
  "case check_recipient shares_sample_cfg ShareGroup ''staff'' shares_sample_start of (Inr _, st1) \<Rightarrow> fst (share_now st1) = 0 | _ \<Rightarrow> False"
  "fst (share_now shares_sample_start) = 0"
  "fst (token_generate (sh_world (snd (share_now shares_sample_start)))) = map (nth ALPHABET) [0..<15]"
  by code_simp+

lemma shares_sample_reachable:
  assumes "ty \<in> {ShareGroup, ShareLink}"
  shows "share_reachable shares_sample_cfg (shares_sample ty ''staff'')"
proof -
  let ?st = "\<lambda>ty. snd (share_create shares_sample_cfg (shares_sample_req ty ''staff'') shares_sample_start)"
  have "share_step shares_sample_cfg (Some (UserId ''alice'')) shares_sample_start (?st ty)"
    by (rule share_step.create [OF prod.collapse [symmetric]]) (simp add: shares_sample_req_def)
  moreover have "share_reachable shares_sample_cfg shares_sample_start"
    by (rule share_reachable.start) (simp add: shares_sample_start_def)
  ultimately have reach: "share_reachable shares_sample_cfg (?st ty)" using share_reachable.step by blast
  obtain row where row: "owned_row shares_sample_cfg ''home::alice'' (StoragePath ''docs'') shares_sample_start = Inr row"
    "fcr_id row = 2" "item_type_of row = ItemFolder"
    using shares_sample_eval(2) by (auto split: sum.splits)
  obtain st1 where chk: "check_recipient shares_sample_cfg ShareGroup ''staff'' shares_sample_start = (Inr (), st1)"
    "fst (share_now st1) = 0" using shares_sample_eval(3) by (auto split: prod.splits sum.splits)
  have req: "cr_type (shares_sample_req ty w) = ty" "cr_permissions (shares_sample_req ty w) AND 1 \<noteq> 0"
    "cr_path (shares_sample_req ty w) = ''/docs''" "cr_home (shares_sample_req ty w) = ''home::alice''"
    "cr_with (shares_sample_req ty w) = w" "cr_password (shares_sample_req ty w) = None" "cr_expire (shares_sample_req ty w) = None"
    "cr_requester (shares_sample_req ty w) = ''alice''" "cr_permissions (shares_sample_req ty w) = 17" for ty w
    by (simp_all add: shares_sample_req_def)
  have start: "sh_rows shares_sample_start = []" "sh_next shares_sample_start = 1" by (simp_all add: shares_sample_start_def)
  have parts: "as_u32 (from_wire 17) = 1" "storage_basename (StoragePath ''docs'') = ''docs''" by code_simp+
  have "share_core (?st ShareGroup) = share_core (shares_sample ShareGroup ''staff'')"
    by (subst share_create_core [where path = "StoragePath ''docs''" and row = row and ?st1.0 = st1])
      (simp_all add: req shares_sample_eval(1) row chk start parts is_link_def share_parts_def share_core_def shares_sample_def
        shares_sample_parts_def)
  moreover have "share_core (?st ShareLink) = share_core (shares_sample ShareLink ''staff'')"
    by (subst create_link_core [where path = "StoragePath ''docs''" and row = row, OF _ _ _ _ _ _ prod.collapse [symmetric] prod.collapse [symmetric]])
      (simp_all add: req shares_sample_eval row start parts is_link_def share_parts_def share_core_def shares_sample_def
        shares_sample_parts_def)
  ultimately have "share_core (shares_sample ty ''staff'') = share_core (?st ty)" using assms by auto
  then show ?thesis by (rule share_reachable.step [OF reach share_step.others])
qed

lemma shares_sample_created:
  obtains s st' where "share_create shares_sample_cfg (shares_sample_req ShareGroup ''staff'') shares_sample_start = (Inr s, st')"
proof -
  let ?c = "share_create shares_sample_cfg (shares_sample_req ShareGroup ''staff'') shares_sample_start"
  obtain row where row: "owned_row shares_sample_cfg ''home::alice'' (StoragePath ''docs'') shares_sample_start = Inr row"
    using shares_sample_eval(2) by (auto split: sum.splits)
  obtain st1 where chk: "check_recipient shares_sample_cfg ShareGroup ''staff'' shares_sample_start = (Inr (), st1)"
    using shares_sample_eval(3) by (auto split: prod.splits sum.splits)
  have "share_core (snd ?c) \<noteq> share_core shares_sample_start"
    by (subst share_create_core [where path = "StoragePath ''docs''" and row = row and ?st1.0 = st1])
      (simp_all add: shares_sample_req_def is_link_def shares_sample_eval(1) row chk share_core_def)
  then show ?thesis
    using that share_create_stored [of shares_sample_cfg "shares_sample_req ShareGroup ''staff''" shares_sample_start "fst ?c" "snd ?c"]
    by (cases ?c) auto
qed

lemma shares_sample_group:
  "sh_rows (shares_sample ty w) = [shares_sample_parts ty w]" "rp_id (shares_sample_parts ty w) = 1"
  by (simp_all add: shares_sample_def shares_sample_parts_def)

section \<open>Properties\<close>

text \<open>
  C16. In every state that creations, updates, removals, expiry warnings and the other components'
  steps reach, every stored share decodes, never grants the right to share on, and is the only one
  with its id and with its token; links and only links have a token.
\<close>

theorem share_reachable_ok:
  assumes "share_reachable C st" "r \<in> set (sh_rows st)"
  shows "\<exists>s. assemble_row r = Inr s \<and> sp_bits (shr_permissions s) AND SHARE_BIT = 0 \<and>
    (shr_token s = None \<longleftrightarrow> shr_type s = ShareUser \<or> shr_type s = ShareGroup) \<and>
    (\<forall>r' \<in> set (sh_rows st). rp_id r' = rp_id r \<or> rp_token r \<noteq> None \<and> rp_token r' = rp_token r \<longrightarrow> r' = r)"
proof -
  have inv: "shares_inv st" by (rule share_reachable_inv [OF assms(1)])
  then have ok: "share_ok r" using assms(2) by (simp add: shares_inv_def)
  then obtain s where s: "assemble_row r = Inr s" by (auto simp: share_ok_def)
  note row = assemble_simps [OF s]
  have "shr_type s = ShareUser \<or> shr_type s = ShareGroup \<longleftrightarrow> \<not> rp_type r \<in> {3, 4}"
    using row(5) [of "shr_type s"] by (cases "shr_type s") simp_all
  then have "shr_token s = None \<longleftrightarrow> shr_type s = ShareUser \<or> shr_type s = ShareGroup"
    using ok row(6) unfolding share_ok_def by (cases "rp_token r") auto
  moreover have "sp_bits (shr_permissions s) AND SHARE_BIT = 0"
  proof (rule bit_eqI)
    fix n assume "possible_bit TYPE(u8) n"
    have sixteen: "SHARE_BIT = 2 ^ 4" by (simp add: SHARE_BIT_def)
    have "bit SHARE_BIT n \<Longrightarrow> n = 4" unfolding sixteen bit_exp_iff by auto
    then show "bit (sp_bits (shr_permissions s) AND SHARE_BIT) n = bit (0 :: u8) n"
      unfolding row(9) by (auto simp: bit_from_wire bit_and_iff)
  qed
  moreover have "r' = r" if "r' \<in> set (sh_rows st)" "rp_id r' = rp_id r \<or> rp_token r \<noteq> None \<and> rp_token r' = rp_token r" for r'
    using row_unique [OF inv that(1) assms(2)] that inv assms(2) unfolding shares_inv_def by metis
  ultimately show ?thesis using s by (intro exI [of _ s]) simp
qed

theorem share_reachable_ok_witness:
  "\<exists>s. assemble_row (shares_sample_parts ShareGroup ''staff'') = Inr s \<and> sp_bits (shr_permissions s) AND SHARE_BIT = 0"
  using share_reachable_ok [OF shares_sample_reachable [of ShareGroup], of "shares_sample_parts ShareGroup ''staff''"]
  by (auto simp: shares_sample_group)

text \<open>
  C15. A user's step leaves every share of another owner in place, except that it may decline an
  accepted share addressed to the user or to one of its groups.
\<close>

theorem share_owner_only:
  assumes "share_reachable C st" "share_step C (Some u) st st'" "r \<in> set (sh_rows st)" "rp_owner r \<noteq> uid_str u"
  shows "r \<in> set (sh_rows st') \<or>
    rp_accepted r \<noteq> 0 \<and> addressed C (sh_store st) u r \<and> r\<lparr>rp_accepted := 0\<rparr> \<in> set (sh_rows st')"
proof -
  have inv: "shares_inv st" by (rule share_reachable_inv [OF assms(1)])
  have same: "r \<in> set (sh_rows st')" if "share_core st' = share_core st" using share_coreD(1) [OF that] assms(3) by simp
  from assms(2) show ?thesis
  proof cases
    case (create req x)
    from share_create_stored [OF create(1)] show ?thesis using same stored_rows(1) assms(3) by fastforce
  next
    case (update i f x)
    from update show ?thesis
    proof (cases rule: share_update_cases)
      case refused
      then show ?thesis using assms(3) by simp
    next
      case (edited row)
      obtain y where "y \<in> set (sh_rows st)" "rp_id y = i" "assemble_row y = Inr row"
        by (rule found_share [OF inv edited(1)])
      then have "rp_id r \<noteq> i" using row_unique [OF inv _ assms(3)] assms(4) edited(2) assemble_simps(2) by fastforce
      then show ?thesis using edits_ok [OF edited(3) inv] assms(3) by blast
    qed
  next
    case (delete i x)
    from delete inv show ?thesis
    proof (cases rule: share_delete_cases)
      case refused
      then show ?thesis using same by blast
    next
      case (removed y)
      then have "rp_id r \<noteq> i" using row_unique [OF inv _ assms(3)] assms(4) by blast
      then show ?thesis using removed(4) assms(3) by (simp add: share_core_def)
    next
      case (declined y)
      note rows = share_coreD(1) [OF declined(6)]
      show ?thesis
      proof (cases "rp_id r = i")
        case True
        then have "y = r" using row_unique [OF inv declined(1) assms(3)] declined(2) by simp
        then show ?thesis
          using declined(4,5) set_share_this [OF assms(3) True, of "\<lambda>r. r\<lparr>rp_accepted := 0\<rparr>"] unfolding rows by blast
      next
        case False
        then show ?thesis using set_share_other [OF assms(3)] unfolding rows by blast
      qed
    qed
  qed
qed

theorem share_owner_only_witness:
  "let r = shares_sample_parts ShareGroup ''staff''; st' = snd (share_delete shares_sample_cfg 1 (UserId ''bob'') (shares_sample ShareGroup ''staff''))
   in r \<in> set (sh_rows st') \<or> r\<lparr>rp_accepted := 0\<rparr> \<in> set (sh_rows st')"
proof -
  have "rp_owner (shares_sample_parts ShareGroup ''staff'') \<noteq> ''bob''" by code_simp
  moreover have "share_step shares_sample_cfg (Some (UserId ''bob'')) (shares_sample ShareGroup ''staff'')
      (snd (share_delete shares_sample_cfg 1 (UserId ''bob'') (shares_sample ShareGroup ''staff'')))"
    by (rule share_step.delete [OF prod.collapse [symmetric]])
  ultimately show ?thesis
    using share_owner_only [OF shares_sample_reachable [of ShareGroup], of "UserId ''bob''" _ "shares_sample_parts ShareGroup ''staff''"]
    by (auto simp: shares_sample_group Let_def)
qed

lemma collect_Inr:
  assumes "\<And>x. x \<in> set xs \<Longrightarrow> \<exists>y. f x = Inr y"
  obtains ys where "collect f xs = Inr ys" "\<forall>y. y \<in> set ys \<longleftrightarrow> (\<exists>x \<in> set xs. f x = Inr y)"
proof -
  have "\<exists>ys. collect f xs = Inr ys \<and> (\<forall>y. y \<in> set ys \<longleftrightarrow> (\<exists>x \<in> set xs. f x = Inr y))"
    using assms
  proof (induction xs)
    case (Cons x xs)
    obtain y where "f x = Inr y" using Cons.prems [of x] by auto
    moreover obtain ys where "collect f xs = Inr ys" "\<forall>z. z \<in> set ys \<longleftrightarrow> (\<exists>x \<in> set xs. f x = Inr z)"
      using Cons.IH Cons.prems by auto
    ultimately show ?case by (auto intro!: exI [of _ "y # ys"])
  qed simp
  with that show ?thesis by blast
qed

lemma select_shares_spec:
  assumes "shares_inv st"
  obtains l where "select_shares P st = Inr l"
    "\<forall>s. s \<in> set l \<longleftrightarrow> (\<exists>r \<in> set (sh_rows st). P r \<and> assemble_row r = Inr s)"
proof -
  have "\<exists>s. assemble_row r = Inr s" if "r \<in> set (sort_key rp_id (filter P (sh_rows st)))" for r
    using share_ok_assembles [OF assms] that by simp
  then obtain l where "collect assemble_row (sort_key rp_id (filter P (sh_rows st))) = Inr l"
    "\<forall>s. s \<in> set l \<longleftrightarrow> (\<exists>r \<in> set (sort_key rp_id (filter P (sh_rows st))). assemble_row r = Inr s)"
    by (rule collect_Inr)
  then show ?thesis by (intro that [of l]) (auto simp: select_shares_def)
qed

lemma list_incoming_spec:
  assumes "shares_inv st" "list_incoming C u st = (res, st')"
  obtains (failed) e where "fst (gs_groups_of (sc_groups C) u (sh_store st)) = Inl e" "res = Inl (map_users e)"
    | (listed) gs l where "fst (gs_groups_of (sc_groups C) u (sh_store st)) = Inr gs" "res = Inr l"
        "\<forall>s. s \<in> set l \<longleftrightarrow> (\<exists>r \<in> set (sh_rows st). incoming u gs r \<and> assemble_row r = Inr s)"
proof (cases "gs_groups_of (sc_groups C) u (sh_store st)")
  case (Pair g s')
  show ?thesis
  proof (cases g)
    case (Inl e)
    then show ?thesis using failed [of e] assms(2) Pair
      by (simp add: list_incoming_def ebind_def map_err_def on_users_def)
  next
    case (Inr gs)
    have "shares_inv (st\<lparr>sh_store := s'\<rparr>)"
      using shares_inv_core [of "st\<lparr>sh_store := s'\<rparr>" st] assms(1) by (simp add: share_core_def)
    then obtain l where l: "select_shares (incoming u gs) (st\<lparr>sh_store := s'\<rparr>) = Inr l"
      "\<forall>s. s \<in> set l \<longleftrightarrow> (\<exists>r \<in> set (sh_rows (st\<lparr>sh_store := s'\<rparr>)). incoming u gs r \<and> assemble_row r = Inr s)"
      by (rule select_shares_spec)
    show ?thesis
      by (rule listed [of gs l])
        (use assms(2) Pair Inr l in \<open>auto simp: list_incoming_def ebind_def map_err_def on_users_def\<close>)
  qed
qed

lemma created_share_lookup:
  assumes "share_reachable C st" "share_create C req st = (Inr s, st')"
  shows "share_get (shr_id s) st' = Inr (Some s)"
    and "list_incoming C u st' = (res, st'') \<Longrightarrow> fst (gs_groups_of (sc_groups C) u (sh_store st')) = Inr gs \<Longrightarrow>
      cr_type req = ShareUser \<and> cr_with req = uid_str u \<or> cr_type req = ShareGroup \<and> cr_with req \<in> gid_str ` set gs \<Longrightarrow>
      \<exists>l. res = Inr l \<and> s \<in> set l"
proof -
  obtain p where p: "stored req st p s st'" using share_create_stored [OF assms(2)] by auto
  have inv: "shares_inv st'" by (rule stored_inv [OF p share_reachable_inv [OF assms(1)]])
  have "assemble_row p = Inr s" using p by (simp add: stored_def)
  then show "share_get (shr_id s) st' = Inr (Some s)"
    using share_get_row [OF inv stored_rows(3) [OF p]] assemble_simps(1) by fastforce
  assume list: "list_incoming C u st' = (res, st'')" and gs: "fst (gs_groups_of (sc_groups C) u (sh_store st')) = Inr gs"
    and to: "cr_type req = ShareUser \<and> cr_with req = uid_str u \<or> cr_type req = ShareGroup \<and> cr_with req \<in> gid_str ` set gs"
  have "incoming u gs p" using p to by (auto simp: stored_def incoming_def is_link_def)
  moreover from inv list show "\<exists>l. res = Inr l \<and> s \<in> set l"
    by (cases rule: list_incoming_spec)
      (use gs \<open>assemble_row p = Inr s\<close> \<open>incoming u gs p\<close> stored_rows(3) [OF p] in auto)
qed

text \<open>
  C17. A share that was just created is found under its id, and a share with a user or a group is
  in the incoming list of every user it is addressed to.
\<close>

theorem created_share_found:
  assumes "share_reachable C st" "share_create C req st = (Inr s, st')"
  shows "share_get (shr_id s) st' = Inr (Some s) \<and>
    (\<forall>u gs. fst (gs_groups_of (sc_groups C) u (sh_store st')) = Inr gs \<longrightarrow>
      cr_type req = ShareUser \<and> cr_with req = uid_str u \<or> cr_type req = ShareGroup \<and> cr_with req \<in> gid_str ` set gs \<longrightarrow>
      (\<exists>l. fst (list_incoming C u st') = Inr l \<and> s \<in> set l))"
  using created_share_lookup [OF assms] created_share_lookup(2) [OF assms prod.collapse [symmetric]]
  by blast

theorem created_share_found_witness:
  "\<exists>s st'. share_create shares_sample_cfg (shares_sample_req ShareGroup ''staff'') shares_sample_start = (Inr s, st') \<and>
     share_get (shr_id s) st' = Inr (Some s) \<and>
     (\<exists>l. fst (list_incoming shares_sample_cfg (UserId ''carol'') st') = Inr l \<and> s \<in> set l)"
proof -
  obtain s st' where c: "share_create shares_sample_cfg (shares_sample_req ShareGroup ''staff'') shares_sample_start = (Inr s, st')"
    by (rule shares_sample_created)
  have start: "share_reachable shares_sample_cfg shares_sample_start"
    by (rule share_reachable.start) (simp add: shares_sample_start_def)
  have "fst (gs_groups_of (sc_groups shares_sample_cfg) (UserId ''carol'') (sh_store st')) = Inr [GroupId ''staff'']"
    by (simp add: shares_sample_cfg_def)
  moreover have "cr_type (shares_sample_req ShareGroup ''staff'') = ShareGroup \<and>
      cr_with (shares_sample_req ShareGroup ''staff'') \<in> gid_str ` set [GroupId ''staff'']"
    by (simp add: shares_sample_req_def)
  ultimately show ?thesis using created_share_found [OF start c] c by blast
qed

text \<open>
  C18. A created link has a token in the format the front door accepts, and resolving that token
  yields exactly the created row, also after any further steps that leave the row in the table.
\<close>

theorem link_resolves:
  assumes "share_reachable C st" "create_link C req st = (Inr s, st')" "is_link (cr_type req)"
    "share_reachable C st2" "r \<in> set (sh_rows st2)" "assemble_row r = Inr s"
  shows "\<exists>t. shr_token s = Some t \<and> token_parse t = Some t \<and> resolve_by_token t st' = Inr (Some s) \<and>
    resolve_by_token t st2 = Inr (Some s)"
proof -
  obtain p where p: "stored req st p s st'" using create_link_stored [OF assms(2,3)] by auto
  have inv: "shares_inv st'" "shares_inv st2"
    by (rule stored_inv [OF p share_reachable_inv [OF assms(1)]], rule share_reachable_inv [OF assms(4)])
  have asm: "assemble_row p = Inr s" and ok: "share_ok p" and ty: "rp_type p \<in> {3, 4}"
    using p assms(3) by (auto simp: stored_def is_link_def)
  then obtain t where t: "rp_token p = Some t" unfolding share_ok_def by auto
  have one: "resolve_by_token t X = Inr (Some s)"
    if "shares_inv X" "x \<in> set (sh_rows X)" "assemble_row x = Inr s" for X x
  proof -
    have x: "rp_token x = Some t" "rp_type x \<in> {3, 4}"
      using assemble_simps(6) [OF that(3)] assemble_simps(6) [OF asm] assemble_simps(5) [OF that(3), of "shr_type s"]
        assemble_simps(5) [OF asm, of "shr_type s"] t ty
      by auto
    have "sql_first (\<lambda>r. rp_token r = Some t \<and> rp_type r \<in> {3, 4}) (sh_rows X) = Some x"
    proof (rule sql_first_unique [OF that(2)])
      show "rp_token x = Some t \<and> rp_type x \<in> {3, 4}" using x by simp
      show "y = x" if y: "y \<in> set (sh_rows X)" "rp_token y = Some t \<and> rp_type y \<in> {3, 4}" for y
      proof -
        have "rp_id y = rp_id x" using that y x \<open>shares_inv X\<close> \<open>x \<in> set (sh_rows X)\<close> unfolding shares_inv_def by (metis option.distinct(1))
        then show ?thesis by (rule row_unique [OF \<open>shares_inv X\<close> y(1) \<open>x \<in> set (sh_rows X)\<close>])
      qed
    qed
    then show ?thesis using that(3) by (simp add: resolve_by_token_def opt_share_def)
  qed
  have "token_parse t = Some t" using p t by (simp add: stored_def)
  then show ?thesis
    using t one [OF inv(1) stored_rows(3) [OF p] asm] one [OF inv(2) assms(5,6)] assemble_simps(6) [OF asm] by auto
qed

theorem link_resolves_witness:
  "\<exists>s st' t. create_link shares_sample_cfg (shares_sample_req ShareLink ''staff'') shares_sample_start = (Inr s, st') \<and>
     token_parse t = Some t \<and> resolve_by_token t st' = Inr (Some s)"
proof -
  let ?c = "create_link shares_sample_cfg (shares_sample_req ShareLink ''staff'') shares_sample_start"
  have ty: "is_link (cr_type (shares_sample_req ShareLink ''staff''))" by (simp add: is_link_def shares_sample_req_def)
  obtain row where "owned_row shares_sample_cfg ''home::alice'' (StoragePath ''docs'') shares_sample_start = Inr row"
    using shares_sample_eval(2) by (auto split: sum.splits)
  then have "share_core (snd (share_create shares_sample_cfg (shares_sample_req ShareLink ''staff'') shares_sample_start))
      \<noteq> share_core shares_sample_start"
    by (subst create_link_core [where path = "StoragePath ''docs''" and row = row, OF _ _ _ _ _ _ prod.collapse [symmetric] prod.collapse [symmetric]])
      (simp_all add: shares_sample_req_def shares_sample_eval(1) share_core_def shares_sample_start_def)
  then have "share_core (snd ?c) \<noteq> share_core shares_sample_start"
    by (simp add: share_create_def shares_sample_req_def)
  then obtain s p where c: "?c = (Inr s, snd ?c)" "stored (shares_sample_req ShareLink ''staff'') shares_sample_start p s (snd ?c)"
    using create_link_stored [of shares_sample_cfg "shares_sample_req ShareLink ''staff''" shares_sample_start "fst ?c" "snd ?c", OF _ ty]
    by (cases ?c) auto
  have start: "share_reachable shares_sample_cfg shares_sample_start"
    by (rule share_reachable.start) (simp add: shares_sample_start_def)
  have "share_step shares_sample_cfg (Some (UserId ''alice'')) shares_sample_start (snd ?c)"
    by (rule share_step.create [of _ "shares_sample_req ShareLink ''staff''" _ "Inr s"])
      (use c(1) in \<open>simp_all add: share_create_def shares_sample_req_def\<close>)
  then have reach: "share_reachable shares_sample_cfg (snd ?c)" by (rule share_reachable.step [OF start])
  have "p \<in> set (sh_rows (snd ?c))" "assemble_row p = Inr s"
    using c(2) stored_rows(3) [OF c(2)] by (simp_all add: stored_def)
  from link_resolves [OF start c(1) ty reach this] c(1) show ?thesis by blast
qed

text \<open>
  C21. A member that declines a share with its group removes it from the incoming list of every
  user: the row is shared by all members and is marked as a whole.
\<close>

theorem group_decline_hits_all:
  assumes "share_reachable C st" "r \<in> set (sh_rows st)" "rp_type r = 1" "rp_owner r \<noteq> uid_str u"
    "share_delete C (rp_id r) u st = (Inr (), st')" "list_incoming C v st' = (Inr l, st'')"
  shows "(\<exists>r' \<in> set (sh_rows st'). rp_id r' = rp_id r \<and> rp_with r' = rp_with r) \<and> rp_id r \<notin> shr_id ` set l"
proof (rule conjI)
  have inv: "shares_inv st" by (rule share_reachable_inv [OF assms(1)])
  have inv': "shares_inv st'" by (rule share_step_inv [OF share_step.delete [OF assms(5)] inv])
  let ?r = "r\<lparr>rp_accepted := 0\<rparr>"
  have mem: "?r \<in> set (sh_rows st')"
    using assms(5) inv
  proof (cases rule: share_delete_cases)
    case (removed x)
    then show ?thesis using row_unique [OF inv assms(2)] assms(4) by fastforce
  next
    case (declined x)
    then show ?thesis
      using share_coreD(1) [OF declined(6)] set_share_this [OF assms(2), of "rp_id r" "\<lambda>r. r\<lparr>rp_accepted := 0\<rparr>"] by simp
  qed simp
  then show "\<exists>r' \<in> set (sh_rows st'). rp_id r' = rp_id r \<and> rp_with r' = rp_with r"
    by (rule bexI [rotated]) simp
  from inv' assms(6) show "rp_id r \<notin> shr_id ` set l"
  proof (cases rule: list_incoming_spec)
    case (listed gs l')
    show ?thesis
    proof
      assume "rp_id r \<in> shr_id ` set l"
      then obtain s x where "x \<in> set (sh_rows st')" "incoming v gs x" "assemble_row x = Inr s" "shr_id s = rp_id r"
        using listed(2,3) by fastforce
      moreover from this have "x = ?r" using row_unique [OF inv' _ mem] assemble_simps(1) by fastforce
      ultimately show False by (simp add: incoming_def)
    qed
  qed simp
qed

theorem group_decline_hits_all_witness:
  "let st = shares_sample ShareGroup ''staff''; st' = snd (share_delete shares_sample_cfg 1 (UserId ''bob'') st)
   in map rp_accepted (sh_rows st) = [1] \<and>
      1 \<notin> shr_id ` set (case fst (list_incoming shares_sample_cfg (UserId ''carol'') st') of Inr l \<Rightarrow> l | Inl _ \<Rightarrow> [])"
proof -
  let ?st = "shares_sample ShareGroup ''staff''" and ?r = "shares_sample_parts ShareGroup ''staff''"
  let ?d = "share_delete shares_sample_cfg 1 (UserId ''bob'') ?st"
  let ?l = "list_incoming shares_sample_cfg (UserId ''carol'') (snd ?d)"
  have row: "rp_type ?r = 1" "rp_owner ?r \<noteq> uid_str (UserId ''bob'')" by code_simp+
  have "case fst ?d of Inr _ \<Rightarrow> True | Inl _ \<Rightarrow> False" by code_simp
  then have d: "share_delete shares_sample_cfg (rp_id ?r) (UserId ''bob'') ?st = (Inr (), snd ?d)"
    by (cases ?d; cases "fst ?d") (simp_all add: shares_sample_group)
  have "1 \<notin> shr_id ` set l" if "?l = (Inr l, x)" for l x
    using group_decline_hits_all [THEN conjunct2, OF shares_sample_reachable [of ShareGroup] _ row d that] by (simp add: shares_sample_group)
  then have "1 \<notin> shr_id ` set (case fst ?l of Inr l \<Rightarrow> l | Inl _ \<Rightarrow> [])"
    by (cases ?l; cases "fst ?l") simp_all
  moreover have "map rp_accepted (sh_rows ?st) = [1]" by code_simp
  ultimately show ?thesis by (simp only: Let_def simp_thms)
qed

text \<open>
  C22. An update is not one change: when it carries a password and rights that are refused, the
  answer is an error but the password of the link is already replaced.
\<close>

theorem update_not_atomic:
  assumes "share_reachable C st" "r \<in> set (sh_rows st)" "rp_type r \<in> {3, 4}" "rp_owner r = uid_str u"
    "uf_note f = None" "uf_password f = Some (Some pw)" "link_password_hash (sc_bcrypt C) pw = Inr h"
    "uf_permissions f = Some raw" "raw AND 1 = 0" "raw AND 4 = 0"
  shows "\<exists>st'. share_update C (rp_id r) u f st = (Inl ShBadPermissions, st') \<and>
    r\<lparr>rp_password := Some h\<rparr> \<in> set (sh_rows st')"
proof -
  have inv: "shares_inv st" by (rule share_reachable_inv [OF assms(1)])
  obtain row where row: "assemble_row r = Inr row" using share_ok_assembles [OF inv assms(2)] by blast
  have "found (share_get (rp_id r) st) = Inr row"
    using share_get_row [OF inv assms(2) row] by (simp add: found_def)
  moreover have "shr_owner row = uid_str u" using assemble_simps(2) [OF row] assms(4) by simp
  moreover have "is_link (shr_type row)"
    using assemble_simps(5) [OF row, of ShareLink] assemble_simps(5) [OF row, of ShareEmail] assms(3) by (auto simp: is_link_def)
  ultimately have "share_update C (rp_id r) u f st = (Inl ShBadPermissions, run_update_password (rp_id r) (Some h) st)"
    using assms(5-10) by (simp add: share_update_def update_password_step_def hash_link_password_def
        update_permissions_step_def ebind_def fail_def)
  moreover have "r\<lparr>rp_password := Some h\<rparr> \<in> set (sh_rows (run_update_password (rp_id r) (Some h) st))"
    unfolding run_update_password_def by (rule set_share_this [OF assms(2) refl])
  ultimately show ?thesis by blast
qed

theorem update_not_atomic_witness:
  "\<exists>st'. share_update shares_sample_cfg 1 (UserId ''alice'')
       \<lparr>uf_permissions = Some 2, uf_expire = None, uf_password = Some (Some ''pw''), uf_note = None\<rparr>
       (shares_sample ShareLink ''staff'') = (Inl ShBadPermissions, st') \<and>
     (shares_sample_parts ShareLink ''staff'')\<lparr>rp_password := Some ''$pw''\<rparr> \<in> set (sh_rows st')"
  using update_not_atomic [OF shares_sample_reachable [of ShareLink], of "shares_sample_parts ShareLink ''staff''" "UserId ''alice''"
      "\<lparr>uf_permissions = Some 2, uf_expire = None, uf_password = Some (Some ''pw''), uf_note = None\<rparr>" "''pw''" "''$pw''" 2]
  by (simp add: shares_sample_group link_password_hash_def MAX_PASSWORD_BYTES_def shares_sample_cfg_def)
    (simp add: shares_sample_parts_def)

end
