(* ===== verification/Activity_Correct.thy ===== *)
theory Activity_Correct
  imports Activity
begin

text \<open>
  What the feed promises: its counters refine the log of deliveries, users who switched an event
  off receive none, and the cursor of a listing continues it without gaps or repetitions.
\<close>

section \<open>Reachable feeds\<close>

definition activity_ok :: "activity_db \<Rightarrow> bool" where
  "activity_ok D \<longleftrightarrow> distinct (map ay_id (ad_rows D)) \<and> 0 < ad_next D \<and>
     (\<forall>r \<in> set (ad_rows D). 0 < ay_id r \<and> ay_id r < ad_next D \<and> 0 < ay_count r)"

lemma emit_to_cases:
  obtains (off) "emit_to C ev p D = D" "uid_str p \<noteq> ae_actor ev"
      "\<not> stream_enabled (uid_str p) (event_type_str (ae_type ev)) D"
  | (merge) i where "emit_to C ev p D = coalesce_update i (ae_occurred ev) (jc_write (ac_codec C) (ae_params ev)) D"
      "coalesce_probe (uid_str p) (ae_actor ev) (event_type_str (ae_type ev)) (ae_object_id ev)
         (ae_occurred ev - ac_window C) D = Some i"
      "uid_str p = ae_actor ev \<or> stream_enabled (uid_str p) (event_type_str (ae_type ev)) D"
  | (new) subject where "emit_to C ev p D = insert_activity (uid_str p) (ae_actor ev) (event_type_str (ae_type ev)) subject
        (jc_write (ac_codec C) (ae_params ev)) (object_type_str (ae_object_type ev)) (ae_object_id ev) (ae_occurred ev) D"
      "uid_str p = ae_actor ev \<or> stream_enabled (uid_str p) (event_type_str (ae_type ev)) D"
proof (cases "uid_str p \<noteq> ae_actor ev \<and> \<not> stream_enabled (uid_str p) (event_type_str (ae_type ev)) D")
  case True
  then show thesis by (intro off) (simp_all add: emit_to_def)
next
  case False
  let ?probe = "if 0 < ac_window C
                    then coalesce_probe (uid_str p) (ae_actor ev) (event_type_str (ae_type ev)) (ae_object_id ev) (ae_occurred ev - ac_window C) D
                    else None"
  show thesis
  proof (cases ?probe)
    case None
    then show thesis using False
      by (intro new [of "if uid_str p = ae_actor ev then ae_subject_actor ev else ae_subject_recipient ev"])
        (auto simp: emit_to_def Let_def)
  next
    case (Some i)
    then have "0 < ac_window C" by (simp split: if_splits)
    then show thesis using False Some by (intro merge) (auto simp: emit_to_def Let_def)
  qed
qed

lemma probe_hit:
  assumes "coalesce_probe u a ty ob cutoff D = Some i"
  shows "\<exists>r \<in> set (ad_rows D). ay_id r = i \<and> ay_user r = u \<and> ay_actor r = a \<and> ay_type r = ty \<and> ay_object_id r = ob"
  using assms by (auto simp: coalesce_probe_def dest!: sql_first_Some)

lemma emit_to_settings [simp]: "ad_settings (emit_to C ev p D) = ad_settings D"
  by (cases rule: emit_to_cases [of C ev p D]) (simp_all add: coalesce_update_def insert_activity_def)

lemma emit_to_ok:
  assumes "activity_ok D"
  shows "activity_ok (emit_to C ev p D)"
proof (cases rule: emit_to_cases [of C ev p D])
  case (merge i)
  let ?D = "coalesce_update i (ae_occurred ev) (jc_write (ac_codec C) (ae_params ev)) D"
  have ids: "map ay_id (ad_rows ?D) = map ay_id (ad_rows D)" by (simp add: coalesce_update_def sql_update_def)
  have "0 < ay_id r \<and> ay_id r < ad_next D \<and> 0 < ay_count r" if "r \<in> set (ad_rows ?D)" for r
    using that assms by (force simp: coalesce_update_def sql_update_def activity_ok_def)
  moreover have "ad_next ?D = ad_next D" by (simp add: coalesce_update_def)
  ultimately show ?thesis unfolding merge(1) activity_ok_def ids using assms by (simp add: activity_ok_def)
next
  case (new s)
  then show ?thesis using assms by (fastforce simp: activity_ok_def insert_activity_def)
qed (use assms in simp)

lemma fold_keeps:
  assumes "\<And>x D. P D \<Longrightarrow> P (f x D)" "P D"
  shows "P (fold f xs D)"
  using assms(2) by (induction xs arbitrary: D) (auto intro: assms(1))

lemma set_keep_new: "set (keep_new seen xs) = set xs - seen"
  by (induction seen xs rule: keep_new.induct) auto

lemma distinct_keep_new: "distinct (keep_new seen xs)"
  by (induction seen xs rule: keep_new.induct) (auto simp: set_keep_new)

inductive activity_reachable :: "activity_cfg \<Rightarrow> activity_db \<Rightarrow> bool" for C where
  New: "activity_reachable C \<lparr>ad_rows = [], ad_next = 1, ad_settings = []\<rparr>"
| Emit: "activity_reachable C D \<Longrightarrow> activity_reachable C (activity_emit C ev D)"
| Sweep: "activity_reachable C D \<Longrightarrow> activity_reachable C (snd (sweep_expired t D))"
| Set: "activity_reachable C D \<Longrightarrow> activity_reachable C (set_stream u ty b D)"

lemma activity_reachable_ok: "activity_reachable C D \<Longrightarrow> activity_ok D"
proof (induction rule: activity_reachable.induct)
  case (Emit D ev)
  then show ?case unfolding activity_emit_def by (intro fold_keeps [of activity_ok] emit_to_ok)
next
  case (Sweep D t)
  then show ?case by (auto simp: activity_ok_def sweep_expired_def sql_delete_def distinct_map_filter)
qed (auto simp: activity_ok_def set_stream_def split: prod.splits)

section \<open>The counters\<close>

text \<open>The abstract feed: how many deliveries there were of each kind.\<close>

type_synonym delivery = "string \<times> string \<times> string \<times> int option"

definition row_delivery :: "activity_row \<Rightarrow> delivery" where
  "row_delivery r = (ay_user r, ay_actor r, ay_type r, ay_object_id r)"

definition deliveries :: "activity_db \<Rightarrow> delivery \<Rightarrow> int" where
  "deliveries D k = sum_list (map (\<lambda>r. if row_delivery r = k then ay_count r else 0) (ad_rows D))"

definition event_delivery :: "activity_event \<Rightarrow> user_id \<Rightarrow> delivery" where
  "event_delivery ev p = (uid_str p, ae_actor ev, event_type_str (ae_type ev), ae_object_id ev)"

definition accepts :: "activity_db \<Rightarrow> activity_event \<Rightarrow> user_id \<Rightarrow> bool" where
  "accepts D ev p \<longleftrightarrow> uid_str p = ae_actor ev \<or> stream_enabled (uid_str p) (event_type_str (ae_type ev)) D"

lemma accepts_emit [simp]: "accepts (emit_to C ev p D) ev q = accepts D ev q"
  by (simp add: accepts_def stream_enabled_def)

lemma sum_bump:
  assumes "distinct (map ay_id rows)" "r \<in> set rows" "\<And>x. row_delivery (g x) = row_delivery x" "\<And>x. ay_count (g x) = ay_count x + 1"
  shows "sum_list (map (\<lambda>x. if row_delivery x = k then ay_count x else 0) (map (\<lambda>x. if ay_id x = ay_id r then g x else x) rows))
    = sum_list (map (\<lambda>x. if row_delivery x = k then ay_count x else 0) rows) + (if row_delivery r = k then 1 else 0)"
  using assms(1,2)
proof (induction rows)
  case (Cons a rows)
  show ?case
  proof (cases "a = r")
    case True
    then have "map (\<lambda>x. if ay_id x = ay_id r then g x else x) rows = rows"
      using Cons.prems(1) by (intro map_idI) (auto simp: image_iff)
    then show ?thesis using True assms(3,4) by simp
  next
    case False
    then have "ay_id a \<noteq> ay_id r" using Cons.prems by (auto simp: image_iff)
    then show ?thesis using Cons False by simp
  qed
qed simp

lemma emit_to_deliveries:
  assumes "activity_ok D"
  shows "deliveries (emit_to C ev p D) k =
    deliveries D k + (if accepts D ev p \<and> event_delivery ev p = k then 1 else 0)"
proof (cases rule: emit_to_cases [of C ev p D])
  case off
  then show ?thesis by (simp add: accepts_def)
next
  case (merge i)
  obtain r where r: "r \<in> set (ad_rows D)" "ay_id r = i" "row_delivery r = event_delivery ev p"
    using probe_hit [OF merge(2)] by (auto simp: row_delivery_def event_delivery_def)
  let ?g = "\<lambda>x. x\<lparr>ay_count := ay_count x + 1, ay_seen := ae_occurred ev, ay_params := jc_write (ac_codec C) (ae_params ev)\<rparr>"
  have "distinct (map ay_id (ad_rows D))" using assms by (simp add: activity_ok_def)
  from sum_bump [OF this r(1), of ?g k] show ?thesis
    using merge r by (simp add: deliveries_def coalesce_update_def sql_update_def row_delivery_def accepts_def)
next
  case (new s)
  then show ?thesis
    by (simp add: deliveries_def insert_activity_def row_delivery_def event_delivery_def accepts_def)
qed

lemma fold_deliveries:
  assumes "activity_ok D" "distinct ps"
  shows "deliveries (fold (emit_to C ev) ps D) k =
    deliveries D k + (if \<exists>p \<in> set ps. accepts D ev p \<and> event_delivery ev p = k then 1 else 0)"
  using assms
proof (induction ps arbitrary: D)
  case (Cons p ps)
  have inj: "q = p" if "event_delivery ev q = event_delivery ev p" for q
    using that by (cases q; cases p) (simp add: event_delivery_def)
  show ?case
    using Cons.IH [OF emit_to_ok [OF Cons.prems(1)], of C ev p] Cons.prems(2) inj
    by (auto simp: emit_to_deliveries [OF Cons.prems(1)])
qed simp

section \<open>Pages\<close>

lemma strictly_descending:
  assumes "distinct (map ay_id xs)" "sorted (map (\<lambda>r. - ay_id r) xs)"
  shows "sorted_wrt (\<lambda>a b. ay_id b < ay_id a) xs"
  using assms by (induction xs) (auto simp: order.strict_iff_order image_iff)

lemma descending_cut:
  assumes "sorted_wrt (\<lambda>a b. ay_id b < ay_id a) xs" "take n xs \<noteq> []"
  shows "filter (\<lambda>r. ay_id r < ay_id (last (take n xs))) xs = drop (length (take n xs)) xs"
proof -
  let ?s = "ay_id (last (take n xs))"
  have app: "sorted_wrt (\<lambda>a b. ay_id b < ay_id a) (take n xs @ drop n xs)" using assms(1) by simp
  obtain ys y where ys: "take n xs = ys @ [y]" using assms(2) by (metis rev_exhaust)
  have "filter (\<lambda>r. ay_id r < ?s) (take n xs) = []"
    using app unfolding ys by (auto simp: filter_empty_conv sorted_wrt_append)
  moreover have "filter (\<lambda>r. ay_id r < ?s) (drop n xs) = drop n xs"
    using app unfolding ys by (auto simp: filter_id_conv sorted_wrt_append)
  ultimately have "filter (\<lambda>r. ay_id r < ?s) (take n xs @ drop n xs) = drop n xs" by (simp only: filter_append) simp
  then show ?thesis by (cases "n \<le> length xs") (simp_all add: min_def)
qed

section \<open>Properties\<close>

definition sample_activity_cfg :: activity_cfg where
  "sample_activity_cfg = \<lparr>ac_codec = \<lparr>jc_write = (\<lambda>v. []), jc_read = (\<lambda>s. None)\<rparr>, ac_window = 60\<rparr>"

definition sample_event :: "int \<Rightarrow> activity_event" where
  "sample_event t = \<lparr>ae_actor = ''alice'', ae_type = FileUpdated, ae_subject_actor = ''file_updated_you'',
     ae_subject_recipient = ''file_updated_by'', ae_params = JObject [(''file'', JString ''a.txt'')],
     ae_object_type = ObjFile, ae_object_id = Some 7, ae_recipients = [UserId ''alice'', UserId ''bob'', UserId ''bob''],
     ae_occurred = t\<rparr>"

definition sample_feed :: activity_db where
  "sample_feed = activity_emit sample_activity_cfg (sample_event 130)
     (activity_emit sample_activity_cfg (sample_event 100) \<lparr>ad_rows = [], ad_next = 1, ad_settings = []\<rparr>)"

lemma sample_feed_reachable: "activity_reachable sample_activity_cfg sample_feed"
  unfolding sample_feed_def by (intro activity_reachable.intros)

text \<open>
  C19. The feed refines the log of deliveries: emitting an event adds one delivery for each
  recipient that accepts it, however often the recipient is listed and whether or not the row is
  merged into an earlier one, and changes no other counter.
\<close>

theorem emit_refines:
  assumes "activity_reachable C D"
  shows "deliveries (activity_emit C ev D) =
    (\<lambda>k. deliveries D k + (if \<exists>p \<in> set (ae_recipients ev). accepts D ev p \<and> event_delivery ev p = k then 1 else 0))"
  using fold_deliveries [OF activity_reachable_ok [OF assms] distinct_keep_new, of C ev "{}" "ae_recipients ev"]
  by (intro ext) (simp add: activity_emit_def set_keep_new)

theorem emit_refines_witness:
  "deliveries (activity_emit sample_activity_cfg (sample_event 150) sample_feed) (''bob'', ''alice'', ''file_updated'', Some 7) = 3"
proof -
  have "deliveries sample_feed (''bob'', ''alice'', ''file_updated'', Some 7) = 2" by code_simp
  moreover have "accepts sample_feed (sample_event 150) (UserId ''bob'')" by code_simp
  moreover have "event_delivery (sample_event 150) (UserId ''bob'') = (''bob'', ''alice'', ''file_updated'', Some 7)"
    "UserId ''bob'' \<in> set (ae_recipients (sample_event 150))" by code_simp+
  ultimately show ?thesis unfolding emit_refines [OF sample_feed_reachable] by auto
qed

text \<open>
  A listing continues at its cursor: the page after a page is what one longer listing would
  have returned there, newest first, without gaps or repetitions.
\<close>

theorem cursor_continues:
  assumes "activity_reachable C D" "activity_list K u None n D = page" "page \<noteq> []"
  shows "activity_list K u None (length page + m) D =
    page @ activity_list K u (Some (ay_id (av_row (last page)))) m D"
proof -
  define xs where "xs = sort_key (\<lambda>r. - ay_id r) (filter (\<lambda>r. ay_user r = u) (ad_rows D))"
  have page: "page = map (decode_row K) (take n xs)" using assms(2) by (simp add: activity_list_def xs_def)
  have ok: "activity_ok D" by (rule activity_reachable_ok [OF assms(1)])
  have "distinct (map ay_id xs)"
    using ok by (simp add: xs_def activity_ok_def distinct_map distinct_filter inj_on_def)
  moreover have "sorted (map (\<lambda>r. - ay_id r) xs)" by (simp add: xs_def)
  ultimately have desc: "sorted_wrt (\<lambda>a b. ay_id b < ay_id a) xs" by (rule strictly_descending)
  have ne: "take n xs \<noteq> []" using assms(3) page by simp
  define s where "s = ay_id (last (take n xs))"
  have last: "ay_id (av_row (last page)) = s" using ne by (simp add: page last_map decode_row_def s_def)
  have "last (take n xs) \<in> set (ad_rows D)"
    using last_in_set [OF ne] in_set_takeD by (fastforce simp: xs_def)
  then have s0: "s \<noteq> 0" using ok by (auto simp: activity_ok_def s_def)
  have rest: "filter (\<lambda>r. ay_id r < s) xs = drop (length (take n xs)) xs"
    using descending_cut [OF desc ne] by (simp add: s_def)
  have len: "length page = length (take n xs)" by (simp add: page)
  have "activity_list K u (Some s) m D = map (decode_row K) (take m (filter (\<lambda>r. ay_id r < s) xs))"
    using s0 by (simp add: activity_list_def xs_def filter_sort filter_filter conj_commute)
  moreover have "activity_list K u None (length page + m) D = map (decode_row K) (take (length page + m) xs)"
    by (simp add: activity_list_def xs_def)
  moreover have "take (length page + m) xs = take n xs @ take m (drop (length (take n xs)) xs)"
    unfolding len take_add by (simp add: min_def)
  ultimately show ?thesis unfolding last by (simp add: rest page)
qed

definition sample_feed_two :: activity_db where
  "sample_feed_two = activity_emit sample_activity_cfg (sample_event 300) sample_feed"

theorem cursor_continues_witness:
  "map (ay_id \<circ> av_row) (activity_list (ac_codec sample_activity_cfg) ''bob'' None 2 sample_feed_two) =
     [4, 2] \<and>
   activity_list (ac_codec sample_activity_cfg) ''bob'' None 2 sample_feed_two =
     activity_list (ac_codec sample_activity_cfg) ''bob'' None 1 sample_feed_two @
     activity_list (ac_codec sample_activity_cfg) ''bob'' (Some 4) 1 sample_feed_two"
proof -
  let ?l = "activity_list (ac_codec sample_activity_cfg) ''bob'' None"
  have ids: "map (ay_id \<circ> av_row) (?l 2 sample_feed_two) = [4, 2]" "map (ay_id \<circ> av_row) (?l 1 sample_feed_two) = [4]"
    by code_simp+
  obtain v where page: "?l 1 sample_feed_two = [v]" "ay_id (av_row v) = 4" using ids(2) by (auto simp: map_eq_Cons_conv)
  have "activity_reachable sample_activity_cfg sample_feed_two"
    unfolding sample_feed_two_def by (intro activity_reachable.intros sample_feed_reachable)
  from cursor_continues [OF this page(1), of 1] page ids(1) show ?thesis by (simp add: numeral_2_eq_2)
qed

end
