(* ===== verification/Shares_Recipients.thy ===== *)
theory Shares_Recipients
  imports Shares_Props Activity_Correct
begin

text \<open>
  Who is told about a change of a file: the owners and the addressees of the shares on the file
  or on one of its ancestors.
\<close>

section \<open>Ancestors\<close>
text \<open>The \<open>k\<close>-th ancestor of a row, the row itself being the first.\<close>

fun ancestor :: "fc_env \<Rightarrow> fc_db \<Rightarrow> nat \<Rightarrow> int \<Rightarrow> int option" where
  "ancestor E S 0 i = Some i"
| "ancestor E S (Suc k) i =
     (case lookup_row_by_id E i S of
        Inr (Some row) \<Rightarrow> (case fcr_parent row of Some p \<Rightarrow> ancestor E S k p | None \<Rightarrow> None)
      | _ \<Rightarrow> None)"

lemma ancestor_ids_spec:
  "ancestor_ids E n i S = Inr ids \<Longrightarrow> a \<in> set (i # ids) \<longleftrightarrow> (\<exists>k \<le> n. ancestor E S k i = Some a)"
proof (induction n arbitrary: i ids)
  case (Suc n)
  have split: "(\<exists>k \<le> Suc n. P k) \<longleftrightarrow> P 0 \<or> (\<exists>k \<le> n. P (Suc k))" for P
    by (metis Suc_le_mono le0 old.nat.exhaust)
  show ?case
  proof (cases "\<exists>row p. lookup_row_by_id E i S = Inr (Some row) \<and> fcr_parent row = Some p")
    case True
    then obtain row p where row: "lookup_row_by_id E i S = Inr (Some row)" "fcr_parent row = Some p" by blast
    then obtain js where js: "ancestor_ids E n p S = Inr js" "ids = p # js"
      using Suc.prems by (auto simp: rbind_Inr_iff)
    show ?thesis using Suc.IH [OF js(1)] unfolding split js(2) by (auto simp: row)
  next
    case False
    then have "ids = []" using Suc.prems by (auto split: sum.splits option.splits)
    moreover have "ancestor E S (Suc k) i = None" for k using False by (auto split: sum.splits option.splits)
    ultimately show ?thesis unfolding split by auto
  qed
qed auto

definition reads_members :: "'s shares_cfg \<Rightarrow> (group_id \<Rightarrow> users_error + user_id list) \<Rightarrow> 's \<Rightarrow> bool" where
  "reads_members C members s \<longleftrightarrow> (\<forall>g. gs_members_of (sc_groups C) g s = (members g, s))"

text \<open>A user reaches a file through a share when it owns the share or is addressed by it.\<close>

definition reached :: "(group_id \<Rightarrow> users_error + user_id list) \<Rightarrow> user_id \<Rightarrow> row_parts \<Rightarrow> bool" where
  "reached members u r \<longleftrightarrow> rp_owner r = uid_str u \<or> rp_type r = 0 \<and> rp_with r = Some (uid_str u) \<or>
     rp_type r = 1 \<and> (\<exists>g gid ms. rp_with r = Some g \<and> group_id_new g = Inr gid \<and> members gid = Inr ms \<and> u \<in> set ms)"

lemma set_map_filter: "set (List.map_filter f xs) = {y. \<exists>x \<in> set xs. f x = Some y}"
  by (induction xs) (auto split: option.splits)

lemma on_users_members:
  "reads_members C members (sh_store st) \<Longrightarrow> on_users (gs_members_of (sc_groups C) g) st = (members g, st)"
  by (simp add: reads_members_def on_users_def)

lemma db_targets_spec:
  assumes "reads_members C members (sh_store st)"
  obtains ts where "db_targets C ty w st = (ts, st)"
    "uid_str u \<in> set ts \<longleftrightarrow> ty = 0 \<and> w = uid_str u \<or>
       ty = 1 \<and> (\<exists>gid ms. group_id_new w = Inr gid \<and> members gid = Inr ms \<and> u \<in> set ms)"
proof -
  have "inj uid_str" by (rule injI) (metis user_id.collapse)
  then have inj: "uid_str u \<in> uid_str ` set ms \<longleftrightarrow> u \<in> set ms" for ms by (simp add: inj_image_mem_iff)
  show ?thesis
    by (rule that [of "fst (db_targets C ty w st)"])
      (use on_users_members [OF assms] in \<open>auto simp: db_targets_def share_targets_def inj split: sum.splits prod.splits\<close>)
qed

definition reached_by :: "(group_id \<Rightarrow> users_error + user_id list) \<Rightarrow> user_id \<Rightarrow> int \<times> string \<times> string \<times> int \<times> string \<Rightarrow> bool" where
  "reached_by members u c \<longleftrightarrow> (case c of (ty, w, owner, _, _) \<Rightarrow> owner = uid_str u \<or> ty = 0 \<and> w = uid_str u \<or>
       ty = 1 \<and> (\<exists>gid ms. group_id_new w = Inr gid \<and> members gid = Inr ms \<and> u \<in> set ms))"

lemma expand_shares_spec:
  assumes "reads_members C members (sh_store st)"
  shows "\<exists>us. expand_shares C cs st = (us, st) \<and> (uid_str u \<in> set us \<longleftrightarrow> (\<exists>c \<in> set cs. reached_by members u c))"
proof (induction cs)
  case (Cons c cs)
  obtain ty w owner i t where c: "c = (ty, w, owner, i, t)" by (cases c)
  obtain ts where ts: "db_targets C ty w st = (ts, st)"
    "uid_str u \<in> set ts \<longleftrightarrow> ty = 0 \<and> w = uid_str u \<or>
       ty = 1 \<and> (\<exists>gid ms. group_id_new w = Inr gid \<and> members gid = Inr ms \<and> u \<in> set ms)"
    by (rule db_targets_spec [OF assms])
  obtain us where us: "expand_shares C cs st = (us, st)" "uid_str u \<in> set us \<longleftrightarrow> (\<exists>c \<in> set cs. reached_by members u c)"
    using Cons.IH by blast
  have "expand_shares C (c # cs) st = (owner # ts @ us, st)" by (simp add: c ts(1) us(1))
  moreover have "uid_str u \<in> set (owner # ts @ us) \<longleftrightarrow> (\<exists>x \<in> set (c # cs). reached_by members u x)"
    using ts(2) us(2) by (auto simp: c reached_by_def)
  ultimately show ?case by blast
qed simp



end
