(* ===== verification/Disk.thy ===== *)
theory Disk
  imports Storage_Trait
begin

text \<open>
  The file system under the data directory, as the functions of \<open>std::fs\<close> and
  \<open>tokio::fs\<close> show it to the code on Linux: a tree of directories and regular files
  without symbolic links, given by its absolute paths. The operations fail where the calls
  fail for a reason the tree decides (a missing or wrong kind of entry, a name over 255 bytes,
  a path over 4096 bytes); full disks and refused rights are left out. A backend's events go
  to the sink \<open>dk_events\<close>.
\<close>

type_synonym fpath = "string list"

text \<open>Extended attributes keep the tag and the mimetype of a file.\<close>

record node =
  nd_dir :: bool
  nd_data :: bytes
  nd_etag :: "string option"
  nd_mime :: "string option"
  nd_mtime :: nat
  nd_inode :: nat

record disk =
  dk_nodes :: "(fpath \<times> node) list"
  dk_inode :: nat
  dk_world :: world
  dk_events :: "storage_event list"

type_synonym ('d, 'a) disk_op = "('d disk_scheme, io_error, 'a) eff"

abbreviation node_at :: "'d disk_scheme \<Rightarrow> fpath \<Rightarrow> node option" where
  "node_at d p \<equiv> map_of (dk_nodes d) p"

definition NAME_MAX :: nat where "NAME_MAX = 255"

definition PATH_MAX :: nat where "PATH_MAX = 4096"

definition path_size :: "fpath \<Rightarrow> nat" where
  "path_size p = sum_list (map (\<lambda>s. Suc (length s)) p)"

definition too_long :: "fpath \<Rightarrow> bool" where
  "too_long p \<longleftrightarrow> (\<exists>s \<in> set p. NAME_MAX < length s) \<or> PATH_MAX \<le> path_size p"

definition is_dir_at :: "'d disk_scheme \<Rightarrow> fpath \<Rightarrow> bool" where
  "is_dir_at d p \<longleftrightarrow> (case node_at d p of Some n \<Rightarrow> nd_dir n | None \<Rightarrow> False)"

definition is_file_at :: "'d disk_scheme \<Rightarrow> fpath \<Rightarrow> bool" where
  "is_file_at d p \<longleftrightarrow> (case node_at d p of Some n \<Rightarrow> \<not> nd_dir n | None \<Rightarrow> False)"

section \<open>Looking up\<close>

text \<open>Why a path does not resolve: its length, a file on the way, or nothing there.\<close>

definition through_file :: "'d disk_scheme \<Rightarrow> fpath \<Rightarrow> bool" where
  "through_file d p \<longleftrightarrow> list_ex (\<lambda>n. is_file_at d (take n p)) [0..<length p]"

definition lookup_error :: "'d disk_scheme \<Rightarrow> fpath \<Rightarrow> io_error" where
  "lookup_error d p =
     (if too_long p then IoOther ''ENAMETOOLONG'' else if through_file d p then IoOther ''ENOTDIR'' else IoNotFound)"

text \<open>\<open>metadata\<close>, \<open>try_exists\<close> and \<open>Path::exists\<close>.\<close>

definition metadata_at :: "fpath \<Rightarrow> 'd disk_scheme \<Rightarrow> io_error + node" where
  "metadata_at p d =
     (if too_long p then Inl (lookup_error d p)
      else case node_at d p of Some n \<Rightarrow> Inr n | None \<Rightarrow> Inl (lookup_error d p))"

definition try_exists :: "fpath \<Rightarrow> 'd disk_scheme \<Rightarrow> io_error + bool" where
  "try_exists p d =
     (case metadata_at p d of Inr _ \<Rightarrow> Inr True | Inl e \<Rightarrow> if e = IoNotFound then Inr False else Inl e)"

definition path_exists :: "fpath \<Rightarrow> 'd disk_scheme \<Rightarrow> bool" where
  "path_exists p d \<longleftrightarrow> \<not> too_long p \<and> node_at d p \<noteq> None"

text \<open>\<open>read_dir\<close>: the names in a directory, in no promised order.\<close>

definition read_dir :: "fpath \<Rightarrow> 'd disk_scheme \<Rightarrow> io_error + string list" where
  "read_dir p d =
     (case metadata_at p d of
        Inl e \<Rightarrow> Inl e
      | Inr n \<Rightarrow>
          if \<not> nd_dir n then Inl (IoOther ''ENOTDIR'')
          else Inr (map (\<lambda>(q, _). last q) (filter (\<lambda>(q, _). q \<noteq> [] \<and> butlast q = p) (dk_nodes d))))"

definition read_file :: "fpath \<Rightarrow> 'd disk_scheme \<Rightarrow> io_error + bytes" where
  "read_file p d =
     (case metadata_at p d of
        Inl e \<Rightarrow> Inl e
      | Inr n \<Rightarrow> if nd_dir n then Inl (IoOther ''EISDIR'') else Inr (nd_data n))"

section \<open>Changing\<close>

definition disk_now :: "'d disk_scheme \<Rightarrow> nat \<times> 'd disk_scheme" where
  "disk_now d = (let (t, w) = now (dk_world d) in (t, d\<lparr>dk_world := w\<rparr>))"

definition set_node :: "fpath \<Rightarrow> node \<Rightarrow> 'd disk_scheme \<Rightarrow> 'd disk_scheme" where
  "set_node p n d =
     d\<lparr>dk_nodes := (if node_at d p \<noteq> None then map (\<lambda>(q, m). if q = p then (q, n) else (q, m)) (dk_nodes d)
                     else dk_nodes d @ [(p, n)])\<rparr>"

text \<open>A directory's time changes with its entries.\<close>

definition touch_parent :: "fpath \<Rightarrow> 'd disk_scheme \<Rightarrow> 'd disk_scheme" where
  "touch_parent p d =
     (let (t, d') = disk_now d in
      case node_at d' (butlast p) of
        Some n \<Rightarrow> set_node (butlast p) (n\<lparr>nd_mtime := t\<rparr>) d'
      | None \<Rightarrow> d')"

definition add_node :: "fpath \<Rightarrow> bool \<Rightarrow> bytes \<Rightarrow> 'd disk_scheme \<Rightarrow> 'd disk_scheme" where
  "add_node p dir bs d =
     (let (t, d1) = disk_now (touch_parent p d)
      in set_node p \<lparr>nd_dir = dir, nd_data = bs, nd_etag = None, nd_mime = None, nd_mtime = t, nd_inode = dk_inode d1\<rparr>
           (d1\<lparr>dk_inode := Suc (dk_inode d1)\<rparr>))"

text \<open>Whether an entry can be made: the name fits and the parent is a directory.\<close>

definition parent_error :: "fpath \<Rightarrow> 'd disk_scheme \<Rightarrow> io_error option" where
  "parent_error p d =
     (if too_long p then Some (IoOther ''ENAMETOOLONG'')
      else case metadata_at (butlast p) d of
        Inl e \<Rightarrow> Some e
      | Inr n \<Rightarrow> if nd_dir n then None else Some (IoOther ''ENOTDIR''))"

definition create_dir :: "fpath \<Rightarrow> ('d, unit) disk_op" where
  "create_dir p d =
     (if path_exists p d then (Inl IoAlreadyExists, d)
      else case parent_error p d of
        Some e \<Rightarrow> (Inl e, d)
      | None \<Rightarrow> (Inr (), add_node p True [] d))"

definition add_missing :: "fpath \<Rightarrow> 'd disk_scheme \<Rightarrow> 'd disk_scheme" where
  "add_missing p d =
     fold (\<lambda>n d. if node_at d (take n p) \<noteq> None then d else add_node (take n p) True [] d) [0..<Suc (length p)] d"

definition create_dir_all :: "fpath \<Rightarrow> ('d, unit) disk_op" where
  "create_dir_all p d =
     (if too_long p then (Inl (IoOther ''ENAMETOOLONG''), d)
      else if through_file d p then (Inl (IoOther ''ENOTDIR''), d)
      else if is_file_at d p then (Inl IoAlreadyExists, d)
      else (Inr (), add_missing p d))"

text \<open>\<open>File::create\<close> followed by the write of \<open>bs\<close>; an existing file keeps its attributes.\<close>

definition write_file :: "fpath \<Rightarrow> bytes \<Rightarrow> ('d, unit) disk_op" where
  "write_file p bs d =
     (case (if too_long p then None else node_at d p) of
        Some n \<Rightarrow>
          if nd_dir n then (Inl (IoOther ''EISDIR''), d)
          else (let (t, d') = disk_now d in (Inr (), set_node p (n\<lparr>nd_data := bs, nd_mtime := t\<rparr>) d'))
      | None \<Rightarrow>
          (case parent_error p d of
             Some e \<Rightarrow> (Inl e, d)
           | None \<Rightarrow> (Inr (), add_node p False bs d)))"

text \<open>\<open>OpenOptions::create_new\<close> and the write.\<close>

definition write_new :: "fpath \<Rightarrow> bytes \<Rightarrow> ('d, unit) disk_op" where
  "write_new p bs d = (if path_exists p d then (Inl IoAlreadyExists, d) else write_file p bs d)"

text \<open>\<open>fs::copy\<close>: the contents; the attributes of the target stay.\<close>

definition copy_file :: "fpath \<Rightarrow> fpath \<Rightarrow> ('d, unit) disk_op" where
  "copy_file a b d =
     (case metadata_at a d of
        Inl e \<Rightarrow> (Inl e, d)
      | Inr n \<Rightarrow> if nd_dir n then (Inl (IoOther ''EINVAL''), d) else write_file b (nd_data n) d)"

definition drop_tree :: "fpath \<Rightarrow> 'd disk_scheme \<Rightarrow> 'd disk_scheme" where
  "drop_tree p d = d\<lparr>dk_nodes := filter (\<lambda>(q, _). \<not> prefix p q) (dk_nodes d)\<rparr>"

definition remove_file :: "fpath \<Rightarrow> ('d, unit) disk_op" where
  "remove_file p d =
     (case metadata_at p d of
        Inl e \<Rightarrow> (Inl e, d)
      | Inr n \<Rightarrow> if nd_dir n then (Inl (IoOther ''EISDIR''), d) else (Inr (), drop_tree p (touch_parent p d)))"

definition has_entries :: "'d disk_scheme \<Rightarrow> fpath \<Rightarrow> bool" where
  "has_entries d p \<longleftrightarrow> list_ex (\<lambda>(q, _). q \<noteq> [] \<and> butlast q = p) (dk_nodes d)"

definition remove_dir :: "fpath \<Rightarrow> ('d, unit) disk_op" where
  "remove_dir p d =
     (case metadata_at p d of
        Inl e \<Rightarrow> (Inl e, d)
      | Inr n \<Rightarrow>
          if \<not> nd_dir n then (Inl (IoOther ''ENOTDIR''), d)
          else if has_entries d p then (Inl (IoOther ''ENOTEMPTY''), d)
          else (Inr (), drop_tree p (touch_parent p d)))"

definition remove_dir_all :: "fpath \<Rightarrow> ('d, unit) disk_op" where
  "remove_dir_all p d =
     (case metadata_at p d of
        Inl e \<Rightarrow> (Inl e, d)
      | Inr n \<Rightarrow> if \<not> nd_dir n then (Inl (IoOther ''ENOTDIR''), d) else (Inr (), drop_tree p (touch_parent p d)))"

definition move_tree :: "fpath \<Rightarrow> fpath \<Rightarrow> 'd disk_scheme \<Rightarrow> 'd disk_scheme" where
  "move_tree a b d =
     d\<lparr>dk_nodes := map (\<lambda>(q, n). (if prefix a q then b @ drop (length a) q else q, n))
                     (filter (\<lambda>(q, _). \<not> prefix b q) (dk_nodes d))\<rparr>"

text \<open>\<open>rename\<close> replaces a file, and a directory by an empty one only.\<close>

definition rename_error :: "node \<Rightarrow> fpath \<Rightarrow> fpath \<Rightarrow> 'd disk_scheme \<Rightarrow> io_error option" where
  "rename_error n a b d =
     (case parent_error b d of
        Some e \<Rightarrow> Some e
      | None \<Rightarrow>
          if strict_prefix a b then Some (IoOther ''EINVAL'')
          else (case node_at d b of
                  None \<Rightarrow> None
                | Some m \<Rightarrow>
                    if nd_dir n \<and> \<not> nd_dir m then Some (IoOther ''ENOTDIR'')
                    else if \<not> nd_dir n \<and> nd_dir m then Some (IoOther ''EISDIR'')
                    else if nd_dir m \<and> has_entries d b then Some (IoOther ''ENOTEMPTY'')
                    else None))"

definition rename :: "fpath \<Rightarrow> fpath \<Rightarrow> ('d, unit) disk_op" where
  "rename a b d =
     (case metadata_at a d of
        Inl e \<Rightarrow> (Inl e, d)
      | Inr n \<Rightarrow>
          if a = b then (Inr (), d)
          else (case rename_error n a b d of
                  Some e \<Rightarrow> (Inl e, d)
                | None \<Rightarrow> (Inr (), move_tree a b (touch_parent b (touch_parent a d)))))"

text \<open>Extended attributes; a file system without them swallows the writes.\<close>

definition set_xattr :: "bool \<Rightarrow> fpath \<Rightarrow> (node \<Rightarrow> node) \<Rightarrow> 'd disk_scheme \<Rightarrow> 'd disk_scheme" where
  "set_xattr supported p f d =
     (case node_at d p of Some n \<Rightarrow> if supported \<and> \<not> too_long p then set_node p (f n) d else d | None \<Rightarrow> d)"

definition emit_event :: "storage_event \<Rightarrow> 'd disk_scheme \<Rightarrow> 'd disk_scheme" where
  "emit_event ev d = d\<lparr>dk_events := dk_events d @ [ev]\<rparr>"

definition lift_io :: "(io_error \<Rightarrow> 'e) \<Rightarrow> ('d, 'a) disk_op \<Rightarrow> ('d disk_scheme, 'e, 'a) eff" where
  "lift_io f m d = (case m d of (Inl e, d') \<Rightarrow> (Inl (f e), d') | (Inr x, d') \<Rightarrow> (Inr x, d'))"

end
