(* ===== verification/Disk_Correct.thy ===== *)
theory Disk_Correct
  imports Disk
begin

text \<open>
  What the operations of the file system do: the well-formed trees and that every operation
  keeps them, and the contents after each operation as a function of the contents before.
\<close>

named_theorems disk_ok \<open>effects of successful disk operations\<close>

text \<open>What is at a path, times and inode numbers aside.\<close>

definition content :: "'d disk_scheme \<Rightarrow> fpath \<Rightarrow> (bool \<times> bytes \<times> string option \<times> string option) option" where
  "content d p = map_option (\<lambda>n. (nd_dir n, nd_data n, nd_etag n, nd_mime n)) (node_at d p)"

text \<open>Every path once, and the parent of every entry a directory; \<open>[]\<close> is the root.\<close>

definition disk_wf :: "'d disk_scheme \<Rightarrow> bool" where
  "disk_wf d \<longleftrightarrow> distinct (map fst (dk_nodes d)) \<and> is_dir_at d [] \<and>
     (\<forall>p. node_at d p \<noteq> None \<longrightarrow> p \<noteq> [] \<longrightarrow> is_dir_at d (butlast p))"

text \<open>Two states that differ in the tree and the world only.\<close>

definition same_rest :: "'d disk_scheme \<Rightarrow> 'd disk_scheme \<Rightarrow> bool" where
  "same_rest d d' \<longleftrightarrow> (\<exists>ns i w. d' = d\<lparr>dk_nodes := ns, dk_inode := i, dk_world := w\<rparr>)"

lemma same_rest_refl [simp]: "same_rest d d"
proof -
  have "d = d\<lparr>dk_nodes := dk_nodes d, dk_inode := dk_inode d, dk_world := dk_world d\<rparr>" by simp
  then show ?thesis unfolding same_rest_def by blast
qed

lemma same_rest_trans [trans]: "same_rest a b \<Longrightarrow> same_rest b c \<Longrightarrow> same_rest a c"
  unfolding same_rest_def by (elim exE, hypsubst, intro exI) simp

lemma same_rest_events: "same_rest d d' \<Longrightarrow> dk_events d' = dk_events d"
  unfolding same_rest_def by auto

lemma same_rest_nodes [simp]: "same_rest d (d\<lparr>dk_nodes := ns\<rparr>)"
proof -
  have "d\<lparr>dk_nodes := ns\<rparr> = d\<lparr>dk_nodes := ns, dk_inode := dk_inode d, dk_world := dk_world d\<rparr>" by simp
  then show ?thesis unfolding same_rest_def by blast
qed

section \<open>The primitive changes\<close>

lemma content_None: "content d p = None \<longleftrightarrow> node_at d p = None"
  by (simp add: content_def)

lemma is_dir_at_content: "is_dir_at d p \<longleftrightarrow> (\<exists>x. content d p = Some (True, x))"
  by (auto simp: is_dir_at_def content_def split: option.splits)

lemma is_file_at_content: "is_file_at d p \<longleftrightarrow> (\<exists>x. content d p = Some (False, x))"
  by (auto simp: is_file_at_def content_def split: option.splits)

lemma map_of_replace:
  "map_of (map (\<lambda>(q, m). if q = p then (q, n) else (q, m)) xs) q =
     (if q = p \<and> p \<in> fst ` set xs then Some n else map_of xs q)" for xs :: "(fpath \<times> node) list"
proof (induction xs)
  case (Cons x xs)
  then show ?case by (cases x; cases "fst x = p"; cases "q = p") simp_all
qed simp

lemma node_at_set_node [simp]: "node_at (set_node p n d) q = (if q = p then Some n else node_at d q)"
proof (cases "node_at d p")
  case None
  then show ?thesis by (cases "q = p"; cases "node_at d q") (simp_all add: set_node_def map_add_def)
next
  case (Some m)
  then have "p \<in> fst ` set (dk_nodes d)" using map_of_SomeD [OF Some] by force
  then show ?thesis using Some by (simp add: set_node_def map_of_replace)
qed

lemma keys_set_node: "map fst (dk_nodes (set_node p n d)) =
    map fst (dk_nodes d) @ (if node_at d p = None then [p] else [])"
proof -
  have "map fst (map (\<lambda>(q, m). if q = p then (q, n) else (q, m)) xs) = map fst xs" for xs :: "(fpath \<times> node) list"
    by (induction xs) auto
  then show ?thesis by (simp add: set_node_def)
qed

lemma distinct_set_node [simp]:
  "distinct (map fst (dk_nodes (set_node p n d))) = distinct (map fst (dk_nodes d))"
  by (auto simp: keys_set_node map_of_eq_None_iff)

lemma same_rest_set_node [simp]: "same_rest d (set_node p n d)"
  by (simp add: set_node_def)

lemma disk_now_nodes [simp]: "dk_nodes (snd (disk_now d)) = dk_nodes d"
  by (simp add: disk_now_def split: prod.splits)

lemma disk_now_inode [simp]: "dk_inode (snd (disk_now d)) = dk_inode d"
  by (simp add: disk_now_def split: prod.splits)

lemma same_rest_world [simp]: "same_rest d (d\<lparr>dk_world := w\<rparr>)"
proof -
  have "d\<lparr>dk_world := w\<rparr> = d\<lparr>dk_nodes := dk_nodes d, dk_inode := dk_inode d, dk_world := w\<rparr>" by simp
  then show ?thesis unfolding same_rest_def by blast
qed

lemma same_rest_disk_now [simp]: "same_rest d (snd (disk_now d))"
  by (simp add: disk_now_def split: prod.splits)

lemma content_disk_now [simp]: "content (snd (disk_now d)) = content d"
  by (rule ext) (simp add: content_def)

lemma content_set_node: "content (set_node p n d) =
    (content d)(p \<mapsto> (nd_dir n, nd_data n, nd_etag n, nd_mime n))"
  by (rule ext) (simp add: content_def)

lemma touch_parent_facts:
  "content (touch_parent p d) = content d \<and> same_rest d (touch_parent p d) \<and>
   map fst (dk_nodes (touch_parent p d)) = map fst (dk_nodes d)"
proof (cases "disk_now d")
  case (Pair t d')
  then have d': "d' = snd (disk_now d)" by simp
  have keep: "content (set_node q (n\<lparr>nd_mtime := t\<rparr>) d') = content d \<and>
      map fst (dk_nodes (set_node q (n\<lparr>nd_mtime := t\<rparr>) d')) = map fst (dk_nodes d)"
    if "node_at d' q = Some n" for q n
  proof -
    have "content d q = Some (nd_dir n, nd_data n, nd_etag n, nd_mime n)"
      using that by (simp add: d' content_def)
    then have "content (set_node q (n\<lparr>nd_mtime := t\<rparr>) d') = content d"
      unfolding content_set_node by (simp add: d' fun_upd_idem)
    then show ?thesis using that by (simp add: keys_set_node d')
  qed
  have "same_rest d (set_node q (n\<lparr>nd_mtime := t\<rparr>) d')" for q n
    by (rule same_rest_trans [of d d']) (simp_all add: d')
  moreover have "content d' = content d" "map fst (dk_nodes d') = map fst (dk_nodes d)" "same_rest d d'"
    by (simp_all add: d')
  ultimately show ?thesis
    using keep by (cases "node_at d' (butlast p)") (simp_all add: touch_parent_def Pair)
qed

lemmas content_touch_parent [simp] = touch_parent_facts [THEN conjunct1]
lemmas same_rest_touch_parent [simp] = touch_parent_facts [THEN conjunct2, THEN conjunct1]
lemmas keys_touch_parent [simp] = touch_parent_facts [THEN conjunct2, THEN conjunct2]

lemma disk_wf_content:
  "disk_wf d \<longleftrightarrow> distinct (map fst (dk_nodes d)) \<and> (\<exists>x. content d [] = Some (True, x)) \<and>
     (\<forall>p. content d p \<noteq> None \<longrightarrow> p \<noteq> [] \<longrightarrow> (\<exists>x. content d (butlast p) = Some (True, x)))"
  by (simp only: disk_wf_def is_dir_at_content content_None)

lemma disk_wf_same: "content d' = content d \<Longrightarrow> map fst (dk_nodes d') = map fst (dk_nodes d) \<Longrightarrow> disk_wf d' = disk_wf d"
  by (simp add: disk_wf_content)

lemma disk_wf_touch [simp]: "disk_wf (touch_parent p d) = disk_wf d"
  by (rule disk_wf_same) simp_all

lemma disk_wf_world [simp]: "disk_wf (d\<lparr>dk_world := w\<rparr>) = disk_wf d"
  by (rule disk_wf_same) (simp_all add: content_def [abs_def])

lemma add_node_facts:
  "content (add_node p dir bs d) = (content d)(p \<mapsto> (dir, bs, None, None)) \<and>
   same_rest d (add_node p dir bs d) \<and>
   map fst (dk_nodes (add_node p dir bs d)) =
     map fst (dk_nodes d) @ (if node_at d p = None then [p] else [])"
proof (cases "disk_now (touch_parent p d)")
  case (Pair t d1)
  then have d1: "d1 = snd (disk_now (touch_parent p d))" by simp
  let ?d2 = "d1\<lparr>dk_inode := Suc (dk_inode d1)\<rparr>"
  have "content ?d2 = content d1" by (rule ext) (simp add: content_def)
  then have c: "content ?d2 = content d" by (simp add: d1)
  have "same_rest d d1" unfolding d1 by (rule same_rest_trans [OF same_rest_touch_parent same_rest_disk_now])
  then have rest: "same_rest d ?d2"
  proof -
    obtain ns i w where "d1 = d\<lparr>dk_nodes := ns, dk_inode := i, dk_world := w\<rparr>"
      using \<open>same_rest d d1\<close> unfolding same_rest_def by blast
    then have "?d2 = d\<lparr>dk_nodes := ns, dk_inode := Suc i, dk_world := w\<rparr>" by simp
    then show ?thesis unfolding same_rest_def by blast
  qed
  have "node_at ?d2 p = None \<longleftrightarrow> node_at d p = None" using fun_cong [OF c, of p] by (metis content_None)
  then have keys: "map fst (dk_nodes (set_node p n ?d2)) =
      map fst (dk_nodes d) @ (if node_at d p = None then [p] else [])" for n
    by (simp add: keys_set_node d1)
  show ?thesis
    using c keys same_rest_trans [OF rest same_rest_set_node]
    by (simp add: add_node_def Pair Let_def content_set_node)
qed

lemmas content_add_node = add_node_facts [THEN conjunct1]
lemmas same_rest_add_node [simp] = add_node_facts [THEN conjunct2, THEN conjunct1]

lemma node_at_add_node: "node_at (add_node p dir bs d) q = None \<longleftrightarrow> q \<noteq> p \<and> node_at d q = None"
  by (simp add: content_add_node flip: content_None)

lemma wf_upd:
  assumes wf: "disk_wf d" and c: "content d' = (content d)(p \<mapsto> (dir, bs, et, mi))"
    and keys: "map fst (dk_nodes d') = map fst (dk_nodes d) @ (if node_at d p = None then [p] else [])"
    and p: "p \<noteq> [] \<Longrightarrow> is_dir_at d (butlast p)" and dir: "is_dir_at d p \<longrightarrow> dir" and "p \<noteq> [] \<or> dir"
  shows "disk_wf d'"
proof -
  have "distinct (map fst (dk_nodes d'))"
    using wf by (auto simp: keys disk_wf_def map_of_eq_None_iff)
  moreover have "\<exists>x. content d' [] = Some (True, x)"
    using wf assms(6) by (auto simp: c disk_wf_content)
  moreover have "\<exists>y. content d' (butlast q) = Some (True, y)" if "content d' q \<noteq> None" "q \<noteq> []" for q
  proof -
    have "\<exists>y. content d (butlast q) = Some (True, y)"
      using that p wf by (cases "q = p") (auto simp: c is_dir_at_content disk_wf_content)
    then show ?thesis using dir by (auto simp: c is_dir_at_content)
  qed
  ultimately show ?thesis unfolding disk_wf_content by blast
qed

lemma add_node_wf:
  "disk_wf d \<Longrightarrow> p \<noteq> [] \<Longrightarrow> is_dir_at d (butlast p) \<Longrightarrow> node_at d p = None \<Longrightarrow> disk_wf (add_node p dir bs d)"
  by (rule wf_upd [where d' = "add_node p dir bs d"])
    (auto simp: content_add_node add_node_facts is_dir_at_def)

lemma node_at_drop_tree [simp]: "node_at (drop_tree p d) q = (if prefix p q then None else node_at d q)"
proof -
  have "map_of (filter (\<lambda>(q, _). \<not> prefix p q) xs) q = (if prefix p q then None else map_of xs q)"
    for xs :: "(fpath \<times> node) list"
    by (induction xs) auto
  then show ?thesis by (simp add: drop_tree_def)
qed

lemma content_drop_tree: "content (drop_tree p d) q = (if prefix p q then None else content d q)"
  by (simp add: content_def)

lemma same_rest_drop_tree [simp]: "same_rest d (drop_tree p d)"
  by (simp add: drop_tree_def)

lemma prefix_butlast: "prefix p (butlast q) \<Longrightarrow> prefix p q"
  by (metis prefix_order.trans prefixeq_butlast)

lemma drop_tree_wf: "disk_wf d \<Longrightarrow> p \<noteq> [] \<Longrightarrow> disk_wf (drop_tree p d)"
proof -
  assume wf: "disk_wf d" and p: "p \<noteq> []"
  have "distinct (map fst (dk_nodes (drop_tree p d)))"
    using wf by (simp add: disk_wf_def drop_tree_def distinct_map_filter)
  moreover have "content (drop_tree p d) [] = content d []" using p by (simp add: content_drop_tree)
  moreover have "\<exists>x. content (drop_tree p d) (butlast q) = Some (True, x)"
    if "content (drop_tree p d) q \<noteq> None" "q \<noteq> []" for q
    using that wf prefix_butlast [of p q] unfolding content_drop_tree disk_wf_content
    by (metis option.distinct(1))
  ultimately show ?thesis using wf unfolding disk_wf_content by presburger
qed

text \<open>Below an entry of a well-formed tree there is an entry of a directory only.\<close>

lemma wf_above:
  assumes "disk_wf d" "node_at d q \<noteq> None" "strict_prefix p q"
  shows "is_dir_at d p"
  using assms(2,3)
proof (induction q rule: rev_induct)
  case (snoc x q)
  have q: "is_dir_at d q" using assms(1) snoc.prems(1) unfolding disk_wf_def by (metis butlast_snoc snoc_eq_iff_butlast)
  from snoc.prems(2) have "prefix p q" using prefix_snoc [of p q x] by (auto simp: strict_prefix_def)
  then show ?case
    using q snoc.IH by (cases "p = q") (auto simp: is_dir_at_def strict_prefix_def split: option.splits)
qed simp

lemma wf_below_file: "disk_wf d \<Longrightarrow> \<not> is_dir_at d p \<Longrightarrow> strict_prefix p q \<Longrightarrow> node_at d q = None"
  using wf_above by blast

lemma wf_file_tree: "disk_wf d \<Longrightarrow> \<not> is_dir_at d p \<Longrightarrow> prefix p q \<Longrightarrow> q \<noteq> p \<Longrightarrow> content d q = None"
  using wf_below_file [of d p q] by (simp add: strict_prefix_def content_def)

lemma wf_entries:
  assumes "disk_wf d" "node_at d q \<noteq> None" "strict_prefix p q"
  shows "has_entries d p"
proof -
  obtain x r where q: "q = p @ x # r" using assms(3) by (auto elim: strict_prefixE')
  have "node_at d (p @ [x]) \<noteq> None"
  proof (cases "r = []")
    case False
    then have "strict_prefix (p @ [x]) q" by (auto simp: q strict_prefix_def prefix_def)
    from wf_above [OF assms(1,2) this] show ?thesis by (auto simp: is_dir_at_def split: option.splits)
  qed (use assms(2) q in simp)
  then obtain n where "(p @ [x], n) \<in> set (dk_nodes d)" by (auto dest: map_of_SomeD)
  then show ?thesis unfolding has_entries_def list_ex_iff by force
qed
section \<open>Moving a tree\<close>

lemma option_ext: "(\<And>n. x = Some n \<longleftrightarrow> y = Some n) \<Longrightarrow> x = y"
  by (cases x; cases y) auto

definition moved_key :: "fpath \<Rightarrow> fpath \<Rightarrow> fpath \<Rightarrow> fpath" where
  "moved_key a b q = (if prefix a q then b @ drop (length a) q else q)"

lemma keys_move_tree:
  "map fst (dk_nodes (move_tree a b d)) =
     map (moved_key a b) (filter (\<lambda>q. \<not> prefix b q) (map fst (dk_nodes d)))"
proof -
  have "map fst (map (\<lambda>(q, n). (if prefix a q then b @ drop (length a) q else q, n)) (filter (\<lambda>(q, _). \<not> prefix b q) xs)) =
      map (moved_key a b) (filter (\<lambda>q. \<not> prefix b q) (map fst xs))" for xs :: "(fpath \<times> node) list"
    by (induction xs) (auto simp: moved_key_def)
  then show ?thesis by (simp add: move_tree_def)
qed

lemma moved_key_inj:
  assumes "moved_key a b p = moved_key a b q" "\<not> prefix b p" "\<not> prefix b q"
  shows "p = q"
proof -
  consider "prefix a p" "prefix a q" | "\<not> prefix a p" "\<not> prefix a q"
    using assms by (cases "prefix a p"; cases "prefix a q") (auto simp: moved_key_def)
  then show ?thesis
  proof cases
    case 1
    then show ?thesis using assms(1) by (auto simp: moved_key_def prefix_def)
  qed (use assms(1) in \<open>simp add: moved_key_def\<close>)
qed

lemma move_tree_content:
  assumes "disk_wf d" "\<not> prefix a b" "\<not> prefix b a"
  shows "content (move_tree a b d) q =
    (if prefix b q then content d (a @ drop (length b) q) else if prefix a q then None else content d q)"
    and "distinct (map fst (dk_nodes (move_tree a b d)))"
proof -
  let ?F = "filter (\<lambda>q. \<not> prefix b q) (map fst (dk_nodes d))"
  have dist: "distinct (map fst (dk_nodes d))" using assms(1) by (simp add: disk_wf_def)
  show dist': "distinct (map fst (dk_nodes (move_tree a b d)))"
    unfolding keys_move_tree distinct_map
    using dist by (auto intro!: inj_onI dest: moved_key_inj)
  have iff: "node_at (move_tree a b d) q = Some n \<longleftrightarrow>
      (\<exists>p. (moved_key a b p = q \<and> \<not> prefix b p) \<and> node_at d p = Some n)" for q n
    using dist dist' by (force simp: move_tree_def moved_key_def)
  have ab: "\<not> prefix b (a @ r)" for r
    using assms(2,3) by (metis prefix_same_cases prefixI)
  have "node_at (move_tree a b d) q =
     (if prefix b q then node_at d (a @ drop (length b) q) else if prefix a q then None else node_at d q)"
  proof -
    have "(\<exists>p. (moved_key a b p = q \<and> \<not> prefix b p) \<and> node_at d p = Some n) \<longleftrightarrow>
        (if prefix b q then node_at d (a @ drop (length b) q) else if prefix a q then None else node_at d q) = Some n" for n
    proof (cases "prefix b q")
      case True
      then obtain r where q: "q = b @ r" by (auto simp: prefix_def)
      have "moved_key a b p = q \<and> \<not> prefix b p \<longleftrightarrow> p = a @ r" for p
      proof
        assume *: "moved_key a b p = q \<and> \<not> prefix b p"
        then have "prefix a p" by (auto simp: moved_key_def q split: if_splits)
        then show "p = a @ r" using * by (auto simp: moved_key_def q prefix_def)
      next
        assume "p = a @ r"
        then show "moved_key a b p = q \<and> \<not> prefix b p" using ab [of r] by (simp add: moved_key_def q)
      qed
      then have "(\<exists>p. (moved_key a b p = q \<and> \<not> prefix b p) \<and> node_at d p = Some n) \<longleftrightarrow> node_at d (a @ r) = Some n"
        by (simp only: simp_thms ex_simps)
      then show ?thesis using True by (simp add: q)
    next
      case False
      then have "moved_key a b p = q \<and> \<not> prefix b p \<longleftrightarrow> p = q \<and> \<not> prefix a q" for p
        by (cases "prefix a p") (auto simp: moved_key_def)
      then have "(\<exists>p. (moved_key a b p = q \<and> \<not> prefix b p) \<and> node_at d p = Some n) \<longleftrightarrow>
          \<not> prefix a q \<and> node_at d q = Some n" by (simp only: conj_assoc simp_thms ex_simps)
      then show ?thesis using False by simp
    qed
    then show ?thesis by (intro option_ext) (rule trans [OF iff])
  qed
  then show "content (move_tree a b d) q = (if prefix b q then content d (a @ drop (length b) q) else if prefix a q then None else content d q)"
    by (simp add: content_def)
qed
lemma same_rest_move_tree [simp]: "same_rest d (move_tree a b d)"
  by (simp add: move_tree_def)

lemma move_tree_wf:
  assumes "disk_wf d" "\<not> prefix a b" "\<not> prefix b a" "a \<noteq> []" "b \<noteq> []" "is_dir_at d (butlast b)"
  shows "disk_wf (move_tree a b d)"
proof -
  note c = move_tree_content(1) [OF assms(1-3)]
  have nota: "\<not> prefix a (butlast b)" using assms(2) prefix_butlast by blast
  have "\<exists>x. content (move_tree a b d) (butlast q) = Some (True, x)"
    if q: "content (move_tree a b d) q \<noteq> None" "q \<noteq> []" for q
  proof (cases "prefix b q")
    case True
    then obtain r where r: "q = b @ r" by (auto simp: prefix_def)
    show ?thesis
    proof (cases "r = []")
      case True
      have "\<not> prefix b (butlast b)" using assms(5) prefix_length_le [of b "butlast b"] by (cases b) auto
      then show ?thesis using True r nota assms(6) by (simp add: c is_dir_at_content)
    next
      case False
      then have "butlast q = b @ butlast r" using r by (simp add: butlast_append)
      moreover have "\<exists>x. content d (butlast (a @ r)) = Some (True, x)"
        using q True r assms(1) False unfolding disk_wf_content c by simp
      ultimately show ?thesis using False by (simp add: c butlast_append)
    qed
  next
    case False
    then have d: "content d q \<noteq> None" "\<not> prefix a q" using q by (auto simp: c split: if_splits)
    then have "\<exists>x. content d (butlast q) = Some (True, x)" using assms(1) q(2) by (auto simp: disk_wf_content)
    moreover have "\<not> prefix b (butlast q)" "\<not> prefix a (butlast q)" using False d prefix_butlast by blast+
    ultimately show ?thesis by (simp add: c)
  qed
  moreover have "\<exists>x. content (move_tree a b d) [] = Some (True, x)"
    using assms by (auto simp: c disk_wf_content)
  ultimately show ?thesis
    using move_tree_content(2) [OF assms(1-3)] unfolding disk_wf_content by blast
qed

section \<open>The operations\<close>

lemma metadata_at_Inr: "metadata_at p d = Inr n \<longleftrightarrow> \<not> too_long p \<and> node_at d p = Some n"
  by (auto simp: metadata_at_def split: option.splits)

lemma try_exists_Inr_True: "try_exists p d = Inr True \<longleftrightarrow> \<not> too_long p \<and> node_at d p \<noteq> None"
  by (auto simp: try_exists_def metadata_at_def split: option.splits if_splits)

lemma try_exists_Inr_False: "try_exists p d = Inr False \<longleftrightarrow> \<not> too_long p \<and> \<not> through_file d p \<and> node_at d p = None"
  by (auto simp: try_exists_def metadata_at_def lookup_error_def split: option.splits if_splits)

lemma parent_error_None: "parent_error p d = None \<Longrightarrow> \<not> too_long p \<and> is_dir_at d (butlast p)"
  by (auto simp: parent_error_def metadata_at_Inr is_dir_at_def split: if_splits sum.splits)

lemma create_dir_cases:
  assumes "create_dir p d = (r, d')"
  obtains (made) "r = Inr ()" "content d p = None" "is_dir_at d (butlast p)" "\<not> too_long p"
      "content d' = (content d)(p \<mapsto> (True, [], None, None))" "same_rest d d'" "disk_wf d \<Longrightarrow> p \<noteq> [] \<Longrightarrow> disk_wf d'"
    | (refused) e where "r = Inl e" "d' = d"
proof (cases "r = Inr ()")
  case True
  then have *: "\<not> path_exists p d" "parent_error p d = None" "d' = add_node p True [] d"
    using assms by (auto simp: create_dir_def split: if_splits option.splits)
  note parent_error_None [OF *(2)]
  then show ?thesis using * True by (intro made) (auto simp: path_exists_def content_add_node content_None add_node_wf)
qed (use assms refused in \<open>auto simp: create_dir_def split: if_splits option.splits\<close>)

lemma write_file_cases:
  assumes "write_file p bs d = (r, d')"
  obtains (new) "r = Inr ()" "content d p = None" "is_dir_at d (butlast p)" "\<not> too_long p"
      "content d' = (content d)(p \<mapsto> (False, bs, None, None))" "same_rest d d'" "disk_wf d \<Longrightarrow> p \<noteq> [] \<Longrightarrow> disk_wf d'"
    | (over) old et mi where "r = Inr ()" "content d p = Some (False, old, et, mi)" "\<not> too_long p"
      "content d' = (content d)(p \<mapsto> (False, bs, et, mi))" "same_rest d d'" "disk_wf d \<Longrightarrow> disk_wf d'"
    | (refused) e where "r = Inl e" "d' = d"
proof (cases "if too_long p then None else node_at d p")
  case None
  show ?thesis
  proof (cases "parent_error p d")
    case (Some e)
    then show ?thesis using assms None by (intro refused) (auto simp: write_file_def)
  next
    case err: None
    note parent_error_None [OF err]
    then show ?thesis using assms None err
      by (intro new) (auto simp: write_file_def content_add_node content_None add_node_wf split: if_splits)
  qed
next
  case (Some n)
  then have n: "node_at d p = Some n" "\<not> too_long p" by (auto split: if_splits)
  show ?thesis
  proof (cases "nd_dir n")
    case True
    then show ?thesis using assms Some by (intro refused) (auto simp: write_file_def)
  next
    case False
    obtain t d1 where t: "disk_now d = (t, d1)" by fastforce
    then have d1: "d1 = snd (disk_now d)" by simp
    have r: "r = Inr ()" "d' = set_node p (n\<lparr>nd_data := bs, nd_mtime := t\<rparr>) d1"
      using assms Some False t by (simp_all add: write_file_def)
    have c: "content d' = (content d)(p \<mapsto> (False, bs, nd_etag n, nd_mime n))"
      using False by (simp add: r content_set_node d1)
    show ?thesis
    proof (rule over [OF r(1) _ n(2) c])
      show "content d p = Some (False, nd_data n, nd_etag n, nd_mime n)" using n False by (simp add: content_def)
      show "same_rest d d'" unfolding r d1 by (rule same_rest_trans [OF same_rest_disk_now same_rest_set_node])
      assume wf: "disk_wf d"
      have "p \<noteq> [] \<Longrightarrow> is_dir_at d (butlast p)" "p \<noteq> []" "\<not> is_dir_at d p"
        using wf n False by (auto simp: disk_wf_def is_dir_at_def)
      then show "disk_wf d'"
        using wf n by (intro wf_upd [OF wf c]) (simp_all add: r keys_set_node d1)
    qed
  qed
qed
lemma copy_file_eq:
  "copy_file a b d =
     (case metadata_at a d of
        Inl e \<Rightarrow> (Inl e, d)
      | Inr n \<Rightarrow> if nd_dir n then (Inl (IoOther ''EINVAL''), d) else write_file b (nd_data n) d)"
  by (simp add: copy_file_def)

lemma copy_file_cases:
  assumes "copy_file a b d = (r, d')"
  obtains (copied) bs x where "r = Inr ()" "content d a = Some (False, bs, x)" "\<not> too_long a"
      "write_file b bs d = (Inr (), d')"
    | (refused) e where "r = Inl e" "d' = d"
proof (cases "metadata_at a d")
  case (Inl e)
  then show ?thesis using assms by (intro refused [of e]) (auto simp: copy_file_def)
next
  case (Inr n)
  show ?thesis
  proof (cases "nd_dir n")
    case True
    then show ?thesis using assms Inr by (intro refused) (auto simp: copy_file_def)
  next
    case False
    then have w: "write_file b (nd_data n) d = (r, d')" using assms Inr by (simp add: copy_file_def)
    have n: "content d a = Some (False, nd_data n, nd_etag n, nd_mime n)" "\<not> too_long a"
      using Inr False by (simp_all add: metadata_at_Inr content_def)
    show ?thesis using w by (cases rule: write_file_cases) (use w n in \<open>auto intro: copied refused\<close>)
  qed
qed

lemma remove_file_cases:
  assumes "remove_file p d = (r, d')"
  obtains (removed) x where "r = Inr ()" "content d p = Some (False, x)"
      "\<And>q. content d' q = (if prefix p q then None else content d q)" "same_rest d d'" "disk_wf d \<Longrightarrow> disk_wf d'"
    | (refused) e where "r = Inl e" "d' = d"
proof (cases "metadata_at p d")
  case (Inl e)
  then show ?thesis using assms by (intro refused [of e]) (auto simp: remove_file_def)
next
  case (Inr n)
  show ?thesis
  proof (cases "nd_dir n")
    case True
    then show ?thesis using assms Inr by (intro refused) (auto simp: remove_file_def)
  next
    case False
    then have r: "r = Inr ()" "d' = drop_tree p (touch_parent p d)" using assms Inr by (simp_all add: remove_file_def)
    have n: "content d p = Some (False, nd_data n, nd_etag n, nd_mime n)"
      using Inr False by (simp add: metadata_at_Inr content_def)
    show ?thesis
    proof (rule removed [OF r(1) n])
      show "same_rest d d'" unfolding r by (rule same_rest_trans [OF same_rest_touch_parent same_rest_drop_tree])
      assume "disk_wf d"
      moreover from this n have "p \<noteq> []" by (auto simp: disk_wf_content)
      ultimately show "disk_wf d'" by (simp add: r drop_tree_wf)
    qed (simp add: r content_drop_tree)
  qed
qed

lemma remove_dir_all_cases:
  assumes "remove_dir_all p d = (r, d')"
  obtains (removed) x where "r = Inr ()" "content d p = Some (True, x)"
      "\<And>q. content d' q = (if prefix p q then None else content d q)" "same_rest d d'"
      "disk_wf d \<Longrightarrow> p \<noteq> [] \<Longrightarrow> disk_wf d'"
    | (refused) e where "r = Inl e" "d' = d"
proof (cases "metadata_at p d")
  case (Inl e)
  then show ?thesis using assms by (intro refused [of e]) (auto simp: remove_dir_all_def)
next
  case (Inr n)
  show ?thesis
  proof (cases "nd_dir n")
    case False
    then show ?thesis using assms Inr by (intro refused) (auto simp: remove_dir_all_def)
  next
    case True
    then have r: "r = Inr ()" "d' = drop_tree p (touch_parent p d)" using assms Inr by (simp_all add: remove_dir_all_def)
    show ?thesis
    proof (rule removed [OF r(1)])
      show "content d p = Some (True, nd_data n, nd_etag n, nd_mime n)"
        using Inr True by (simp add: metadata_at_Inr content_def)
      show "same_rest d d'" unfolding r by (rule same_rest_trans [OF same_rest_touch_parent same_rest_drop_tree])
    qed (simp_all add: r content_drop_tree drop_tree_wf)
  qed
qed

text \<open>A rename in a well-formed tree: the tree moves, what was at the target goes.\<close>

lemma rename_cases:
  assumes "rename a b d = (r, d')" "disk_wf d"
  obtains (moved) x where "r = Inr ()" "content d a = Some x" "a \<noteq> b" "\<not> prefix a b" "\<not> prefix b a" "\<not> too_long b"
      "\<not> is_dir_at d b \<or> \<not> has_entries d b \<and> fst x" "is_dir_at d (butlast b)"
      "\<And>q. content d' q = (if prefix b q then content d (a @ drop (length b) q) else if prefix a q then None else content d q)"
      "same_rest d d'" "disk_wf d'"
    | (same) "r = Inr ()" "a = b" "d' = d"
    | (refused) e where "r = Inl e" "d' = d"
proof (cases "metadata_at a d")
  case (Inl e)
  then show ?thesis using assms(1) by (intro refused [of e]) (auto simp: rename_def)
next
  case (Inr n)
  consider "a = b" | e where "a \<noteq> b" "rename_error n a b d = Some e" | "a \<noteq> b" "rename_error n a b d = None"
    by (cases "rename_error n a b d") auto
  then show ?thesis
  proof cases
    case 1
    then show ?thesis using assms(1) Inr by (intro same) (simp_all add: rename_def)
  next
    case (2 e)
    then show ?thesis using assms(1) Inr by (intro refused [of e]) (auto simp: rename_def)
  next
    case 3
    let ?d = "touch_parent b (touch_parent a d)"
    have r: "r = Inr ()" "d' = move_tree a b ?d" using assms(1) Inr 3 by (simp_all add: rename_def)
    have na: "node_at d a = Some n" using Inr by (simp add: metadata_at_Inr)
    have err: "parent_error b d = None" "\<not> strict_prefix a b"
      "\<And>m. node_at d b = Some m \<Longrightarrow> nd_dir n = nd_dir m \<and> (nd_dir m \<longrightarrow> \<not> has_entries d b)"
      using 3(2) by (auto simp: rename_error_def split: option.splits if_splits)
    note par = parent_error_None [OF err(1)]
    have ab: "\<not> prefix a b" using err(2) 3(1) by (simp add: strict_prefix_def)
    have ba: "\<not> prefix b a"
    proof
      assume "prefix b a"
      then have s: "strict_prefix b a" using 3(1) by (simp add: strict_prefix_def)
      then have "is_dir_at d b" "has_entries d b" using wf_above [OF assms(2) _ s] wf_entries [OF assms(2) _ s] na by auto
      then show False using err(3) by (auto simp: is_dir_at_def split: option.splits)
    qed
    have wf: "disk_wf ?d" and dirb: "is_dir_at ?d (butlast b)"
      using assms(2) par by (simp_all add: is_dir_at_content)
    have ne: "a \<noteq> []" "b \<noteq> []" using ab ba by auto
    show ?thesis
    proof (rule moved [OF r(1) _ 3(1) ab ba conjunct1 [OF par]])
      show "content d a = Some (nd_dir n, nd_data n, nd_etag n, nd_mime n)" using na by (simp add: content_def)
      show "content d' q = (if prefix b q then content d (a @ drop (length b) q) else if prefix a q then None else content d q)" for q
        using move_tree_content(1) [OF wf ab ba] by (simp add: r)
      show "same_rest d d'" unfolding r
        by (rule same_rest_trans [OF same_rest_trans [OF same_rest_touch_parent same_rest_touch_parent] same_rest_move_tree])
      show "disk_wf d'" unfolding r by (rule move_tree_wf [OF wf ab ba ne dirb])
      show "\<not> is_dir_at d b \<or> \<not> has_entries d b \<and> fst (nd_dir n, nd_data n, nd_etag n, nd_mime n)"
        using err(3) by (auto simp: is_dir_at_def split: option.splits)
      show "is_dir_at d (butlast b)" by (rule conjunct2 [OF par])
    qed
  qed
qed
section \<open>Directories on demand\<close>

definition missing_step :: "fpath \<Rightarrow> nat \<Rightarrow> 'd disk_scheme \<Rightarrow> 'd disk_scheme" where
  "missing_step p n d = (if node_at d (take n p) \<noteq> None then d else add_node (take n p) True [] d)"

lemma add_missing_steps: "add_missing p d = fold (missing_step p) [0..<Suc (length p)] d"
  by (simp add: add_missing_def missing_step_def [abs_def])

definition with_dirs :: "fpath set \<Rightarrow> 'd disk_scheme \<Rightarrow> fpath \<Rightarrow> (bool \<times> bytes \<times> string option \<times> string option) option" where
  "with_dirs X d q = (if content d q = None \<and> q \<in> X then Some (True, [], None, None) else content d q)"

lemma add_missing_upto:
  assumes "\<And>n. n \<le> length p \<Longrightarrow> \<not> is_file_at d (take n p)" and k: "k \<le> Suc (length p)"
  shows "content (fold (missing_step p) [0..<k] d) = with_dirs ((\<lambda>n. take n p) ` {..<k}) d \<and>
    same_rest d (fold (missing_step p) [0..<k] d) \<and>
    (disk_wf d \<longrightarrow> disk_wf (fold (missing_step p) [0..<k] d))"
  using k
proof (induction k)
  case 0
  then show ?case by (auto simp: with_dirs_def)
next
  case (Suc k)
  let ?d = "fold (missing_step p) [0..<k] d" and ?X = "\<lambda>k. (\<lambda>n. take n p) ` {..<k}"
  have IH: "content ?d = with_dirs (?X k) d" "same_rest d ?d" "disk_wf d \<Longrightarrow> disk_wf ?d"
    using Suc by auto
  have X: "?X (Suc k) = insert (take k p) (?X k)" by (simp add: lessThan_Suc)
  show ?case
  proof (cases "node_at ?d (take k p)")
    case (Some n)
    then have "content ?d (take k p) \<noteq> None" by (simp add: content_None)
    then have "with_dirs (?X (Suc k)) d = with_dirs (?X k) d"
      unfolding X IH(1) by (auto simp: with_dirs_def fun_eq_iff split: if_splits)
    moreover have "fold (missing_step p) [0..<Suc k] d = ?d" using Some by (simp add: missing_step_def)
    ultimately show ?thesis using IH by simp
  next
    case None
    then have none: "content ?d (take k p) = None" by (simp add: content_None)
    have step: "fold (missing_step p) [0..<Suc k] d = add_node (take k p) True [] ?d"
      using None by (simp add: missing_step_def)
    have "content d (take k p) = None" "take k p \<notin> ?X k"
      using none unfolding IH(1) by (auto simp: with_dirs_def split: if_splits)
    then have c: "content (add_node (take k p) True [] ?d) = with_dirs (?X (Suc k)) d"
      unfolding X content_add_node IH(1) by (auto simp: with_dirs_def fun_eq_iff)
    have "disk_wf (add_node (take k p) True [] ?d)" if wf: "disk_wf d"
    proof -
      have wf': "disk_wf ?d" by (rule IH(3) [OF wf])
      have "content ?d [] \<noteq> None" using wf' by (auto simp: disk_wf_content)
      then have ne: "take k p \<noteq> []" using none by metis
      then obtain j where j: "k = Suc j" "j < length p" using Suc.prems by (cases k) auto
      have "butlast (take k p) = take j p" using j by (simp add: butlast_take)
      moreover have "content ?d (take j p) \<noteq> None" "\<not> is_file_at ?d (take j p)"
        using j assms(1) [of j] unfolding is_file_at_content IH(1) by (auto simp: with_dirs_def)
      ultimately have "is_dir_at ?d (butlast (take k p))"
        unfolding is_dir_at_content is_file_at_content by (metis option.exhaust surj_pair)
      then show ?thesis using add_node_wf [OF wf' ne] None by blast
    qed
    then show ?thesis unfolding step using c same_rest_trans [OF IH(2) same_rest_add_node] by blast
  qed
qed

lemma create_dir_all_cases:
  assumes "create_dir_all p d = (r, d')"
  obtains (made) "r = Inr ()" "\<not> too_long p" "content d' = with_dirs {q. prefix q p} d" "same_rest d d'" "disk_wf d \<Longrightarrow> disk_wf d'"
      "is_dir_at d' p"
    | (refused) e where "r = Inl e" "d' = d"
proof (cases "too_long p \<or> through_file d p \<or> is_file_at d p")
  case True
  then show ?thesis using assms by (auto intro: refused simp: create_dir_all_def split: if_splits)
next
  case False
  then have r: "r = Inr ()" "d' = add_missing p d" using assms by (auto simp: create_dir_all_def)
  have nf: "\<not> is_file_at d (take n p)" if "n \<le> length p" for n
  proof (cases "n < length p")
    case True
    then show ?thesis using False by (auto simp: through_file_def list_ex_iff)
  qed (use that False in simp)
  have X: "(\<lambda>n. take n p) ` {..<Suc (length p)} = {q. prefix q p}"
  proof (rule set_eqI, rule iffI)
    fix q assume "q \<in> {q. prefix q p}"
    then have "q = take (length q) p" "length q < Suc (length p)" by (auto simp: prefix_def)
    then show "q \<in> (\<lambda>n. take n p) ` {..<Suc (length p)}" by blast
  qed (auto simp: take_is_prefix)
  have *: "content d' = with_dirs {q. prefix q p} d" "same_rest d d'" "disk_wf d \<Longrightarrow> disk_wf d'"
    using add_missing_upto [OF nf, of "Suc (length p)"] unfolding X by (auto simp: r add_missing_steps)
  moreover have "is_dir_at d' p"
    using nf [of "length p"] unfolding is_dir_at_content is_file_at_content *(1) with_dirs_def
    by (cases "content d p") auto
  ultimately show ?thesis using made [OF r(1)] False by blast
qed
section \<open>Frames\<close>

text \<open>Between two states only the paths in \<open>X\<close> change, and missing directories above them appear.\<close>

definition only_at :: "fpath set \<Rightarrow> 'd disk_scheme \<Rightarrow> 'd disk_scheme \<Rightarrow> bool" where
  "only_at X d d' \<longleftrightarrow>
     (\<forall>q. content d' q \<noteq> content d q \<longrightarrow> q \<in> X \<or> content d q = None \<and> (\<exists>p \<in> X. strict_prefix q p))"

lemma only_at_refl [simp]: "only_at X d d"
  by (simp add: only_at_def)

lemma only_at_same: "content d' = content d \<Longrightarrow> only_at X d d'"
  by (simp add: only_at_def)

lemma only_at_trans [trans]: "only_at X a b \<Longrightarrow> only_at X b c \<Longrightarrow> only_at X a c"
  unfolding only_at_def by metis

lemma only_at_mono: "only_at X a b \<Longrightarrow> X \<subseteq> Y \<Longrightarrow> only_at Y a b"
  unfolding only_at_def by blast

lemma only_at_keep: "only_at X d d' \<Longrightarrow> q \<notin> X \<Longrightarrow> content d q \<noteq> None \<Longrightarrow> content d' q = content d q"
  unfolding only_at_def by metis

lemma only_at_apart:
  "only_at X d d' \<Longrightarrow> q \<notin> X \<Longrightarrow> (\<And>p. p \<in> X \<Longrightarrow> \<not> strict_prefix q p) \<Longrightarrow> content d' q = content d q"
  unfolding only_at_def by metis

lemma only_at_upd: "content d' = (content d)(p \<mapsto> x) \<Longrightarrow> p \<in> X \<Longrightarrow> only_at X d d'"
  by (auto simp: only_at_def)

lemma create_dir_only: "create_dir p d = (r, d') \<Longrightarrow> only_at {p} d d'"
  by (erule create_dir_cases) (auto intro: only_at_upd)

lemma write_file_only: "write_file p bs d = (r, d') \<Longrightarrow> only_at {p} d d'"
  by (erule write_file_cases) (auto intro: only_at_upd)

lemma copy_file_only: "copy_file a b d = (r, d') \<Longrightarrow> only_at {b} d d'"
  by (erule copy_file_cases) (auto intro: write_file_only)

lemma write_new_only: "write_new p bs d = (r, d') \<Longrightarrow> only_at {p} d d'"
  by (auto simp: write_new_def intro: write_file_only split: if_splits)

lemma create_dir_all_only: "create_dir_all p d = (r, d') \<Longrightarrow> x \<noteq> [] \<Longrightarrow> only_at {p @ x} d d'"
proof (erule create_dir_all_cases)
  assume "content d' = with_dirs {q. prefix q p} d" "x \<noteq> []"
  moreover have "prefix q p \<Longrightarrow> x \<noteq> [] \<Longrightarrow> strict_prefix q (p @ x)" for q
    by (auto simp: strict_prefix_def prefix_def)
  ultimately show "only_at {p @ x} d d'" by (auto simp: only_at_def with_dirs_def)
qed auto

lemma create_dir_all_existing:
  assumes "create_dir_all p d = (r, d')" "is_dir_at d p" "disk_wf d" "\<not> too_long p"
  shows "r = Inr ()" "content d' = content d"
proof -
  have "\<not> is_file_at d (take n p)" for n
  proof (cases "take n p = p")
    case False
    then have "strict_prefix (take n p) p" by (simp add: strict_prefix_def take_is_prefix)
    moreover have "node_at d p \<noteq> None" using assms(2) by (auto simp: is_dir_at_def split: option.splits)
    ultimately have "is_dir_at d (take n p)" using wf_above [OF assms(3)] by blast
    then show ?thesis by (auto simp: is_dir_at_def is_file_at_def split: option.splits)
  qed (use assms(2) in \<open>auto simp: is_dir_at_def is_file_at_def split: option.splits\<close>)
  then show "r = Inr ()" using assms(1,4) by (auto simp: create_dir_all_def through_file_def list_ex_iff dest: spec [of _ "length p"] split: if_splits)
      (metis order_refl take_all)
  have above: "content d q \<noteq> None" if "prefix q p" for q
  proof -
    have some: "is_dir_at d x \<Longrightarrow> content d x \<noteq> None" for x by (auto simp: is_dir_at_content)
    have "node_at d p \<noteq> None" using some [OF assms(2)] by (simp add: content_None)
    then show ?thesis using that some wf_above [OF assms(3), of p q] assms(2) by (cases "q = p") (auto simp: strict_prefix_def)
  qed
  from assms(1) show "content d' = content d"
    by (cases rule: create_dir_all_cases) (use above in \<open>auto simp: with_dirs_def fun_eq_iff\<close>)
qed

lemma remove_file_only: "remove_file p d = (r, d') \<Longrightarrow> disk_wf d \<Longrightarrow> only_at {p} d d'"
proof (erule remove_file_cases)
  fix x assume "disk_wf d" "content d p = Some (False, x)" "\<And>q. content d' q = (if prefix p q then None else content d q)"
  moreover from this have "\<not> is_dir_at d p" by (simp add: is_dir_at_content)
  ultimately show "only_at {p} d d'" using wf_file_tree [of d p] by (metis insertCI only_at_def)
qed auto

lemma rename_only: "rename a b d = (r, d') \<Longrightarrow> disk_wf d \<Longrightarrow> only_at {q. prefix a q \<or> prefix b q} d d'"
  by (erule rename_cases) (auto simp: only_at_def)

lemma remove_dir_all_only: "remove_dir_all p d = (r, d') \<Longrightarrow> only_at {q. prefix p q} d d'"
  by (erule remove_dir_all_cases) (auto simp: only_at_def)

text \<open>Every operation keeps the tree well-formed and the other components of the state.\<close>

lemma disk_op_wf:
  "create_dir p d = (r, d') \<Longrightarrow> disk_wf d \<Longrightarrow> disk_wf d' \<and> same_rest d d'"
  "write_file p bs d = (r, d') \<Longrightarrow> disk_wf d \<Longrightarrow> disk_wf d' \<and> same_rest d d'"
  "copy_file a b d = (r, d') \<Longrightarrow> disk_wf d \<Longrightarrow> disk_wf d' \<and> same_rest d d'"
  "write_new p bs d = (r, d') \<Longrightarrow> disk_wf d \<Longrightarrow> disk_wf d' \<and> same_rest d d'"
  "create_dir_all p d = (r, d') \<Longrightarrow> disk_wf d \<Longrightarrow> disk_wf d' \<and> same_rest d d'"
  "remove_file p d = (r, d') \<Longrightarrow> disk_wf d \<Longrightarrow> disk_wf d' \<and> same_rest d d'"
  "rename a b d = (r, d') \<Longrightarrow> disk_wf d \<Longrightarrow> disk_wf d' \<and> same_rest d d'"
  "remove_dir_all p d = (r, d') \<Longrightarrow> p \<noteq> [] \<Longrightarrow> disk_wf d \<Longrightarrow> disk_wf d' \<and> same_rest d d'"
proof -
  have root: "p \<noteq> []" if "content d p = None" "disk_wf d" for p using that by (auto simp: disk_wf_content)
  show c: "create_dir p d = (r, d') \<Longrightarrow> disk_wf d \<Longrightarrow> disk_wf d' \<and> same_rest d d'"
    by (erule create_dir_cases) (use root in auto)
  show w: "write_file p bs d = (r, d') \<Longrightarrow> disk_wf d \<Longrightarrow> disk_wf d' \<and> same_rest d d'" for p bs r
    by (erule write_file_cases) (use root in auto)
  show "copy_file a b d = (r, d') \<Longrightarrow> disk_wf d \<Longrightarrow> disk_wf d' \<and> same_rest d d'"
    by (erule copy_file_cases) (use w in blast, simp)
  show "write_new p bs d = (r, d') \<Longrightarrow> disk_wf d \<Longrightarrow> disk_wf d' \<and> same_rest d d'"
    using w by (auto simp: write_new_def split: if_splits)
  show "create_dir_all p d = (r, d') \<Longrightarrow> disk_wf d \<Longrightarrow> disk_wf d' \<and> same_rest d d'"
    by (erule create_dir_all_cases) auto
  show "remove_file p d = (r, d') \<Longrightarrow> disk_wf d \<Longrightarrow> disk_wf d' \<and> same_rest d d'"
    by (erule remove_file_cases) auto
  show "rename a b d = (r, d') \<Longrightarrow> disk_wf d \<Longrightarrow> disk_wf d' \<and> same_rest d d'"
    by (erule rename_cases) auto
  show "remove_dir_all p d = (r, d') \<Longrightarrow> p \<noteq> [] \<Longrightarrow> disk_wf d \<Longrightarrow> disk_wf d' \<and> same_rest d d'"
    by (erule remove_dir_all_cases) auto
qed

end
