(* ===== verification/Site.thy ===== *)
theory Site
  imports Disk_Correct Activity Filecache
begin

text \<open>
  What the services of one installation share: the file system with the data directory, the
  tables of the trash bin and of the file versions (the rows of \<open>oc_files_trash\<close> and
  \<open>oc_files_versions\<close>), the activity feed and the file cache; and the part of \<open>std::path\<close>
  the services build their paths with.
\<close>

section \<open>Paths of the standard library\<close>

text \<open>\<open>Path::join\<close>, resolved as the system resolves a path without symbolic links.\<close>

definition walk_piece :: "string \<Rightarrow> fpath \<Rightarrow> fpath" where
  "walk_piece s p = (if s = [] \<or> s = ''.'' then p else if s = ''..'' then butlast p else p @ [s])"

definition path_join :: "fpath \<Rightarrow> string \<Rightarrow> fpath" where
  "path_join base s = fold walk_piece (split_on (CHR ''/'') s) (if starts_with s ''/'' then [] else base)"

text \<open>\<open>Path::file_name\<close> and \<open>Path::parent\<close>, on the pieces from the end.\<close>

definition blank_piece :: "string \<Rightarrow> bool" where
  "blank_piece s \<longleftrightarrow> s = [] \<or> s = ''.''"

definition path_tail :: "string \<Rightarrow> string list" where
  "path_tail s = dropWhile blank_piece (rev (split_on (CHR ''/'') s))"

definition path_file_name :: "string \<Rightarrow> string option" where
  "path_file_name s = (case path_tail s of [] \<Rightarrow> None | x # _ \<Rightarrow> if x = ''..'' then None else Some x)"

definition path_parent :: "string \<Rightarrow> string option" where
  "path_parent s =
     (case path_tail s of
        [] \<Rightarrow> (if hd (split_on (CHR ''/'') s) = ''.'' then Some [] else None)
      | _ # ps \<Rightarrow>
          Some (case dropWhile blank_piece ps of
                  [] \<Rightarrow> (if starts_with s ''/'' then ''/''
                         else if ps \<noteq> [] \<and> last ps = ''.'' then ''.'' else [])
                | qs \<Rightarrow> join_with (CHR ''/'') (rev qs)))"

section \<open>The state\<close>

record version_entry =
  ve_id :: int
  ve_storage :: int
  ve_fileid :: int
  ve_user :: string
  ve_path :: string
  ve_mtime :: int
  ve_size :: int

datatype trash_type = TrashFile | TrashDir

record trash_entry =
  te_id :: int
  te_user :: string
  te_basename :: string
  te_suffix :: string
  te_location :: string
  te_deleted :: int
  te_type :: trash_type
  te_fileid :: "int option"

record site = disk +
  si_versions :: "version_entry list"
  si_next_version :: int
  si_trash :: "trash_entry list"
  si_next_trash :: int
  si_activity :: activity_db
  si_cache :: fc_db

type_synonym ('e, 'a) site_op = "(site, 'e, 'a) eff"

text \<open>The data directory, the database and the activity service behind the emitter.\<close>

record site_env =
  se_datadir :: fpath
  se_dialect :: dialect
  se_activity :: activity_cfg

text \<open>
  A \<open>VARCHAR(n)\<close> column holds \<open>n\<close> characters, on SQLite any number: the bytes of a string that do
  not continue a character.
\<close>

definition char_count :: "string \<Rightarrow> nat" where
  "char_count s = length (filter (\<lambda>c. \<not> (128 \<le> (of_char c :: nat) \<and> (of_char c :: nat) < 192)) s)"

definition fits :: "dialect \<Rightarrow> nat \<Rightarrow> string \<Rightarrow> bool" where
  "fits d n s \<longleftrightarrow> d = Sqlite \<or> char_count s \<le> n"

definition site_now :: "site \<Rightarrow> int \<times> site" where
  "site_now s = (let (t, s') = disk_now s in (int t div 1000000000, s'))"

text \<open>
  The best-effort emit of a restored file or version: only the owner is told, and nobody when
  the name is no user id.
\<close>

definition emit_restored ::
    "site_env \<Rightarrow> event_type \<Rightarrow> string \<Rightarrow> string \<Rightarrow> object_type \<Rightarrow> string \<Rightarrow> string \<Rightarrow> int option \<Rightarrow> site \<Rightarrow> site" where
  "emit_restored E ty sub_actor sub_recipient obj u file ob s =
     (case user_id_new u of
        Inl _ \<Rightarrow> s
      | Inr owner \<Rightarrow>
          (let (t, s') = site_now s in
           s'\<lparr>si_activity := activity_emit (se_activity E)
             \<lparr>ae_actor = u, ae_type = ty, ae_subject_actor = sub_actor, ae_subject_recipient = sub_recipient,
              ae_params = JObject [(''actor'', JString u), (''file'', JString file)],
              ae_object_type = obj, ae_object_id = ob, ae_recipients = [owner], ae_occurred = t\<rparr> (si_activity s')\<rparr>))"

section \<open>Facts\<close>

lemma same_rest_site:
  fixes s s' :: site
  assumes "same_rest s s'"
  shows "si_versions s' = si_versions s" "si_next_version s' = si_next_version s" "si_trash s' = si_trash s"
    "si_next_trash s' = si_next_trash s" "si_activity s' = si_activity s" "si_cache s' = si_cache s"
    "dk_events s' = dk_events s"
  using assms unfolding same_rest_def by auto

lemma site_now_facts:
  assumes "site_now s = (t, s')"
  shows "same_rest s s'" "content s' = content s" "map fst (dk_nodes s') = map fst (dk_nodes s)"
proof -
  have s': "s' = snd (disk_now s)" using assms by (auto simp: site_now_def split: prod.splits)
  show "same_rest s s'" "content s' = content s" "map fst (dk_nodes s') = map fst (dk_nodes s)" by (simp_all add: s')
qed

lemma emit_restored_facts:
  "content (emit_restored E ty sa sr obj u f ob s) = content s \<and>
   disk_wf (emit_restored E ty sa sr obj u f ob s) = disk_wf s \<and>
   si_versions (emit_restored E ty sa sr obj u f ob s) = si_versions s \<and>
   si_next_version (emit_restored E ty sa sr obj u f ob s) = si_next_version s \<and>
   si_trash (emit_restored E ty sa sr obj u f ob s) = si_trash s \<and>
   si_next_trash (emit_restored E ty sa sr obj u f ob s) = si_next_trash s \<and>
   si_cache (emit_restored E ty sa sr obj u f ob s) = si_cache s \<and>
   dk_events (emit_restored E ty sa sr obj u f ob s) = dk_events s"
proof (cases "user_id_new u")
  case (Inr owner)
  obtain t s' where t: "site_now s = (t, s')" by fastforce
  have node: "content (s'\<lparr>si_activity := a\<rparr>) = content s'" for a by (rule ext) (simp add: content_def)
  have wf: "disk_wf (s'\<lparr>si_activity := a\<rparr>) = disk_wf s'" for a by (rule disk_wf_same [OF node]) simp
  have wf': "disk_wf s' = disk_wf s" by (rule disk_wf_same [OF site_now_facts(2,3) [OF t]])
  obtain a where eq: "emit_restored E ty sa sr obj u f ob s = s'\<lparr>si_activity := a\<rparr>"
    by (simp add: emit_restored_def Inr t)
  show ?thesis unfolding eq node wf wf'
    using site_now_facts(2) [OF t] same_rest_site [OF site_now_facts(1) [OF t]] by simp
qed (simp add: emit_restored_def)

lemma split_on_simple: "CHR ''/'' \<notin> set s \<Longrightarrow> split_on (CHR ''/'') s = [s]"
  by (rule split_on_no_sep)

text \<open>A relative path without empty, dot and double dot pieces.\<close>

definition plain :: "string \<Rightarrow> bool" where
  "plain s \<longleftrightarrow> s \<noteq> [] \<and> (\<forall>x \<in> set (split_on (CHR ''/'') s). x \<noteq> [] \<and> x \<noteq> ''.'' \<and> x \<noteq> ''..'')"

lemma walk_plain: "\<forall>x \<in> set ps. x \<noteq> [] \<and> x \<noteq> ''.'' \<and> x \<noteq> ''..'' \<Longrightarrow> fold walk_piece ps base = base @ ps"
  by (induction ps arbitrary: base) (auto simp: walk_piece_def)

lemma plain_no_slash: "plain s \<Longrightarrow> \<not> starts_with s ''/''"
proof
  assume "plain s" "starts_with s ''/''"
  then obtain t where "s = CHR ''/'' # t" by (auto simp: prefix_def)
  then have "[] \<in> set (split_on (CHR ''/'') s)" by simp
  then show False using \<open>plain s\<close> unfolding plain_def by blast
qed

lemma path_join_plain: "plain s \<Longrightarrow> path_join base s = base @ split_on (CHR ''/'') s"
  using walk_plain plain_no_slash by (auto simp: path_join_def plain_def)

lemma path_join_empty [simp]: "path_join base [] = base"
  by (simp add: path_join_def walk_piece_def)

lemma dropWhile_none: "\<forall>x \<in> set xs. \<not> P x \<Longrightarrow> dropWhile P xs = xs"
  by (cases xs) auto

lemma path_tail_plain: "plain s \<Longrightarrow> path_tail s = rev (split_on (CHR ''/'') s)"
  unfolding path_tail_def plain_def by (intro dropWhile_none) (auto simp: blank_piece_def)

lemma path_file_name_plain: "plain s \<Longrightarrow> path_file_name s = Some (last (split_on (CHR ''/'') s))"
proof -
  assume s: "plain s"
  have "rev (split_on (CHR ''/'') s) = last (split_on (CHR ''/'') s) # rev (butlast (split_on (CHR ''/'') s))"
    by (metis append_butlast_last_id rev_eq_Cons_iff rev_rev_ident split_on_ne)
  moreover have "last (split_on (CHR ''/'') s) \<noteq> ''..''" using s by (auto simp: plain_def)
  ultimately show ?thesis unfolding path_file_name_def path_tail_plain [OF s] by (simp only: list.case if_False)
qed

lemma path_parent_plain:
  assumes "plain s"
  shows "path_parent s = Some (join_with (CHR ''/'') (butlast (split_on (CHR ''/'') s)))"
proof -
  let ?ps = "split_on (CHR ''/'') s"
  have rev: "rev ?ps = last ?ps # rev (butlast ?ps)"
    by (metis append_butlast_last_id rev_eq_Cons_iff rev_rev_ident split_on_ne)
  have ok: "\<forall>x \<in> set (butlast ?ps). x \<noteq> [] \<and> x \<noteq> ''.''" using assms by (auto simp: plain_def dest: in_set_butlastD)
  then have drop: "dropWhile blank_piece (rev (butlast ?ps)) = rev (butlast ?ps)"
    by (intro dropWhile_none) (simp add: blank_piece_def)
  have "rev (butlast ?ps) \<noteq> [] \<Longrightarrow> last (rev (butlast ?ps)) \<noteq> ''.''"
    using ok by (metis last_in_set set_rev)
  then have "(case rev (butlast ?ps) of
        [] \<Rightarrow> if starts_with s ''/'' then ''/''
              else if rev (butlast ?ps) \<noteq> [] \<and> last (rev (butlast ?ps)) = ''.'' then ''.'' else []
      | qs \<Rightarrow> join_with (CHR ''/'') (rev qs)) = join_with (CHR ''/'') (butlast ?ps)"
    using plain_no_slash [OF assms] by (cases "butlast ?ps" rule: rev_cases) auto
  then show ?thesis unfolding path_parent_def path_tail_plain [OF assms] rev list.case drop by (simp only:)
qed
section \<open>A small installation\<close>

text \<open>The user bob with a file \<open>a\<close> and an empty directory \<open>d\<close>.\<close>

definition sample_node :: "bool \<Rightarrow> bytes \<Rightarrow> node" where
  "sample_node dir bs = \<lparr>nd_dir = dir, nd_data = bs, nd_etag = None, nd_mime = None, nd_mtime = 0, nd_inode = 0\<rparr>"

definition site_sample :: site where
  "site_sample =
     \<lparr>dk_nodes = [([], sample_node True []), ([''data''], sample_node True []), ([''data'', ''bob''], sample_node True []),
        ([''data'', ''bob'', ''files''], sample_node True []), ([''data'', ''bob'', ''files'', ''a''], sample_node False [1]),
        ([''data'', ''bob'', ''files'', ''d''], sample_node True [])],
      dk_inode = 1, dk_world = sample_world, dk_events = [],
      si_versions = [], si_next_version = 1, si_trash = [], si_next_trash = 1,
      si_activity = \<lparr>ad_rows = [], ad_next = 1, ad_settings = []\<rparr>,
      si_cache = \<lparr>fd_rows = [], fd_next = 1, fd_storages = [], fd_mimes = [], fd_storage_ids = (\<lambda>_. None),
        fd_mime_ids = (\<lambda>_. None), fd_world = sample_world\<rparr>\<rparr>"

definition site_env_sample :: site_env where
  "site_env_sample = \<lparr>se_datadir = [''data''], se_dialect = Sqlite,
     se_activity = \<lparr>ac_codec = \<lparr>jc_write = (\<lambda>v. []), jc_read = (\<lambda>s. None)\<rparr>, ac_window = 60\<rparr>\<rparr>"

lemma disk_wf_code [code]:
  "disk_wf d \<longleftrightarrow> distinct (map fst (dk_nodes d)) \<and> is_dir_at d [] \<and>
     list_all (\<lambda>(p, _). p = [] \<or> is_dir_at d (butlast p)) (dk_nodes d)"
proof -
  have "node_at d p \<noteq> None \<longleftrightarrow> (\<exists>n. (p, n) \<in> set (dk_nodes d))" for p
    by (force simp: map_of_eq_None_iff image_iff simp flip: not_None_eq)
  then show ?thesis unfolding disk_wf_def list_all_iff by fastforce
qed

lemma site_sample_wf: "disk_wf site_sample"
  by code_simp

end
