(* ===== verification/Versions.thy ===== *)
theory Versions
  imports Site "HOL-Library.Signed_Division"
begin

text \<open>
  File versions (crabcloud-versions: src/service.rs, src/types.rs, src/error.rs, src/sql.rs):
  copies of overwritten files under \<open>files_versions\<close> with one row each, their listing, restore
  and removal, and the tiered sweep. The statements quote the column \<open>user\<close> with double quotes,
  which on MySQL is a string: there every insert is refused and the table stays empty.
\<close>

datatype versions_error =
    VerNotFound
  | VerWrongUser
  | VerSourceMissing
  | VerDuplicate
  | VerIo io_error
  | VerDb string

text \<open>The directories of a user under the data directory.\<close>

definition user_dir :: "site_env \<Rightarrow> string \<Rightarrow> string \<Rightarrow> fpath" where
  "user_dir E u name = path_join (se_datadir E) u @ [name]"

abbreviation trim_slashes :: "string \<Rightarrow> string" where
  "trim_slashes \<equiv> dropWhile (\<lambda>c. c = CHR ''/'')"

definition version_dir :: "site_env \<Rightarrow> string \<Rightarrow> string \<Rightarrow> fpath" where
  "version_dir E u rel =
     path_join (user_dir E u ''files_versions'') (case path_parent rel of Some p \<Rightarrow> p | None \<Rightarrow> [])"

definition version_name :: "string \<Rightarrow> int \<Rightarrow> string" where
  "version_name basename t = basename @ ''.v'' @ show_int t"

section \<open>Rows\<close>

definition list_for :: "string \<Rightarrow> int \<Rightarrow> site \<Rightarrow> version_entry list" where
  "list_for u fileid s =
     sort_key (\<lambda>v. - ve_mtime v) (filter (\<lambda>v. ve_user v = u \<and> ve_fileid v = fileid) (si_versions s))"

definition version_by_id :: "int \<Rightarrow> site \<Rightarrow> versions_error + version_entry" where
  "version_by_id i s = ok_or VerNotFound (sql_first (\<lambda>v. ve_id v = i) (si_versions s))"

definition get_latest_for :: "int \<Rightarrow> int \<Rightarrow> site \<Rightarrow> version_entry option" where
  "get_latest_for sid fileid s =
     sql_first (\<lambda>_. True) (sort_key (\<lambda>v. - ve_mtime v)
       (filter (\<lambda>v. ve_storage v = sid \<and> ve_fileid v = fileid) (si_versions s)))"

definition insert_version ::
    "site_env \<Rightarrow> int \<Rightarrow> int \<Rightarrow> string \<Rightarrow> string \<Rightarrow> int \<Rightarrow> int \<Rightarrow> (versions_error, int) site_op" where
  "insert_version E sid fileid u path mtime sz s =
     (if se_dialect E = MySql then (Inl (VerDb ''syntax error near \"user\"''), s)
      else if \<not> (fits (se_dialect E) 64 u \<and> fits (se_dialect E) 512 path)
      then (Inl (VerDb ''value too long''), s)
      else if list_ex (\<lambda>v. ve_storage v = sid \<and> ve_fileid v = fileid \<and> ve_mtime v = mtime) (si_versions s)
      then (Inl VerDuplicate, s)
      else (Inr (si_next_version s),
            s\<lparr>si_next_version := si_next_version s + 1,
              si_versions := si_versions s @
                [\<lparr>ve_id = si_next_version s, ve_storage = sid, ve_fileid = fileid, ve_user = u,
                  ve_path = path, ve_mtime = mtime, ve_size = sz\<rparr>]\<rparr>))"

section \<open>Snapshots\<close>

definition throttled :: "int \<Rightarrow> int \<Rightarrow> int \<Rightarrow> int \<Rightarrow> site \<Rightarrow> bool" where
  "throttled sid fileid now_secs throttle s \<longleftrightarrow>
     0 < throttle \<and> (case get_latest_for sid fileid s of
        Some v \<Rightarrow> now_secs - ve_mtime v < throttle | None \<Rightarrow> False)"

text \<open>The row of a copy that is in place; a row of the same second already there is no error.\<close>

definition record_snapshot ::
    "site_env \<Rightarrow> string \<Rightarrow> int \<Rightarrow> int \<Rightarrow> string \<Rightarrow> int \<Rightarrow> int \<Rightarrow> (versions_error, int option) site_op" where
  "record_snapshot E u sid fileid rel sz now_secs s =
     (case insert_version E sid fileid u (CHR ''/'' # rel) now_secs sz s of
        (Inr i, s') \<Rightarrow> (Inr (Some i), s')
      | (Inl VerDuplicate, s') \<Rightarrow> (Inr None, s')
      | (Inl e, s') \<Rightarrow> (Inl e, s'))"

definition snapshot_if_needed ::
    "site_env \<Rightarrow> string \<Rightarrow> int \<Rightarrow> int \<Rightarrow> string \<Rightarrow> int \<Rightarrow> int \<Rightarrow> int \<Rightarrow> int \<Rightarrow> (versions_error, int option) site_op" where
  "snapshot_if_needed E u sid fileid src_path sz now_secs throttle max_bytes s =
     (if sz \<le> 0 then (Inr None, s)
      else if max_bytes < sz then (Inr None, s)
      else if throttled sid fileid now_secs throttle s then (Inr None, s)
      else
        (let rel = trim_slashes src_path;
             src_abs = path_join (user_dir E u ''files'') rel
         in case try_exists src_abs s of
              Inl e \<Rightarrow> (Inl (VerIo e), s)
            | Inr False \<Rightarrow> (Inl VerSourceMissing, s)
            | Inr True \<Rightarrow>
                (case create_dir_all (version_dir E u rel) s of
                   (Inl e, s1) \<Rightarrow> (Inl (VerIo e), s1)
                 | (Inr _, s1) \<Rightarrow>
                     (case path_file_name rel of
                        None \<Rightarrow> (Inl VerSourceMissing, s1)
                      | Some basename \<Rightarrow>
                          (let dst_abs = version_dir E u rel @ [version_name basename now_secs]
                           in case copy_file src_abs dst_abs s1 of
                                (Inl e, s2) \<Rightarrow> (Inl (VerIo e), snd (remove_file dst_abs s2))
                              | (Inr _, s2) \<Rightarrow> record_snapshot E u sid fileid rel sz now_secs s2)))))"

section \<open>Restore\<close>

definition copy_version_back :: "site_env \<Rightarrow> string \<Rightarrow> version_entry \<Rightarrow> (versions_error, unit) site_op" where
  "copy_version_back E u v s =
     (let rel = trim_slashes (ve_path v)
      in case path_file_name rel of
           None \<Rightarrow> (Inl VerSourceMissing, s)
         | Some basename \<Rightarrow>
             (let src_abs = version_dir E u rel @ [version_name basename (ve_mtime v)];
                  dst_dir = path_join (user_dir E u ''files'') (case path_parent rel of Some p \<Rightarrow> p | None \<Rightarrow> [])
              in case try_exists src_abs s of
                   Inl e \<Rightarrow> (Inl (VerIo e), s)
                 | Inr False \<Rightarrow> (Inl VerSourceMissing, s)
                 | Inr True \<Rightarrow>
                     (case create_dir_all dst_dir s of
                        (Inl e, s1) \<Rightarrow> (Inl (VerIo e), s1)
                      | (Inr _, s1) \<Rightarrow>
                          (case copy_file src_abs (dst_dir @ [basename]) s1 of
                             (Inl e, s2) \<Rightarrow> (Inl (VerIo e), s2)
                           | (Inr _, s2) \<Rightarrow>
                               (Inr (), emit_restored E VersionRestored ''version_restored_you''
                                  ''version_restored_by'' ObjVersion u (ve_path v) (Some (ve_id v)) s2)))))"

definition version_restore ::
    "site_env \<Rightarrow> string \<Rightarrow> int \<Rightarrow> int \<Rightarrow> int \<Rightarrow> int \<Rightarrow> int \<Rightarrow> (versions_error, unit) site_op" where
  "version_restore E u i sz now_secs throttle max_bytes s =
     (case version_by_id i s of
        Inl e \<Rightarrow> (Inl e, s)
      | Inr v \<Rightarrow>
          if ve_user v \<noteq> u then (Inl VerWrongUser, s)
          else (case snapshot_if_needed E u (ve_storage v) (ve_fileid v) (ve_path v) sz now_secs throttle max_bytes s of
                  (Inr _, s1) \<Rightarrow> copy_version_back E u v s1
                | (Inl VerSourceMissing, s1) \<Rightarrow> copy_version_back E u v s1
                | (Inl e, s1) \<Rightarrow> (Inl e, s1)))"

section \<open>Removal\<close>

definition delete_version_row :: "int \<Rightarrow> site \<Rightarrow> site" where
  "delete_version_row i s = s\<lparr>si_versions := snd (sql_delete (\<lambda>v. ve_id v = i) (si_versions s))\<rparr>"

definition delete_version_entry :: "site_env \<Rightarrow> version_entry \<Rightarrow> (versions_error, unit) site_op" where
  "delete_version_entry E v s =
     (let rel = trim_slashes (ve_path v)
      in case path_file_name rel of
           None \<Rightarrow> (Inl VerSourceMissing, s)
         | Some basename \<Rightarrow>
             (let on_disk = version_dir E (ve_user v) rel @ [version_name basename (ve_mtime v)]
              in case try_exists on_disk s of
                   Inl e \<Rightarrow> (Inl (VerIo e), s)
                 | Inr False \<Rightarrow> (Inr (), delete_version_row (ve_id v) s)
                 | Inr True \<Rightarrow>
                     (case remove_file on_disk s of
                        (Inl e, s1) \<Rightarrow> (Inl (VerIo e), s1)
                      | (Inr _, s1) \<Rightarrow> (Inr (), delete_version_row (ve_id v) s1))))"

definition version_delete :: "site_env \<Rightarrow> string \<Rightarrow> int \<Rightarrow> (versions_error, unit) site_op" where
  "version_delete E u i s =
     (case version_by_id i s of
        Inl e \<Rightarrow> (Inl e, s)
      | Inr v \<Rightarrow> if ve_user v \<noteq> u then (Inl VerWrongUser, s) else delete_version_entry E v s)"

text \<open>Removing a list of rows: a failure is skipped, the successes are counted.\<close>

fun delete_versions :: "site_env \<Rightarrow> version_entry list \<Rightarrow> site \<Rightarrow> nat \<times> site" where
  "delete_versions E [] s = (0, s)"
| "delete_versions E (v # vs) s =
     (case delete_version_entry E v s of
        (Inl _, s1) \<Rightarrow> delete_versions E vs s1
      | (Inr _, s1) \<Rightarrow> (case delete_versions E vs s1 of (n, s2) \<Rightarrow> (Suc n, s2)))"

definition purge_for_fileid :: "site_env \<Rightarrow> int \<Rightarrow> int \<Rightarrow> site \<Rightarrow> nat \<times> site" where
  "purge_for_fileid E sid fileid s =
     delete_versions E (filter (\<lambda>v. ve_storage v = sid \<and> ve_fileid v = fileid) (si_versions s)) s"

definition purge_for_user_fileid :: "site_env \<Rightarrow> string \<Rightarrow> int \<Rightarrow> site \<Rightarrow> nat \<times> site" where
  "purge_for_user_fileid E u fileid s =
     delete_versions E (filter (\<lambda>v. ve_user v = u \<and> ve_fileid v = fileid) (si_versions s)) s"

section \<open>The tiered sweep\<close>

definition HOUR :: int where "HOUR = 3600"
definition DAY :: int where "DAY = 86400"
definition WEEK :: int where "WEEK = 7 * DAY"

text \<open>The tier and the slot in it; division rounds towards zero.\<close>

definition bucket_slot :: "int \<Rightarrow> int \<Rightarrow> nat \<times> int" where
  "bucket_slot age mtime =
     (if age < DAY then (0, 0)
      else if age < 30 * DAY then (1, mtime sdiv HOUR)
      else if age < 180 * DAY then (2, mtime sdiv DAY)
      else (3, mtime sdiv WEEK))"

fun sweep_entries :: "site_env \<Rightarrow> int \<Rightarrow> (nat \<times> int) set \<Rightarrow> version_entry list \<Rightarrow> site \<Rightarrow> nat \<times> site" where
  "sweep_entries E now_secs seen [] s = (0, s)"
| "sweep_entries E now_secs seen (v # vs) s =
     (let slot = bucket_slot (now_secs - ve_mtime v) (ve_mtime v) in
      if fst slot = 0 then sweep_entries E now_secs seen vs s
      else if slot \<notin> seen then sweep_entries E now_secs (insert slot seen) vs s
      else (case delete_version_entry E v s of
              (Inl _, s1) \<Rightarrow> sweep_entries E now_secs seen vs s1
            | (Inr _, s1) \<Rightarrow> (case sweep_entries E now_secs seen vs s1 of (n, s2) \<Rightarrow> (Suc n, s2))))"

fun sweep_groups :: "site_env \<Rightarrow> int \<Rightarrow> (string \<times> int) list \<Rightarrow> site \<Rightarrow> nat \<times> site" where
  "sweep_groups E now_secs [] s = (0, s)"
| "sweep_groups E now_secs ((u, fileid) # gs) s =
     (case sweep_entries E now_secs {} (list_for u fileid s) s of
        (n, s1) \<Rightarrow> (case sweep_groups E now_secs gs s1 of (m, s2) \<Rightarrow> (n + m, s2)))"

definition version_groups :: "site \<Rightarrow> (string \<times> int) list" where
  "version_groups s =
     sort_key fst (sort_key snd (remdups (map (\<lambda>v. (ve_user v, ve_fileid v)) (si_versions s))))"

definition sweep_tiered :: "site_env \<Rightarrow> int \<Rightarrow> site \<Rightarrow> nat \<times> site" where
  "sweep_tiered E now_secs s = sweep_groups E now_secs (version_groups s) s"

text \<open>The daily task (crabcloud-core, src/versions_sweeper.rs).\<close>

definition versions_sweep_once :: "site_env \<Rightarrow> bool \<Rightarrow> site \<Rightarrow> nat \<times> site" where
  "versions_sweep_once E retention_disabled s =
     (if retention_disabled then (0, s)
      else case site_now s of (t, s') \<Rightarrow> sweep_tiered E t s')"

end
