(* ===== verification/Trash.thy ===== *)
theory Trash
  imports Versions
begin

text \<open>
  The trash bin (crabcloud-trash: src/service.rs, src/types.rs, src/error.rs, src/sql.rs; the
  daily task of crabcloud-core, src/trash_sweeper.rs): soft deletes by rename or by copy, the
  listing, restore with a free name, purge with the cascade to the file versions, and the sweep
  of expired rows. As with the versions, the quoted column \<open>user\<close> makes every insert fail on
  MySQL.
\<close>

datatype trash_error =
    TrNotFound
  | TrWrongUser
  | TrRestoreCollision
  | TrSourceMissing
  | TrIo io_error
  | TrDb string
  | TrFileCache string

fun trash_type_str :: "trash_type \<Rightarrow> string" where
  "trash_type_str TrashFile = ''file''"
| "trash_type_str TrashDir = ''dir''"

definition trash_type_parse :: "string \<Rightarrow> trash_type option" where
  "trash_type_parse s =
     (if s = ''file'' then Some TrashFile else if s = ''dir'' then Some TrashDir else None)"

definition trash_dir :: "site_env \<Rightarrow> string \<Rightarrow> fpath" where
  "trash_dir E u = user_dir E u ''files_trashbin'' @ [''files'']"

definition trash_name :: "string \<Rightarrow> string \<Rightarrow> string" where
  "trash_name basename sfx = basename @ CHR ''.'' # sfx"

definition validate_relative_path :: "string \<Rightarrow> trash_error + unit" where
  "validate_relative_path p =
     (if CHR 0x5C \<in> set p \<or> CHR 0x00 \<in> set p \<or> starts_with p ''/'' then Inl TrSourceMissing
      else if ''..'' \<in> set (split_on (CHR ''/'') p) then Inl TrSourceMissing
      else Inr ())"

definition parent_of :: "string \<Rightarrow> string" where
  "parent_of p = (case rfind (CHR ''/'') p of Some i \<Rightarrow> take i p | None \<Rightarrow> [])"

section \<open>Rows\<close>

definition resolve_unique_suffix :: "site_env \<Rightarrow> string \<Rightarrow> string \<Rightarrow> int \<Rightarrow> site \<Rightarrow> string" where
  "resolve_unique_suffix E u basename now_secs s =
     (let base = CHR ''d'' # show_int now_secs;
          n = length (filter (\<lambda>t. te_user t = u \<and> te_basename t = basename \<and>
                like_on (se_dialect E) (base @ ''%'') (te_suffix t)) (si_trash s))
      in if n = 0 then base else base @ CHR ''_'' # show_nat (n + 1))"

definition insert_trash ::
    "site_env \<Rightarrow> string \<Rightarrow> string \<Rightarrow> string \<Rightarrow> string \<Rightarrow> int \<Rightarrow> trash_type \<Rightarrow> int option \<Rightarrow> (trash_error, int) site_op" where
  "insert_trash E u basename sfx location deleted kind fileid s =
     (if se_dialect E = MySql then (Inl (TrDb ''syntax error near \"user\"''), s)
      else if \<not> (fits (se_dialect E) 64 u \<and> fits (se_dialect E) 255 basename \<and>
                 fits (se_dialect E) 32 sfx \<and> fits (se_dialect E) 512 location)
      then (Inl (TrDb ''value too long''), s)
      else if list_ex (\<lambda>t. te_user t = u \<and> te_basename t = basename \<and> te_suffix t = sfx) (si_trash s)
      then (Inl (TrDb ''UNIQUE constraint failed''), s)
      else (Inr (si_next_trash s),
            s\<lparr>si_next_trash := si_next_trash s + 1,
              si_trash := si_trash s @
                [\<lparr>te_id = si_next_trash s, te_user = u, te_basename = basename, te_suffix = sfx,
                  te_location = location, te_deleted = deleted, te_type = kind, te_fileid = fileid\<rparr>]\<rparr>))"

definition trash_list :: "string \<Rightarrow> site \<Rightarrow> trash_entry list" where
  "trash_list u s = sort_key (\<lambda>t. - te_deleted t) (filter (\<lambda>t. te_user t = u) (si_trash s))"

definition trash_by_id :: "int \<Rightarrow> site \<Rightarrow> trash_error + trash_entry" where
  "trash_by_id i s = ok_or TrNotFound (sql_first (\<lambda>t. te_id t = i) (si_trash s))"

definition trash_by_name :: "string \<Rightarrow> string \<Rightarrow> string \<Rightarrow> site \<Rightarrow> trash_error + trash_entry" where
  "trash_by_name u basename sfx s =
     ok_or TrNotFound (sql_first (\<lambda>t. te_user t = u \<and> te_basename t = basename \<and> te_suffix t = sfx) (si_trash s))"

definition delete_trash_row :: "int \<Rightarrow> site \<Rightarrow> site" where
  "delete_trash_row i s = s\<lparr>si_trash := snd (sql_delete (\<lambda>t. te_id t = i) (si_trash s))\<rparr>"

section \<open>Soft delete\<close>

definition trash_location :: "string \<Rightarrow> string" where
  "trash_location rel = (case path_parent rel of None \<Rightarrow> ''/'' | Some p \<Rightarrow> if p = [] then ''/'' else CHR ''/'' # p)"

definition soft_delete ::
    "site_env \<Rightarrow> string \<Rightarrow> string \<Rightarrow> trash_type \<Rightarrow> int option \<Rightarrow> (trash_error, int) site_op" where
  "soft_delete E u src_path kind fileid s =
     (let rel = trim_slashes src_path in
      case validate_relative_path rel of
        Inl e \<Rightarrow> (Inl e, s)
      | Inr _ \<Rightarrow>
      (case path_file_name rel of
        None \<Rightarrow> (Inl TrSourceMissing, s)
      | Some basename \<Rightarrow>
          (let (t, s1) = site_now s;
               sfx = resolve_unique_suffix E u basename t s1
           in case create_dir_all (trash_dir E u) s1 of
                (Inl e, s2) \<Rightarrow> (Inl (TrIo e), s2)
              | (Inr _, s2) \<Rightarrow>
                  (let src = path_join (user_dir E u ''files'') rel;
                       dst = trash_dir E u @ [trash_name basename sfx]
                   in case try_exists src s2 of
                        Inl e \<Rightarrow> (Inl (TrIo e), s2)
                      | Inr False \<Rightarrow> (Inl TrSourceMissing, s2)
                      | Inr True \<Rightarrow>
                          (case rename src dst s2 of
                             (Inl e, s3) \<Rightarrow> (Inl (TrIo e), s3)
                           | (Inr _, s3) \<Rightarrow> insert_trash E u basename sfx (trash_location rel) t kind fileid s3)))))"

definition bad_basename :: "string \<Rightarrow> bool" where
  "bad_basename b \<longleftrightarrow> b = [] \<or> CHR ''/'' \<in> set b \<or> CHR 0x5C \<in> set b \<or> CHR 0x00 \<in> set b \<or> b = ''..'' \<or> b = ''.''"

definition soft_delete_from_reader ::
    "site_env \<Rightarrow> string \<Rightarrow> string \<Rightarrow> string \<Rightarrow> trash_type \<Rightarrow> int option \<Rightarrow> body \<Rightarrow> (trash_error, int) site_op" where
  "soft_delete_from_reader E u location basename kind fileid reader s =
     (if bad_basename basename then (Inl TrSourceMissing, s)
      else
        (let (t, s1) = site_now s;
             sfx = resolve_unique_suffix E u basename t s1
         in case create_dir_all (trash_dir E u) s1 of
              (Inl e, s2) \<Rightarrow> (Inl (TrIo e), s2)
            | (Inr _, s2) \<Rightarrow>
                (let dst = trash_dir E u @ [trash_name basename sfx] in
                 case reader of
                   Inl e \<Rightarrow>
                     (case write_new dst [] s2 of
                        (Inl e', s3) \<Rightarrow> (Inl (TrIo e'), s3)
                      | (Inr _, s3) \<Rightarrow> (Inl (TrIo e), snd (remove_file dst s3)))
                 | Inr bs \<Rightarrow>
                     (case write_new dst bs s2 of
                        (Inl e, s3) \<Rightarrow> (Inl (TrIo e), s3)
                      | (Inr _, s3) \<Rightarrow> insert_trash E u basename sfx location t kind fileid s3))))"

text \<open>
  The copy of a tree into a directory that exists, depth first; the stack of the code is the
  recursion here. A path of the copy that is too long fails, which bounds the depth by the fuel
  \<open>PATH_MAX\<close>.
\<close>

fun trash_copy_entries ::
    "(fpath \<Rightarrow> fpath \<Rightarrow> (trash_error, unit) site_op) \<Rightarrow> fpath \<Rightarrow> fpath \<Rightarrow> string list \<Rightarrow> (trash_error, unit) site_op" where
  "trash_copy_entries descend src dst [] s = (Inr (), s)"
| "trash_copy_entries descend src dst (name # names) s =
     (case metadata_at (src @ [name]) s of
        Inl e \<Rightarrow> (Inl (TrIo e), s)
      | Inr n \<Rightarrow>
          if nd_dir n then
            (case create_dir (dst @ [name]) s of
               (Inl e, s1) \<Rightarrow> (Inl (TrIo e), s1)
             | (Inr _, s1) \<Rightarrow>
                 (case descend (src @ [name]) (dst @ [name]) s1 of
                    (Inl e, s2) \<Rightarrow> (Inl e, s2)
                  | (Inr _, s2) \<Rightarrow> trash_copy_entries descend src dst names s2))
          else
            (case write_new (dst @ [name]) (nd_data n) s of
               (Inl e, s1) \<Rightarrow> (Inl (TrIo e), s1)
             | (Inr _, s1) \<Rightarrow> trash_copy_entries descend src dst names s1))"

fun trash_copy_dir :: "nat \<Rightarrow> fpath \<Rightarrow> fpath \<Rightarrow> (trash_error, unit) site_op" where
  "trash_copy_dir 0 src dst s = (Inl (TrIo (IoOther ''ENAMETOOLONG'')), s)"
| "trash_copy_dir (Suc fuel) src dst s =
     (case read_dir src s of
        Inl e \<Rightarrow> (Inl (TrIo e), s)
      | Inr names \<Rightarrow> trash_copy_entries (trash_copy_dir fuel) src dst names s)"

definition soft_delete_directory_from_path ::
    "site_env \<Rightarrow> string \<Rightarrow> string \<Rightarrow> string \<Rightarrow> fpath \<Rightarrow> int option \<Rightarrow> (trash_error, int) site_op" where
  "soft_delete_directory_from_path E u location basename src_abs fileid s =
     (if bad_basename basename then (Inl TrSourceMissing, s)
      else case metadata_at src_abs s of
        Inl e \<Rightarrow> (Inl (if e = IoNotFound then TrSourceMissing else TrIo e), s)
      | Inr md \<Rightarrow>
          if \<not> nd_dir md then (Inl TrSourceMissing, s)
          else
            (let (t, s1) = site_now s;
                 sfx = resolve_unique_suffix E u basename t s1
             in case create_dir_all (trash_dir E u) s1 of
                  (Inl e, s2) \<Rightarrow> (Inl (TrIo e), s2)
                | (Inr _, s2) \<Rightarrow>
                    (let dst_root = trash_dir E u @ [trash_name basename sfx] in
                     case create_dir dst_root s2 of
                       (Inl e, s3) \<Rightarrow> (Inl (TrIo e), s3)
                     | (Inr _, s3) \<Rightarrow>
                         (case trash_copy_dir PATH_MAX src_abs dst_root s3 of
                            (Inl e, s4) \<Rightarrow> (Inl e, snd (remove_dir_all dst_root s4))
                          | (Inr _, s4) \<Rightarrow> insert_trash E u basename sfx location t TrashDir fileid s4))))"

section \<open>Restore\<close>

definition RESTORE_COLLISION_CAP :: nat where "RESTORE_COLLISION_CAP = 99"

definition restored_name :: "string \<Rightarrow> nat \<Rightarrow> string" where
  "restored_name basename n =
     (if n = 0 then basename else if n = 1 then basename @ '' (restored)''
      else basename @ '' (restored '' @ show_nat n @ '')'')"

fun pick_name :: "fpath \<Rightarrow> string \<Rightarrow> string \<Rightarrow> nat list \<Rightarrow> site \<Rightarrow> trash_error + string \<times> string" where
  "pick_name dir rel basename [] s = Inl TrRestoreCollision"
| "pick_name dir rel basename (n # ns) s =
     (let candidate = restored_name basename n in
      case try_exists (dir @ [candidate]) s of
        Inl e \<Rightarrow> Inl (TrIo e)
      | Inr False \<Rightarrow> Inr (candidate, if rel = [] then CHR ''/'' # candidate else CHR ''/'' # rel @ CHR ''/'' # candidate)
      | Inr True \<Rightarrow> pick_name dir rel basename ns s)"

definition pick_non_colliding_name :: "fpath \<Rightarrow> string \<Rightarrow> string \<Rightarrow> site \<Rightarrow> trash_error + string \<times> string" where
  "pick_non_colliding_name dir rel basename s = pick_name dir rel basename [0..<Suc RESTORE_COLLISION_CAP] s"

text \<open>The directory and the name to restore to.\<close>

definition restore_target :: "trash_entry \<Rightarrow> string option \<Rightarrow> trash_error + string \<times> string" where
  "restore_target t dest_override =
     (case dest_override of
        None \<Rightarrow> Inr (trim_slashes (te_location t), te_basename t)
      | Some d \<Rightarrow>
          (let trimmed = trim_slashes d in
           case validate_relative_path trimmed of
             Inl e \<Rightarrow> Inl e
           | Inr _ \<Rightarrow>
               Inr (parent_of trimmed,
                    case path_file_name trimmed of Some b \<Rightarrow> b | None \<Rightarrow> te_basename t)))"

definition trash_restore :: "site_env \<Rightarrow> string \<Rightarrow> int \<Rightarrow> string option \<Rightarrow> (trash_error, string) site_op" where
  "trash_restore E u i dest_override s =
     (case trash_by_id i s of
        Inl e \<Rightarrow> (Inl e, s)
      | Inr t \<Rightarrow>
          if te_user t \<noteq> u then (Inl TrWrongUser, s)
          else (case restore_target t dest_override of
            Inl e \<Rightarrow> (Inl e, s)
          | Inr (dir_rel, basename) \<Rightarrow>
              (let dir = path_join (user_dir E u ''files'') dir_rel in
               case create_dir_all dir s of
                 (Inl e, s1) \<Rightarrow> (Inl (TrIo e), s1)
               | (Inr _, s1) \<Rightarrow>
               (case pick_non_colliding_name dir dir_rel basename s1 of
                 Inl e \<Rightarrow> (Inl e, s1)
               | Inr (final_name, final_rel) \<Rightarrow>
                   (let src = trash_dir E u @ [trash_name (te_basename t) (te_suffix t)] in
                    case try_exists src s1 of
                      Inl e \<Rightarrow> (Inl (TrIo e), s1)
                    | Inr False \<Rightarrow> (Inl TrSourceMissing, s1)
                    | Inr True \<Rightarrow>
                        (case rename src (dir @ [final_name]) s1 of
                           (Inl e, s2) \<Rightarrow> (Inl (TrIo e), s2)
                         | (Inr _, s2) \<Rightarrow>
                             (Inr final_rel, emit_restored E FileRestored ''file_restored_you'' ''file_restored_by''
                                ObjFile u final_rel (te_fileid t) (delete_trash_row i s2))))))))"

section \<open>Purge\<close>

definition purge_entry :: "site_env \<Rightarrow> trash_entry \<Rightarrow> (trash_error, unit) site_op" where
  "purge_entry E t s =
     (let s1 = (case te_fileid t of Some fileid \<Rightarrow> snd (purge_for_user_fileid E (te_user t) fileid s) | None \<Rightarrow> s);
          src = trash_dir E (te_user t) @ [trash_name (te_basename t) (te_suffix t)]
      in case try_exists src s1 of
           Inl e \<Rightarrow> (Inl (TrIo e), s1)
         | Inr False \<Rightarrow> (Inr (), delete_trash_row (te_id t) s1)
         | Inr True \<Rightarrow>
             (case (if te_type t = TrashDir then remove_dir_all src s1 else remove_file src s1) of
                (Inl e, s2) \<Rightarrow> (Inl (TrIo e), s2)
              | (Inr _, s2) \<Rightarrow> (Inr (), delete_trash_row (te_id t) s2)))"

definition trash_purge :: "site_env \<Rightarrow> string \<Rightarrow> int \<Rightarrow> (trash_error, unit) site_op" where
  "trash_purge E u i s =
     (case trash_by_id i s of
        Inl e \<Rightarrow> (Inl e, s)
      | Inr t \<Rightarrow> if te_user t \<noteq> u then (Inl TrWrongUser, s) else purge_entry E t s)"

fun purge_list :: "site_env \<Rightarrow> trash_entry list \<Rightarrow> (trash_error, nat) site_op" where
  "purge_list E [] s = (Inr 0, s)"
| "purge_list E (t # ts) s =
     ebind (purge_entry E t) (\<lambda>_. ebind (purge_list E ts) (\<lambda>n s. (Inr (Suc n), s))) s"

definition purge_all :: "site_env \<Rightarrow> string \<Rightarrow> (trash_error, nat) site_op" where
  "purge_all E u s = purge_list E (trash_list u s) s"

section \<open>The sweep\<close>

fun sweep_list :: "site_env \<Rightarrow> trash_entry list \<Rightarrow> site \<Rightarrow> nat \<times> site" where
  "sweep_list E [] s = (0, s)"
| "sweep_list E (t # ts) s =
     (case purge_entry E t s of
        (Inl _, s1) \<Rightarrow> sweep_list E ts s1
      | (Inr _, s1) \<Rightarrow> (case sweep_list E ts s1 of (n, s2) \<Rightarrow> (Suc n, s2)))"

definition trash_sweep_expired :: "site_env \<Rightarrow> int \<Rightarrow> nat \<Rightarrow> site \<Rightarrow> nat \<times> site" where
  "trash_sweep_expired E cutoff batch s =
     sweep_list E (take batch (filter (\<lambda>t. te_deleted t < cutoff) (si_trash s))) s"

definition SWEEP_BATCH :: nat where "SWEEP_BATCH = 500"

definition trash_sweep_once :: "site_env \<Rightarrow> u32 \<Rightarrow> site \<Rightarrow> nat \<times> site" where
  "trash_sweep_once E retention_days s =
     (let secs = uint retention_days * 86400 in
      if secs \<le> 0 then (0, s)
      else case site_now s of (t, s') \<Rightarrow> trash_sweep_expired E (t - secs) SWEEP_BATCH s')"

end
