(* ===== verification/LocalStorage.thy ===== *)
theory LocalStorage
  imports Disk MemStorage
begin

text \<open>
  The local backend (crabcloud-storage: src/local/mod.rs, atomic.rs, mimetype.rs, xattr_io.rs,
  with \<open>ETag::from_mtime_and_id\<close> of src/meta.rs) on the file system of \<open>Disk\<close>: writes to a
  sibling temporary file and a rename over the target, multipart uploads in a directory beside
  the target. Without symbolic links a path that exists is its own canonical path. The first
  read of a body is taken to fill the buffer used for sniffing.
\<close>

text \<open>
  Whether the file system has extended attributes, the generated table of extensions, the crates
  \<open>infer\<close> and \<open>sha2\<close>, the Unicode lower case and the default hasher are parameters.
\<close>

record local_env =
  le_xattr :: bool
  le_extensions :: "string \<Rightarrow> string option"
  le_infer :: "bytes \<Rightarrow> string option"
  le_sha256 :: "bytes \<Rightarrow> bytes"
  le_lower :: "string \<Rightarrow> string"
  le_hash :: "nat \<Rightarrow> nat \<Rightarrow> u64"

record local_storage =
  ls_root :: fpath
  ls_owner :: "string option"

type_synonym ('d, 'a) local_op = "('d disk_scheme, storage_error, 'a) eff"

definition local_id :: "local_storage \<Rightarrow> string" where
  "local_id L = ''local::/'' @ join_with (CHR ''/'') (ls_root L)"

definition local_new :: "fpath \<Rightarrow> 'd disk_scheme \<Rightarrow> storage_error + local_storage" where
  "local_new root d =
     (case metadata_at root d of
        Inl e \<Rightarrow> Inl (map_io e)
      | Inr _ \<Rightarrow> Inr \<lparr>ls_root = root, ls_owner = None\<rparr>)"

definition with_owner_uid :: "string \<Rightarrow> local_storage \<Rightarrow> local_storage" where
  "with_owner_uid u L = L\<lparr>ls_owner := Some u\<rparr>"

definition local_resolve :: "local_storage \<Rightarrow> storage_path \<Rightarrow> 'd disk_scheme \<Rightarrow> storage_error + fpath" where
  "local_resolve L path d =
     (let joined = (if is_root path then ls_root L else ls_root L @ segs path) in
      if path_exists joined d then
        (if prefix (ls_root L) joined then Inr joined else Inl (StInvalidPath (''path escapes root: '' @ as_str path)))
      else case List.find (\<lambda>q. path_exists q d) (map (\<lambda>n. take n joined) (rev [0..<length joined])) of
        None \<Rightarrow> Inl (StInvalidPath (''no existing ancestor for '' @ as_str path))
      | Some anc \<Rightarrow>
          if prefix (ls_root L) anc then Inr joined
          else Inl (StInvalidPath (''ancestor escapes root: '' @ as_str path)))"

section \<open>Metadata\<close>

definition etag_from_mtime_and_id :: "local_env \<Rightarrow> (bytes \<Rightarrow> string) \<Rightarrow> nat \<Rightarrow> nat \<Rightarrow> etag" where
  "etag_from_mtime_and_id E hex mtime i =
     ETag (hex (map (\<lambda>k. ucast (word_rotl (k * 5) (le_hash E mtime i) AND 0xff)) [0..<20]))"

definition parse_attr :: "local_env \<Rightarrow> string option \<Rightarrow> mimetype option" where
  "parse_attr E o' = Option.bind o' (\<lambda>s. case mimetype_parse (le_lower E) s of Inr m \<Rightarrow> Some m | Inl _ \<Rightarrow> None)"

definition from_extension :: "local_env \<Rightarrow> string \<Rightarrow> mimetype option" where
  "from_extension E path =
     (case rfind (CHR ''.'') path of
        None \<Rightarrow> None
      | Some i \<Rightarrow> parse_attr E (le_extensions E (ascii_lower (drop (i + 1) path))))"

definition sniff_magic :: "local_env \<Rightarrow> bytes \<Rightarrow> mimetype option" where
  "sniff_magic E head = parse_attr E (le_infer E head)"

definition detect :: "local_env \<Rightarrow> string \<Rightarrow> bytes \<Rightarrow> mimetype" where
  "detect E path head =
     (case from_extension E path of
        Some m \<Rightarrow> m
      | None \<Rightarrow> (case sniff_magic E head of Some m \<Rightarrow> m | None \<Rightarrow> octet_stream))"

definition read_etag :: "node \<Rightarrow> etag option" where
  "read_etag n = Option.bind (nd_etag n) (\<lambda>s. case etag_from_hex s of Inr e \<Rightarrow> Some e | Inl _ \<Rightarrow> None)"

definition recompute_mimetype :: "local_env \<Rightarrow> string \<Rightarrow> node \<Rightarrow> mimetype" where
  "recompute_mimetype E path n =
     (case from_extension E path of Some m \<Rightarrow> m | None \<Rightarrow> detect E path (take 4096 (nd_data n)))"

definition metadata_of :: "local_env \<Rightarrow> fpath \<Rightarrow> storage_path \<Rightarrow> 'd disk_scheme \<Rightarrow> storage_error + file_metadata" where
  "metadata_of E real path d =
     (case metadata_at real d of
        Inl e \<Rightarrow> Inl (map_io e)
      | Inr n \<Rightarrow>
          Inr \<lparr>md_path = path, md_kind = (if nd_dir n then KDirectory else KFile),
               md_size = (if nd_dir n then 0 else length (nd_data n)), md_mtime = nd_mtime n,
               md_etag = (case read_etag n of
                    Some e \<Rightarrow> e
                  | None \<Rightarrow> etag_from_mtime_and_id E (w_hex (dk_world d)) (nd_mtime n) (nd_inode n)),
               md_mimetype = (if nd_dir n then octet_stream
                  else case parse_attr E (nd_mime n) of Some m \<Rightarrow> m | None \<Rightarrow> recompute_mimetype E (as_str path) n),
               md_permissions = permissions_full\<rparr>)"

section \<open>Reads\<close>

definition local_stat :: "local_env \<Rightarrow> local_storage \<Rightarrow> storage_path \<Rightarrow> ('d, file_metadata) local_op" where
  "local_stat E L path d = (rbind (local_resolve L path d) (\<lambda>real. metadata_of E real path d), d)"

definition local_exists :: "local_storage \<Rightarrow> storage_path \<Rightarrow> ('d, bool) local_op" where
  "local_exists L path d =
     (rbind (local_resolve L path d) (\<lambda>real. case try_exists real d of Inl e \<Rightarrow> Inl (map_io e) | Inr b \<Rightarrow> Inr b), d)"

definition local_child :: "storage_path \<Rightarrow> string \<Rightarrow> storage_error + storage_path" where
  "local_child path name = (if is_root path then storage_path_new name else storage_join path name)"

fun local_entries :: "local_env \<Rightarrow> fpath \<Rightarrow> storage_path \<Rightarrow> 'd disk_scheme \<Rightarrow> string list \<Rightarrow> storage_error + dir_entry list" where
  "local_entries E real path d [] = Inr []"
| "local_entries E real path d (name # names) =
     rbind (local_child path name) (\<lambda>child.
     rbind (metadata_of E (real @ [name]) child d) (\<lambda>meta.
     rbind (local_entries E real path d names) (\<lambda>es. Inr (\<lparr>de_name = name, de_metadata = meta\<rparr> # es))))"

definition local_list :: "local_env \<Rightarrow> local_storage \<Rightarrow> storage_path \<Rightarrow> ('d, dir_entry list) local_op" where
  "local_list E L path d =
     (rbind (local_resolve L path d) (\<lambda>real.
      case metadata_at real d of
        Inl e \<Rightarrow> Inl (map_io e)
      | Inr n \<Rightarrow>
          if \<not> nd_dir n then Inl StNotADirectory
          else (case read_dir real d of
                  Inl e \<Rightarrow> Inl (map_io e)
                | Inr names \<Rightarrow> rbind (local_entries E real path d names) (\<lambda>es. Inr (sort_key de_name es)))), d)"

definition local_read :: "local_storage \<Rightarrow> storage_path \<Rightarrow> ('d, bytes) local_op" where
  "local_read L path d =
     (rbind (local_resolve L path d) (\<lambda>real.
      case metadata_at real d of
        Inl e \<Rightarrow> Inl (map_io e)
      | Inr n \<Rightarrow> if nd_dir n then Inl StIsADirectory else Inr (nd_data n)), d)"

text \<open>A seek past the end reads nothing; an offset that is no \<open>off_t\<close> is refused.\<close>

definition local_read_range :: "local_storage \<Rightarrow> storage_path \<Rightarrow> u64 \<Rightarrow> u64 \<Rightarrow> 'd disk_scheme \<Rightarrow> (storage_error + bytes) option" where
  "local_read_range L path start stop d =
     Some (rbind (local_resolve L path d) (\<lambda>real.
       case metadata_at real d of
         Inl e \<Rightarrow> Inl (map_io e)
       | Inr n \<Rightarrow>
           if nd_dir n then Inl StIsADirectory
           else if 2 ^ 63 \<le> unat start then Inl (StIo (IoOther ''EINVAL''))
           else Inr (take (unat stop - unat start) (drop (unat start) (nd_data n)))))"

section \<open>Writes\<close>

definition sibling_temp :: "fpath \<Rightarrow> 'd disk_scheme \<Rightarrow> fpath \<times> 'd disk_scheme" where
  "sibling_temp target d =
     (case draw_bytes 32 (dk_world d) of
        (bs, w) \<Rightarrow> (butlast target @ [''.tmp-crabcloud-'' @ w_hex (dk_world d) bs], d\<lparr>dk_world := w\<rparr>))"

text \<open>What the guard of a temporary file does when it is dropped.\<close>

definition drop_guard :: "fpath \<Rightarrow> 'd disk_scheme \<Rightarrow> 'd disk_scheme" where
  "drop_guard temp d = snd (remove_file temp d)"

definition fresh_etag :: "'d disk_scheme \<Rightarrow> etag \<times> 'd disk_scheme" where
  "fresh_etag d = (case etag_new (dk_world d) of (et, w) \<Rightarrow> (et, d\<lparr>dk_world := w\<rparr>))"

text \<open>The attributes, the rename over the target and the event of a finished write.\<close>

definition finish_write ::
    "local_env \<Rightarrow> local_storage \<Rightarrow> storage_path \<Rightarrow> fpath \<Rightarrow> fpath \<Rightarrow> bytes \<Rightarrow> ('d disk_scheme \<Rightarrow> 'd disk_scheme)
       \<Rightarrow> ('d, file_metadata) local_op" where
  "finish_write E L path temp real head cleanup d =
     (let (et, d1) = fresh_etag d;
          d2 = set_xattr (le_xattr E) temp (\<lambda>n. n\<lparr>nd_etag := Some (etag_str et)\<rparr>) d1;
          mime = detect E (as_str path) head;
          d3 = set_xattr (le_xattr E) temp (\<lambda>n. n\<lparr>nd_mime := Some (mime_str mime)\<rparr>) d2
      in case rename temp real d3 of
           (Inl e, d4) \<Rightarrow> (Inl (map_io e), drop_guard temp d4)
         | (Inr _, d4) \<Rightarrow>
             (let d5 = cleanup d4 in
              case metadata_of E real path d5 of
                Inl e \<Rightarrow> (Inl e, d5)
              | Inr meta \<Rightarrow> (Inr meta, emit_event (Written (local_id L) path meta) d5)))"

definition local_put_file :: "local_env \<Rightarrow> local_storage \<Rightarrow> storage_path \<Rightarrow> body \<Rightarrow> ('d, file_metadata) local_op" where
  "local_put_file E L path body d =
     (case local_resolve L path d of
        Inl e \<Rightarrow> (Inl e, d)
      | Inr real \<Rightarrow>
          if is_dir_at d real then (Inl StIsADirectory, d)
          else if real = [] then (Inl (StInvalidPath ''no parent for /''), d)
          else case metadata_at (butlast real) d of
            Inl e \<Rightarrow> (Inl (map_io e), d)
          | Inr n \<Rightarrow>
              if \<not> nd_dir n then (Inl StNotADirectory, d)
              else (case sibling_temp real d of
                (temp, d1) \<Rightarrow>
                  (case body of
                     Inl e \<Rightarrow> (Inl (map_io e), drop_guard temp d1)
                   | Inr bs \<Rightarrow>
                       (case write_file temp bs d1 of
                          (Inl e, d2) \<Rightarrow> (Inl (map_io e), drop_guard temp d2)
                        | (Inr _, d2) \<Rightarrow> finish_write E L path temp real (take 4096 bs) id d2))))"

definition local_mkdir :: "local_env \<Rightarrow> local_storage \<Rightarrow> storage_path \<Rightarrow> ('d, file_metadata) local_op" where
  "local_mkdir E L path d =
     (case local_resolve L path d of
        Inl e \<Rightarrow> (Inl e, d)
      | Inr real \<Rightarrow>
          (case create_dir real d of
             (Inl e, d1) \<Rightarrow> (Inl (map_io e), d1)
           | (Inr _, d1) \<Rightarrow>
               (case metadata_of E real path d1 of
                  Inl e \<Rightarrow> (Inl e, d1)
                | Inr meta \<Rightarrow> (Inr meta, emit_event (DirCreated (local_id L) path meta) d1))))"

definition local_delete :: "local_storage \<Rightarrow> storage_path \<Rightarrow> ('d, unit) local_op" where
  "local_delete L path d =
     (case local_resolve L path d of
        Inl e \<Rightarrow> (Inl e, d)
      | Inr real \<Rightarrow>
          (case metadata_at real d of
             Inl e \<Rightarrow> (Inl (map_io e), d)
           | Inr n \<Rightarrow>
               if nd_dir n \<and> has_entries d real then (Inl StNotEmpty, d)
               else (case (if nd_dir n then remove_dir real d else remove_file real d) of
                       (Inl e, d1) \<Rightarrow> (Inl (map_io e), d1)
                     | (Inr _, d1) \<Rightarrow> (Inr (), emit_event (Deleted (local_id L) path) d1))))"

definition local_rename :: "local_storage \<Rightarrow> storage_path \<Rightarrow> storage_path \<Rightarrow> ('d, unit) local_op" where
  "local_rename L from_path to_path d =
     (case (local_resolve L from_path d, local_resolve L to_path d) of
        (Inl e, _) \<Rightarrow> (Inl e, d)
      | (_, Inl e) \<Rightarrow> (Inl e, d)
      | (Inr a, Inr b) \<Rightarrow>
          (case (try_exists a d, try_exists b d) of
             (Inl e, _) \<Rightarrow> (Inl (map_io e), d)
           | (Inr False, _) \<Rightarrow> (Inl StNotFound, d)
           | (_, Inl e) \<Rightarrow> (Inl (map_io e), d)
           | (_, Inr True) \<Rightarrow> (Inl StAlreadyExists, d)
           | _ \<Rightarrow>
               (case rename a b d of
                  (Inl e, d1) \<Rightarrow> (Inl (map_io e), d1)
                | (Inr _, d1) \<Rightarrow> (Inr (), emit_event (Moved (local_id L) from_path to_path) d1))))"

text \<open>A copied file gets a fresh tag.\<close>

definition copy_leaf :: "local_env \<Rightarrow> fpath \<Rightarrow> fpath \<Rightarrow> ('d, unit) local_op" where
  "copy_leaf E a b d =
     (case copy_file a b d of
        (Inl e, d1) \<Rightarrow> (Inl (map_io e), d1)
      | (Inr _, d1) \<Rightarrow>
          (case fresh_etag d1 of
             (et, d2) \<Rightarrow> (Inr (), set_xattr (le_xattr E) b (\<lambda>n. n\<lparr>nd_etag := Some (etag_str et)\<rparr>) d2)))"

text \<open>
  The recursive copy; a target path that is too long fails, which bounds the recursion by the
  fuel \<open>PATH_MAX\<close>. The names are read when the directory is opened.
\<close>

fun copy_entries ::
    "local_env \<Rightarrow> (fpath \<Rightarrow> fpath \<Rightarrow> ('d, unit) local_op) \<Rightarrow> fpath \<Rightarrow> fpath \<Rightarrow> string list \<Rightarrow> ('d, unit) local_op" where
  "copy_entries E rec src dst [] d = (Inr (), d)"
| "copy_entries E rec src dst (name # names) d =
     (case metadata_at (src @ [name]) d of
        Inl e \<Rightarrow> (Inl (map_io e), d)
      | Inr n \<Rightarrow>
          (case (if nd_dir n then rec (src @ [name]) (dst @ [name]) d
                 else copy_leaf E (src @ [name]) (dst @ [name]) d) of
             (Inl e, d1) \<Rightarrow> (Inl e, d1)
           | (Inr _, d1) \<Rightarrow> copy_entries E rec src dst names d1))"

fun copy_dir_recursive :: "nat \<Rightarrow> local_env \<Rightarrow> fpath \<Rightarrow> fpath \<Rightarrow> ('d, unit) local_op" where
  "copy_dir_recursive 0 E src dst d = (Inl (StIo (IoOther ''ENAMETOOLONG'')), d)"
| "copy_dir_recursive (Suc fuel) E src dst d =
     (case create_dir dst d of
        (Inl e, d1) \<Rightarrow> (Inl (map_io e), d1)
      | (Inr _, d1) \<Rightarrow>
          (case read_dir src d1 of
             Inl e \<Rightarrow> (Inl (map_io e), d1)
           | Inr names \<Rightarrow> copy_entries E (copy_dir_recursive fuel E) src dst names d1))"

definition local_copy :: "local_env \<Rightarrow> local_storage \<Rightarrow> storage_path \<Rightarrow> storage_path \<Rightarrow> ('d, unit) local_op" where
  "local_copy E L from_path to_path d =
     (case (local_resolve L from_path d, local_resolve L to_path d) of
        (Inl e, _) \<Rightarrow> (Inl e, d)
      | (_, Inl e) \<Rightarrow> (Inl e, d)
      | (Inr a, Inr b) \<Rightarrow>
          (case try_exists b d of
             Inl e \<Rightarrow> (Inl (map_io e), d)
           | Inr True \<Rightarrow> (Inl StAlreadyExists, d)
           | Inr False \<Rightarrow>
               (case metadata_at a d of
                  Inl e \<Rightarrow> (Inl (map_io e), d)
                | Inr n \<Rightarrow>
                    (case (if nd_dir n then copy_dir_recursive PATH_MAX E a b d else copy_leaf E a b d) of
                       (Inl e, d1) \<Rightarrow> (Inl e, d1)
                     | (Inr _, d1) \<Rightarrow> (Inr (), emit_event (Copied (local_id L) from_path to_path) d1)))))"

section \<open>Multipart uploads\<close>

definition upload_dir :: "fpath \<Rightarrow> string \<Rightarrow> fpath" where
  "upload_dir real upload_id = butlast real @ split_on (CHR ''/'') (''.upload-'' @ upload_id)"

definition part_name :: "u32 \<Rightarrow> string" where
  "part_name n = ''part-'' @ replicate (8 - length (show_nat (unat n))) (CHR ''0'') @ show_nat (unat n)"

definition local_begin_multipart :: "local_storage \<Rightarrow> storage_path \<Rightarrow> ('d, multipart_handle) local_op" where
  "local_begin_multipart L target d =
     (case local_resolve L target d of
        Inl e \<Rightarrow> (Inl e, d)
      | Inr real \<Rightarrow>
          if real = [] then (Inl (StInvalidPath (''no parent for '' @ as_str target)), d)
          else (case try_exists (butlast real) d of
            Inl e \<Rightarrow> (Inl (map_io e), d)
          | Inr False \<Rightarrow> (Inl StNotFound, d)
          | Inr True \<Rightarrow>
              (case draw_bytes 16 (dk_world d) of
                 (bs, w) \<Rightarrow>
                   (let upload_id = ''local-mp-'' @ w_hex (dk_world d) bs in
                    case create_dir (upload_dir real upload_id) (d\<lparr>dk_world := w\<rparr>) of
                      (Inl e, d1) \<Rightarrow> (Inl (map_io e), d1)
                    | (Inr _, d1) \<Rightarrow> (Inr \<lparr>mh_upload_id = upload_id, mh_target = target\<rparr>, d1)))))"

text \<open>The directory of an upload in progress.\<close>

definition known_upload :: "local_storage \<Rightarrow> multipart_handle \<Rightarrow> 'd disk_scheme \<Rightarrow> storage_error + fpath \<times> fpath" where
  "known_upload L h d =
     rbind (local_resolve L (mh_target h) d) (\<lambda>real.
       if real = [] then Inl (StInvalidPath (''no parent for '' @ as_str (mh_target h)))
       else let temp_dir = upload_dir real (mh_upload_id h) in
         case try_exists temp_dir d of
           Inl e \<Rightarrow> Inl (map_io e)
         | Inr False \<Rightarrow> Inl (StMultipart (''unknown upload id: '' @ mh_upload_id h))
         | Inr True \<Rightarrow> Inr (real, temp_dir))"

definition local_put_part :: "local_env \<Rightarrow> local_storage \<Rightarrow> multipart_handle \<Rightarrow> u32 \<Rightarrow> body \<Rightarrow> ('d, part_tag) local_op" where
  "local_put_part E L h n body d =
     (case known_upload L h d of
        Inl e \<Rightarrow> (Inl e, d)
      | Inr (_, temp_dir) \<Rightarrow>
          (case body of
             Inl e \<Rightarrow> (Inl (map_io e), snd (write_file (temp_dir @ [part_name n]) [] d))
           | Inr bs \<Rightarrow>
               (case write_file (temp_dir @ [part_name n]) bs d of
                  (Inl e, d1) \<Rightarrow> (Inl (map_io e), d1)
                | (Inr _, d1) \<Rightarrow> (Inr \<lparr>pt_number = n, pt_etag = w_hex (dk_world d1) (le_sha256 E bs)\<rparr>, d1))))"

fun adjacent_duplicate :: "part_tag list \<Rightarrow> string option" where
  "adjacent_duplicate (p # q # ps) =
     (if pt_number p = pt_number q then Some (''duplicate part '' @ show_nat (unat (pt_number p)))
      else adjacent_duplicate (q # ps))"
| "adjacent_duplicate _ = None"

fun check_parts :: "local_env \<Rightarrow> fpath \<Rightarrow> 'd disk_scheme \<Rightarrow> part_tag list \<Rightarrow> storage_error + unit" where
  "check_parts E temp_dir d [] = Inr ()"
| "check_parts E temp_dir d (t # ts) =
     (case read_file (temp_dir @ [part_name (pt_number t)]) d of
        Inl e \<Rightarrow> Inl (map_io e)
      | Inr bs \<Rightarrow>
          if w_hex (dk_world d) (le_sha256 E bs) \<noteq> pt_etag t
          then Inl (StMultipart (''part '' @ show_nat (unat (pt_number t)) @ '' integrity check failed''))
          else check_parts E temp_dir d ts)"

fun concat_parts :: "fpath \<Rightarrow> 'd disk_scheme \<Rightarrow> part_tag list \<Rightarrow> storage_error + bytes" where
  "concat_parts temp_dir d [] = Inr []"
| "concat_parts temp_dir d (t # ts) =
     (case read_file (temp_dir @ [part_name (pt_number t)]) d of
        Inl e \<Rightarrow> Inl (map_io e)
      | Inr bs \<Rightarrow> rbind (concat_parts temp_dir d ts) (\<lambda>rest. Inr (bs @ rest)))"

definition local_commit_multipart ::
    "local_env \<Rightarrow> local_storage \<Rightarrow> multipart_handle \<Rightarrow> part_tag list \<Rightarrow> ('d, file_metadata) local_op" where
  "local_commit_multipart E L h parts d =
     (if parts = [] then (Inl (StMultipart ''no parts''), d)
      else let sorted = sort_key pt_number parts in
        case check_contiguous 0 (map pt_number sorted) of
          Some m \<Rightarrow> (Inl (StMultipart m), d)
        | None \<Rightarrow>
        (case adjacent_duplicate sorted of
          Some m \<Rightarrow> (Inl (StMultipart m), d)
        | None \<Rightarrow>
        (case known_upload L h d of
          Inl e \<Rightarrow> (Inl e, d)
        | Inr (real, temp_dir) \<Rightarrow>
        (case check_parts E temp_dir d sorted of
          Inl e \<Rightarrow> (Inl e, d)
        | Inr _ \<Rightarrow>
            (case sibling_temp real d of
               (temp, d1) \<Rightarrow>
                 (case write_file temp [] d1 of
                    (Inl e, d2) \<Rightarrow> (Inl (map_io e), drop_guard temp d2)
                  | (Inr _, d2) \<Rightarrow>
                 (case concat_parts temp_dir d2 sorted of
                    Inl e \<Rightarrow> (Inl e, drop_guard temp d2)
                  | Inr bs \<Rightarrow>
                 (case write_file temp bs d2 of
                    (Inl e, d3) \<Rightarrow> (Inl (map_io e), drop_guard temp d3)
                  | (Inr _, d3) \<Rightarrow>
                      finish_write E L (mh_target h) temp real (take 4096 bs)
                        (\<lambda>d. snd (remove_dir_all temp_dir d)) d3))))))))"

definition local_abort_multipart :: "local_storage \<Rightarrow> multipart_handle \<Rightarrow> ('d, unit) local_op" where
  "local_abort_multipart L h d =
     (case local_resolve L (mh_target h) d of
        Inl e \<Rightarrow> (Inl e, d)
      | Inr real \<Rightarrow>
          if real = [] then (Inl (StInvalidPath (''no parent for '' @ as_str (mh_target h))), d)
          else (Inr (), snd (remove_dir_all (upload_dir real (mh_upload_id h)) d)))"

definition local_ops :: "local_env \<Rightarrow> local_storage \<Rightarrow> 'd disk_scheme storage_ops" where
  "local_ops E L =
     \<lparr>op_id = (\<lambda>_. local_id L), op_stat = local_stat E L, op_exists = local_exists L, op_list = local_list E L,
      op_read = local_read L, op_read_range = local_read_range L, op_put_file = local_put_file E L,
      op_mkdir = local_mkdir E L, op_delete = local_delete L, op_rename = local_rename L, op_copy = local_copy E L,
      op_begin_multipart = local_begin_multipart L, op_put_part = local_put_part E L,
      op_commit_multipart = local_commit_multipart E L, op_abort_multipart = local_abort_multipart L\<rparr>"

end
