(* ===== verification/View.thy ===== *)
theory View
  imports Trash LocalStorage ShareSubroot Shares
begin

text \<open>
  The view of a user on the files (crabcloud-fs: src/mount.rs, src/view.rs): mounts bind a prefix
  of the user's paths to a storage, the longest prefix that matches answers for a path, reads of
  metadata go through the file cache under the key of the storage that owns the bytes, and writes
  go to the storage with a snapshot before an overwrite, the detour over the trash for deletions
  and an activity event after success. The storages are the local ones and the wrappers around
  them, all over one state; the event sink is the list of events in it.
\<close>

section \<open>Mounts\<close>

datatype mount_kind = MountHome | MountShare

record mount_metadata =
  mm_kind :: mount_kind
  mm_owner :: "string option"
  mm_permissions :: "share_permissions option"

text \<open>The storage of a mount, and what its \<open>inner_storage\<close> returns.\<close>

record mount =
  mt_prefix :: storage_path
  mt_storage :: "site storage_ops"
  mt_inner :: "(site storage_ops \<times> storage_path) option"
  mt_metadata :: "mount_metadata option"

text \<open>The services behind a view, the texts of I/O errors and the settings of the hooks.\<close>

record view_env =
  vn_site :: site_env
  vn_cache :: fc_env
  vn_local :: local_env
  vn_io_text :: "io_error \<Rightarrow> string"
  vn_min_interval :: int
  vn_max_bytes :: u64

record view =
  vw_uid :: user_id
  vw_mounts :: "mount list"

type_synonym 'a view_op = "(site, fs_error, 'a) eff"

fun map_versions_err :: "versions_error \<Rightarrow> fs_error" where
  "map_versions_err (VerIo e) = FsStorage (StIo e)"
| "map_versions_err VerSourceMissing = FsNotFound"
| "map_versions_err VerWrongUser = FsForbidden"
| "map_versions_err VerNotFound = FsNotFound"
| "map_versions_err VerDuplicate = FsStorage (StOther ''versions: duplicate snapshot leaked from service'')"
| "map_versions_err (VerDb e) = FsStorage (StOther (''versions db: '' @ e))"

fun map_trash_err :: "trash_error \<Rightarrow> fs_error" where
  "map_trash_err TrNotFound = FsNotFound"
| "map_trash_err TrSourceMissing = FsNotFound"
| "map_trash_err TrWrongUser = FsForbidden"
| "map_trash_err TrRestoreCollision = FsConflict"
| "map_trash_err (TrIo e) = FsStorage (StIo e)"
| "map_trash_err (TrDb e) = FsTrash (''db: '' @ e)"
| "map_trash_err (TrFileCache e) = FsTrash (''filecache: '' @ e)"

text \<open>The path under the prefix of an inner storage.\<close>

definition under_prefix :: "storage_path \<Rightarrow> storage_path \<Rightarrow> storage_error + storage_path" where
  "under_prefix pre path =
     (if is_root path then Inr pre else if is_root pre then Inr path else storage_join pre (as_str path))"

definition cache_key_for :: "mount \<Rightarrow> storage_path \<Rightarrow> fs_error + site storage_ops \<times> storage_path" where
  "cache_key_for m path =
     (case mt_inner m of
        Some (inner, pre) \<Rightarrow> (case under_prefix pre path of Inl e \<Rightarrow> Inl (FsStorage e) | Inr q \<Rightarrow> Inr (inner, q))
      | None \<Rightarrow> Inr (mt_storage m, path))"

section \<open>Resolution\<close>

definition mount_matches :: "string \<Rightarrow> mount \<Rightarrow> bool" where
  "mount_matches trimmed m \<longleftrightarrow>
     (let pre = as_str (mt_prefix m) in pre = [] \<or> trimmed = pre \<or> starts_with trimmed (pre @ ''/''))"

text \<open>The last of the elements with the greatest key, as \<open>Iterator::max_by_key\<close> picks it.\<close>

definition max_by_key :: "('a \<Rightarrow> nat) \<Rightarrow> 'a list \<Rightarrow> 'a option" where
  "max_by_key k xs = fold (\<lambda>x best. case best of None \<Rightarrow> Some x | Some y \<Rightarrow> if k y \<le> k x then Some x else Some y) xs None"

definition view_resolve :: "view \<Rightarrow> user_path \<Rightarrow> fs_error + mount \<times> storage_path" where
  "view_resolve V p =
     (let trimmed = trim_slashes (upath p) in
      case max_by_key (\<lambda>m. length (as_str (mt_prefix m))) (filter (mount_matches trimmed) (vw_mounts V)) of
        None \<Rightarrow> Inl FsMountNotFound
      | Some best \<Rightarrow>
          (let with_slash = as_str (mt_prefix best) @ ''/'';
               sfx = (if is_root (mt_prefix best) then trimmed
                      else if starts_with trimmed with_slash then drop (length with_slash) trimmed else [])
           in case storage_path_new sfx of
                Inl e \<Rightarrow> Inl (FsStorage e)
              | Inr q \<Rightarrow> Inr (best, q)))"

definition on_mount :: "view \<Rightarrow> user_path \<Rightarrow> (mount \<Rightarrow> storage_path \<Rightarrow> 'a view_op) \<Rightarrow> 'a view_op" where
  "on_mount V p f s = (case view_resolve V p of Inl e \<Rightarrow> (Inl e, s) | Inr (m, q) \<Rightarrow> f m q s)"

definition with_key :: "mount \<Rightarrow> storage_path \<Rightarrow> (site storage_ops \<Rightarrow> storage_path \<Rightarrow> 'a view_op) \<Rightarrow> 'a view_op" where
  "with_key m q f s = (case cache_key_for m q of Inl e \<Rightarrow> (Inl e, s) | Inr (cs, cp) \<Rightarrow> f cs cp s)"

text \<open>The file cache works on its tables in the site.\<close>

definition with_cache :: "(site \<times> fc_db, filecache_error, 'a) eff \<Rightarrow> (site, filecache_error, 'a) eff" where
  "with_cache act s = (case act (s, si_cache s) of (r, (s1, S)) \<Rightarrow> (r, s1\<lparr>si_cache := S\<rparr>))"

section \<open>Reads\<close>

definition view_stat :: "view_env \<Rightarrow> view \<Rightarrow> user_path \<Rightarrow> file_metadata view_op" where
  "view_stat N V p =
     on_mount V p (\<lambda>m q. with_key m q (\<lambda>cs cp. map_err FsFileCache (with_cache (fc_stat (vn_cache N) cs cp))))"

record listed_entry =
  le_entry :: dir_entry
  le_mount :: "mount_metadata option"

text \<open>The path of the listed directory among the prefixes of the mounts.\<close>

definition listed_abs :: "mount \<Rightarrow> storage_path \<Rightarrow> storage_error + storage_path" where
  "listed_abs m q = (if is_root (mt_prefix m) then Inr q
     else if is_root q then Inr (mt_prefix m) else storage_join (mt_prefix m) (as_str q))"

text \<open>The listing of the mount itself; a root that no row knows is asked of the storage.\<close>

definition base_entries :: "view_env \<Rightarrow> mount \<Rightarrow> storage_path \<Rightarrow> dir_entry list view_op" where
  "base_entries N m q =
     with_key m q (\<lambda>cs cp s.
       case with_cache (fc_list (vn_cache N) cs cp) s of
         (Inr es, s1) \<Rightarrow> (Inr es, s1)
       | (Inl e, s1) \<Rightarrow>
           if is_root q \<and> (e = FcNotFound \<or> e = FcStorage StNotFound)
           then map_err FsStorage (op_list (mt_storage m) q) s1
           else (Inl (FsFileCache e), s1))"

text \<open>The mounts one level below the listed directory, each shown under the last piece of its prefix.\<close>

fun child_mounts :: "view_env \<Rightarrow> storage_path \<Rightarrow> storage_path \<Rightarrow> mount list \<Rightarrow> listed_entry list view_op" where
  "child_mounts N resolved listed [] s = (Inr [], s)"
| "child_mounts N resolved listed (m # ms) s =
     (if is_root (mt_prefix m) \<or> mt_prefix m = resolved \<or> storage_parent (mt_prefix m) \<noteq> Some listed
      then child_mounts N resolved listed ms s
      else ebind (with_key m storage_root (\<lambda>cs cp. map_err FsFileCache (with_cache (fc_stat (vn_cache N) cs cp))))
             (\<lambda>md. ebind (child_mounts N resolved listed ms)
               (\<lambda>es s. (Inr (\<lparr>le_entry = \<lparr>de_name = storage_basename (mt_prefix m), de_metadata = md\<rparr>,
                              le_mount = mt_metadata m\<rparr> # es), s))) s)"

definition list_with_meta :: "view_env \<Rightarrow> view \<Rightarrow> user_path \<Rightarrow> listed_entry list view_op" where
  "list_with_meta N V p =
     on_mount V p (\<lambda>m q s.
       case listed_abs m q of
         Inl e \<Rightarrow> (Inl (FsStorage e), s)
       | Inr listed \<Rightarrow>
           ebind (base_entries N m q) (\<lambda>es.
           ebind (child_mounts N (mt_prefix m) listed (vw_mounts V)) (\<lambda>cs s.
             (Inr (map (\<lambda>e. \<lparr>le_entry = e, le_mount = None\<rparr>) es @ cs), s))) s)"

definition view_list :: "view_env \<Rightarrow> view \<Rightarrow> user_path \<Rightarrow> dir_entry list view_op" where
  "view_list N V p = ebind (list_with_meta N V p) (\<lambda>es s. (Inr (map le_entry es), s))"

definition view_read :: "view \<Rightarrow> user_path \<Rightarrow> bytes view_op" where
  "view_read V p = on_mount V p (\<lambda>m q. map_err FsStorage (op_read (mt_storage m) q))"

definition view_read_range :: "view \<Rightarrow> user_path \<Rightarrow> u64 \<Rightarrow> u64 \<Rightarrow> site \<Rightarrow> (fs_error + bytes) option" where
  "view_read_range V p a b s =
     (case view_resolve V p of
        Inl e \<Rightarrow> Some (Inl e)
      | Inr (m, q) \<Rightarrow> map_option (\<lambda>r. case r of Inl e \<Rightarrow> Inl (FsStorage e) | Inr x \<Rightarrow> Inr x)
                        (op_read_range (mt_storage m) q a b s))"

section \<open>Activity\<close>

definition resolve_activity_recipients :: "view \<Rightarrow> mount \<Rightarrow> user_id list" where
  "resolve_activity_recipients V m =
     vw_uid V #
       (case Option.bind (mt_metadata m) mm_owner of
          None \<Rightarrow> []
        | Some owner \<Rightarrow> (case user_id_new owner of Inl _ \<Rightarrow> [] | Inr u \<Rightarrow> if u \<noteq> vw_uid V then [u] else []))"

definition try_emit_activity ::
    "view_env \<Rightarrow> view \<Rightarrow> mount \<Rightarrow> event_type \<Rightarrow> string \<Rightarrow> string \<Rightarrow> int option \<Rightarrow> (string \<times> json) list \<Rightarrow> site \<Rightarrow> site" where
  "try_emit_activity N V m ty sub_actor sub_recipient ob params s =
     (let (t, s') = site_now s in
      s'\<lparr>si_activity := activity_emit (se_activity (vn_site N))
        \<lparr>ae_actor = uid_str (vw_uid V), ae_type = ty, ae_subject_actor = sub_actor, ae_subject_recipient = sub_recipient,
         ae_params = JObject params, ae_object_type = ObjFile, ae_object_id = ob,
         ae_recipients = resolve_activity_recipients V m, ae_occurred = t\<rparr> (si_activity s')\<rparr>)"

definition actor_file :: "view \<Rightarrow> user_path \<Rightarrow> (string \<times> json) list" where
  "actor_file V p = [(''actor'', JString (uid_str (vw_uid V))), (''file'', JString (upath p))]"

definition actor_renamed :: "view \<Rightarrow> user_path \<Rightarrow> user_path \<Rightarrow> (string \<times> json) list" where
  "actor_renamed V from_path to_path = actor_file V to_path @ [(''old'', JString (upath from_path))]"

text \<open>The row of the file cache behind a path, as far as there is one that decodes.\<close>

definition cached_row_of :: "view_env \<Rightarrow> site storage_ops \<Rightarrow> storage_path \<Rightarrow> site \<Rightarrow> filecache_row option" where
  "cached_row_of N cs cp s =
     (case lookup_row (vn_cache N) (op_id cs s) cp (si_cache s) of Inr x \<Rightarrow> x | Inl _ \<Rightarrow> None)"

definition cached_fileid :: "view_env \<Rightarrow> mount \<Rightarrow> storage_path \<Rightarrow> site \<Rightarrow> int option" where
  "cached_fileid N m q s =
     (case cache_key_for m q of Inr (cs, cp) \<Rightarrow> map_option fcr_id (cached_row_of N cs cp s) | Inl _ \<Rightarrow> None)"

section \<open>Writes\<close>

definition snapshot_before_overwrite :: "view_env \<Rightarrow> view \<Rightarrow> mount \<Rightarrow> storage_path \<Rightarrow> unit view_op" where
  "snapshot_before_overwrite N V m q =
     with_key m q (\<lambda>cs cp s.
       case cached_row_of N cs cp s of
         None \<Rightarrow> (Inr (), s)
       | Some row \<Rightarrow>
           if fcr_kind row = KDirectory \<or> fcr_size row = 0 then (Inr (), s)
           else
             (let owner = (case Option.bind (mt_metadata m) mm_owner of Some u \<Rightarrow> u | None \<Rightarrow> uid_str (vw_uid V));
                  (sid, S) = intern_storage (op_id cs s) (si_cache s);
                  (t, s1) = site_now (s\<lparr>si_cache := S\<rparr>)
              in case snapshot_if_needed (vn_site N) owner sid (fcr_id row) (CHR ''/'' # as_str cp) (sint (fcr_size row))
                        t (vn_min_interval N) (uint (vn_max_bytes N)) s1 of
                   (Inr _, s2) \<Rightarrow> (Inr (), s2)
                 | (Inl VerSourceMissing, s2) \<Rightarrow> (Inr (), s2)
                 | (Inl e, s2) \<Rightarrow> (Inl (map_versions_err e), s2)))"

definition view_put_file :: "view_env \<Rightarrow> view \<Rightarrow> user_path \<Rightarrow> body \<Rightarrow> file_metadata view_op" where
  "view_put_file N V p body =
     on_mount V p (\<lambda>m q. with_key m q (\<lambda>cs cp s.
       let existed = cached_row_of N cs cp s \<noteq> None in
       ebind (snapshot_before_overwrite N V m q) (\<lambda>_.
       ebind (map_err FsStorage (op_put_file (mt_storage m) q body)) (\<lambda>md s.
         (Inr md,
          (if existed then try_emit_activity N V m FileUpdated ''file_updated_you'' ''file_updated_by''
           else try_emit_activity N V m FileCreated ''file_created_you'' ''file_created_by'')
            (map_option fcr_id (cached_row_of N cs cp s)) (actor_file V p) s))) s))"

definition view_mkdir :: "view \<Rightarrow> user_path \<Rightarrow> file_metadata view_op" where
  "view_mkdir V p = on_mount V p (\<lambda>m q. map_err FsStorage (op_mkdir (mt_storage m) q))"

section \<open>Deletions\<close>

text \<open>The name of the entry in the bin and the directory it is recorded under.\<close>

definition trash_place :: "user_path \<Rightarrow> fs_error + string \<times> string" where
  "trash_place p =
     (case path_file_name (upath p) of
        None \<Rightarrow> Inl (FsInvalidPath (upath p))
      | Some basename \<Rightarrow>
          Inr (basename, case path_parent (upath p) of None \<Rightarrow> ''/'' | Some d \<Rightarrow> if d = [] then ''/'' else d))"

definition delete_directory_via_share_mount ::
    "view_env \<Rightarrow> view \<Rightarrow> mount \<Rightarrow> storage_path \<Rightarrow> user_path \<Rightarrow> int option \<Rightarrow> unit view_op" where
  "delete_directory_via_share_mount N V m q p fileid s =
     (case mt_metadata m of
        None \<Rightarrow> map_err FsStorage (op_delete (mt_storage m) q) s
      | Some md \<Rightarrow>
      (case mm_owner md of
        None \<Rightarrow> map_err FsStorage (op_delete (mt_storage m) q) s
      | Some owner \<Rightarrow>
      (case (case mt_inner m of Some (_, pre) \<Rightarrow> under_prefix pre q | None \<Rightarrow> Inr q) of
        Inl e \<Rightarrow> (Inl (FsStorage e), s)
      | Inr owner_relative \<Rightarrow>
      (case trash_place p of
        Inl e \<Rightarrow> (Inl e, s)
      | Inr (basename, location) \<Rightarrow>
      (case mm_permissions md of
        None \<Rightarrow> (Inl (FsStorage StPermissionDenied), s)
      | Some perms \<Rightarrow>
          if \<not> allows_delete perms then (Inl (FsStorage StPermissionDenied), s)
          else
            (let src_abs = path_join (user_dir (vn_site N) owner ''files'') (as_str owner_relative) in
             case soft_delete_directory_from_path (vn_site N) (uid_str (vw_uid V)) location basename src_abs fileid s of
               (Inl e, s1) \<Rightarrow> (Inl (map_trash_err e), s1)
             | (Inr _, s1) \<Rightarrow>
                 (case remove_dir_all src_abs s1 of
                    (Inl e, s2) \<Rightarrow> (Inl (FsStorage (StOther (''partial source removal after trash stage: '' @ vn_io_text N e))), s2)
                  | (Inr _, s2) \<Rightarrow>
                      (let sid = (case mt_inner m of Some (inner, _) \<Rightarrow> op_id inner s2 | None \<Rightarrow> op_id (mt_storage m) s2)
                       in (Inr (), try_emit_activity N V m FileDeleted ''file_deleted_you'' ''file_deleted_by'' fileid
                                     (actor_file V p) (emit_event (Deleted sid owner_relative) s2))))))))))"

text \<open>What kind of entry a path of a share is: the row, then the storage, then a file.\<close>

definition share_entry_kind :: "mount \<Rightarrow> storage_path \<Rightarrow> filecache_row option \<Rightarrow> site \<Rightarrow> trash_type \<times> site" where
  "share_entry_kind m q row s =
     (case row of
        Some r \<Rightarrow> (if fcr_kind r = KDirectory then TrashDir else TrashFile, s)
      | None \<Rightarrow>
          (case op_stat (mt_storage m) q s of
             (Inr md, s1) \<Rightarrow> (if md_kind md = KDirectory then TrashDir else TrashFile, s1)
           | (Inl _, s1) \<Rightarrow> (TrashFile, s1)))"

definition delete_via_share_mount :: "view_env \<Rightarrow> view \<Rightarrow> mount \<Rightarrow> storage_path \<Rightarrow> user_path \<Rightarrow> unit view_op" where
  "delete_via_share_mount N V m q p =
     with_key m q (\<lambda>cs cp s.
       let row = cached_row_of N cs cp s;
           fileid = map_option fcr_id row;
           (kind, s1) = share_entry_kind m q row s
       in if kind = TrashDir then delete_directory_via_share_mount N V m q p fileid s1
          else (case map_err FsStorage (op_read (mt_storage m) q) s1 of
                  (Inl e, s2) \<Rightarrow> (Inl e, s2)
                | (Inr bytes, s2) \<Rightarrow>
                    (case trash_place p of
                       Inl e \<Rightarrow> (Inl e, s2)
                     | Inr (basename, location) \<Rightarrow>
                         (case soft_delete_from_reader (vn_site N) (uid_str (vw_uid V)) location basename kind fileid
                                 (Inr bytes) s2 of
                            (Inl e, s3) \<Rightarrow> (Inl (map_trash_err e), s3)
                          | (Inr trash_id, s3) \<Rightarrow>
                              (case op_delete (mt_storage m) q s3 of
                                 (Inl e, s4) \<Rightarrow>
                                   (Inl (FsStorage e), snd (trash_purge (vn_site N) (uid_str (vw_uid V)) trash_id s4))
                               | (Inr _, s4) \<Rightarrow> (Inr (), s4))))))"

definition view_delete :: "view_env \<Rightarrow> view \<Rightarrow> user_path \<Rightarrow> unit view_op" where
  "view_delete N V p =
     on_mount V p (\<lambda>m q.
       if mt_metadata m \<noteq> None then delete_via_share_mount N V m q p
       else with_key m q (\<lambda>cs cp s.
         let row = cached_row_of N cs cp s;
             kind = (case row of Some r \<Rightarrow> if fcr_kind r = KDirectory then TrashDir else TrashFile | None \<Rightarrow> TrashFile);
             fileid = map_option fcr_id row
         in case soft_delete (vn_site N) (uid_str (vw_uid V)) (upath p) kind fileid s of
              (Inl e, s1) \<Rightarrow> (Inl (map_trash_err e), s1)
            | (Inr _, s1) \<Rightarrow>
                (Inr (), try_emit_activity N V m FileDeleted ''file_deleted_you'' ''file_deleted_by'' fileid
                   (actor_file V p) (emit_event (Deleted (op_id (mt_storage m) s1) q) s1))))"

definition view_hard_delete :: "view_env \<Rightarrow> view \<Rightarrow> user_path \<Rightarrow> unit view_op" where
  "view_hard_delete N V p =
     on_mount V p (\<lambda>m q s.
       let fileid = cached_fileid N m q s in
       case op_delete (mt_storage m) q s of
         (Inl e, s1) \<Rightarrow> (Inl (FsStorage e), s1)
       | (Inr _, s1) \<Rightarrow>
           (Inr (), try_emit_activity N V m FileDeleted ''file_deleted_you'' ''file_deleted_by'' fileid (actor_file V p) s1))"

section \<open>Renames and copies\<close>

text \<open>Both paths have to lie under one mount.\<close>

definition on_one_mount ::
    "view \<Rightarrow> user_path \<Rightarrow> user_path \<Rightarrow> (mount \<Rightarrow> storage_path \<Rightarrow> mount \<Rightarrow> storage_path \<Rightarrow> 'a view_op) \<Rightarrow> 'a view_op" where
  "on_one_mount V from_path to_path f =
     on_mount V from_path (\<lambda>a x. on_mount V to_path (\<lambda>b y s.
       if mt_prefix a \<noteq> mt_prefix b then (Inl FsCrossMount, s) else f a x b y s))"

definition finish_rename :: "view_env \<Rightarrow> view \<Rightarrow> user_path \<Rightarrow> user_path \<Rightarrow> mount \<Rightarrow> storage_path \<Rightarrow> mount \<Rightarrow> storage_path \<Rightarrow> unit view_op" where
  "finish_rename N V from_path to_path a x b y =
     ebind (map_err FsStorage (op_rename (mt_storage a) x y)) (\<lambda>_ s.
       (Inr (), try_emit_activity N V b FileRenamed ''file_renamed_you'' ''file_renamed_by'' (cached_fileid N b y s)
          (actor_renamed V from_path to_path) s))"

definition view_rename :: "view_env \<Rightarrow> view \<Rightarrow> user_path \<Rightarrow> user_path \<Rightarrow> unit view_op" where
  "view_rename N V from_path to_path =
     on_one_mount V from_path to_path (\<lambda>a x b y.
       ebind (snapshot_before_overwrite N V b y) (\<lambda>_. finish_rename N V from_path to_path a x b y))"

definition rename_force_overwrite :: "view_env \<Rightarrow> view \<Rightarrow> user_path \<Rightarrow> user_path \<Rightarrow> unit view_op" where
  "rename_force_overwrite N V from_path to_path =
     on_one_mount V from_path to_path (\<lambda>a x b y.
       ebind (snapshot_before_overwrite N V b y) (\<lambda>_ s.
         case op_stat (mt_storage b) y s of
           (Inl _, s1) \<Rightarrow> finish_rename N V from_path to_path a x b y s1
         | (Inr _, s1) \<Rightarrow>
             ebind (map_err FsStorage (op_delete (mt_storage b) y)) (\<lambda>_. finish_rename N V from_path to_path a x b y) s1))"

definition view_copy :: "view \<Rightarrow> user_path \<Rightarrow> user_path \<Rightarrow> unit view_op" where
  "view_copy V from_path to_path =
     on_one_mount V from_path to_path (\<lambda>a x b y. map_err FsStorage (op_copy (mt_storage a) x y))"

end
