(* ===== verification/Mounts.thy ===== *)
theory Mounts
  imports View
begin

text \<open>
  Which mounts a view gets (crabcloud-fs: src/resolver/mod.rs, src/resolver/local.rs,
  src/resolver/share.rs, src/resolver/public_link.rs): the home of the user, one mount per share
  addressed to the user, and the single mount of a public link.
\<close>

section \<open>Homes\<close>

definition home_storage :: "view_env \<Rightarrow> user_id \<Rightarrow> local_storage view_op" where
  "home_storage N u s =
     (let home = user_dir (vn_site N) (uid_str u) ''files'' in
      case create_dir_all home s of
        (Inl e, s1) \<Rightarrow> (Inl (FsStorage (StIo e)), s1)
      | (Inr _, s1) \<Rightarrow>
          (case local_new home s1 of
             Inl e \<Rightarrow> (Inl (FsStorage e), s1)
           | Inr L \<Rightarrow> (Inr (with_owner_uid (uid_str u) L), s1)))"

definition home_mounts :: "view_env \<Rightarrow> user_id \<Rightarrow> mount list view_op" where
  "home_mounts N u =
     ebind (home_storage N u) (\<lambda>L s.
       (Inr [\<lparr>mt_prefix = storage_root, mt_storage = local_ops (vn_local N) L, mt_inner = None, mt_metadata = None\<rparr>], s))"

section \<open>Mounts of shares\<close>

definition path_for_fileid :: "view_env \<Rightarrow> string \<Rightarrow> int \<Rightarrow> site \<Rightarrow> filecache_error + storage_path option" where
  "path_for_fileid N sid i s =
     (case lookup_row_by_id (vn_cache N) i (si_cache s) of
        Inl e \<Rightarrow> Inl e
      | Inr None \<Rightarrow> Inr None
      | Inr (Some row) \<Rightarrow> Inr (if fcr_storage_id row = sid then Some (fcr_path row) else None))"

definition home_top_level_names :: "mount \<Rightarrow> string list view_op" where
  "home_top_level_names home =
     ebind (map_err FsStorage (op_list (mt_storage home) storage_root)) (\<lambda>es s. (Inr (map de_name es), s))"

definition basename_of :: "string \<Rightarrow> string" where
  "basename_of file_target =
     (let trimmed = trim_by (\<lambda>c. c = CHR ''/'') file_target in
      if trimmed = [] then file_target
      else case rfind (CHR ''/'') trimmed of Some i \<Rightarrow> drop (i + 1) trimmed | None \<Rightarrow> trimmed)"

text \<open>The first name of the sequence \<open>a (2)\<close>, \<open>a (3)\<close>, \dots that is free.\<close>

definition numbered_name :: "string \<Rightarrow> nat \<Rightarrow> string" where
  "numbered_name desired n = desired @ '' ('' @ show_nat n @ '')''"

lemma numbered_name_inj: "numbered_name x m = numbered_name x n \<Longrightarrow> m = n"
  by (simp add: numbered_name_def show_nat_inj)

lemma finite_taken: "finite {k. n \<le> k \<and> numbered_name desired k \<in> set used}"
proof (rule finite_subset)
  show "{k. n \<le> k \<and> numbered_name desired k \<in> set used} \<subseteq> numbered_name desired -` set used" by auto
  show "finite (numbered_name desired -` set used)"
    by (rule finite_vimageI) (auto intro: injI numbered_name_inj)
qed

function free_name :: "string \<Rightarrow> string list \<Rightarrow> nat \<Rightarrow> string" where
  "free_name desired used n =
     (if numbered_name desired n \<in> set used then free_name desired used (n + 1) else numbered_name desired n)"
  by pat_completeness auto
termination
proof (relation "measure (\<lambda>(desired, used, n). card {k. n \<le> k \<and> numbered_name desired k \<in> set used})")
  fix desired and used :: "string list" and n :: nat
  assume taken: "numbered_name desired n \<in> set used"
  have "{k. n + 1 \<le> k \<and> numbered_name desired k \<in> set used} \<subset> {k. n \<le> k \<and> numbered_name desired k \<in> set used}"
  proof
    show "{k. n + 1 \<le> k \<and> numbered_name desired k \<in> set used} \<subseteq> {k. n \<le> k \<and> numbered_name desired k \<in> set used}" by auto
    have "n \<in> {k. n \<le> k \<and> numbered_name desired k \<in> set used}" using taken by simp
    moreover have "n \<notin> {k. n + 1 \<le> k \<and> numbered_name desired k \<in> set used}" by simp
    ultimately show "{k. n + 1 \<le> k \<and> numbered_name desired k \<in> set used} \<noteq> {k. n \<le> k \<and> numbered_name desired k \<in> set used}" by metis
  qed
  then show "((desired, used, n + 1), desired, used, n) \<in> measure (\<lambda>(desired, used, n). card {k. n \<le> k \<and> numbered_name desired k \<in> set used})"
    using psubset_card_mono [OF finite_taken] by simp
qed simp

declare free_name.simps [simp del]

definition unique_name :: "string \<Rightarrow> string list \<Rightarrow> string \<times> string list" where
  "unique_name desired used =
     (let x = (if desired \<notin> set used then desired else free_name desired used 2) in (x, x # used))"

fun share_error_text :: "share_error \<Rightarrow> string" where
  "share_error_text ShNotFound = ''share not found''"
| "share_error_text ShForbidden = ''forbidden''"
| "share_error_text ShRecipientUnknown = ''recipient unknown''"
| "share_error_text ShInvalidShareType = ''invalid share type''"
| "share_error_text ShBadPermissions = ''bad permissions bitmask''"
| "share_error_text (ShInvalidExpireDate e) = ''invalid expireDate format: '' @ e"
| "share_error_text ShReshareRejected = ''re-share rejected: only the owner of a file can share it''"
| "share_error_text ShPathNotOwned = ''path not owned by requester (or missing)''"
| "share_error_text ShNotImplemented = ''not implemented in this version (deferred to SP8)''"
| "share_error_text (ShDbError e) = e"

definition share_err_to_fs :: "share_error \<Rightarrow> fs_error" where
  "share_err_to_fs e = FsUpload (''sharing: '' @ share_error_text e)"

definition share_mount :: "view_env \<Rightarrow> local_storage \<Rightarrow> storage_path \<Rightarrow> share_permissions \<Rightarrow> storage_path \<Rightarrow> string \<Rightarrow> mount" where
  "share_mount N L owner_path perms pre owner =
     \<lparr>mt_prefix = pre,
      mt_storage = shared_subroot_ops \<lparr>sr_inner = local_ops (vn_local N) L, sr_owner_path = owner_path, sr_permissions = perms\<rparr>,
      mt_inner = Some (local_ops (vn_local N) L, owner_path),
      mt_metadata = Some \<lparr>mm_kind = MountShare, mm_owner = Some owner, mm_permissions = Some perms\<rparr>\<rparr>"

text \<open>One share after the other; a share whose owner or source is gone is skipped.\<close>

fun share_mounts :: "view_env \<Rightarrow> string list \<Rightarrow> share_row list \<Rightarrow> mount list view_op" where
  "share_mounts N used [] s = (Inr [], s)"
| "share_mounts N used (row # rows) s =
     (case user_id_new (shr_owner row) of
        Inl _ \<Rightarrow> share_mounts N used rows s
      | Inr owner \<Rightarrow>
      (case home_storage N owner s of
        (Inl e, s1) \<Rightarrow> (Inl e, s1)
      | (Inr L, s1) \<Rightarrow>
      (case path_for_fileid N (local_id L) (shr_item_source row) s1 of
        Inl e \<Rightarrow> (Inl (FsFileCache e), s1)
      | Inr None \<Rightarrow> share_mounts N used rows s1
      | Inr (Some owner_path) \<Rightarrow>
          (case unique_name (basename_of (shr_file_target row)) used of
             (mount_name, used') \<Rightarrow>
               (case storage_path_new mount_name of
                  Inl _ \<Rightarrow> (Inl (FsInvalidPath mount_name), s1)
                | Inr pre \<Rightarrow>
                    ebind (share_mounts N used' rows) (\<lambda>ms s.
                      (Inr (share_mount N L owner_path (shr_permissions row) pre (shr_owner row) # ms), s)) s1)))))"

text \<open>The lookup of the incoming shares is the interface \<open>SharesLookup\<close> of the resolver.\<close>

definition mounts_for ::
    "view_env \<Rightarrow> (user_id \<Rightarrow> share_error + share_row list) \<Rightarrow> user_id \<Rightarrow> mount list view_op" where
  "mounts_for N incoming_of u =
     ebind (home_mounts N u) (\<lambda>mounts.
       case mounts of
         [] \<Rightarrow> (\<lambda>s. (Inl FsMountNotFound, s))
       | home # _ \<Rightarrow>
           ebind (home_top_level_names home) (\<lambda>used.
             case incoming_of u of
               Inl e \<Rightarrow> (\<lambda>s. (Inl (share_err_to_fs e), s))
             | Inr rows \<Rightarrow> ebind (share_mounts N used rows) (\<lambda>ms s. (Inr (mounts @ ms), s))))"

section \<open>The mount of a public link\<close>

definition public_link_mounts :: "view_env \<Rightarrow> user_id \<Rightarrow> storage_path \<Rightarrow> share_permissions \<Rightarrow> mount list view_op" where
  "public_link_mounts N owner owner_path perms =
     ebind (home_storage N owner) (\<lambda>L s.
       (Inr [share_mount N L owner_path perms storage_root (uid_str owner)], s))"

end
