(* ===== verification/Versions_Correct.thy ===== *)
theory Versions_Correct
  imports Versions
begin

text \<open>
  Properties of the file versions: what a snapshot stores, that a restore brings it back, what
  the operations of a user can touch, and that the tiered sweep computes its retention rule.
\<close>

section \<open>Paths\<close>

definition pieces :: "string \<Rightarrow> string list" where
  "pieces p = split_on (CHR ''/'') (trim_slashes p)"

definition plain_path :: "string \<Rightarrow> bool" where
  "plain_path p \<longleftrightarrow> plain (trim_slashes p)"

text \<open>The file and its version of a second.\<close>

definition file_of :: "site_env \<Rightarrow> string \<Rightarrow> string \<Rightarrow> fpath" where
  "file_of E u p = user_dir E u ''files'' @ pieces p"

definition version_of :: "site_env \<Rightarrow> string \<Rightarrow> string \<Rightarrow> int \<Rightarrow> fpath" where
  "version_of E u p t = user_dir E u ''files_versions'' @ butlast (pieces p) @ [version_name (last (pieces p)) t]"

lemma pieces_ne [simp]: "pieces p \<noteq> []"
  by (simp add: pieces_def)

lemma join_butlast_plain:
  assumes "plain s"
  shows "path_join base (join_with (CHR ''/'') (butlast (split_on (CHR ''/'') s))) = base @ butlast (split_on (CHR ''/'') s)"
proof (cases "butlast (split_on (CHR ''/'') s) = []")
  case False
  let ?b = "butlast (split_on (CHR ''/'') s)"
  have "\<forall>x \<in> set ?b. CHR ''/'' \<notin> set x" by (auto dest: in_set_butlastD split_on_pieces)
  then have split: "split_on (CHR ''/'') (join_with (CHR ''/'') ?b) = ?b" using split_join [OF False] by simp
  have ok: "\<forall>x \<in> set ?b. x \<noteq> [] \<and> x \<noteq> ''.'' \<and> x \<noteq> ''..''" using assms by (auto simp: plain_def dest: in_set_butlastD)
  moreover have "join_with (CHR ''/'') ?b \<noteq> []"
  proof
    assume "join_with (CHR ''/'') ?b = []"
    then have "?b = [[]]" using split by (metis split_on.simps(1))
    then show False using ok by simp
  qed
  ultimately have "plain (join_with (CHR ''/'') ?b)" by (simp add: plain_def split)
  then show ?thesis by (simp add: path_join_plain split)
qed simp

lemma plain_pieces:
  "plain_path p \<Longrightarrow> x \<in> set (pieces p) \<Longrightarrow> x \<noteq> [] \<and> x \<noteq> ''.'' \<and> x \<noteq> ''..'' \<and> CHR ''/'' \<notin> set x"
  using split_on_pieces by (auto simp: plain_path_def plain_def pieces_def)

lemma plain_file: "plain_path p \<Longrightarrow> path_join (user_dir E u ''files'') (trim_slashes p) = file_of E u p"
  by (simp add: plain_path_def path_join_plain file_of_def pieces_def)

lemma plain_version_dir:
  "plain_path p \<Longrightarrow> version_dir E u (trim_slashes p) = user_dir E u ''files_versions'' @ butlast (pieces p)"
  by (simp add: version_dir_def plain_path_def path_parent_plain join_butlast_plain pieces_def)

lemma plain_name: "plain_path p \<Longrightarrow> path_file_name (trim_slashes p) = Some (last (pieces p))"
  by (simp add: plain_path_def path_file_name_plain pieces_def)

lemma plain_files_dir:
  "plain_path p \<Longrightarrow>
   path_join (user_dir E u ''files'') (case path_parent (trim_slashes p) of Some q \<Rightarrow> q | None \<Rightarrow> []) =
     user_dir E u ''files'' @ butlast (pieces p)"
  by (simp add: plain_path_def path_parent_plain join_butlast_plain pieces_def)

lemmas plain_simps = plain_file plain_version_dir plain_name plain_files_dir

lemma file_version_apart [simp]:
  "\<not> prefix (user_dir E u ''files'' @ x) (user_dir E u ''files_versions'' @ y)"
  "\<not> prefix (user_dir E u ''files_versions'' @ y) (user_dir E u ''files'' @ x)"
  "user_dir E u ''files'' @ x \<noteq> user_dir E u ''files_versions'' @ y"
  by (simp_all add: user_dir_def)
lemma version_of_inj: "version_of E u p t = version_of E u p t' \<Longrightarrow> t = t'"
  by (auto simp: version_of_def version_name_def dest: show_int_inj)

lemma file_version_paths [simp]:
  "\<not> prefix (file_of E u p) (version_of E v q t)" if "path_join (se_datadir E) u = path_join (se_datadir E) v"
  using that by (simp add: file_of_def version_of_def user_dir_def)

lemma file_not_version [simp]: "file_of E u p \<noteq> version_of E u q t" "version_of E u q t \<noteq> file_of E u p"
  by (simp_all add: file_of_def version_of_def user_dir_def)

section \<open>What a snapshot does\<close>

definition version_row :: "site \<Rightarrow> int \<Rightarrow> int \<Rightarrow> string \<Rightarrow> string \<Rightarrow> int \<Rightarrow> int \<Rightarrow> version_entry" where
  "version_row s sid fileid u p sz t =
     \<lparr>ve_id = si_next_version s, ve_storage = sid, ve_fileid = fileid, ve_user = u,
      ve_path = CHR ''/'' # trim_slashes p, ve_mtime = t, ve_size = sz\<rparr>"

definition version_taken :: "int \<Rightarrow> int \<Rightarrow> int \<Rightarrow> site \<Rightarrow> bool" where
  "version_taken sid fileid t s \<longleftrightarrow> (\<exists>v \<in> set (si_versions s). ve_storage v = sid \<and> ve_fileid v = fileid \<and> ve_mtime v = t)"

text \<open>The tables of the site apart from the versions, and the events.\<close>

definition other_tables :: "site \<Rightarrow> site \<Rightarrow> bool" where
  "other_tables s s' \<longleftrightarrow> si_trash s' = si_trash s \<and> si_next_trash s' = si_next_trash s \<and>
     si_cache s' = si_cache s \<and> dk_events s' = dk_events s"

lemma other_tables_refl [simp]: "other_tables s s"
  by (simp add: other_tables_def)

lemma other_tables_trans [trans]: "other_tables a b \<Longrightarrow> other_tables b c \<Longrightarrow> other_tables a c"
  by (simp add: other_tables_def)

lemma same_rest_tables: "same_rest s s' \<Longrightarrow> other_tables s s' \<and> si_versions s' = si_versions s \<and> si_next_version s' = si_next_version s"
  for s s' :: site
  using same_rest_site [of s s'] by (simp add: other_tables_def)

lemma content_versions [simp]: "content (s\<lparr>si_versions := b\<rparr>) = content s"
  by (rule ext) (simp add: content_def)

lemma content_next_version [simp]: "content (s\<lparr>si_next_version := a\<rparr>) = content s"
  by (rule ext) (simp add: content_def)

lemma disk_wf_versions [simp]: "disk_wf (s\<lparr>si_versions := b\<rparr>) = disk_wf s"
  by (rule disk_wf_same) simp_all

lemma disk_wf_next_version [simp]: "disk_wf (s\<lparr>si_next_version := a\<rparr>) = disk_wf s"
  by (rule disk_wf_same) simp_all

lemma insert_version_cases:
  assumes "insert_version E sid fileid u path t sz s = (r, s')"
  obtains (stored) "r = Inr (si_next_version s)" "\<not> version_taken sid fileid t s"
      "se_dialect E \<noteq> MySql" "fits (se_dialect E) 64 u" "fits (se_dialect E) 512 path"
      "s' = s\<lparr>si_next_version := si_next_version s + 1, si_versions := si_versions s @
        [\<lparr>ve_id = si_next_version s, ve_storage = sid, ve_fileid = fileid, ve_user = u, ve_path = path,
          ve_mtime = t, ve_size = sz\<rparr>]\<rparr>"
    | (taken) "r = Inl VerDuplicate" "version_taken sid fileid t s" "s' = s"
    | (refused) m where "r = Inl (VerDb m)" "s' = s"
proof -
  have taken: "list_ex (\<lambda>v. ve_storage v = sid \<and> ve_fileid v = fileid \<and> ve_mtime v = t) (si_versions s) = version_taken sid fileid t s"
    by (simp add: version_taken_def list_ex_iff)
  consider (db) m where "r = Inl (VerDb m)" "s' = s" | (ok) "se_dialect E \<noteq> MySql"
      "fits (se_dialect E) 64 u \<and> fits (se_dialect E) 512 path"
    using assms unfolding insert_version_def
    by (cases "se_dialect E = MySql"; cases "fits (se_dialect E) 64 u \<and> fits (se_dialect E) 512 path") auto
  then show thesis
  proof cases
    case ok
    then have "(if version_taken sid fileid t s then (Inl VerDuplicate, s) else (Inr (si_next_version s), s\<lparr>si_next_version := si_next_version s + 1, si_versions := si_versions s @
        [\<lparr>ve_id = si_next_version s, ve_storage = sid, ve_fileid = fileid, ve_user = u, ve_path = path,
          ve_mtime = t, ve_size = sz\<rparr>]\<rparr>)) = (r, s')"
      using assms unfolding insert_version_def taken by simp
    then show thesis by (cases "version_taken sid fileid t s") (use ok in \<open>auto intro: stored that(2)\<close>)
  qed (rule refused)
qed

lemma snapshot_eq:
  assumes p: "plain_path p"
  shows "snapshot_if_needed E u sid fileid p sz t throttle mx s =
     (if sz \<le> 0 then (Inr None, s)
      else if mx < sz then (Inr None, s)
      else if throttled sid fileid t throttle s then (Inr None, s)
      else case try_exists (file_of E u p) s of
          Inl e \<Rightarrow> (Inl (VerIo e), s)
        | Inr False \<Rightarrow> (Inl VerSourceMissing, s)
        | Inr True \<Rightarrow>
            (case create_dir_all (user_dir E u ''files_versions'' @ butlast (pieces p)) s of
               (Inl e, s1) \<Rightarrow> (Inl (VerIo e), s1)
             | (Inr _, s1) \<Rightarrow>
                 (case copy_file (file_of E u p) (version_of E u p t) s1 of
                    (Inl e, s2) \<Rightarrow> (Inl (VerIo e), snd (remove_file (version_of E u p t) s2))
                  | (Inr _, s2) \<Rightarrow> record_snapshot E u sid fileid (trim_slashes p) sz t s2)))"
  unfolding snapshot_if_needed_def Let_def plain_simps [OF p] option.case version_of_def append_assoc ..

text \<open>
  The outcomes of a snapshot: skipped, stored with its row, copied over the file of a row of the
  same second, or an error with the tables as they were.
\<close>

lemma snapshot_cases:
  assumes run: "snapshot_if_needed E u sid fileid p sz t throttle mx s = (r, s')" and p: "plain_path p" and wf: "disk_wf s"
  obtains (skipped) "r = Inr None" "s' = s" "sz \<le> 0 \<or> mx < sz \<or> throttled sid fileid t throttle s"
    | (missing) "r = Inl VerSourceMissing" "s' = s"
    | (failed) e where "r = Inl e" "e \<noteq> VerSourceMissing" "si_versions s' = si_versions s"
        "si_next_version s' = si_next_version s" "\<exists>x. e = VerIo x \<or> (\<exists>m. e = VerDb m)"
    | (stored) bs x y where "r = Inr (Some (si_next_version s))" "content s (file_of E u p) = Some (False, bs, x)"
        "\<not> throttled sid fileid t throttle s" "\<not> version_taken sid fileid t s"
        "si_versions s' = si_versions s @ [version_row s sid fileid u p sz t]" "si_next_version s' = si_next_version s + 1"
        "content s' (version_of E u p t) = Some (False, bs, y)" "\<not> too_long (version_of E u p t)"
        "se_dialect E \<noteq> MySql" "fits (se_dialect E) 64 u" "fits (se_dialect E) 512 (CHR ''/'' # trim_slashes p)"
    | (copied) bs x y where "r = Inr None" "content s (file_of E u p) = Some (False, bs, x)"
        "\<not> throttled sid fileid t throttle s" "version_taken sid fileid t s"
        "si_versions s' = si_versions s" "si_next_version s' = si_next_version s"
        "content s' (version_of E u p t) = Some (False, bs, y)"
proof -
  consider (skip) "sz \<le> 0 \<or> mx < sz \<or> throttled sid fileid t throttle s"
    | (go) "0 < sz" "sz \<le> mx" "\<not> throttled sid fileid t throttle s" by linarith
  then show thesis
  proof cases
    case skip
    then show thesis using run by (intro skipped) (auto simp: snapshot_if_needed_def split: if_splits)
  next
    case go
    let ?src = "file_of E u p" and ?dir = "user_dir E u ''files_versions'' @ butlast (pieces p)" and ?dst = "version_of E u p t"
    have dst: "?dir @ [version_name (last (pieces p)) t] = ?dst" by (simp add: version_of_def)
    note run' = run [unfolded snapshot_eq [OF p]]
    show thesis
    proof (cases "try_exists ?src s")
      case (Inl e)
      then show thesis using run' go by (intro failed [of "VerIo e"]) simp_all
    next
      case (Inr ex)
      show thesis
      proof (cases ex)
        case False
        then show thesis using run' go Inr by (intro missing) auto
      next
        case True
        obtain r1 s1 where c1: "create_dir_all ?dir s = (r1, s1)" by fastforce
        obtain r2 s2 where c2: "copy_file ?src ?dst s1 = (r2, s2)" by fastforce
        have s1: "disk_wf s1" "same_rest s s1" using disk_op_wf(5) [OF c1 wf] by simp_all
        have s2: "disk_wf s2" "same_rest s s2"
          using disk_op_wf(3) [OF c2 s1(1)] same_rest_trans [OF s1(2)] by simp_all
        note tables = same_rest_tables [OF s2(2)]
        have src: "content s1 ?src = content s ?src"
        proof (rule only_at_keep)
          show "only_at {?dst} s s1" using create_dir_all_only [OF c1, of "[version_name (last (pieces p)) t]"] dst by simp
        qed (use Inr True in \<open>simp_all add: try_exists_Inr_True content_None\<close>)
        show thesis
        proof (cases r1)
          case e: (Inl e)
          have "s1 = s" using c1 e by (cases rule: create_dir_all_cases) auto
          then show thesis using run' go Inr True c1 e by (intro failed [of "VerIo e"]) auto
        next
          case ok1: (Inr u1)
          show thesis
          proof (cases r2)
            case e: (Inl e)
            then have "s' = snd (remove_file ?dst s2)" "r = Inl (VerIo e)" using run' go Inr True c1 ok1 c2 by simp_all
            moreover from this have "same_rest s2 s'"
              using disk_op_wf(6) [OF prod.collapse [symmetric] s2(1)] by simp
            ultimately show thesis
              using same_rest_tables [of s2 s'] tables by (intro failed [of "VerIo e"]) auto
          next
            case ok2: (Inr u2)
            then have rec: "record_snapshot E u sid fileid (trim_slashes p) sz t s2 = (r, s')"
              using run' go Inr True c1 ok1 c2 by simp
            from c2 obtain bs x where bs: "content s1 ?src = Some (False, bs, x)" and w: "write_file ?dst bs s1 = (Inr (), s2)"
              by (cases rule: copy_file_cases) (use ok2 in auto)
            have dst2: "\<exists>y. content s2 ?dst = Some (False, bs, y)" "\<not> too_long ?dst"
              using w by (cases rule: write_file_cases, auto)+
            then obtain y where y: "content s2 ?dst = Some (False, bs, y)" by blast
            have taken: "version_taken sid fileid t s2 = version_taken sid fileid t s"
              using tables by (simp add: version_taken_def)
            obtain r3 s3 where ins: "insert_version E sid fileid u (CHR ''/'' # trim_slashes p) t sz s2 = (r3, s3)" by fastforce
            from ins show thesis
            proof (cases rule: insert_version_cases)
              case i: stored
              then show thesis
                using rec ins go bs src y dst2 tables taken
                by (intro stored [of bs x y]) (auto simp: record_snapshot_def version_row_def)
            next
              case i: taken
              then show thesis
                using rec ins go bs src y tables taken by (intro copied [of bs x y]) (auto simp: record_snapshot_def)
            next
              case (refused m)
              then show thesis
                using rec ins tables by (intro failed [of "VerDb m"]) (auto simp: record_snapshot_def)
            qed
          qed
        qed
      qed
    qed
  qed
qed

lemma record_snapshot_snd:
  "snd (record_snapshot E u sid fileid rel sz t s) = snd (insert_version E sid fileid u (CHR ''/'' # rel) t sz s)"
proof (cases "insert_version E sid fileid u (CHR ''/'' # rel) t sz s")
  case (Pair r s')
  then show ?thesis by (cases r; cases "projl r") (simp_all add: record_snapshot_def)
qed

lemma insert_version_frame:
  "content (snd (insert_version E sid fileid u path t sz s)) = content s \<and>
   disk_wf (snd (insert_version E sid fileid u path t sz s)) = disk_wf s \<and>
   other_tables s (snd (insert_version E sid fileid u path t sz s)) \<and>
   si_activity (snd (insert_version E sid fileid u path t sz s)) = si_activity s"
proof (cases "insert_version E sid fileid u path t sz s")
  case (Pair r s')
  then show ?thesis by (cases rule: insert_version_cases) (simp_all add: Pair other_tables_def)
qed

lemma snapshot_frame:
  assumes run: "snapshot_if_needed E u sid fileid p sz t throttle mx s = (r, s')" and p: "plain_path p" and wf: "disk_wf s"
  shows "only_at {version_of E u p t} s s' \<and> disk_wf s' \<and> other_tables s s' \<and> si_activity s' = si_activity s"
proof -
  let ?src = "file_of E u p" and ?dir = "user_dir E u ''files_versions'' @ butlast (pieces p)" and ?dst = "version_of E u p t"
  have dst: "?dir @ [version_name (last (pieces p)) t] = ?dst" by (simp add: version_of_def)
  obtain r1 s1 where c1: "create_dir_all ?dir s = (r1, s1)" by fastforce
  obtain r2 s2 where c2: "copy_file ?src ?dst s1 = (r2, s2)" by fastforce
  let ?f = "snd (remove_file ?dst s2)" and ?r = "snd (record_snapshot E u sid fileid (trim_slashes p) sz t s2)"
  have s': "s' = s \<or> s' = s1 \<or> s' = ?f \<or> s' = ?r"
    using run [unfolded snapshot_eq [OF p]]
    by (auto simp: c1 c2 split: if_splits sum.splits bool.splits)
  have s1: "disk_wf s1" "same_rest s s1" using disk_op_wf(5) [OF c1 wf] by simp_all
  have s2: "disk_wf s2" "same_rest s s2"
    using disk_op_wf(3) [OF c2 s1(1)] same_rest_trans [OF s1(2)] by simp_all
  have f: "disk_wf ?f" "same_rest s ?f"
    using disk_op_wf(6) [OF prod.collapse [symmetric] s2(1), of ?dst] same_rest_trans [OF s2(2)] by auto
  have o1: "only_at {?dst} s s1"
    using create_dir_all_only [OF c1, of "[version_name (last (pieces p)) t]"] dst by simp
  have o2: "only_at {?dst} s s2" by (rule only_at_trans [OF o1 copy_file_only [OF c2]])
  have of: "only_at {?dst} s ?f" by (rule only_at_trans [OF o2 remove_file_only [OF prod.collapse [symmetric] s2(1)]])
  have r: "content ?r = content s2" "disk_wf ?r = disk_wf s2" "other_tables s2 ?r" "si_activity ?r = si_activity s2"
    unfolding record_snapshot_snd by (simp_all add: insert_version_frame)
  then have "only_at {?dst} s ?r" using only_at_trans [OF o2 only_at_same] by metis
  then have r': "only_at {?dst} s ?r \<and> disk_wf ?r \<and> other_tables s ?r \<and> si_activity ?r = si_activity s"
    using r(2,4) s2(1) same_rest_site(5) [OF s2(2)] other_tables_trans [OF conjunct1 [OF same_rest_tables [OF s2(2)]] r(3)] by simp
  moreover have "only_at {?dst} s s1 \<and> disk_wf s1 \<and> other_tables s s1 \<and> si_activity s1 = si_activity s"
    using o1 s1 same_rest_tables [OF s1(2)] same_rest_site(5) [OF s1(2)] by simp
  moreover have "only_at {?dst} s ?f \<and> disk_wf ?f \<and> other_tables s ?f \<and> si_activity ?f = si_activity s"
    using of f same_rest_tables [OF f(2)] same_rest_site(5) [OF f(2)] by simp
  ultimately show ?thesis
    using s' wf by (elim disjE) (simp_all only: only_at_refl other_tables_refl simp_thms)
qed
section \<open>What a restore does\<close>

lemma row_path [simp]:
  "trim_slashes (CHR ''/'' # trim_slashes p) = trim_slashes p" "plain_path (CHR ''/'' # trim_slashes p) = plain_path p"
  "pieces (CHR ''/'' # trim_slashes p) = pieces p" "file_of E u (CHR ''/'' # trim_slashes p) = file_of E u p"
  "version_of E u (CHR ''/'' # trim_slashes p) t = version_of E u p t"
proof -
  have idem: "dropWhile P (dropWhile P xs) = dropWhile P xs" for P and xs :: string
    by (induction xs) auto
  then show "trim_slashes (CHR ''/'' # trim_slashes p) = trim_slashes p" by simp
  then show "plain_path (CHR ''/'' # trim_slashes p) = plain_path p" "pieces (CHR ''/'' # trim_slashes p) = pieces p"
    by (simp_all add: plain_path_def pieces_def)
  then show "file_of E u (CHR ''/'' # trim_slashes p) = file_of E u p"
    "version_of E u (CHR ''/'' # trim_slashes p) t = version_of E u p t" by (simp_all add: file_of_def version_of_def)
qed

lemma copy_version_back_eq:
  assumes p: "plain_path (ve_path v)"
  shows "copy_version_back E u v s =
    (let vp = version_of E u (ve_path v) (ve_mtime v) in
     case try_exists vp s of
       Inl e \<Rightarrow> (Inl (VerIo e), s)
     | Inr False \<Rightarrow> (Inl VerSourceMissing, s)
     | Inr True \<Rightarrow>
         (case create_dir_all (user_dir E u ''files'' @ butlast (pieces (ve_path v))) s of
            (Inl e, s1) \<Rightarrow> (Inl (VerIo e), s1)
          | (Inr _, s1) \<Rightarrow>
              (case copy_file vp (file_of E u (ve_path v)) s1 of
                 (Inl e, s2) \<Rightarrow> (Inl (VerIo e), s2)
               | (Inr _, s2) \<Rightarrow>
                   (Inr (), emit_restored E VersionRestored ''version_restored_you''
                      ''version_restored_by'' ObjVersion u (ve_path v) (Some (ve_id v)) s2))))"
proof -
  have "(user_dir E u ''files_versions'' @ butlast (pieces (ve_path v))) @ [version_name (last (pieces (ve_path v))) (ve_mtime v)] =
      version_of E u (ve_path v) (ve_mtime v)" by (simp add: version_of_def)
  moreover have "(user_dir E u ''files'' @ butlast (pieces (ve_path v))) @ [last (pieces (ve_path v))] = file_of E u (ve_path v)"
    by (simp add: file_of_def)
  ultimately show ?thesis
    unfolding copy_version_back_def Let_def plain_simps [OF p] option.case by presburger
qed

lemma copy_back_cases:
  assumes run: "copy_version_back E u v s = (r, s')" and p: "plain_path (ve_path v)" and wf: "disk_wf s"
  obtains (restored) bs x y where "r = Inr ()" "content s (version_of E u (ve_path v) (ve_mtime v)) = Some (False, bs, x)"
      "content s' (file_of E u (ve_path v)) = Some (False, bs, y)" "si_versions s' = si_versions s"
      "only_at {file_of E u (ve_path v)} s s'" "disk_wf s'"
    | (missing) "r = Inl VerSourceMissing" "s' = s" "\<And>x. content s (version_of E u (ve_path v) (ve_mtime v)) \<noteq> Some x"
    | (failed) e where "r = Inl (VerIo e)" "content s' (file_of E u (ve_path v)) = content s (file_of E u (ve_path v))"
      "si_versions s' = si_versions s" "only_at {file_of E u (ve_path v)} s s'" "disk_wf s'"
proof -
  let ?f = "file_of E u (ve_path v)" and ?v = "version_of E u (ve_path v) (ve_mtime v)"
    and ?dir = "user_dir E u ''files'' @ butlast (pieces (ve_path v))"
  have dst: "?dir @ [last (pieces (ve_path v))] = ?f" by (simp add: file_of_def)
  note run' = run [unfolded copy_version_back_eq [OF p] Let_def]
  show thesis
  proof (cases "try_exists ?v s")
    case (Inl e)
    then show thesis using run' wf by (intro failed [of e]) auto
  next
    case (Inr ex)
    show thesis
    proof (cases ex)
      case False
      then have "\<And>x. content s ?v \<noteq> Some x" using Inr by (simp add: try_exists_Inr_False content_def)
      then show thesis using run' Inr False by (intro missing) auto
    next
      case True
      obtain r1 s1 where c1: "create_dir_all ?dir s = (r1, s1)" by fastforce
      obtain r2 s2 where c2: "copy_file ?v ?f s1 = (r2, s2)" by fastforce
      have s1: "disk_wf s1" "same_rest s s1" using disk_op_wf(5) [OF c1 wf] by simp_all
      have s2: "disk_wf s2" "same_rest s s2" using disk_op_wf(3) [OF c2 s1(1)] same_rest_trans [OF s1(2)] by simp_all
      have o1: "only_at {?f} s s1" using create_dir_all_only [OF c1, of "[last (pieces (ve_path v))]"] dst by simp
      have o2: "only_at {?f} s s2" by (rule only_at_trans [OF o1 copy_file_only [OF c2]])
      have f1: "content s1 ?f = content s ?f"
      proof -
        have "\<not> prefix ?f ?dir" using prefix_length_le [of ?f ?dir] pieces_ne [of "ve_path v"]
          by (cases "pieces (ve_path v)") (auto simp: file_of_def)
        with c1 show ?thesis by - (erule create_dir_all_cases, simp_all add: with_dirs_def)
      qed
      show thesis
      proof (cases r1)
        case e: (Inl e)
        then have "s' = s1" "r = Inl (VerIo e)" using run' Inr True c1 by auto
        then show thesis using f1 o1 s1 same_rest_site(1) [OF s1(2)] by (intro failed [of e]) auto
      next
        case ok1: (Inr u1)
        show thesis
        proof (cases r2)
          case e: (Inl e)
          from c2 have "s2 = s1" by (cases rule: copy_file_cases) (use e in auto)
          moreover have "s' = s2" "r = Inl (VerIo e)" using run' Inr True c1 ok1 c2 e by simp_all
          ultimately show thesis using f1 o1 s1 same_rest_site(1) [OF s1(2)] by (intro failed [of e]) auto
        next
          case ok2: (Inr u2)
          have s': "r = Inr ()" "s' = emit_restored E VersionRestored ''version_restored_you''
                      ''version_restored_by'' ObjVersion u (ve_path v) (Some (ve_id v)) s2"
            using run' Inr True c1 ok1 c2 ok2 by simp_all
          from c2 obtain bs x where bs: "content s1 ?v = Some (False, bs, x)" and w: "write_file ?f bs s1 = (Inr (), s2)"
            by (cases rule: copy_file_cases) (use ok2 in auto)
          have "content s ?v \<noteq> None" using Inr True by (simp add: try_exists_Inr_True content_None)
          then have "content s ?v = content s1 ?v" using only_at_keep [OF o1, of ?v] by simp
          moreover have "\<exists>y. content s2 ?f = Some (False, bs, y)" using w by (cases rule: write_file_cases) auto
          ultimately show thesis
            using s' bs o2 s2 emit_restored_facts same_rest_site(1) [OF s2(2)] by (auto intro!: restored simp: only_at_def)
        qed
      qed
    qed
  qed
qed
section \<open>Rows and identifiers\<close>

definition versions_inv :: "site \<Rightarrow> bool" where
  "versions_inv s \<longleftrightarrow>
     distinct (map ve_id (si_versions s)) \<and> (\<forall>v \<in> set (si_versions s). ve_id v < si_next_version s) \<and>
     distinct (map (\<lambda>v. (ve_storage v, ve_fileid v, ve_mtime v)) (si_versions s)) \<and>
     (\<forall>v \<in> set (si_versions s). plain_path (ve_path v))"

lemma version_by_id_row:
  assumes "versions_inv s" "v \<in> set (si_versions s)"
  shows "version_by_id (ve_id v) s = Inr v"
proof -
  have "sql_first (\<lambda>w. ve_id w = ve_id v) (si_versions s) = Some v"
    by (rule sql_first_unique) (use assms in \<open>auto simp: versions_inv_def distinct_map dest: inj_onD\<close>)
  then show ?thesis by (simp add: version_by_id_def)
qed

lemma version_by_id_Inr: "version_by_id i s = Inr v \<Longrightarrow> v \<in> set (si_versions s) \<and> ve_id v = i"
  by (auto simp: version_by_id_def ok_or_def dest: sql_first_Some split: option.splits)

lemma snapshot_inv:
  assumes "snapshot_if_needed E u sid fileid p sz t throttle mx s = (r, s')" "plain_path p" "disk_wf s" "versions_inv s"
  shows "versions_inv s'"
  using assms(1-3)
proof (cases rule: snapshot_cases)
  case (stored bs x y)
  have "(sid, fileid, t) \<notin> (\<lambda>v. (ve_storage v, ve_fileid v, ve_mtime v)) ` set (si_versions s)"
    using stored(4) by (auto simp: version_taken_def)
  moreover have "si_next_version s \<notin> ve_id ` set (si_versions s)" using assms(4) by (auto simp: versions_inv_def)
  ultimately show ?thesis
    using assms(2,4) stored(5,6) by (auto simp: versions_inv_def version_row_def)
qed (use assms(4) in \<open>simp_all add: versions_inv_def\<close>)

section \<open>Properties of snapshot and restore\<close>

text \<open>
  C26. A snapshot can be restored: whatever is written over the file after the snapshot, a restore
  of that version in another second brings the bytes back, unless the file system refuses, and
  then the file is as it was.
\<close>

theorem snapshot_restore_roundtrip:
  assumes "disk_wf s" "versions_inv s" "plain_path p"
    and snap: "snapshot_if_needed E u sid fileid p sz t throttle mx s = (Inr (Some i), s1)"
    and over: "write_file (file_of E u p) new s1 = (Inr (), s2)"
    and rest: "version_restore E u i sz' t' throttle' mx' s2 = (r, s3)" and "t' \<noteq> t"
  shows "\<exists>bs x. content s (file_of E u p) = Some (False, bs, x) \<and>
    (r = Inr () \<and> (\<exists>y. content s3 (file_of E u p) = Some (False, bs, y))
     \<or> (\<exists>e. r = Inl e \<and> (\<exists>x m. e = VerIo x \<or> e = VerDb m)) \<and> content s3 (file_of E u p) = content s2 (file_of E u p))"
proof -
  let ?f = "file_of E u p" and ?v = "version_of E u p t" and ?row = "version_row s sid fileid u p sz t"
  from snap assms(3,1) obtain bs x y where st: "i = si_next_version s" "content s ?f = Some (False, bs, x)"
      "si_versions s1 = si_versions s @ [?row]" "content s1 ?v = Some (False, bs, y)"
    by (cases rule: snapshot_cases) auto
  have s1: "disk_wf s1" using snapshot_frame [OF snap assms(3,1)] by blast
  have s2: "disk_wf s2" "same_rest s1 s2" using disk_op_wf(2) [OF over s1] by simp_all
  have inv2: "versions_inv s2"
    using snapshot_inv [OF snap assms(3,1,2)] same_rest_site(1,2) [OF s2(2)] by (simp add: versions_inv_def)
  have row: "?row \<in> set (si_versions s2)" using st(3) same_rest_site(1) [OF s2(2)] by simp
  have v2: "content s2 ?v = Some (False, bs, y)" using only_at_keep [OF write_file_only [OF over], of ?v] st(4) by simp
  have fields: "ve_user ?row = u" "ve_path ?row = CHR ''/'' # trim_slashes p" "ve_mtime ?row = t" "ve_id ?row = i"
    by (simp_all add: version_row_def st(1))
  have plain: "plain_path (ve_path ?row)" using assms(3) by (simp add: fields)
  obtain r3 s2' where again: "snapshot_if_needed E u (ve_storage ?row) (ve_fileid ?row) (ve_path ?row) sz' t' throttle' mx' s2 = (r3, s2')"
    by fastforce
  have frame: "only_at {version_of E u p t'} s2 s2'" "disk_wf s2'"
    using snapshot_frame [OF again plain s2(1)] by (simp_all add: fields)
  have keep: "content s2' ?v = content s2 ?v" "content s2' ?f = content s2 ?f"
  proof -
    have "?v \<noteq> version_of E u p t'" using version_of_inj assms(7) by blast
    then show "content s2' ?v = content s2 ?v" by (intro only_at_keep [OF frame(1)]) (simp_all add: v2)
    show "content s2' ?f = content s2 ?f"
      by (rule only_at_apart [OF frame(1)]) (auto simp: strict_prefix_def)
  qed
  have eq: "version_restore E u i sz' t' throttle' mx' s2 =
      (case r3 of Inr _ \<Rightarrow> copy_version_back E u ?row s2' | Inl VerSourceMissing \<Rightarrow> copy_version_back E u ?row s2'
       | Inl e \<Rightarrow> (Inl e, s2'))"
    using version_by_id_row [OF inv2 row] again
    by (simp add: version_restore_def fields split: sum.splits versions_error.splits)
  have final: "?thesis" if copy: "copy_version_back E u ?row s2' = (r, s3)"
    using copy plain frame(2)
  proof (cases rule: copy_back_cases)
    case (missing)
    have False using missing(3) [of "(False, bs, y)"] keep(1) v2 by (simp add: fields)
    then show ?thesis ..
  qed (use st(2) keep v2 in \<open>auto simp: fields\<close>)
  show ?thesis
  proof (cases "r3 = Inl VerSourceMissing \<or> (\<exists>a. r3 = Inr a)")
    case True
    then show ?thesis using final eq rest by auto
  next
    case False
    then obtain e where e: "r3 = Inl e" "e \<noteq> VerSourceMissing" by (cases r3) auto
    then have "r = Inl e" "s3 = s2'" using eq rest by (auto split: versions_error.splits)
    moreover from again plain s2(1) have "\<exists>x m. e = VerIo x \<or> e = VerDb m"
      by (cases rule: snapshot_cases) (use e in auto)
    ultimately show ?thesis using st(2) keep by auto
  qed
qed
lemma too_long_prefix: "prefix p q \<Longrightarrow> too_long p \<Longrightarrow> too_long q"
  by (auto simp: too_long_def path_size_def prefix_def)

lemma wf_parent: "disk_wf d \<Longrightarrow> content d (q @ [x]) \<noteq> None \<Longrightarrow> is_dir_at d q"
  unfolding disk_wf_content is_dir_at_content by (metis butlast_snoc snoc_eq_iff_butlast)

text \<open>
  Two snapshots of a file in one second, which a minimal interval of 0 allows: the second one
  reports that nothing was needed, but it has replaced the bytes of the first, whose row stays.
\<close>

theorem same_second_overwrites:
  assumes "disk_wf s" "plain_path p"
    and snap: "snapshot_if_needed E u sid fileid p sz t throttle mx s = (Inr (Some i), s1)"
    and over: "write_file (file_of E u p) new s1 = (Inr (), s2)" and "0 < sz'" "sz' \<le> mx'"
  shows "\<exists>s3 x. snapshot_if_needed E u sid fileid p sz' t 0 mx' s2 = (Inr None, s3) \<and>
    content s3 (version_of E u p t) = Some (False, new, x) \<and> si_versions s3 = si_versions s2 \<and>
    (\<exists>v \<in> set (si_versions s3). ve_id v = i \<and> ve_mtime v = t \<and> ve_path v = CHR ''/'' # trim_slashes p)"
proof -
  let ?f = "file_of E u p" and ?v = "version_of E u p t" and ?row = "version_row s sid fileid u p sz t"
    and ?dir = "user_dir E u ''files_versions'' @ butlast (pieces p)"
  from snap assms(2,1) obtain bs y where st: "i = si_next_version s" "si_versions s1 = si_versions s @ [?row]"
      "content s1 ?v = Some (False, bs, y)" "\<not> too_long ?v"
      "se_dialect E \<noteq> MySql" "fits (se_dialect E) 64 u" "fits (se_dialect E) 512 (CHR ''/'' # trim_slashes p)"
    by (cases rule: snapshot_cases) auto
  have s1: "disk_wf s1" using snapshot_frame [OF snap assms(2,1)] by blast
  have s2: "disk_wf s2" "same_rest s1 s2" using disk_op_wf(2) [OF over s1] by simp_all
  have f2: "\<exists>x. content s2 ?f = Some (False, new, x)" "\<not> too_long ?f"
    using over by (cases rule: write_file_cases; auto)+
  then obtain fx where fx: "content s2 ?f = Some (False, new, fx)" by blast
  have v2: "content s2 ?v = Some (False, bs, y)" using only_at_keep [OF write_file_only [OF over], of ?v] st(3) by simp
  have dv: "?dir @ [version_name (last (pieces p)) t] = ?v" by (simp add: version_of_def)
  obtain r1 s2' where mk: "create_dir_all ?dir s2 = (r1, s2')" by fastforce
  have "is_dir_at s2 ?dir" using wf_parent [OF s2(1), of ?dir "version_name (last (pieces p)) t"] v2 unfolding dv by simp
  moreover have "prefix ?dir ?v" unfolding dv [symmetric] by (rule prefixI) (rule refl)
  then have "\<not> too_long ?dir" using st(4) too_long_prefix [of ?dir ?v] by blast
  ultimately have mk': "r1 = Inr ()" "content s2' = content s2" using create_dir_all_existing [OF mk _ s2(1)] by blast+
  have s2': "disk_wf s2'" "same_rest s2 s2'" using disk_op_wf(5) [OF mk s2(1)] by simp_all
  obtain r2 s3 where cp: "copy_file ?f ?v s2' = (r2, s3)" by fastforce
  have cp': "r2 = Inr () \<and> (\<exists>x. content s3 ?v = Some (False, new, x))"
  proof -
    obtain n where n: "node_at s2' ?f = Some n" "\<not> nd_dir n" "nd_data n = new"
      using fx unfolding mk'(2) [symmetric] content_def by auto
    obtain m where m: "node_at s2' ?v = Some m" "\<not> nd_dir m"
      using v2 unfolding mk'(2) [symmetric] content_def by auto
    have "write_file ?v new s2' = (r2, s3)"
      using cp n f2(2) by (simp add: copy_file_def metadata_at_def)
    moreover have "fst (write_file ?v new s2') = Inr ()"
      using m st(4) by (simp add: write_file_def split: prod.splits)
    ultimately show ?thesis by (auto elim!: write_file_cases)
  qed
  have s3: "si_versions s3 = si_versions s2"
    using same_rest_site(1) [OF s2'(2)] same_rest_site(1) [of s2' s3] disk_op_wf(3) [OF cp s2'(1)] by simp
  have row: "?row \<in> set (si_versions s2)" using st(2) same_rest_site(1) [OF s2(2)] by simp
  then have taken: "list_ex (\<lambda>v. ve_storage v = sid \<and> ve_fileid v = fileid \<and> ve_mtime v = t) (si_versions s3)"
    unfolding s3 list_ex_iff by (force simp: version_row_def)
  have ex: "try_exists ?f s2 = Inr True" using f2 by (auto simp: try_exists_Inr_True content_def)
  have "record_snapshot E u sid fileid (trim_slashes p) sz' t s3 = (Inr None, s3)"
    using taken st(5-7) by (simp add: record_snapshot_def insert_version_def)
  then have "snapshot_if_needed E u sid fileid p sz' t 0 mx' s2 = (Inr None, s3)"
    unfolding snapshot_eq [OF assms(2)] using assms(5,6) ex mk mk' cp cp' by (simp add: throttled_def)
  moreover have "ve_id ?row = i" "ve_mtime ?row = t" "ve_path ?row = CHR ''/'' # trim_slashes p"
    by (simp_all add: version_row_def st(1))
  ultimately show ?thesis using cp' s3 row by auto
qed
text \<open>
  C31. A restore inside the throttle window keeps nothing: the bytes it replaces are in no version,
  and the table of versions is unchanged.
\<close>

theorem throttled_restore_loses:
  assumes "disk_wf s" "versions_inv s" "v \<in> set (si_versions s)" "ve_user v = u"
    and "throttled (ve_storage v) (ve_fileid v) t throttle s"
    and "content s (version_of E u (ve_path v) (ve_mtime v)) = Some (False, bs, x)"
    and "version_restore E u (ve_id v) sz t throttle mx s = (Inr (), s')"
  shows "(\<exists>y. content s' (file_of E u (ve_path v)) = Some (False, bs, y)) \<and> si_versions s' = si_versions s \<and>
    (\<forall>q. q \<noteq> file_of E u (ve_path v) \<longrightarrow> content s q \<noteq> None \<longrightarrow> content s' q = content s q)"
proof -
  have p: "plain_path (ve_path v)" using assms(2,3) by (simp add: versions_inv_def)
  have "snapshot_if_needed E u (ve_storage v) (ve_fileid v) (ve_path v) sz t throttle mx s = (Inr None, s)"
    using assms(5) by (simp add: snapshot_eq [OF p])
  then have "copy_version_back E u v s = (Inr (), s')"
    using assms(4,7) version_by_id_row [OF assms(2,3)] by (simp add: version_restore_def)
  from this p assms(1) show ?thesis
  proof (cases rule: copy_back_cases)
    case (restored bs' x' y)
    then show ?thesis using assms(6) only_at_keep [OF restored(5)] by auto
  qed auto
qed

section \<open>Ownership\<close>

text \<open>The directory of a user with the versions.\<close>

lemma version_below: "prefix (user_dir E u ''files_versions'') (version_of E u p t)"
  by (simp add: version_of_def)

lemma file_below: "prefix (user_dir E u ''files'') (file_of E u p)"
  by (simp add: file_of_def)

lemma delete_version_entry_eq:
  assumes p: "plain_path (ve_path v)"
  shows "delete_version_entry E v s =
    (let vp = version_of E (ve_user v) (ve_path v) (ve_mtime v) in
     case try_exists vp s of
       Inl e \<Rightarrow> (Inl (VerIo e), s)
     | Inr False \<Rightarrow> (Inr (), delete_version_row (ve_id v) s)
     | Inr True \<Rightarrow>
         (case remove_file vp s of
            (Inl e, s1) \<Rightarrow> (Inl (VerIo e), s1)
          | (Inr _, s1) \<Rightarrow> (Inr (), delete_version_row (ve_id v) s1)))"
proof -
  have "(user_dir E (ve_user v) ''files_versions'' @ butlast (pieces (ve_path v))) @ [version_name (last (pieces (ve_path v))) (ve_mtime v)] =
      version_of E (ve_user v) (ve_path v) (ve_mtime v)" by (simp add: version_of_def)
  then show ?thesis unfolding delete_version_entry_def Let_def plain_simps [OF p] option.case by presburger
qed

lemma content_delete_version_row [simp]: "content (delete_version_row i s) = content s"
  by (simp add: delete_version_row_def)

lemma disk_wf_delete_version_row [simp]: "disk_wf (delete_version_row i s) = disk_wf s"
  by (simp add: delete_version_row_def)

text \<open>
  A version goes with its file, and a failure leaves both.
\<close>

lemma delete_version_cases:
  assumes run: "delete_version_entry E v s = (r, s')" and p: "plain_path (ve_path v)" and wf: "disk_wf s"
  obtains (deleted) "r = Inr ()" "si_versions s' = filter (\<lambda>w. ve_id w \<noteq> ve_id v) (si_versions s)"
      "content s' = (content s)(version_of E (ve_user v) (ve_path v) (ve_mtime v) := None)" "disk_wf s'"
      "si_next_version s' = si_next_version s" "other_tables s s'" "si_activity s' = si_activity s"
    | (failed) e where "r = Inl (VerIo e)" "s' = s"
proof -
  let ?v = "version_of E (ve_user v) (ve_path v) (ve_mtime v)"
  note run' = run [unfolded delete_version_entry_eq [OF p] Let_def]
  show thesis
  proof (cases "try_exists ?v s")
    case (Inl e)
    then show thesis using run' by (intro failed [of e]) auto
  next
    case (Inr ex)
    show thesis
    proof (cases ex)
      case False
      then have "content s ?v = None" using Inr by (simp add: try_exists_Inr_False content_None)
      then have "content s = (content s)(?v := None)" by (simp add: fun_upd_idem)
      then show thesis using run' Inr False wf
        by (intro deleted) (auto simp: delete_version_row_def sql_delete_def other_tables_def)
    next
      case True
      obtain r1 s1 where rm: "remove_file ?v s = (r1, s1)" by fastforce
      from rm show thesis
      proof (cases rule: remove_file_cases)
        case (refused e)
        then show thesis using run' Inr True rm by (intro failed [of e]) auto
      next
        case (removed x)
        have "\<not> is_dir_at s ?v" using removed(2) by (simp add: is_dir_at_content)
        then have "content s1 = (content s)(?v := None)" using removed(3) wf_file_tree [OF wf] by (auto simp: fun_eq_iff)
        then show thesis using run' Inr True rm removed(1,5) wf same_rest_tables [OF removed(4)] same_rest_site(5) [OF removed(4)]
          by (intro deleted) (auto simp: delete_version_row_def sql_delete_def other_tables_def)
      qed
    qed
  qed
qed

text \<open>
  C28. Restores and deletions of versions are confined to their user: a version of another user is
  refused with the state unchanged, and otherwise only paths in the user's files and versions
  change, missing directories above them aside, and only rows of the user go.
\<close>

theorem versions_confined:
  assumes "disk_wf s" "versions_inv s"
    and "version_restore E u i sz t throttle mx s = (ra, s') \<or> version_delete E u i s = (rb, s')"
  shows "((\<exists>v \<in> set (si_versions s). ve_id v = i \<and> ve_user v = u) \<or> s' = s) \<and>
    (\<forall>q. content s q \<noteq> None \<longrightarrow> \<not> prefix (user_dir E u ''files'') q \<longrightarrow> \<not> prefix (user_dir E u ''files_versions'') q \<longrightarrow>
      content s' q = content s q) \<and>
    (\<forall>v \<in> set (si_versions s). ve_user v \<noteq> u \<longrightarrow> v \<in> set (si_versions s'))"
proof (cases "\<exists>v \<in> set (si_versions s). ve_id v = i \<and> ve_user v = u")
  case False
  have "s' = s"
  proof (cases "version_by_id i s")
    case (Inr v)
    then have "ve_user v \<noteq> u" using False version_by_id_Inr by blast
    then show ?thesis using assms(3) Inr by (auto simp: version_restore_def version_delete_def)
  qed (use assms(3) in \<open>auto simp: version_restore_def version_delete_def\<close>)
  then show ?thesis by simp
next
  case True
  then obtain v where v: "v \<in> set (si_versions s)" "ve_id v = i" "ve_user v = u" by blast
  have p: "plain_path (ve_path v)" using assms(2) v(1) by (simp add: versions_inv_def)
  have get: "version_by_id i s = Inr v" using version_by_id_row [OF assms(2) v(1)] v(2) by simp
  let ?X = "{q. prefix (user_dir E u ''files'') q \<or> prefix (user_dir E u ''files_versions'') q}"
  have "only_at ?X s s' \<and> (\<forall>w \<in> set (si_versions s). ve_user w \<noteq> u \<longrightarrow> w \<in> set (si_versions s'))"
    using assms(3)
  proof (elim disjE)
    assume "version_delete E u i s = (rb, s')"
    then have "delete_version_entry E v s = (rb, s')" using get v(3) by (simp add: version_delete_def)
    from this p assms(1) show ?thesis
    proof (cases rule: delete_version_cases)
      case deleted
      have "w \<in> set (si_versions s')" if "w \<in> set (si_versions s)" "ve_user w \<noteq> u" for w
        using that v assms(2) unfolding deleted(2) by (auto simp: versions_inv_def distinct_map dest: inj_onD)
      moreover have "only_at ?X s s'" using deleted(3) version_below [of E u] v(3) by (auto simp: only_at_def)
      ultimately show ?thesis by blast
    qed simp
  next
    assume rest: "version_restore E u i sz t throttle mx s = (ra, s')"
    obtain r1 s1 where snap: "snapshot_if_needed E u (ve_storage v) (ve_fileid v) (ve_path v) sz t throttle mx s = (r1, s1)"
      by fastforce
    have f: "only_at {version_of E u (ve_path v) t} s s1" "disk_wf s1" using snapshot_frame [OF snap p assms(1)] by blast+
    have o1: "only_at ?X s s1" by (rule only_at_mono [OF f(1)]) (use version_below in auto)
    have rows: "set (si_versions s) \<subseteq> set (si_versions s1)"
      using snap p assms(1) by (cases rule: snapshot_cases) auto
    have "s' = s1 \<or> copy_version_back E u v s1 = (ra, s')"
      using rest get v(3) snap by (auto simp: version_restore_def split: sum.splits versions_error.splits)
    moreover have "only_at ?X s1 s' \<and> si_versions s' = si_versions s1" if copy: "copy_version_back E u v s1 = (ra, s')"
      using copy p f(2) by (cases rule: copy_back_cases)
        (auto intro: only_at_mono [of "{file_of E u (ve_path v)}"] simp: file_below)
    ultimately show ?thesis using o1 rows only_at_trans by auto
  qed
  then show ?thesis using True only_at_keep by blast
qed
section \<open>The sweep computes the retention rule\<close>

text \<open>
  The rule: a version younger than a day stays, and of the older ones of a file the newest in
  each slot of its tier.
\<close>

definition slot_of :: "int \<Rightarrow> version_entry \<Rightarrow> nat \<times> int" where
  "slot_of now_secs v = bucket_slot (now_secs - ve_mtime v) (ve_mtime v)"

definition retained :: "int \<Rightarrow> version_entry list \<Rightarrow> version_entry \<Rightarrow> bool" where
  "retained now_secs rows v \<longleftrightarrow> now_secs - ve_mtime v < DAY \<or>
     (\<forall>w \<in> set rows. ve_user w = ve_user v \<and> ve_fileid w = ve_fileid v \<and> slot_of now_secs w = slot_of now_secs v \<longrightarrow>
        ve_mtime w \<le> ve_mtime v)"

text \<open>A version file that the file system lets the service remove, or that is gone already.\<close>

definition removable :: "site_env \<Rightarrow> site \<Rightarrow> version_entry \<Rightarrow> bool" where
  "removable E s v \<longleftrightarrow> (let vp = version_of E (ve_user v) (ve_path v) (ve_mtime v) in
     \<not> too_long vp \<and> \<not> through_file s vp \<and> \<not> is_dir_at s vp)"

lemma slot_tag_zero: "fst (slot_of now_secs v) = 0 \<longleftrightarrow> now_secs - ve_mtime v < DAY"
  by (simp add: slot_of_def bucket_slot_def)

lemma removable_deleted:
  assumes "removable E s v" "plain_path (ve_path v)" "disk_wf s"
  shows "\<exists>s'. delete_version_entry E v s = (Inr (), s') \<and> disk_wf s' \<and>
    si_versions s' = filter (\<lambda>w. ve_id w \<noteq> ve_id v) (si_versions s) \<and> (\<forall>w. removable E s w \<longrightarrow> removable E s' w)"
proof -
  let ?v = "version_of E (ve_user v) (ve_path v) (ve_mtime v)"
  have r: "\<not> too_long ?v" "\<not> through_file s ?v" "\<not> is_dir_at s ?v" using assms(1) by (simp_all add: removable_def Let_def)
  obtain r' s' where run: "delete_version_entry E v s = (r', s')" by fastforce
  from run assms(2,3) show ?thesis
  proof (cases rule: delete_version_cases)
    case deleted
    have "removable E s' w" if "removable E s w" for w
      using that unfolding removable_def through_file_def is_file_at_content is_dir_at_content deleted(3) list_ex_iff
      by (auto simp: Let_def split: if_splits)
    then show ?thesis using run deleted by auto
  next
    case (failed e)
    have "fst (delete_version_entry E v s) = Inr ()"
    proof (cases "node_at s ?v")
      case None
      then have "try_exists ?v s = Inr False" using r by (simp add: try_exists_Inr_False)
      then show ?thesis by (simp add: delete_version_entry_eq [OF assms(2)])
    next
      case (Some n)
      then have "try_exists ?v s = Inr True" "\<not> nd_dir n" using r by (auto simp: try_exists_Inr_True is_dir_at_def)
      then show ?thesis using Some r by (simp add: delete_version_entry_eq [OF assms(2)] remove_file_def metadata_at_def Let_def)
    qed
    then show ?thesis using failed run by simp
  qed
qed

text \<open>What the loop over one file drops, in the order newest first.\<close>

fun dropped :: "int \<Rightarrow> (nat \<times> int) set \<Rightarrow> version_entry list \<Rightarrow> version_entry list" where
  "dropped now_secs seen [] = []"
| "dropped now_secs seen (v # vs) =
     (if fst (slot_of now_secs v) = 0 then dropped now_secs seen vs
      else if slot_of now_secs v \<notin> seen then dropped now_secs (insert (slot_of now_secs v) seen) vs
      else v # dropped now_secs seen vs)"

lemma dropped_iff:
  "sorted_wrt (\<lambda>a b. ve_mtime b < ve_mtime a) vs \<Longrightarrow>
   v \<in> set (dropped now_secs seen vs) \<longleftrightarrow> v \<in> set vs \<and> fst (slot_of now_secs v) \<noteq> 0 \<and>
     (slot_of now_secs v \<in> seen \<or> (\<exists>w \<in> set vs. ve_mtime v < ve_mtime w \<and> slot_of now_secs w = slot_of now_secs v))"
  by (induction vs arbitrary: seen) auto

lemma dropped_sub: "set (dropped now_secs seen vs) \<subseteq> set vs"
  by (induction now_secs seen vs rule: dropped.induct) auto

lemma sweep_entries_rows:
  assumes "disk_wf s" "\<forall>v \<in> set vs. removable E s v \<and> plain_path (ve_path v)" "distinct (map ve_id vs)"
  shows "\<exists>s'. sweep_entries E now_secs seen vs s = (length (dropped now_secs seen vs), s') \<and> disk_wf s' \<and>
    si_versions s' = filter (\<lambda>w. ve_id w \<notin> ve_id ` set (dropped now_secs seen vs)) (si_versions s) \<and>
    (\<forall>w. removable E s w \<longrightarrow> removable E s' w)"
  using assms
proof (induction vs arbitrary: seen s)
  case Nil
  then show ?case by simp
next
  case (Cons v vs)
  consider (young) "fst (slot_of now_secs v) = 0" | (first) "fst (slot_of now_secs v) \<noteq> 0" "slot_of now_secs v \<notin> seen"
    | (drop) "fst (slot_of now_secs v) \<noteq> 0" "slot_of now_secs v \<in> seen" by blast
  then show ?case
  proof cases
    case young
    then show ?thesis using Cons.IH [of s seen] Cons.prems by (simp add: slot_of_def Let_def)
  next
    case first
    then show ?thesis using Cons.IH [of s "insert (slot_of now_secs v) seen"] Cons.prems by (simp add: slot_of_def Let_def)
  next
    case drop
    obtain s1 where s1: "delete_version_entry E v s = (Inr (), s1)" "disk_wf s1"
        "si_versions s1 = filter (\<lambda>w. ve_id w \<noteq> ve_id v) (si_versions s)" "\<forall>w. removable E s w \<longrightarrow> removable E s1 w"
      using removable_deleted [of E s v] Cons.prems by auto
    obtain s' where s': "sweep_entries E now_secs seen vs s1 = (length (dropped now_secs seen vs), s')" "disk_wf s'"
        "si_versions s' = filter (\<lambda>w. ve_id w \<notin> ve_id ` set (dropped now_secs seen vs)) (si_versions s1)"
        "\<forall>w. removable E s1 w \<longrightarrow> removable E s' w"
      using Cons.IH [of s1 seen] Cons.prems s1(2,4) by auto
    have "sweep_entries E now_secs seen (v # vs) s = (length (dropped now_secs seen (v # vs)), s')"
      using drop s1(1) s'(1) by (simp add: slot_of_def Let_def)
    moreover have "si_versions s' = filter (\<lambda>w. ve_id w \<notin> ve_id ` set (dropped now_secs seen (v # vs))) (si_versions s)"
      using drop unfolding s'(3) s1(3) by (auto intro: filter_cong)
    ultimately show ?thesis using s'(2,4) s1(4) by blast
  qed
qed
abbreviation group_of :: "version_entry \<Rightarrow> string \<times> int" where
  "group_of v \<equiv> (ve_user v, ve_fileid v)"

definition sweepable :: "site_env \<Rightarrow> site \<Rightarrow> bool" where
  "sweepable E s \<longleftrightarrow> disk_wf s \<and> distinct (map ve_id (si_versions s)) \<and>
     distinct (map (\<lambda>v. (group_of v, ve_mtime v)) (si_versions s)) \<and>
     (\<forall>v \<in> set (si_versions s). removable E s v \<and> plain_path (ve_path v))"

lemma list_for_strict:
  assumes "distinct (map (\<lambda>v. (group_of v, ve_mtime v)) (si_versions s))"
  shows "sorted_wrt (\<lambda>a b. ve_mtime b < ve_mtime a) (list_for u fileid s)"
proof -
  let ?f = "\<lambda>v. - ve_mtime v" and ?F = "filter (\<lambda>v. ve_user v = u \<and> ve_fileid v = fileid) (si_versions s)"
  have "distinct (map (\<lambda>v. (group_of v, ve_mtime v)) ?F)" using assms by (simp add: distinct_map_filter)
  then have "distinct (map ?f ?F)" by (auto simp: distinct_map inj_on_def)
  then have "distinct (map ?f (sort_key ?f ?F))" by (simp add: distinct_map)
  then have "sorted_wrt (<) (map ?f (sort_key ?f ?F))" by (simp add: strict_sorted_iff)
  then show ?thesis by (simp add: list_for_def sorted_wrt_map)
qed

lemma length_filter_out:
  assumes "distinct (map f xs)" "distinct ys" "set ys \<subseteq> set xs"
  shows "length (filter (\<lambda>x. f x \<notin> f ` set ys) xs) + length ys = length xs"
proof -
  have inj: "inj_on f (set xs)" "distinct xs" using assms(1) by (simp_all add: distinct_map)
  have "filter (\<lambda>x. f x \<notin> f ` set ys) xs = filter (\<lambda>x. x \<notin> set ys) xs"
    by (rule filter_cong) (use inj(1) assms(3) in \<open>auto dest: inj_onD\<close>)
  moreover have "length (filter (\<lambda>x. x \<notin> set ys) xs) + card (set ys) = length xs"
  proof -
    have "set (filter (\<lambda>x. x \<notin> set ys) xs) = set xs - set ys" by auto
    then have "length (filter (\<lambda>x. x \<notin> set ys) xs) = card (set xs) - card (set ys)"
      using inj(2) assms(3) by (metis card_Diff_subset distinct_card distinct_filter finite_set)
    then show ?thesis using card_mono [OF _ assms(3)] distinct_card [OF inj(2)] by simp
  qed
  ultimately show ?thesis using distinct_card [OF assms(2)] by simp
qed

lemma sweep_group_rows:
  assumes "sweepable E s"
  shows "\<exists>n s'. sweep_entries E now_secs {} (list_for u fileid s) s = (n, s') \<and> sweepable E s' \<and>
    si_versions s' = filter (\<lambda>w. group_of w \<noteq> (u, fileid) \<or> retained now_secs (si_versions s) w) (si_versions s) \<and>
    n + length (si_versions s') = length (si_versions s)"
proof -
  let ?vs = "list_for u fileid s" and ?D = "dropped now_secs {} (list_for u fileid s)"
  have asm: "disk_wf s" "distinct (map ve_id (si_versions s))"
    "distinct (map (\<lambda>v. (group_of v, ve_mtime v)) (si_versions s))"
    "\<forall>v \<in> set (si_versions s). removable E s v \<and> plain_path (ve_path v)"
    using assms by (simp_all add: sweepable_def)
  have vs: "set ?vs = {v \<in> set (si_versions s). group_of v = (u, fileid)}" by (auto simp: list_for_def)
  have ids: "distinct (map ve_id ?vs)"
    using asm(2) by (auto simp: list_for_def distinct_map inj_on_def)
  obtain s' where s': "sweep_entries E now_secs {} ?vs s = (length ?D, s')" "disk_wf s'"
      "si_versions s' = filter (\<lambda>w. ve_id w \<notin> ve_id ` set ?D) (si_versions s)" "\<forall>w. removable E s w \<longrightarrow> removable E s' w"
    using sweep_entries_rows [OF asm(1) _ ids, of E now_secs "{}"] asm(4) vs by auto
  have D: "w \<in> set ?D \<longleftrightarrow> group_of w = (u, fileid) \<and> \<not> retained now_secs (si_versions s) w"
    if "w \<in> set (si_versions s)" for w
    using that unfolding dropped_iff [OF list_for_strict [OF asm(3)]] vs retained_def slot_tag_zero
    by (auto simp: not_le)
  have sub: "set ?D \<subseteq> set (si_versions s)" using dropped_sub [of now_secs "{}" ?vs] vs by blast
  have "ve_id w \<in> ve_id ` set ?D \<longleftrightarrow> w \<in> set ?D" if "w \<in> set (si_versions s)" for w
    using that sub asm(2) by (auto simp: distinct_map dest: inj_onD)
  then have rows: "si_versions s' = filter (\<lambda>w. group_of w \<noteq> (u, fileid) \<or> retained now_secs (si_versions s) w) (si_versions s)"
    unfolding s'(3) by (intro filter_cong) (use D in auto)
  have "distinct ?D"
  proof -
    have "distinct xs \<Longrightarrow> distinct (dropped now_secs seen xs)" for seen xs
    proof (induction xs arbitrary: seen)
      case (Cons x xs)
      have "x \<notin> set (dropped now_secs seen xs)" using Cons.prems dropped_sub [of now_secs seen xs] by auto
      then show ?case using Cons by simp
    qed simp
    then show ?thesis using ids by (simp add: distinct_map)
  qed
  then have "length ?D + length (si_versions s') = length (si_versions s)"
    unfolding s'(3) using length_filter_out [OF asm(2) _ sub] by simp
  moreover have "sweepable E s'"
    using s'(2,4) asm unfolding sweepable_def s'(3) by (simp add: distinct_map_filter)
  ultimately show ?thesis using s'(1) rows by blast
qed

lemma retained_rows:
  assumes "\<And>w. w \<in> set rows \<Longrightarrow> group_of w = group_of v \<Longrightarrow> w \<in> set rows'" "set rows' \<subseteq> set rows"
  shows "retained now_secs rows' v = retained now_secs rows v"
  using assms unfolding retained_def by (auto simp: subset_eq)

lemma sweep_groups_rows:
  assumes "sweepable E s" "distinct gs"
  shows "\<exists>n s'. sweep_groups E now_secs gs s = (n, s') \<and> sweepable E s' \<and>
    si_versions s' = filter (\<lambda>w. group_of w \<notin> set gs \<or> retained now_secs (si_versions s) w) (si_versions s) \<and>
    n + length (si_versions s') = length (si_versions s)"
  using assms
proof (induction gs arbitrary: s)
  case Nil
  then show ?case by simp
next
  case (Cons g gs)
  obtain u fileid where g: "g = (u, fileid)" by fastforce
  obtain n s1 where s1: "sweep_entries E now_secs {} (list_for u fileid s) s = (n, s1)" "sweepable E s1"
      "si_versions s1 = filter (\<lambda>w. group_of w \<noteq> g \<or> retained now_secs (si_versions s) w) (si_versions s)"
      "n + length (si_versions s1) = length (si_versions s)"
    using sweep_group_rows [OF Cons.prems(1)] unfolding g by blast
  obtain m s' where s': "sweep_groups E now_secs gs s1 = (m, s')" "sweepable E s'"
      "si_versions s' = filter (\<lambda>w. group_of w \<notin> set gs \<or> retained now_secs (si_versions s1) w) (si_versions s1)"
      "m + length (si_versions s') = length (si_versions s1)"
    using Cons.IH [OF s1(2)] Cons.prems(2) by auto
  have same: "retained now_secs (si_versions s1) w = retained now_secs (si_versions s) w" if "group_of w \<in> set gs" for w
    by (rule retained_rows) (use that Cons.prems(2) in \<open>auto simp: s1(3)\<close>)
  have "si_versions s' = filter (\<lambda>w. group_of w \<notin> set (g # gs) \<or> retained now_secs (si_versions s) w) (si_versions s)"
    unfolding s'(3) unfolding s1(3) filter_filter
    by (rule filter_cong [OF refl]) (use same Cons.prems(2) in \<open>auto simp: s1(3)\<close>)
  then show ?case using s1(1,4) s'(1,2,4) by (auto simp: g)
qed

text \<open>
  C27. The tiered sweep is the retention rule: when the version files can be removed, exactly the
  rows the rule retains are left, in their order, and the answer counts the others.
\<close>

theorem sweep_is_retention:
  assumes "disk_wf s" "versions_inv s" "\<forall>v \<in> set (si_versions s). removable E s v"
    and "\<forall>v \<in> set (si_versions s). \<forall>w \<in> set (si_versions s). ve_fileid v = ve_fileid w \<longrightarrow> ve_storage v = ve_storage w"
  shows "si_versions (snd (sweep_tiered E now_secs s)) = filter (retained now_secs (si_versions s)) (si_versions s) \<and>
    fst (sweep_tiered E now_secs s) = length (filter (\<lambda>v. \<not> retained now_secs (si_versions s) v) (si_versions s))"
proof -
  have "inj_on (\<lambda>v. (group_of v, ve_mtime v)) (set (si_versions s))"
  proof (rule inj_onI)
    fix v w assume vw: "v \<in> set (si_versions s)" "w \<in> set (si_versions s)" "(group_of v, ve_mtime v) = (group_of w, ve_mtime w)"
    then have "ve_fileid v = ve_fileid w" by simp
    then have "ve_storage v = ve_storage w" using assms(4) vw(1,2) by blast
    with vw(3) have "(ve_storage v, ve_fileid v, ve_mtime v) = (ve_storage w, ve_fileid w, ve_mtime w)" by simp
    moreover have "inj_on (\<lambda>v. (ve_storage v, ve_fileid v, ve_mtime v)) (set (si_versions s))"
      using assms(2) by (simp add: versions_inv_def distinct_map)
    ultimately show "v = w" using inj_onD [OF _ _ vw(1,2), of "\<lambda>v. (ve_storage v, ve_fileid v, ve_mtime v)"] by blast
  qed
  then have sw: "sweepable E s"
    using assms(1-3) by (simp add: sweepable_def versions_inv_def distinct_map)
  let ?gs = "version_groups s"
  have gs: "set ?gs = group_of ` set (si_versions s)" "distinct ?gs" by (auto simp: version_groups_def)
  obtain n s' where *: "sweep_tiered E now_secs s = (n, s')"
      "si_versions s' = filter (\<lambda>w. group_of w \<notin> set ?gs \<or> retained now_secs (si_versions s) w) (si_versions s)"
      "n + length (si_versions s') = length (si_versions s)"
    using sweep_groups_rows [OF sw gs(2), of now_secs] unfolding sweep_tiered_def by blast
  have rows: "si_versions s' = filter (retained now_secs (si_versions s)) (si_versions s)"
    unfolding *(2) by (rule filter_cong) (auto simp: gs(1))
  then show ?thesis using * sum_length_filter_compl [of "retained now_secs (si_versions s)" "si_versions s"] by simp
qed
section \<open>The properties on a sample\<close>

definition snapped :: "int \<Rightarrow> site \<Rightarrow> (versions_error + int option) \<times> site" where
  "snapped t s = snapshot_if_needed site_env_sample ''bob'' 1 7 ''/a'' 1 t 0 1000 s"

definition overwritten :: "bytes \<Rightarrow> site \<Rightarrow> site" where
  "overwritten bs s = snd (write_file (file_of site_env_sample ''bob'' ''/a'') bs s)"

lemma plain_a: "plain_path ''/a''"
  by code_simp

lemma sample_versions_inv: "versions_inv site_sample"
  by (simp add: versions_inv_def site_sample_def)

lemma sample_snapped: "snapped 100 site_sample = (Inr (Some 1), snd (snapped 100 site_sample))"
proof -
  have "fst (snapped 100 site_sample) = Inr (Some 1)" by code_simp
  then show ?thesis by (metis prod.collapse)
qed

lemma sample_overwritten:
  "write_file (file_of site_env_sample ''bob'' ''/a'') [2] (snd (snapped 100 site_sample)) =
     (Inr (), overwritten [2] (snd (snapped 100 site_sample)))"
proof -
  have "fst (write_file (file_of site_env_sample ''bob'' ''/a'') [2] (snd (snapped 100 site_sample))) = Inr ()" by code_simp
  then show ?thesis unfolding overwritten_def by (metis prod.collapse)
qed

theorem snapshot_restore_roundtrip_witness:
  "\<exists>y. content (snd (version_restore site_env_sample ''bob'' 1 1 200 0 1000 (overwritten [2] (snd (snapped 100 site_sample)))))
     (file_of site_env_sample ''bob'' ''/a'') = Some (False, [1], y)"
proof -
  let ?R = "version_restore site_env_sample ''bob'' 1 1 200 0 1000 (overwritten [2] (snd (snapped 100 site_sample)))"
  have "fst ?R = Inr ()" by code_simp
  moreover have "content site_sample (file_of site_env_sample ''bob'' ''/a'') = Some (False, [1], None, None)" by code_simp
  ultimately show ?thesis
    using snapshot_restore_roundtrip [OF site_sample_wf sample_versions_inv plain_a sample_snapped [unfolded snapped_def]
        sample_overwritten [unfolded snapped_def] prod.collapse [symmetric], of 200 1 0 1000]
    by (auto simp: snapped_def)
qed

theorem same_second_overwrites_witness:
  "\<exists>s3 x. snapped 100 (overwritten [2] (snd (snapped 100 site_sample))) = (Inr None, s3) \<and>
     content s3 (version_of site_env_sample ''bob'' ''/a'' 100) = Some (False, [2], x)"
  using same_second_overwrites [OF site_sample_wf plain_a sample_snapped [unfolded snapped_def]
      sample_overwritten [unfolded snapped_def], of 1 1000]
  by (auto simp: snapped_def)
text \<open>The file overwritten twice, with both versions kept.\<close>

definition version_sample :: "int \<Rightarrow> int \<Rightarrow> version_entry" where
  "version_sample i t = \<lparr>ve_id = i, ve_storage = 1, ve_fileid = 7, ve_user = ''bob'', ve_path = ''/a'', ve_mtime = t, ve_size = 1\<rparr>"

definition versions_sample :: site where
  "versions_sample = site_sample\<lparr>
     dk_nodes := [([], sample_node True []), ([''data''], sample_node True []), ([''data'', ''bob''], sample_node True []),
        ([''data'', ''bob'', ''files''], sample_node True []), ([''data'', ''bob'', ''files'', ''a''], sample_node False [3]),
        ([''data'', ''bob'', ''files_versions''], sample_node True []),
        ([''data'', ''bob'', ''files_versions'', ''a.v100''], sample_node False [1]),
        ([''data'', ''bob'', ''files_versions'', ''a.v130''], sample_node False [2])],
     si_versions := [version_sample 1 100, version_sample 2 130], si_next_version := 3\<rparr>"

lemma versions_sample_wf: "disk_wf versions_sample"
  by code_simp

lemma versions_sample_rows: "si_versions versions_sample = [version_sample 1 100, version_sample 2 130]"
  "si_next_version versions_sample = 3"
  by (simp_all add: versions_sample_def)

lemma versions_sample_inv: "versions_inv versions_sample"
  using plain_a by (simp add: versions_inv_def versions_sample_rows version_sample_def)

theorem throttled_restore_loses_witness:
  "si_versions (snd (version_restore site_env_sample ''bob'' 1 1 200 3600 1000 versions_sample)) = si_versions versions_sample \<and>
   content (snd (version_restore site_env_sample ''bob'' 1 1 200 3600 1000 versions_sample))
     (version_of site_env_sample ''bob'' ''/a'' 130) = Some (False, [2], None, None)"
proof -
  let ?v = "version_sample 1 100" and ?s = versions_sample
  let ?R = "version_restore site_env_sample ''bob'' 1 1 200 3600 1000 ?s"
  have f: "ve_user ?v = ''bob''" "ve_path ?v = ''/a''" "ve_id ?v = 1" "ve_mtime ?v = 100" "ve_storage ?v = 1" "ve_fileid ?v = 7"
    by (simp_all add: version_sample_def)
  have th: "throttled 1 7 200 3600 ?s" by code_simp
  have c: "content ?s (version_of site_env_sample ''bob'' ''/a'' 100) = Some (False, [1], None, None)" by code_simp
  have "fst ?R = Inr ()" by code_simp
  then have R: "?R = (Inr (), snd ?R)" by (metis prod.collapse)
  have "?v \<in> set (si_versions ?s)" by (simp add: versions_sample_rows)
  note * = throttled_restore_loses [OF versions_sample_wf versions_sample_inv this f(1), unfolded f, OF th c R]
  have two: "content ?s (version_of site_env_sample ''bob'' ''/a'' 130) = Some (False, [2], None, None)" by code_simp
  then have "content (snd ?R) (version_of site_env_sample ''bob'' ''/a'' 130) = Some (False, [2], None, None)"
    using * file_not_version(2) by (metis option.distinct(1))
  then show ?thesis using * by blast
qed

theorem versions_confined_witness:
  "snd (version_delete site_env_sample ''eve'' 1 versions_sample) = versions_sample"
proof -
  have "\<not> (\<exists>v \<in> set (si_versions versions_sample). ve_id v = 1 \<and> ve_user v = ''eve'')"
    by (simp add: versions_sample_rows version_sample_def)
  then show ?thesis
    using versions_confined [where E = site_env_sample and u = "''eve''" and i = 1,
        OF versions_sample_wf versions_sample_inv disjI2 [OF prod.collapse [symmetric]]]
    by blast
qed

theorem sweep_is_retention_witness:
  "fst (sweep_tiered site_env_sample 200000 versions_sample) = 1"
proof -
  have rem: "\<forall>v \<in> set (si_versions versions_sample). removable site_env_sample versions_sample v" by code_simp
  have one: "\<forall>v \<in> set (si_versions versions_sample). \<forall>w \<in> set (si_versions versions_sample).
      ve_fileid v = ve_fileid w \<longrightarrow> ve_storage v = ve_storage w"
    by (simp add: versions_sample_rows version_sample_def)
  have "fst (sweep_tiered site_env_sample 200000 versions_sample) =
      length (filter (\<lambda>v. \<not> retained 200000 (si_versions versions_sample) v) (si_versions versions_sample))"
    using sweep_is_retention [OF versions_sample_wf versions_sample_inv rem one] by blast
  also have "\<dots> = 1"
    by (simp add: versions_sample_rows version_sample_def retained_def slot_of_def bucket_slot_def DAY_def HOUR_def)
  finally show ?thesis .
qed

end
