(* ===== verification/Trash_Correct.thy ===== *)
theory Trash_Correct
  imports Trash Versions_Correct
begin

text \<open>
  Properties of the trash bin: a deleted file or tree comes back as it was, a restore overwrites
  nothing, purges and sweeps remove what they answer for, and the cases in which bytes are lost
  or a bin gets stuck.
\<close>

section \<open>Paths\<close>

definition trashable :: "string \<Rightarrow> bool" where
  "trashable p \<longleftrightarrow> plain_path p \<and> CHR 0x5C \<notin> set p \<and> CHR 0x00 \<notin> set p"

definition trash_path :: "site_env \<Rightarrow> string \<Rightarrow> string \<Rightarrow> string \<Rightarrow> fpath" where
  "trash_path E u basename sfx = trash_dir E u @ [trash_name basename sfx]"

lemma trashable_valid: "trashable p \<Longrightarrow> validate_relative_path (trim_slashes p) = Inr ()"
proof -
  assume p: "trashable p"
  have "set (trim_slashes p) \<subseteq> set p" by (auto dest: set_dropWhileD)
  moreover have "\<not> starts_with (trim_slashes p) ''/''"
    using p plain_no_slash by (auto simp: trashable_def plain_path_def)
  moreover have "''..'' \<notin> set (split_on (CHR ''/'') (trim_slashes p))" using p by (auto simp: trashable_def plain_path_def plain_def)
  ultimately show ?thesis using p by (auto simp: validate_relative_path_def trashable_def)
qed

lemma trash_apart [simp]:
  "\<not> prefix (file_of E u p) (trash_path E u b x)" "\<not> prefix (trash_path E u b x) (file_of E u p)"
  "\<not> prefix (trash_path E u b x) (user_dir E u ''files'' @ r)" "file_of E u p \<noteq> trash_path E u b x"
  "\<not> prefix (user_dir E u ''files'') (trash_path E u b x)"
  "\<not> prefix (file_of E u p) (trash_dir E u)" "\<not> prefix (user_dir E u ''files'') (trash_dir E u)"
  by (simp_all add: file_of_def trash_path_def trash_dir_def user_dir_def)

lemma soft_delete_eq:
  assumes "trashable p"
  shows "soft_delete E u p kind fileid s =
     (let (t, s1) = site_now s;
          b = last (pieces p);
          sfx = resolve_unique_suffix E u b t s1
      in case create_dir_all (trash_dir E u) s1 of
           (Inl e, s2) \<Rightarrow> (Inl (TrIo e), s2)
         | (Inr _, s2) \<Rightarrow>
             (case try_exists (file_of E u p) s2 of
                Inl e \<Rightarrow> (Inl (TrIo e), s2)
              | Inr False \<Rightarrow> (Inl TrSourceMissing, s2)
              | Inr True \<Rightarrow>
                  (case rename (file_of E u p) (trash_path E u b sfx) s2 of
                     (Inl e, s3) \<Rightarrow> (Inl (TrIo e), s3)
                   | (Inr _, s3) \<Rightarrow> insert_trash E u b sfx (trash_location (trim_slashes p)) t kind fileid s3)))"
proof -
  have p: "plain_path p" using assms by (simp add: trashable_def)
  show ?thesis
    unfolding soft_delete_def Let_def trashable_valid [OF assms] plain_simps [OF p] sum.case option.case trash_path_def ..
qed

section \<open>Rows\<close>

definition name_taken :: "string \<Rightarrow> string \<Rightarrow> string \<Rightarrow> site \<Rightarrow> bool" where
  "name_taken u b x s \<longleftrightarrow> (\<exists>t \<in> set (si_trash s). te_user t = u \<and> te_basename t = b \<and> te_suffix t = x)"

definition trash_fits :: "site_env \<Rightarrow> string \<Rightarrow> string \<Rightarrow> string \<Rightarrow> string \<Rightarrow> bool" where
  "trash_fits E u b x l \<longleftrightarrow> se_dialect E \<noteq> MySql \<and> fits (se_dialect E) 64 u \<and> fits (se_dialect E) 255 b \<and>
     fits (se_dialect E) 32 x \<and> fits (se_dialect E) 512 l"

lemma insert_trash_eq:
  "insert_trash E u b x l d kind fileid s =
     (if se_dialect E = MySql then (Inl (TrDb ''syntax error near \"user\"''), s)
      else if \<not> trash_fits E u b x l then (Inl (TrDb ''value too long''), s)
      else if name_taken u b x s then (Inl (TrDb ''UNIQUE constraint failed''), s)
      else (Inr (si_next_trash s),
            s\<lparr>si_next_trash := si_next_trash s + 1,
              si_trash := si_trash s @
                [\<lparr>te_id = si_next_trash s, te_user = u, te_basename = b, te_suffix = x,
                  te_location = l, te_deleted = d, te_type = kind, te_fileid = fileid\<rparr>]\<rparr>))"
  by (auto simp: insert_trash_def trash_fits_def name_taken_def list_ex_iff)

lemma content_trash [simp]:
  "content (s\<lparr>si_trash := b\<rparr>) = content s" "content (s\<lparr>si_next_trash := a\<rparr>) = content s"
  by (rule ext, simp add: content_def)+

lemma disk_wf_trash [simp]:
  "disk_wf (s\<lparr>si_trash := b\<rparr>) = disk_wf s" "disk_wf (s\<lparr>si_next_trash := a\<rparr>) = disk_wf s"
  by (rule disk_wf_same; simp; fail)+

lemma insert_trash_frame:
  "content (snd (insert_trash E u b x l d kind fileid s)) = content s \<and>
   disk_wf (snd (insert_trash E u b x l d kind fileid s)) = disk_wf s \<and>
   si_versions (snd (insert_trash E u b x l d kind fileid s)) = si_versions s \<and>
   si_next_version (snd (insert_trash E u b x l d kind fileid s)) = si_next_version s \<and>
   set (si_trash s) \<subseteq> set (si_trash (snd (insert_trash E u b x l d kind fileid s)))"
  by (auto simp: insert_trash_eq)

definition trash_inv :: "site \<Rightarrow> bool" where
  "trash_inv s \<longleftrightarrow> distinct (map te_id (si_trash s)) \<and> (\<forall>t \<in> set (si_trash s). te_id t < si_next_trash s) \<and>
     distinct (map (\<lambda>t. (te_user t, te_basename t, te_suffix t)) (si_trash s))"

lemma insert_trash_inv: "trash_inv s \<Longrightarrow> trash_inv (snd (insert_trash E u b x l d kind fileid s))"
  by (auto simp: insert_trash_eq trash_inv_def name_taken_def)

lemma trash_by_id_row:
  assumes "trash_inv s" "t \<in> set (si_trash s)"
  shows "trash_by_id (te_id t) s = Inr t"
proof -
  have inj: "inj_on te_id (set (si_trash s))" using assms(1) by (simp add: trash_inv_def distinct_map)
  have "sql_first (\<lambda>w. te_id w = te_id t) (si_trash s) = Some t"
    by (rule sql_first_unique) (use assms(2) inj_onD [OF inj] in auto)
  then show ?thesis by (simp add: trash_by_id_def)
qed

lemma trash_by_id_Inr: "trash_by_id i s = Inr t \<Longrightarrow> t \<in> set (si_trash s) \<and> te_id t = i"
  by (auto simp: trash_by_id_def ok_or_def dest: sql_first_Some split: option.splits)

section \<open>What a soft delete does\<close>

text \<open>The tree at \<open>a\<close> is at \<open>b\<close> now, and the directories on the way to the bin exist.\<close>

definition tree_moved :: "fpath \<Rightarrow> fpath \<Rightarrow> fpath \<Rightarrow> 'd disk_scheme \<Rightarrow> 'd disk_scheme \<Rightarrow> bool" where
  "tree_moved bin a b d d' \<longleftrightarrow> (\<forall>q. content d' q =
     (if prefix b q then content d (a @ drop (length b) q) else if prefix a q then None
      else with_dirs {x. prefix x bin} d q))"

lemma soft_delete_cases:
  assumes run: "soft_delete E u p kind fileid s = (r, s')" and p: "trashable p" and wf: "disk_wf s"
  obtains (refused) e where "r = Inl e" "\<forall>m. e \<noteq> TrDb m" "si_trash s' = si_trash s" "si_next_trash s' = si_next_trash s"
      "content s' = content s \<or> content s' = with_dirs {x. prefix x (trash_dir E u)} s" "disk_wf s'"
    | (moved) t sfx s3 where "tree_moved (trash_dir E u) (file_of E u p) (trash_path E u (last (pieces p)) sfx) s s3"
        "content s (file_of E u p) \<noteq> None" "\<not> too_long (file_of E u p)" "\<not> too_long (trash_path E u (last (pieces p)) sfx)"
        "disk_wf s3" "same_rest s s3" "fst (site_now s) = t" "sfx = resolve_unique_suffix E u (last (pieces p)) t s"
        "insert_trash E u (last (pieces p)) sfx (trash_location (trim_slashes p)) t kind fileid s3 = (r, s')"
proof -
  let ?f = "file_of E u p" and ?b = "last (pieces p)" and ?bin = "trash_dir E u"
  obtain t s1 where now: "site_now s = (t, s1)" by fastforce
  note s1 = site_now_facts [OF now]
  have wf1: "disk_wf s1" using disk_wf_same [OF s1(2,3)] wf by simp
  let ?x = "resolve_unique_suffix E u ?b t s1"
  have sfx: "?x = resolve_unique_suffix E u ?b t s"
    using same_rest_site(3) [OF s1(1)] by (simp add: resolve_unique_suffix_def)
  obtain r2 s2 where mk: "create_dir_all ?bin s1 = (r2, s2)" by fastforce
  have s2: "disk_wf s2" "same_rest s s2" using disk_op_wf(5) [OF mk wf1] same_rest_trans [OF s1(1)] by simp_all
  note t2 = same_rest_site(3,4) [OF s2(2)]
  note run' = run [unfolded soft_delete_eq [OF p] Let_def now prod.case mk]
  from mk show thesis
  proof (cases rule: create_dir_all_cases)
    case (refused e)
    then show thesis using run' s1 t2 s2 by (intro that(1) [of "TrIo e"]) auto
  next
    case made
    have c2: "content s2 = with_dirs {x. prefix x ?bin} s" using made(3) s1(2) by (simp add: with_dirs_def fun_eq_iff)
    show thesis
    proof (cases "try_exists ?f s2")
      case (Inl e)
      then show thesis using run' made t2 s2 c2 by (intro that(1) [of "TrIo e"]) auto
    next
      case (Inr ex)
      show thesis
      proof (cases ex)
        case False
        then show thesis using run' made t2 s2 c2 Inr by (intro that(1) [of "TrSourceMissing"]) auto
      next
        case True
        obtain r3 s3 where ren: "rename ?f (trash_path E u ?b ?x) s2 = (r3, s3)" by fastforce
        have f: "content s2 ?f \<noteq> None" "\<not> too_long ?f" using Inr True by (simp_all add: try_exists_Inr_True content_None)
        from ren s2(1) show thesis
        proof (cases rule: rename_cases)
          case (refused e)
          then show thesis using run' made t2 s2 c2 Inr True ren by (intro that(1) [of "TrIo e"]) auto
        next
          case m: (moved x)
          have src: "with_dirs {x. prefix x ?bin} s (?f @ r) = content s (?f @ r)" for r
          proof -
            have "\<not> prefix (?f @ r) ?bin" using trash_apart(6) append_prefixD by blast
            then show ?thesis by (simp add: with_dirs_def)
          qed
          have tm: "tree_moved ?bin ?f (trash_path E u ?b ?x) s s3"
            unfolding tree_moved_def m(9) c2 using src by (auto simp: prefix_def)
          have "insert_trash E u ?b ?x (trash_location (trim_slashes p)) t kind fileid s3 = (r, s')"
            using run' made Inr True ren m(1) by simp
          moreover have "content s ?f \<noteq> None" using f(1) c2 src [of "[]"] by simp
          ultimately show thesis
            using that(2) [OF tm _ f(2) m(6) m(11) same_rest_trans [OF s2(2) m(10)] _ sfx] now by simp
        qed simp
      qed
    qed
  qed
qed
section \<open>Deleting and restoring\<close>

lemma rename_succeeds:
  assumes "content d a \<noteq> None" "\<not> too_long a" "\<not> too_long b" "content d b = None" "is_dir_at d (butlast b)"
    "\<not> too_long (butlast b)" "\<not> prefix a b"
  shows "fst (rename a b d) = Inr ()"
proof -
  obtain n where n: "node_at d a = Some n" using assms(1) by (auto simp: content_def)
  obtain m where m: "node_at d (butlast b) = Some m" "nd_dir m" using assms(5) by (auto simp: is_dir_at_def split: option.splits)
  have "metadata_at (butlast b) d = Inr m" using m assms(6) by (simp add: metadata_at_Inr)
  then have "parent_error b d = None" using m assms(3) by (simp add: parent_error_def)
  moreover have "node_at d b = None" using assms(4) by (simp add: content_None)
  ultimately have "rename_error n a b d = None"
    using assms(7) by (auto simp: rename_error_def strict_prefix_def)
  moreover have "metadata_at a d = Inr n" using n assms(2) by (simp add: metadata_at_Inr)
  moreover have "a \<noteq> b" using assms(7) by auto
  ultimately show ?thesis by (simp add: rename_def)
qed

lemma dir_not_through_file:
  assumes "disk_wf d" "is_dir_at d p"
  shows "\<not> through_file d (p @ [x])"
proof -
  have "\<not> is_file_at d (take n (p @ [x]))" if "n < length (p @ [x])" for n
  proof -
    have t: "take n (p @ [x]) = take n p" using that by simp
    have "node_at d p \<noteq> None" using assms(2) by (auto simp: is_dir_at_def split: option.splits)
    then have "is_dir_at d (take n p)"
      using wf_above [OF assms(1)] assms(2) by (cases "take n p = p") (auto simp: strict_prefix_def take_is_prefix)
    then show ?thesis unfolding t by (auto simp: is_dir_at_def is_file_at_def split: option.splits)
  qed
  then show ?thesis unfolding through_file_def list_ex_iff by fastforce
qed

lemma too_long_butlast: "too_long (butlast p) \<Longrightarrow> too_long p"
  by (rule too_long_prefix [OF prefixeq_butlast])

text \<open>The location of a row leads back to the directory of the file.\<close>

lemma location_back:
  assumes "plain_path p"
  shows "trim_slashes (trash_location (trim_slashes p)) = join_with (CHR ''/'') (butlast (pieces p))"
    and "path_join (user_dir E u ''files'') (join_with (CHR ''/'') (butlast (pieces p))) = user_dir E u ''files'' @ butlast (pieces p)"
    and "(if join_with (CHR ''/'') (butlast (pieces p)) = [] then CHR ''/'' # last (pieces p)
          else CHR ''/'' # join_with (CHR ''/'') (butlast (pieces p)) @ CHR ''/'' # last (pieces p)) = CHR ''/'' # trim_slashes p"
proof -
  let ?b = "butlast (pieces p)" and ?j = "join_with (CHR ''/'') (butlast (pieces p))"
  have p: "plain (trim_slashes p)" using assms by (simp add: plain_path_def)
  show "path_join (user_dir E u ''files'') ?j = user_dir E u ''files'' @ ?b"
    using join_butlast_plain [OF p] by (simp add: pieces_def)
  have ok: "\<forall>x \<in> set ?b. x \<noteq> [] \<and> CHR ''/'' \<notin> set x" using plain_pieces [OF assms] by (auto dest: in_set_butlastD)
  have hd: "?j = [] \<or> hd ?j \<noteq> CHR ''/''"
  proof (cases ?b)
    case (Cons x xs)
    then have "x \<noteq> []" "CHR ''/'' \<notin> set x" using ok by simp_all
    then show ?thesis unfolding Cons by (cases x; cases xs) auto
  qed simp
  have loc: "trash_location (trim_slashes p) = (if ?j = [] then ''/'' else CHR ''/'' # ?j)"
    using path_parent_plain [OF p] by (simp add: trash_location_def pieces_def)
  show "trim_slashes (trash_location (trim_slashes p)) = ?j"
    using hd unfolding loc by (cases ?j) auto
  have whole: "join_with (CHR ''/'') (pieces p) = trim_slashes p" by (simp add: pieces_def join_split)
  have snoc: "pieces p = ?b @ [last (pieces p)]" by simp
  show "(if ?j = [] then CHR ''/'' # last (pieces p) else CHR ''/'' # ?j @ CHR ''/'' # last (pieces p)) = CHR ''/'' # trim_slashes p"
  proof (cases "?b = []")
    case True
    then have "pieces p = [last (pieces p)]" using snoc by simp
    then have "last (pieces p) = trim_slashes p" using whole by (metis join_with.simps(2))
    then show ?thesis using True by simp
  next
    case False
    have "?j \<noteq> []"
    proof (cases ?b)
      case (Cons x xs)
      then show ?thesis using ok by (cases xs) auto
    qed (use False in simp)
    moreover have "?j @ CHR ''/'' # last (pieces p) = trim_slashes p"
      using join_with_snoc [OF False, of "CHR ''/''" "last (pieces p)"] whole snoc by metis
    ultimately show ?thesis by simp
  qed
qed

lemma dir_at_same: "content d' = content d \<Longrightarrow> is_dir_at d' p = is_dir_at d p"
  by (simp add: is_dir_at_content)

lemma deleted_row:
  "si_trash (delete_trash_row i s) = filter (\<lambda>t. te_id t \<noteq> i) (si_trash s)"
  "content (delete_trash_row i s) = content s" "disk_wf (delete_trash_row i s) = disk_wf s"
  "si_next_trash (delete_trash_row i s) = si_next_trash s" "si_versions (delete_trash_row i s) = si_versions s"
  by (simp_all add: delete_trash_row_def sql_delete_def)

lemma restore_to_free_place:
  assumes wf: "disk_wf s" and inv: "trash_inv s" and t: "t \<in> set (si_trash s)" "te_user t = u"
    "te_location t = trash_location (trim_slashes p)" "te_basename t = last (pieces p)" and p: "plain_path p"
    and place: "content s (file_of E u p) = None" "\<not> too_long (file_of E u p)" "is_dir_at s (butlast (file_of E u p))"
    and entry: "content s (trash_path E u (te_basename t) (te_suffix t)) \<noteq> None" "\<not> too_long (trash_path E u (te_basename t) (te_suffix t))"
  shows "\<exists>s'. trash_restore E u (te_id t) None s = (Inr (CHR ''/'' # trim_slashes p), s') \<and>
    (\<forall>r. content s' (file_of E u p @ r) = content s (trash_path E u (te_basename t) (te_suffix t) @ r)) \<and>
    si_trash s' = filter (\<lambda>w. te_id w \<noteq> te_id t) (si_trash s)"
proof -
  let ?f = "file_of E u p" and ?b = "last (pieces p)" and ?src = "trash_path E u (te_basename t) (te_suffix t)"
    and ?dir = "user_dir E u ''files'' @ butlast (pieces p)"
  have f: "?f = ?dir @ [?b]" by (simp add: file_of_def)
  have dir: "is_dir_at s ?dir" using place(3) by (simp add: file_of_def butlast_append)
  have "prefix ?dir ?f" unfolding f by (rule prefixI) (rule refl)
  then have short: "\<not> too_long ?dir" using place(2) too_long_prefix by blast
  obtain r1 s1 where mk: "create_dir_all ?dir s = (r1, s1)" by fastforce
  then have mk': "r1 = Inr ()" "content s1 = content s" using create_dir_all_existing [OF mk dir wf short] by simp_all
  have s1: "disk_wf s1" "same_rest s s1" using disk_op_wf(5) [OF mk wf] by simp_all
  have c1: "content s1 ?f = None" "content s1 ?src \<noteq> None" "is_dir_at s1 ?dir"
    using place(1) entry(1) dir dir_at_same [OF mk'(2)] unfolding mk'(2) by simp_all
  have free: "try_exists (?dir @ [restored_name ?b 0]) s1 = Inr False"
    using dir_not_through_file [OF s1(1) c1(3), of ?b] place(2) c1(1) unfolding try_exists_Inr_False f content_None
    by (simp add: restored_name_def)
  have pick: "pick_non_colliding_name ?dir (join_with (CHR ''/'') (butlast (pieces p))) ?b s1 = Inr (?b, CHR ''/'' # trim_slashes p)"
    unfolding pick_non_colliding_name_def upt_conv_Cons [OF zero_less_Suc] pick_name.simps Let_def free sum.case bool.case
    by (simp only: location_back(3) [OF p] restored_name_def refl if_True)
  have src: "try_exists ?src s1 = Inr True" using c1(2) entry(2) by (simp add: try_exists_Inr_True content_None)
  have "fst (rename ?src ?f s1) = Inr ()"
  proof (rule rename_succeeds [OF c1(2) entry(2) place(2) c1(1)])
    have "butlast ?f = ?dir" unfolding f by (rule butlast_snoc)
    then show "is_dir_at s1 (butlast ?f)" "\<not> too_long (butlast ?f)" using c1(3) short by simp_all
  qed (rule trash_apart(2))
  then obtain s2 where ren: "rename ?src ?f s1 = (Inr (), s2)" by (metis prod.collapse)
  have c2: "content s2 (?f @ r) = content s1 (?src @ r)" and s2: "same_rest s1 s2" for r
    by (use ren s1(1) in \<open>cases rule: rename_cases; auto\<close>)+
  let ?fin = "emit_restored E FileRestored ''file_restored_you'' ''file_restored_by'' ObjFile u (CHR ''/'' # trim_slashes p)
    (te_fileid t) (delete_trash_row (te_id t) s2)"
  have "trash_restore E u (te_id t) None s = (Inr (CHR ''/'' # trim_slashes p), ?fin)"
    unfolding trash_restore_def trash_by_id_row [OF inv t(1)] sum.case t(2) not_True_eq_False refl if_False
      restore_target_def option.case t(3,4) location_back(1,2) [OF p] prod.case Let_def mk mk'(1) pick
      trash_path_def [symmetric] f [symmetric] src [unfolded t(4)] bool.case ren [unfolded t(4)] by simp
  moreover have "content ?fin = content s2" "si_trash ?fin = si_trash (delete_trash_row (te_id t) s2)"
    using emit_restored_facts deleted_row(2) by metis+
  ultimately show ?thesis
    using c2 mk'(2) same_rest_site(3) [OF s2] same_rest_site(3) [OF s1(2)] by (auto simp: deleted_row(1))
qed

lemma insert_trash_Inr:
  assumes "insert_trash E u b x l d kind fileid s = (Inr i, s')"
  shows "i = si_next_trash s" "content s' = content s" "disk_wf s' = disk_wf s"
    "si_trash s' = si_trash s @ [\<lparr>te_id = i, te_user = u, te_basename = b, te_suffix = x, te_location = l,
       te_deleted = d, te_type = kind, te_fileid = fileid\<rparr>]" "\<not> name_taken u b x s" "trash_fits E u b x l"
  using assms by (auto simp: insert_trash_eq split: if_splits)

text \<open>
  C23. A deleted file or tree comes back: a restore right after the deletion puts every node of
  it back where it was, with the content it had, and the row of the bin is gone.
\<close>

theorem delete_restore_roundtrip:
  assumes "disk_wf s" "trash_inv s" "trashable p" and del: "soft_delete E u p kind fileid s = (Inr i, s1)"
  shows "(\<forall>r. content s1 (file_of E u p @ r) = None) \<and>
    (\<exists>s2. trash_restore E u i None s1 = (Inr (CHR ''/'' # trim_slashes p), s2) \<and>
      (\<forall>r. content s2 (file_of E u p @ r) = content s (file_of E u p @ r)) \<and> si_trash s2 = si_trash s)"
proof -
  let ?f = "file_of E u p" and ?b = "last (pieces p)"
  have p: "plain_path p" using assms(3) by (simp add: trashable_def)
  from del assms(3,1) show ?thesis
  proof (cases rule: soft_delete_cases)
    case (moved t x s3)
    let ?dst = "trash_path E u ?b x"
    let ?row = "\<lparr>te_id = i, te_user = u, te_basename = ?b, te_suffix = x, te_location = trash_location (trim_slashes p),
       te_deleted = t, te_type = kind, te_fileid = fileid\<rparr>"
    note ins = insert_trash_Inr [OF moved(9)]
    have rows: "si_trash s3 = si_trash s" "si_next_trash s3 = si_next_trash s" using same_rest_site(3,4) [OF moved(6)] by simp_all
    then have inv3: "trash_inv s3" using assms(2) by (simp add: trash_inv_def)
    have inv1: "trash_inv s1" using insert_trash_inv [OF inv3] moved(9) by (metis snd_conv)
    have c3: "content s1 q = (if prefix ?dst q then content s (?f @ drop (length ?dst) q) else if prefix ?f q then None
        else with_dirs {x. prefix x (trash_dir E u)} s q)" for q
      using moved(1) unfolding tree_moved_def ins(2) by blast
    have gone: "content s1 (?f @ r) = None" and there: "content s1 (?dst @ r) = content s (?f @ r)" for r
    proof -
      have "\<not> prefix ?dst (?f @ r)" using trash_apart(3) by (simp add: file_of_def)
      then show "content s1 (?f @ r) = None" unfolding c3 by simp
    qed (simp add: c3)
    have "?f \<noteq> []" by (simp add: file_of_def)
    then have "is_dir_at s (butlast ?f)" using moved(2) assms(1) by (simp add: disk_wf_content is_dir_at_content)
    moreover have "\<not> prefix ?f (butlast ?f)" using \<open>?f \<noteq> []\<close> by (metis prefix_length_le length_butlast diff_less length_greater_0_conv not_le zero_less_one)
    moreover have "\<not> prefix ?dst (butlast ?f)" using prefix_butlast trash_apart(2) by blast
    ultimately have par: "is_dir_at s1 (butlast ?f)" by (auto simp: is_dir_at_content c3 with_dirs_def)
    have new: "te_id w \<noteq> i" if "w \<in> set (si_trash s)" for w
      using that assms(2) ins(1) rows(2) by (auto simp: trash_inv_def)
    have row: "?row \<in> set (si_trash s1)" unfolding ins(4) by simp
    have wf1: "disk_wf s1" and free: "content s1 ?f = None" and entry: "content s1 ?dst \<noteq> None"
      using gone [of "[]"] there [of "[]"] moved(2,5) ins(3) by simp_all
    obtain s2 where "trash_restore E u i None s1 = (Inr (CHR ''/'' # trim_slashes p), s2)"
        "\<forall>r. content s2 (?f @ r) = content s1 (?dst @ r)" "si_trash s2 = filter (\<lambda>w. te_id w \<noteq> i) (si_trash s1)"
      using restore_to_free_place [OF wf1 inv1 row, unfolded trash_entry.simps, OF refl refl refl p free moved(3) par entry moved(4)]
      by blast
    moreover have "filter (\<lambda>w. te_id w \<noteq> i) (si_trash s1) = si_trash s"
      unfolding ins(4) rows using new by (simp add: filter_True)
    ultimately show ?thesis using gone there by auto
  qed auto
qed

lemma insert_trash_Inl:
  assumes "insert_trash E u b x l d kind fileid s = (Inl e, s')"
  shows "\<exists>m. e = TrDb m" "s' = s" "name_taken u b x s \<or> \<not> trash_fits E u b x l"
  using assms by (auto simp: insert_trash_eq trash_fits_def split: if_splits)

lemma moved_content:
  assumes "tree_moved (trash_dir E u) (file_of E u p) (trash_path E u b x) s s3"
  shows "content s3 (file_of E u p @ r) = None" "content s3 (trash_path E u b x @ r) = content s (file_of E u p @ r)"
proof -
  have "\<not> prefix (trash_path E u b x) (file_of E u p @ r)" using trash_apart(3) by (simp add: file_of_def)
  then show "content s3 (file_of E u p @ r) = None" "content s3 (trash_path E u b x @ r) = content s (file_of E u p @ r)"
    using assms by (simp_all add: tree_moved_def)
qed

text \<open>
  C24. What a soft delete does with the nodes and the rows, for each outcome: success moves the
  tree to the bin and adds the one row that names it; a database error comes after the move and
  leaves the tree in the bin with no row that names it, which is what every soft delete of an
  existing file does on MySQL; any other error leaves the tree and the rows as they were.
\<close>

theorem soft_delete_outcomes:
  assumes "disk_wf s" "trashable p" and del: "soft_delete E u p kind fileid s = (res, s1)"
  shows "case res of
      Inr i \<Rightarrow> (\<exists>row. te_id row = i \<and> te_user row = u \<and> te_location row = trash_location (trim_slashes p) \<and>
          si_trash s1 = si_trash s @ [row] \<and> se_dialect E \<noteq> MySql \<and> (\<forall>r. content s1 (file_of E u p @ r) = None) \<and>
          (\<forall>r. content s1 (trash_path E u (te_basename row) (te_suffix row) @ r) = content s (file_of E u p @ r)))
    | Inl e \<Rightarrow> si_trash s1 = si_trash s \<and>
        (if \<exists>m. e = TrDb m then (\<forall>r. content s1 (file_of E u p @ r) = None) \<and>
            (\<exists>b x. (name_taken u b x s \<or> \<not> trash_fits E u b x (trash_location (trim_slashes p))) \<and>
              (\<forall>r. content s1 (trash_path E u b x @ r) = content s (file_of E u p @ r)))
         else \<forall>r. content s1 (file_of E u p @ r) = content s (file_of E u p @ r))"
  using del assms(2,1)
proof (cases rule: soft_delete_cases)
  case (refused e)
  have "\<not> prefix (file_of E u p @ r) (trash_dir E u)" for r using trash_apart(6) append_prefixD by blast
  then have "content s1 (file_of E u p @ r) = content s (file_of E u p @ r)" for r
    using refused(5) by (auto simp: with_dirs_def)
  then show ?thesis using refused(1-3) by simp
next
  case (moved t x s3)
  note c = moved_content [OF moved(1)]
  have rows: "si_trash s3 = si_trash s" using same_rest_site(3) [OF moved(6)] .
  have taken: "name_taken u b x s3 = name_taken u b x s" for b using rows by (simp add: name_taken_def)
  show ?thesis
  proof (cases res)
    case (Inl e)
    note ins = insert_trash_Inl [OF moved(9) [unfolded Inl]]
    show ?thesis unfolding Inl sum.case using ins c rows taken by auto
  next
    case (Inr i)
    note ins = insert_trash_Inr [OF moved(9) [unfolded Inr]]
    then show ?thesis unfolding Inr sum.case ins(2,4) rows using c by (auto simp: trash_fits_def)
  qed
qed

section \<open>Purges and the sweep\<close>

text \<open>Only removals.\<close>

definition shrinks :: "site \<Rightarrow> site \<Rightarrow> bool" where
  "shrinks s s' \<longleftrightarrow> (\<forall>q. content s' q \<noteq> None \<longrightarrow> content s' q = content s q)"

lemma shrinks_refl [simp]: "shrinks s s"
  by (simp add: shrinks_def)

lemma shrinks_trans [trans]: "shrinks a b \<Longrightarrow> shrinks b c \<Longrightarrow> shrinks a c"
  unfolding shrinks_def by metis

lemma shrinks_same: "content s' = content s \<Longrightarrow> shrinks s s'"
  by (simp add: shrinks_def)

abbreviation entry_path :: "site_env \<Rightarrow> trash_entry \<Rightarrow> fpath" where
  "entry_path E t \<equiv> trash_path E (te_user t) (te_basename t) (te_suffix t)"

text \<open>A row whose tree the file system lets the service remove, or that is gone already.\<close>

definition purgeable :: "site_env \<Rightarrow> site \<Rightarrow> trash_entry \<Rightarrow> bool" where
  "purgeable E s t \<longleftrightarrow> \<not> too_long (entry_path E t) \<and> \<not> through_file s (entry_path E t) \<and>
     (content s (entry_path E t) = None \<or> is_dir_at s (entry_path E t) = (te_type t = TrashDir))"

lemma purgeable_shrinks:
  assumes "purgeable E s t" "shrinks s s'"
  shows "purgeable E s' t"
proof -
  have node: "is_file_at s' q \<Longrightarrow> is_file_at s q" for q
    using assms(2) unfolding is_file_at_content shrinks_def by (metis option.distinct(1))
  have dir: "content s' q = None \<or> is_dir_at s' q = is_dir_at s q" for q
    using assms(2) unfolding is_dir_at_content shrinks_def by metis
  show ?thesis
    using assms node dir [of "entry_path E t"] unfolding purgeable_def through_file_def list_ex_iff shrinks_def by metis
qed

lemma delete_versions_frame:
  assumes "delete_versions E vs s = (n, s')" "disk_wf s" "\<forall>v \<in> set vs. plain_path (ve_path v) \<and> ve_user v = u" "versions_inv s"
  shows "shrinks s s' \<and> disk_wf s' \<and> versions_inv s' \<and> other_tables s s' \<and>
    (\<forall>q. \<not> prefix (user_dir E u ''files_versions'') q \<longrightarrow> content s' q = content s q)"
  using assms
proof (induction vs arbitrary: s n)
  case Nil
  then show ?case by simp
next
  case (Cons v vs)
  have p: "plain_path (ve_path v)" "ve_user v = u" using Cons.prems(3) by simp_all
  obtain r s1 where del: "delete_version_entry E v s = (r, s1)" by fastforce
  from del p(1) Cons.prems(2) have one: "shrinks s s1 \<and> disk_wf s1 \<and> versions_inv s1 \<and> other_tables s s1 \<and>
      (\<forall>q. \<not> prefix (user_dir E u ''files_versions'') q \<longrightarrow> content s1 q = content s q)"
  proof (cases rule: delete_version_cases)
    case deleted
    have "versions_inv s1"
      using Cons.prems(4) unfolding versions_inv_def deleted(2,5) by (auto simp: distinct_map_filter)
    moreover have "shrinks s s1" unfolding shrinks_def deleted(3) by simp
    ultimately show ?thesis using deleted(3,4,6) version_below [of E u] p(2) by auto
  qed (use Cons.prems in simp)
  obtain n' where rest: "delete_versions E vs s1 = (n', s')"
    using Cons.prems(1) del by (auto split: sum.splits prod.splits)
  have "shrinks s1 s' \<and> disk_wf s' \<and> versions_inv s' \<and> other_tables s1 s' \<and>
      (\<forall>q. \<not> prefix (user_dir E u ''files_versions'') q \<longrightarrow> content s' q = content s1 q)"
    using Cons.IH [OF rest] one Cons.prems(3) by simp
  then show ?case using one shrinks_trans other_tables_trans by simp blast
qed

text \<open>The versions that go with an entry.\<close>

definition entry_versions_gone :: "site_env \<Rightarrow> trash_entry \<Rightarrow> site \<Rightarrow> site" where
  "entry_versions_gone E t s =
     (case te_fileid t of Some fileid \<Rightarrow> snd (purge_for_user_fileid E (te_user t) fileid s) | None \<Rightarrow> s)"

lemma entry_versions_gone_frame:
  assumes "disk_wf s" "versions_inv s" "entry_versions_gone E t s = s'"
  shows "shrinks s s' \<and> disk_wf s' \<and> versions_inv s' \<and> other_tables s s' \<and>
    (\<forall>q. \<not> prefix (user_dir E (te_user t) ''files_versions'') q \<longrightarrow> content s' q = content s q)"
proof (cases "te_fileid t")
  case (Some i)
  let ?vs = "filter (\<lambda>v. ve_user v = te_user t \<and> ve_fileid v = i) (si_versions s)"
  have s': "delete_versions E ?vs s = (fst (delete_versions E ?vs s), s')"
    using assms(3) Some by (simp add: entry_versions_gone_def purge_for_user_fileid_def prod_eq_iff)
  have "\<forall>v \<in> set ?vs. plain_path (ve_path v) \<and> ve_user v = te_user t" using assms(2) by (simp add: versions_inv_def)
  then show ?thesis using delete_versions_frame [OF s' assms(1) _ assms(2)] by blast
qed (use assms in \<open>simp add: entry_versions_gone_def\<close>)

lemma purge_entry_eq:
  "purge_entry E t s = (let s1 = entry_versions_gone E t s in
     case try_exists (entry_path E t) s1 of
       Inl e \<Rightarrow> (Inl (TrIo e), s1)
     | Inr False \<Rightarrow> (Inr (), delete_trash_row (te_id t) s1)
     | Inr True \<Rightarrow>
         (case (if te_type t = TrashDir then remove_dir_all (entry_path E t) s1 else remove_file (entry_path E t) s1) of
            (Inl e, s2) \<Rightarrow> (Inl (TrIo e), s2)
          | (Inr _, s2) \<Rightarrow> (Inr (), delete_trash_row (te_id t) s2)))"
  unfolding purge_entry_def entry_versions_gone_def trash_path_def Let_def ..

lemma entry_path_ne [simp]: "entry_path E t \<noteq> []"
  by (simp add: trash_path_def)

lemma purge_entry_cases:
  assumes run: "purge_entry E t s = (r, s')" and wf: "disk_wf s" "versions_inv s"
  obtains (purged) "r = Inr ()" "si_trash s' = filter (\<lambda>w. te_id w \<noteq> te_id t) (si_trash s)"
      "\<And>q. \<not> prefix (user_dir E (te_user t) ''files_versions'') q \<Longrightarrow>
         content s' q = (if prefix (entry_path E t) q then None else content s q)"
      "shrinks s s'" "disk_wf s'" "versions_inv s'" "si_next_trash s' = si_next_trash s"
    | (stuck) e where "r = Inl (TrIo e)" "si_trash s' = si_trash s" "\<not> purgeable E s t"
      "\<And>q. \<not> prefix (user_dir E (te_user t) ''files_versions'') q \<Longrightarrow> content s' q = content s q"
      "shrinks s s'" "disk_wf s'" "versions_inv s'" "si_next_trash s' = si_next_trash s"
proof -
  let ?p = "entry_path E t"
  obtain s1 where s1: "entry_versions_gone E t s = s1" by simp
  note f = entry_versions_gone_frame [OF wf s1, unfolded other_tables_def]
  note run' = run [unfolded purge_entry_eq Let_def s1]
  have away: "prefix ?p q \<Longrightarrow> \<not> prefix (user_dir E (te_user t) ''files_versions'') q" for q
    by (auto simp: trash_path_def trash_dir_def user_dir_def prefix_def)
  have purgeable1: "purgeable E s t \<Longrightarrow> purgeable E s1 t" using purgeable_shrinks f by blast
  show thesis
  proof (cases "try_exists ?p s1")
    case (Inl e)
    then have "\<not> purgeable E s1 t"
      by (auto simp: purgeable_def try_exists_def metadata_at_def lookup_error_def split: if_splits option.splits)
    then show thesis using run' Inl f purgeable1 by (intro stuck [of e]) auto
  next
    case (Inr ex)
    show thesis
    proof (cases ex)
      case False
      then have "content s1 ?p = None" using Inr by (simp add: try_exists_Inr_False content_None)
      then have none: "content s1 q = None" if "prefix ?p q" for q
      proof (cases "q = ?p")
        case False
        have "\<not> is_dir_at s1 ?p" using \<open>content s1 ?p = None\<close> by (simp add: is_dir_at_content)
        then show ?thesis using wf_file_tree [of s1 ?p q] f that False by blast
      qed (use \<open>content s1 ?p = None\<close> in simp)
      have s': "r = Inr ()" "s' = delete_trash_row (te_id t) s1" using run' Inr False by simp_all
      show thesis
      proof (rule purged [OF s'(1)])
        show "versions_inv s'" using f unfolding s'(2) by (simp add: versions_inv_def delete_trash_row_def)
        show "\<And>q. \<not> prefix (user_dir E (te_user t) ''files_versions'') q \<Longrightarrow>
            content s' q = (if prefix ?p q then None else content s q)"
          using none f unfolding s'(2) deleted_row(2) by auto
      qed (use f shrinks_same in \<open>auto simp: s' deleted_row shrinks_def\<close>)
    next
      case True
      then have there: "\<not> too_long ?p" "node_at s1 ?p \<noteq> None" using Inr by (simp_all add: try_exists_Inr_True)
      let ?rm = "if te_type t = TrashDir then remove_dir_all ?p s1 else remove_file ?p s1"
      obtain r2 s2 where rm: "?rm = (r2, s2)" by fastforce
      have ok: "(\<exists>e. r2 = Inl e \<and> s2 = s1 \<and> \<not> purgeable E s1 t) \<or> r2 = Inr () \<and> same_rest s1 s2 \<and> disk_wf s2 \<and>
          (\<forall>q. content s2 q = (if prefix ?p q then None else content s1 q))"
      proof (cases "te_type t = TrashDir")
        case dir: True
        then have "remove_dir_all ?p s1 = (r2, s2)" using rm by simp
        then show ?thesis
        proof (cases rule: remove_dir_all_cases)
          case (refused e)
          moreover have "\<not> purgeable E s1 t"
            using refused(1) there dir rm unfolding purgeable_def
            by (auto simp: remove_dir_all_def metadata_at_def is_dir_at_def content_None split: if_splits option.splits)
          ultimately show ?thesis by blast
        qed (use f entry_path_ne in blast)
      next
        case plain: False
        then have "remove_file ?p s1 = (r2, s2)" using rm by simp
        then show ?thesis
        proof (cases rule: remove_file_cases)
          case (refused e)
          moreover have "\<not> purgeable E s1 t"
            using refused(1) there plain rm unfolding purgeable_def
            by (auto simp: remove_file_def metadata_at_def is_dir_at_def content_None split: if_splits option.splits)
          ultimately show ?thesis by blast
        qed (use f in blast)
      qed
      then show thesis
      proof (elim disjE exE conjE)
        fix e
        assume "r2 = Inl e" "s2 = s1" "\<not> purgeable E s1 t"
        then show thesis using run' Inr True rm f purgeable1 by (intro stuck [of e]) auto
      next
        assume r2: "r2 = Inr ()" "same_rest s1 s2" "disk_wf s2" and c2: "\<forall>q. content s2 q = (if prefix ?p q then None else content s1 q)"
        have s': "r = Inr ()" "s' = delete_trash_row (te_id t) s2" using run' Inr True rm r2(1) by simp_all
        note rest = same_rest_site [OF r2(2)]
        have "shrinks s1 s'" using c2 unfolding s'(2) deleted_row(2) shrinks_def by metis
        moreover have "versions_inv s'" using f rest(1,2) unfolding s'(2) by (simp add: versions_inv_def delete_trash_row_def)
        ultimately show thesis
          using f rest(3,4) r2(3) c2 shrinks_trans [of s s1 s'] by (intro purged [OF s'(1)]) (auto simp: s'(2) deleted_row)
      qed
    qed
  qed
qed

lemma sweep_list_rows:
  assumes "disk_wf s" "versions_inv s" "\<forall>t \<in> set ts. purgeable E s t"
  shows "\<exists>s'. sweep_list E ts s = (length ts, s') \<and> purge_list E ts s = (Inr (length ts), s') \<and> disk_wf s' \<and> versions_inv s' \<and>
    shrinks s s' \<and> si_trash s' = filter (\<lambda>w. te_id w \<notin> te_id ` set ts) (si_trash s)"
  using assms
proof (induction ts arbitrary: s)
  case Nil
  then show ?case by simp
next
  case (Cons t ts)
  obtain r s1 where run: "purge_entry E t s = (r, s1)" by fastforce
  from run Cons.prems(1,2) show ?case
  proof (cases rule: purge_entry_cases)
    case purged
    have "\<forall>w \<in> set ts. purgeable E s1 w" using Cons.prems(3) purgeable_shrinks purged(4) by auto
    then obtain s' where s': "sweep_list E ts s1 = (length ts, s')" "purge_list E ts s1 = (Inr (length ts), s')" "disk_wf s'"
        "versions_inv s'" "shrinks s1 s'" "si_trash s' = filter (\<lambda>w. te_id w \<notin> te_id ` set ts) (si_trash s1)"
      using Cons.IH [OF purged(5,6)] by blast
    have "si_trash s' = filter (\<lambda>w. te_id w \<notin> te_id ` set (t # ts)) (si_trash s)"
      unfolding s'(6) purged(2) filter_filter by (rule filter_cong) auto
    then show ?thesis using run purged(1,4) s' shrinks_trans by (auto simp: ebind_def)
  next
    case (stuck e)
    then show ?thesis using Cons.prems(3) by simp
  qed
qed

abbreviation expired :: "int \<Rightarrow> site \<Rightarrow> trash_entry list" where
  "expired cutoff s \<equiv> filter (\<lambda>t. te_deleted t < cutoff) (si_trash s)"

lemma length_filter_minus:
  assumes "distinct (map f xs)" "set ys \<subseteq> set xs" "distinct (map f ys)"
  shows "length (filter (\<lambda>x. f x \<notin> f ` set ys) xs) = length xs - length ys"
proof -
  have inj: "inj_on f (set xs)" using assms(1) by (simp add: distinct_map)
  have "{x \<in> set xs. f x \<notin> f ` set ys} = set xs - set ys"
    using assms(2) inj_onD [OF inj] by blast
  moreover have "distinct xs" "distinct ys" using assms(1,3) by (simp_all add: distinct_map)
  ultimately show ?thesis
    using assms(2) by (simp add: distinct_card [symmetric] card_Diff_subset)
qed

lemma trash_sweep_step:
  assumes "disk_wf s" "versions_inv s" "distinct (map te_id (si_trash s))" "\<forall>t \<in> set (expired cutoff s). purgeable E s t"
    "trash_sweep_expired E cutoff batch s = (n, s')"
  shows "disk_wf s' \<and> versions_inv s' \<and> distinct (map te_id (si_trash s')) \<and> (\<forall>t \<in> set (expired cutoff s'). purgeable E s' t) \<and>
    n = min (length (expired cutoff s)) batch \<and> length (expired cutoff s') = length (expired cutoff s) - batch \<and>
    filter (\<lambda>t. cutoff \<le> te_deleted t) (si_trash s') = filter (\<lambda>t. cutoff \<le> te_deleted t) (si_trash s)"
proof -
  let ?ts = "take batch (expired cutoff s)"
  have sub: "set ?ts \<subseteq> set (expired cutoff s)" by (rule set_take_subset)
  then have "\<forall>t \<in> set ?ts. purgeable E s t" using assms(4) by blast
  then obtain s1 where s1: "sweep_list E ?ts s = (length ?ts, s1)" "disk_wf s1" "versions_inv s1"
      "shrinks s s1" "si_trash s1 = filter (\<lambda>w. te_id w \<notin> te_id ` set ?ts) (si_trash s)"
    using sweep_list_rows [OF assms(1,2)] by blast
  have s': "n = length ?ts" "s' = s1" using assms(5) s1(1) by (simp_all add: trash_sweep_expired_def)
  have inj: "inj_on te_id (set (si_trash s))" and dist: "distinct (map te_id (expired cutoff s))"
    using assms(3) by (simp add: distinct_map) (rule distinct_map_filter [OF assms(3)])
  have dist': "distinct (map te_id ?ts)" using dist by (simp add: take_map [symmetric])
  have "expired cutoff s1 = filter (\<lambda>w. te_id w \<notin> te_id ` set ?ts) (expired cutoff s)"
    unfolding s1(5) filter_filter by (rule filter_cong) auto
  then have len: "length (expired cutoff s1) = length (expired cutoff s) - batch"
    using length_filter_minus [OF dist sub dist'] by (simp add: min_def)
  have "te_id t \<notin> te_id ` set ?ts" if "t \<in> set (si_trash s)" "cutoff \<le> te_deleted t" for t
  proof
    assume "te_id t \<in> te_id ` set ?ts"
    then obtain w where w: "w \<in> set ?ts" "te_id w = te_id t" by auto
    then have w': "w \<in> set (expired cutoff s)" using sub by blast
    then have "w = t" using inj_onD [OF inj w(2)] that(1) by simp
    then show False using that(2) w' by simp
  qed
  then have "filter (\<lambda>t. cutoff \<le> te_deleted t) (si_trash s1) = filter (\<lambda>t. cutoff \<le> te_deleted t) (si_trash s)"
    unfolding s1(5) filter_filter by (intro filter_cong) auto
  moreover have "\<forall>t \<in> set (expired cutoff s1). purgeable E s1 t"
    using assms(4) purgeable_shrinks s1(4) unfolding s1(5) by auto
  moreover have "distinct (map te_id (si_trash s1))" using assms(3) unfolding s1(5) by (simp add: distinct_map_filter)
  ultimately show ?thesis using len s1(2,3) by (simp add: s' min_def)
qed


section \<open>Safety of restores\<close>

lemma pick_name_free: "pick_name dir rel b ns s = Inr (name, path) \<Longrightarrow> try_exists (dir @ [name]) s = Inr False"
  by (induction dir rel b ns s rule: pick_name.induct) (auto simp: Let_def split: sum.splits bool.splits if_splits)

lemma create_dir_all_keeps:
  "create_dir_all p d = (r, d') \<Longrightarrow> content d q \<noteq> None \<Longrightarrow> content d' q = content d q"
  by (erule create_dir_all_cases) (auto simp: with_dirs_def)

text \<open>
  C29. A restore overwrites nothing, wherever it goes: every node outside the restored entry keeps
  its content, whatever the outcome, and an id that is not the id of an entry of the user changes
  nothing at all.
\<close>

theorem restore_never_overwrites:
  assumes "disk_wf s" and run: "trash_restore E u i dest s = (res, s')"
  shows "((\<forall>t \<in> set (si_trash s). te_id t = i \<longrightarrow> te_user t \<noteq> u) \<longrightarrow> s' = s) \<and>
    (\<forall>q. content s q \<noteq> None \<longrightarrow>
      content s' q = content s q \<or> (\<exists>t \<in> set (si_trash s). te_id t = i \<and> te_user t = u \<and> prefix (entry_path E t) q))"
proof (cases "trash_by_id i s")
  case (Inl e)
  then show ?thesis using run by (simp add: trash_restore_def)
next
  case (Inr t)
  note t = trash_by_id_Inr [OF Inr]
  show ?thesis
  proof (cases "te_user t = u \<and> (\<exists>dr b. restore_target t dest = Inr (dr, b))")
    case False
    then have "s' = s" using run Inr by (auto simp: trash_restore_def split: sum.splits if_splits)
    then show ?thesis by simp
  next
    case True
    then obtain dr b where b: "restore_target t dest = Inr (dr, b)" and u: "te_user t = u" by blast
    let ?dir = "path_join (user_dir E u ''files'') dr" and ?src = "entry_path E t"
    obtain r1 s1 where mk: "create_dir_all ?dir s = (r1, s1)" by fastforce
    have s1: "disk_wf s1" using disk_op_wf(5) [OF mk assms(1)] by simp
    note keep1 = create_dir_all_keeps [OF mk]
    have "content s' q = content s1 q \<or> prefix ?src q" if q: "content s1 q \<noteq> None" for q
    proof (cases "\<exists>name path s2. pick_non_colliding_name ?dir dr b s1 = Inr (name, path) \<and> rename ?src (?dir @ [name]) s1 = (Inr (), s2)
        \<and> content s' = content s2")
      case True
      then obtain name path s2 where m: "pick_non_colliding_name ?dir dr b s1 = Inr (name, path)"
          "rename ?src (?dir @ [name]) s1 = (Inr (), s2)" "content s' = content s2" by blast
      have "content s1 (?dir @ [name]) = None"
        using pick_name_free m(1) by (simp add: pick_non_colliding_name_def try_exists_Inr_False content_None)
      then have "\<not> prefix (?dir @ [name]) q"
        using q wf_file_tree [OF s1, of "?dir @ [name]" q] by (metis is_dir_at_content option.distinct(1))
      moreover from m(2) s1 have "content s2 q = (if prefix (?dir @ [name]) q then content s2 q else if prefix ?src q then None else content s1 q)"
        by (cases rule: rename_cases) auto
      ultimately show ?thesis by (simp add: m(3) split: if_splits)
    next
      case False
      let ?fin = "\<lambda>s2 path. emit_restored E FileRestored ''file_restored_you'' ''file_restored_by'' ObjFile u path
        (te_fileid t) (delete_trash_row i s2)"
      have ce: "content (?fin s2 path) = content s2" for s2 path using emit_restored_facts deleted_row(2) by metis
      have "content s' = content s1 \<or> s' = s1 \<or> (\<exists>name s2 e. rename ?src (?dir @ [name]) s1 = (Inl e, s2) \<and> s' = s2)"
        using run False Inr u b mk ce unfolding trash_restore_def Let_def
        by (auto simp: trash_path_def split: sum.splits prod.splits bool.splits)
      then show ?thesis
      proof (elim disjE exE conjE)
        fix name s2 e
        assume ren: "rename ?src (?dir @ [name]) s1 = (Inl e, s2)" and "s' = s2"
        from ren s1 have "s2 = s1" by (cases rule: rename_cases) auto
        then show ?thesis using \<open>s' = s2\<close> by simp
      qed auto
    qed
    then have "content s' q = content s q \<or> prefix ?src q" if "content s q \<noteq> None" for q
      using that keep1 [of q] by metis
    then show ?thesis using t u by blast
  qed
qed

text \<open>A user name that is one component of a path.\<close>

definition plain_user :: "string \<Rightarrow> bool" where
  "plain_user u \<longleftrightarrow> plain u \<and> CHR ''/'' \<notin> set u"

lemma plain_user_dir: "plain_user u \<Longrightarrow> user_dir E u sub = se_datadir E @ [u, sub]"
  by (simp add: plain_user_def user_dir_def path_join_plain split_on_simple)

definition mismatched :: "site_env \<Rightarrow> site \<Rightarrow> trash_entry \<Rightarrow> bool" where
  "mismatched E s t \<longleftrightarrow> te_type t = TrashFile \<and> is_dir_at s (entry_path E t)"

lemma mismatched_stuck:
  assumes "mismatched E s t" "plain_user (te_user t)" "disk_wf s" "versions_inv s"
  shows "\<exists>e s'. purge_entry E t s = (Inl e, s') \<and> si_trash s' = si_trash s \<and> disk_wf s' \<and> versions_inv s' \<and>
    (\<forall>w. plain_user (te_user w) \<longrightarrow> mismatched E s w \<longrightarrow> mismatched E s' w)"
proof -
  let ?p = "entry_path E t"
  obtain s1 where s1: "entry_versions_gone E t s = s1" by simp
  note f = entry_versions_gone_frame [OF assms(3,4) s1]
  have keep: "content s1 (entry_path E w) = content s (entry_path E w)" if "plain_user (te_user w)" for w
  proof -
    have "\<not> prefix (user_dir E (te_user t) ''files_versions'') (entry_path E w)"
      using that assms(2) by (simp add: trash_path_def trash_dir_def plain_user_dir)
    then show ?thesis using f by blast
  qed
  have dir: "is_dir_at s1 ?p" using assms(1) keep [OF assms(2)] by (simp add: mismatched_def is_dir_at_content)
  then have "content s1 ?p \<noteq> None" by (auto simp: is_dir_at_content)
  then have ex: "try_exists ?p s1 \<noteq> Inr False" by (simp add: try_exists_Inr_False content_None)
  have rm: "\<exists>e. remove_file ?p s1 = (Inl e, s1)"
    using dir by (auto simp: remove_file_def is_dir_at_def metadata_at_def split: option.splits)
  have "\<exists>e. purge_entry E t s = (Inl e, s1)"
    using ex rm assms(1) unfolding purge_entry_eq Let_def s1 mismatched_def
    by (auto split: sum.splits bool.splits)
  moreover have "\<forall>w. plain_user (te_user w) \<longrightarrow> mismatched E s w \<longrightarrow> mismatched E s1 w"
    using keep by (auto simp: mismatched_def is_dir_at_content)
  ultimately show ?thesis using f by (auto simp: other_tables_def)
qed

lemma mismatched_sweep:
  assumes "disk_wf s" "versions_inv s" "\<forall>t \<in> set ts. mismatched E s t \<and> plain_user (te_user t)"
  shows "\<exists>s'. sweep_list E ts s = (0, s') \<and> si_trash s' = si_trash s \<and> disk_wf s' \<and> versions_inv s' \<and>
    (\<forall>w. plain_user (te_user w) \<longrightarrow> mismatched E s w \<longrightarrow> mismatched E s' w)"
  using assms
proof (induction ts arbitrary: s)
  case Nil
  then show ?case by simp
next
  case (Cons t ts)
  obtain e s1 where s1: "purge_entry E t s = (Inl e, s1)" "si_trash s1 = si_trash s" "disk_wf s1" "versions_inv s1"
      "\<forall>w. plain_user (te_user w) \<longrightarrow> mismatched E s w \<longrightarrow> mismatched E s1 w"
    using mismatched_stuck [of E s t] Cons.prems by auto
  moreover have "\<forall>w \<in> set ts. mismatched E s1 w \<and> plain_user (te_user w)" using Cons.prems(3) s1(5) by simp
  ultimately show ?case using Cons.IH [of s1] by auto
qed

text \<open>
  C30. Rows that say file and whose tree is a directory, which a soft delete makes of a directory
  the file cache does not know, stay for good: no purge removes them, and once they fill a batch
  no number of sweeps removes anything at all.
\<close>

theorem mismatched_entries_block:
  assumes "disk_wf s" "versions_inv s" "\<forall>t \<in> set (si_trash s). plain_user (te_user t)"
    "\<forall>t \<in> set (take batch (expired cutoff s)). mismatched E s t"
  shows "si_trash (((\<lambda>s. snd (trash_sweep_expired E cutoff batch s)) ^^ k) s) = si_trash s \<and>
    (\<forall>t \<in> set (take batch (expired cutoff s)). \<exists>e. fst (purge_entry E t s) = Inl e)"
proof
  let ?f = "\<lambda>s. snd (trash_sweep_expired E cutoff batch s)"
  have sub: "set (take batch (expired cutoff s)) \<subseteq> set (si_trash s)" for s using set_take_subset by fastforce
  show "si_trash ((?f ^^ k) s) = si_trash s"
    using assms
  proof (induction k arbitrary: s)
    case 0
    then show ?case by simp
  next
    case (Suc k)
    have "\<forall>t \<in> set (take batch (expired cutoff s)). mismatched E s t \<and> plain_user (te_user t)"
      using Suc.prems(3,4) sub by blast
    then obtain s1 where s1: "sweep_list E (take batch (expired cutoff s)) s = (0, s1)" "si_trash s1 = si_trash s" "disk_wf s1"
        "versions_inv s1" "\<forall>w. plain_user (te_user w) \<longrightarrow> mismatched E s w \<longrightarrow> mismatched E s1 w"
      using mismatched_sweep [OF Suc.prems(1,2)] by blast
    have step: "?f s = s1" using s1(1) by (simp add: trash_sweep_expired_def)
    have "\<forall>t \<in> set (take batch (expired cutoff s1)). mismatched E s1 t" using Suc.prems(3,4) s1(2,5) sub by (metis subsetD)
    then show ?case using Suc.IH [of s1] Suc.prems(3) s1(2-4) step by (simp add: funpow_Suc_right del: funpow.simps)
  qed
  show "\<forall>t \<in> set (take batch (expired cutoff s)). \<exists>e. fst (purge_entry E t s) = Inl e"
    using mismatched_stuck [OF _ _ assms(1,2)] assms(3,4) sub by (metis fst_conv subsetD)
qed

section \<open>Witnesses\<close>

lemma sample_trash_inv: "trash_inv site_sample"
  by (simp add: trash_inv_def site_sample_def)

lemma sample_trashable: "trashable ''/a''"
  using plain_a by (simp add: trashable_def)

theorem delete_restore_roundtrip_witness:
  "\<exists>s1 s2. soft_delete site_env_sample ''bob'' ''/a'' TrashFile (Some 7) site_sample = (Inr 1, s1) \<and>
     content s1 (file_of site_env_sample ''bob'' ''/a'') = None \<and>
     trash_restore site_env_sample ''bob'' 1 None s1 = (Inr ''/a'', s2) \<and>
     content s2 (file_of site_env_sample ''bob'' ''/a'') = Some (False, [1], None, None)"
proof -
  let ?D = "soft_delete site_env_sample ''bob'' ''/a'' TrashFile (Some 7) site_sample"
  have "fst ?D = Inr 1" by code_simp
  then have D: "?D = (Inr 1, snd ?D)" by (metis prod.collapse)
  have c: "content site_sample (file_of site_env_sample ''bob'' ''/a'') = Some (False, [1], None, None)" by code_simp
  have t: "CHR ''/'' # trim_slashes ''/a'' = ''/a''" by simp
  note * = delete_restore_roundtrip [OF site_sample_wf sample_trash_inv sample_trashable D, unfolded t]
  have all: "\<forall>r. P (f @ r) \<Longrightarrow> P f" for P and f :: fpath by (metis append_Nil2)
  show ?thesis using * D c all [of "\<lambda>q. content (snd ?D) q = None"] by (metis append_Nil2)
qed

theorem soft_delete_outcomes_witness:
  "\<exists>m s1. soft_delete (site_env_sample\<lparr>se_dialect := MySql\<rparr>) ''bob'' ''/a'' TrashFile None site_sample = (Inl (TrDb m), s1) \<and>
     content s1 (file_of (site_env_sample\<lparr>se_dialect := MySql\<rparr>) ''bob'' ''/a'') = None \<and> si_trash s1 = si_trash site_sample"
proof -
  let ?D = "soft_delete (site_env_sample\<lparr>se_dialect := MySql\<rparr>) ''bob'' ''/a'' TrashFile None site_sample"
  have "fst ?D = Inl (TrDb ''syntax error near \"user\"'')" by code_simp
  then have D: "?D = (Inl (TrDb ''syntax error near \"user\"''), snd ?D)" by (metis prod.collapse)
  show ?thesis
    using soft_delete_outcomes [OF site_sample_wf sample_trashable D, unfolded sum.case] D by (metis append_Nil2)
qed

definition trash_row_sample :: "int \<Rightarrow> string \<Rightarrow> trash_type \<Rightarrow> trash_entry" where
  "trash_row_sample i b kind = \<lparr>te_id = i, te_user = ''bob'', te_basename = b, te_suffix = ''d100'', te_location = ''/'',
     te_deleted = 100, te_type = kind, te_fileid = None\<rparr>"

definition trash_sample :: "trash_type \<Rightarrow> site" where
  "trash_sample kind = site_sample\<lparr>
     dk_nodes := [([], sample_node True []), ([''data''], sample_node True []), ([''data'', ''bob''], sample_node True []),
        ([''data'', ''bob'', ''files''], sample_node True []), ([''data'', ''bob'', ''files'', ''a''], sample_node False [3]),
        ([''data'', ''bob'', ''files_trashbin''], sample_node True []),
        ([''data'', ''bob'', ''files_trashbin'', ''files''], sample_node True []),
        ([''data'', ''bob'', ''files_trashbin'', ''files'', ''a.d100''], sample_node False [1]),
        ([''data'', ''bob'', ''files_trashbin'', ''files'', ''d.d100''], sample_node True [])],
     si_trash := [trash_row_sample 1 ''d'' kind, trash_row_sample 2 ''a'' TrashFile], si_next_trash := 3\<rparr>"

lemma trash_sample_rows: "si_trash (trash_sample kind) = [trash_row_sample 1 ''d'' kind, trash_row_sample 2 ''a'' TrashFile]"
  "si_next_trash (trash_sample kind) = 3" "si_versions (trash_sample kind) = []"
  by (simp_all add: trash_sample_def site_sample_def)

lemma trash_sample_wf: "disk_wf (trash_sample TrashDir)" "disk_wf (trash_sample TrashFile)"
  by code_simp+

lemma trash_sample_inv: "trash_inv (trash_sample kind)" "versions_inv (trash_sample kind)"
  by (simp_all add: trash_inv_def versions_inv_def trash_sample_rows trash_row_sample_def)


theorem restore_never_overwrites_witness:
  "content (snd (trash_restore site_env_sample ''bob'' 2 None (trash_sample TrashDir))) (file_of site_env_sample ''bob'' ''/a'') =
     Some (False, [3], None, None)"
proof -
  let ?s = "trash_sample TrashDir" and ?q = "file_of site_env_sample ''bob'' ''/a''"
  have "content ?s ?q = Some (False, [3], None, None)" by code_simp
  moreover have "\<not> prefix (entry_path site_env_sample t) ?q" if "te_user t = ''bob''" for t
    using that trash_apart(2) by metis
  ultimately show ?thesis
    using restore_never_overwrites [where E = site_env_sample and u = "''bob''" and i = 2 and dest = None,
        OF trash_sample_wf(1) prod.collapse [symmetric]] by fastforce
qed

theorem mismatched_entries_block_witness:
  "si_trash (((\<lambda>s. snd (trash_sweep_expired site_env_sample 200 1 s)) ^^ 1000) (trash_sample TrashFile)) =
     si_trash (trash_sample TrashFile)"
proof -
  let ?s = "trash_sample TrashFile"
  have "mismatched site_env_sample ?s (trash_row_sample 1 ''d'' TrashFile)" by code_simp
  moreover have "plain_user ''bob''" by (simp add: plain_user_def plain_def)
  ultimately show ?thesis
    using mismatched_entries_block [OF trash_sample_wf(2) trash_sample_inv(2), of 1 200 site_env_sample 1000]
    by (simp add: trash_sample_rows trash_row_sample_def)
qed

end
