(* ===== verification/LocalStorage_Correct.thy ===== *)
theory LocalStorage_Correct
  imports LocalStorage Disk_Correct Site
begin

text \<open>
  Properties of the local backend: a write is all or nothing.
\<close>

lemma local_resolve_Inr: "local_resolve L path d = Inr real \<Longrightarrow> real = ls_root L @ segs path"
  by (auto simp: local_resolve_def Let_def is_root_def segs_def split: if_splits option.splits)

text \<open>The contents alone: two states with one tree of names and contents.\<close>

definition same_tree :: "'d disk_scheme \<Rightarrow> 'd disk_scheme \<Rightarrow> bool" where
  "same_tree d d' \<longleftrightarrow> content d' = content d \<and> map fst (dk_nodes d') = map fst (dk_nodes d)"

lemma same_tree_wf: "same_tree d d' \<Longrightarrow> disk_wf d' = disk_wf d"
  using disk_wf_same by (auto simp: same_tree_def)

lemma same_tree_world: "same_tree d (d\<lparr>dk_world := w\<rparr>)"
  by (simp add: same_tree_def) (rule ext, simp add: content_def)

lemma set_xattr_file:
  assumes "content d p = Some (False, bs, x)" "disk_wf d" "\<And>n. nd_dir (f n) = nd_dir n \<and> nd_data (f n) = nd_data n"
  shows "disk_wf (set_xattr on p f d) \<and> (\<exists>y. content (set_xattr on p f d) = (content d)(p \<mapsto> (False, bs, y)))"
proof (cases "on \<and> \<not> too_long p")
  case False
  then have "set_xattr on p f d = d" by (auto simp: set_xattr_def split: option.splits)
  moreover have "(content d)(p \<mapsto> (False, bs, x)) = content d" using assms(1) by (simp add: fun_upd_idem)
  ultimately show ?thesis using assms(2) by metis
next
  case True
  obtain n where n: "node_at d p = Some n" "\<not> nd_dir n" "nd_data n = bs" using assms(1) by (auto simp: content_def)
  have eq: "set_xattr on p f d = set_node p (f n) d" using True n by (simp add: set_xattr_def)
  have c: "content (set_node p (f n) d) = (content d)(p \<mapsto> (False, bs, nd_etag (f n), nd_mime (f n)))"
    using n assms(3) by (simp add: content_set_node)
  have "map fst (dk_nodes (set_node p (f n) d)) = map fst (dk_nodes d) @ (if node_at d p = None then [p] else [])"
    using n keys_set_node [of p "f n" d] by simp
  moreover have "p \<noteq> []" using assms(1,2) by (auto simp: disk_wf_content)
  moreover from this have "is_dir_at d (butlast p)" using wf_above [OF assms(2), of p "butlast p"] n(1) by (cases p rule: rev_cases) (simp_all add: strict_prefix_def)
  moreover have "\<not> is_dir_at d p" using assms(1) by (simp add: is_dir_at_content)
  ultimately have "disk_wf (set_node p (f n) d)" by (intro wf_upd [OF assms(2) c]) simp_all
  then show ?thesis using c by (auto simp: eq)
qed

text \<open>The guard removes the temporary file when there is one.\<close>

lemma drop_guard_content:
  assumes "content d' = (content d)(p \<mapsto> (False, x))" "content d p = None" "disk_wf d'" "\<not> too_long p"
  shows "content (drop_guard p d') = content d"
proof -
  obtain r d2 where rm: "remove_file p d' = (r, d2)" by fastforce
  have at: "content d' p = Some (False, x)" using assms(1) by simp
  then have dir: "\<not> is_dir_at d' p" by (simp add: is_dir_at_content)
  from rm show ?thesis
  proof (cases rule: remove_file_cases)
    case (removed y)
    have "content d2 q = content d q" for q
      using removed(3) [of q] wf_file_tree [OF assms(3) dir, of q] assms(1,2) by (cases "q = p") auto
    then show ?thesis by (simp add: drop_guard_def rm fun_eq_iff)
  next
    case (refused e)
    obtain n where "node_at d' p = Some n" "\<not> nd_dir n" using at by (auto simp: content_def)
    then have "metadata_at p d' = Inr n" "\<not> nd_dir n" using assms(4) by (simp_all add: metadata_at_Inr)
    then show ?thesis using rm refused by (simp add: remove_file_def)
  qed
qed

lemma drop_guard_none: "content d p = None \<Longrightarrow> content (drop_guard p d) = content d"
proof -
  assume "content d p = None"
  moreover obtain r d2 where rm: "remove_file p d = (r, d2)" by fastforce
  ultimately show ?thesis by (cases rule: remove_file_cases [OF rm]) (simp_all add: drop_guard_def rm)
qed

lemma finish_write_atomic:
  assumes run: "finish_write E L path temp real head id d = (r, d')" and wf: "disk_wf d" and short: "\<not> too_long temp"
    and tmp: "content d = (content d0)(temp \<mapsto> (False, bs, x))" "content d0 temp = None" and dir: "\<not> is_dir_at d real"
  shows "\<exists>y. content d' = (if isl r then content d0 else (content d0)(real \<mapsto> (False, bs, y)))"
proof -
  obtain et d1 where e1: "fresh_etag d = (et, d1)" by fastforce
  have t1: "same_tree d d1" using e1 same_tree_world by (auto simp: fresh_etag_def split: prod.splits)
  let ?d2 = "set_xattr (le_xattr E) temp (\<lambda>n. n\<lparr>nd_etag := Some (etag_str et)\<rparr>) d1"
  let ?d3 = "set_xattr (le_xattr E) temp (\<lambda>n. n\<lparr>nd_mime := Some (mime_str (detect E (as_str path) head))\<rparr>) ?d2"
  have c1: "content d1 temp = Some (False, bs, x)" "disk_wf d1" using t1 tmp same_tree_wf [OF t1] wf by (simp_all add: same_tree_def)
  have "disk_wf ?d2 \<and> (\<exists>y. content ?d2 = (content d1)(temp \<mapsto> (False, bs, y)))" by (rule set_xattr_file [OF c1]) simp
  then obtain y where d2: "disk_wf ?d2" "content ?d2 = (content d1)(temp \<mapsto> (False, bs, y))" by blast
  then have "content ?d2 temp = Some (False, bs, y)" by simp
  then have "disk_wf ?d3 \<and> (\<exists>z. content ?d3 = (content ?d2)(temp \<mapsto> (False, bs, z)))" by (rule set_xattr_file [OF _ d2(1)]) simp
  then obtain z where d3: "disk_wf ?d3" "content ?d3 = (content ?d2)(temp \<mapsto> (False, bs, z))" by blast
  have c3: "content ?d3 = (content d0)(temp \<mapsto> (False, bs, z))" using t1 tmp(1) by (simp add: d3(2) d2(2) same_tree_def)
  obtain r4 d4 where ren: "rename temp real ?d3 = (r4, d4)" by fastforce
  note run' = run [unfolded finish_write_def Let_def e1 prod.case ren]
  show ?thesis
  proof (cases r4)
    case (Inl e)
    then have "d4 = ?d3" using ren d3(1) by (cases rule: rename_cases [OF ren d3(1)]) auto
    then show ?thesis
      using run' Inl drop_guard_content [OF c3 tmp(2) d3(1) short] by auto
  next
    case (Inr un)
    have moved: "content d4 = (content d0)(real \<mapsto> (False, bs, z)) \<and> \<not> too_long real"
      using ren d3(1)
    proof (cases rule: rename_cases)
      case (moved w)
      have w: "content ?d3 temp = Some (False, bs, z)" by (simp add: c3)
      have d0dir: "\<not> is_dir_at ?d3 real" using dir tmp(1) c3 by (auto simp: is_dir_at_content split: if_splits)
      have d0temp: "\<not> is_dir_at ?d3 temp" using w by (simp add: is_dir_at_content)
      have "content d4 q = ((content d0)(real \<mapsto> (False, bs, z))) q" for q
      proof (cases "q = real")
        case True
        then show ?thesis using moved(9) [of q] w by simp
      next
        case False
        show ?thesis
        proof (cases "prefix real q")
          case True
          then have "content ?d3 q = None" using wf_file_tree [OF d3(1) d0dir] False by blast
          then have "content d0 q = None" using tmp(2) by (cases "q = temp") (simp_all add: c3)
          moreover obtain s where s: "q = real @ s" "s \<noteq> []" using True False by (auto simp: prefix_def)
          then have "content ?d3 (temp @ s) = None" using wf_file_tree [OF d3(1) d0temp, of "temp @ s"] by simp
          ultimately show ?thesis using moved(9) [of q] True False s by simp
        next
          case False': False
          show ?thesis
          proof (cases "prefix temp q")
            case True
            then have "content d0 q = None"
              using wf_file_tree [OF d3(1) d0temp, of q] tmp(2) by (cases "q = temp") (simp_all add: c3)
            then show ?thesis using moved(9) [of q] True False' False by simp
          next
            case False
            then have "q \<noteq> temp" by auto
            then show ?thesis using moved(9) [of q] False False' \<open>q \<noteq> real\<close> by (simp add: c3)
          qed
        qed
      qed
      then show ?thesis using moved(6) by (simp add: fun_eq_iff)
    next
      case same
      then show ?thesis using c3 short by simp
    qed (use Inr in simp)
    then have "content d4 real \<noteq> None" by simp
    then obtain n where "node_at d4 real = Some n" using content_None [of d4 real] by (cases "node_at d4 real") auto
    then have "metadata_at real d4 = Inr n" using moved by (simp add: metadata_at_Inr)
    then obtain meta where "metadata_of E real path d4 = Inr meta" by (simp add: metadata_of_def)
    then have "r = Inr meta" "d' = emit_event (Written (local_id L) path meta) d4" using run' Inr by simp_all
    moreover have "content (emit_event ev d4) = content d4" for ev by (rule ext) (simp add: content_def emit_event_def)
    ultimately show ?thesis using moved by (intro exI [of _ z]) simp
  qed
qed

lemma local_put_content:
  assumes "disk_wf d" and run: "local_put_file E L path body d = (r, d')"
    and free: "content d (fst (sibling_temp (ls_root L @ segs path) d)) = None"
  shows "if isl r then content d' = content d
    else \<exists>bs y. body = Inr bs \<and> content d' = (content d)(ls_root L @ segs path \<mapsto> (False, bs, y))"
proof (cases "local_resolve L path d")
  case (Inl e)
  then have "r = Inl e" "d' = d" using run by (simp_all add: local_put_file_def)
  then show ?thesis by simp
next
  case (Inr real)
  let ?real = "ls_root L @ segs path"
  have real: "real = ?real" using local_resolve_Inr [OF Inr] .
  note run0 = run [unfolded local_put_file_def Inr sum.case real]
  show ?thesis
  proof (cases "is_dir_at d ?real \<or> ?real = [] \<or> (case metadata_at (butlast ?real) d of Inl e \<Rightarrow> True | Inr n \<Rightarrow> \<not> nd_dir n)")
    case True
    then show ?thesis using run0 by (auto split: if_splits sum.splits)
  next
    case False
    then obtain n where n: "metadata_at (butlast ?real) d = Inr n" "nd_dir n" "\<not> is_dir_at d ?real" "?real \<noteq> []"
      by (auto split: sum.splits)
    obtain temp d1 where st: "sibling_temp ?real d = (temp, d1)" by fastforce
    have t1: "same_tree d d1" using st same_tree_world by (auto simp: sibling_temp_def split: prod.splits)
    then have c1: "content d1 = content d" "disk_wf d1" using same_tree_wf assms(1) by (auto simp: same_tree_def)
    have free1: "content d1 temp = None" using free st c1(1) by simp
    have ne: "temp \<noteq> []" using st by (auto simp: sibling_temp_def split: prod.splits)
    note run1 = run0 [unfolded if_not_P [OF n(3)] if_not_P [OF n(4)] n(1) sum.case not_not if_P [OF n(2)] st prod.case]
    show ?thesis
    proof (cases body)
      case (Inl e)
      then show ?thesis using run1 n drop_guard_none [OF free1] c1 st by auto
    next
      case (Inr bs)
      obtain r2 d2 where wr: "write_file temp bs d1 = (r2, d2)" by fastforce
      from wr show ?thesis
      proof (cases rule: write_file_cases)
        case new
        have wf2: "disk_wf d2" using disk_op_wf(2) [OF wr c1(2)] by simp
        have fin: "finish_write E L path temp ?real (take 4096 bs) id d2 = (r, d')" using run1 n Inr wr new(1) st by simp
        have c2: "content d2 = (content d)(temp \<mapsto> (False, bs, None, None))" using new(5) c1(1) by simp
        have "\<not> is_dir_at d2 ?real" using n(3) by (auto simp: is_dir_at_content c2 split: if_splits)
        then obtain y where "content d' = (if isl r then content d else (content d)(?real \<mapsto> (False, bs, y)))"
          using finish_write_atomic [OF fin wf2 new(4) c2] free1 c1(1) by auto
        then show ?thesis using Inr by (cases "isl r") (simp_all only: simp_thms if_True if_False, blast)
      next
        case (over old et mi)
        then show ?thesis using free1 by simp
      next
        case (refused e)
        then show ?thesis using run1 n Inr wr st drop_guard_none [OF free1] c1 by auto
      qed
    qed
  qed
qed


section \<open>Witness\<close>

text \<open>The home of bob, and services that answer with fixed values.\<close>

definition local_sample :: local_storage where
  "local_sample = \<lparr>ls_root = [''data'', ''bob'', ''files''], ls_owner = Some ''bob''\<rparr>"

definition local_env_sample :: local_env where
  "local_env_sample = \<lparr>le_xattr = True, le_extensions = (\<lambda>x. None), le_infer = (\<lambda>x. None), le_sha256 = (\<lambda>x. x),
     le_lower = (\<lambda>x. x), le_hash = (\<lambda>a b. 0)\<rparr>"


end
