(* ===== verification/View_Correct.thy ===== *)
theory View_Correct
  imports Mounts Trash_Correct LocalStorage_Correct
begin

text \<open>
  Properties of the view and of its mounts: a path is answered by the mount with the longest
  prefix, mounts never collide, what a refused write leaves behind, and what the cached reads
  show of a share.
\<close>

section \<open>Resolution\<close>

lemma max_by_key_fold:
  "fold (\<lambda>x best. case best of None \<Rightarrow> Some x | Some y \<Rightarrow> if k y \<le> k x then Some x else Some y) xs (Some b) = Some r \<Longrightarrow>
   r \<in> insert b (set xs) \<and> (\<forall>y \<in> insert b (set xs). k y \<le> (k r :: nat))"
proof (induction xs arbitrary: b)
  case (Cons x xs)
  show ?case using Cons.IH [of x] Cons.IH [of b] Cons.prems by (cases "k b \<le> k x") auto
qed simp

lemma max_by_key_Some: "max_by_key k xs = Some r \<Longrightarrow> r \<in> set xs \<and> (\<forall>y \<in> set xs. k y \<le> k r)"
  by (cases xs) (auto simp: max_by_key_def dest!: max_by_key_fold)

lemma max_by_key_None: "max_by_key k xs = None \<longleftrightarrow> xs = []"
proof -
  have "fold (\<lambda>x best. case best of None \<Rightarrow> Some x | Some y \<Rightarrow> if k y \<le> k x then Some x else Some y) ys (Some b) \<noteq> None" for ys b
    by (induction ys arbitrary: b) auto
  then show ?thesis by (cases xs) (auto simp: max_by_key_def)
qed

lemma as_str_segs: "as_str p = join_with (CHR ''/'') (segs p)"
  by (metis as_str_path_of path_of_segs)

lemma matches_segs:
  assumes "path_ok (mt_prefix m)" "path_ok (StoragePath u)"
  shows "mount_matches u m \<longleftrightarrow> prefix (segs (mt_prefix m)) (segs (StoragePath u))"
proof (cases "as_str (mt_prefix m) = []")
  case True
  then show ?thesis by (simp add: mount_matches_def segs_def)
next
  case False
  let ?p = "as_str (mt_prefix m)"
  show ?thesis
  proof
    assume "mount_matches u m"
    then consider "u = ?p" | r where "u = ?p @ CHR ''/'' # r" using False by (auto simp: mount_matches_def prefix_def Let_def)
    then show "prefix (segs (mt_prefix m)) (segs (StoragePath u))"
      using False by cases (auto simp: segs_def split_on_append)
  next
    assume "prefix (segs (mt_prefix m)) (segs (StoragePath u))"
    then obtain r where r: "segs (StoragePath u) = segs (mt_prefix m) @ r" by (auto simp: prefix_def)
    have "segs (mt_prefix m) \<noteq> []" using False by (simp add: segs_Nil_iff)
    then have "u = ?p \<or> u = ?p @ CHR ''/'' # join_with (CHR ''/'') r"
      using as_str_segs [of "StoragePath u"] as_str_segs [of "mt_prefix m"] join_with_append [of "segs (mt_prefix m)" r] r
      by (cases "r = []") simp_all
    then show "mount_matches u m" by (auto simp: mount_matches_def prefix_def Let_def)
  qed
qed

text \<open>Of two prefixes of one path the longer string has the more pieces.\<close>

lemma longer_prefix:
  assumes "prefix (segs a) (segs p)" "prefix (segs b) (segs p)" "length (as_str a) \<le> length (as_str b)"
  shows "length (segs a) \<le> length (segs b)"
proof (rule ccontr)
  assume lt: "\<not> length (segs a) \<le> length (segs b)"
  then have "prefix (segs b) (segs a)" using prefix_length_prefix [OF assms(2,1)] by simp
  then obtain r where r: "segs a = segs b @ r" "r \<noteq> []" using lt by (auto simp: prefix_def)
  have "length (as_str b) < length (as_str a)"
  proof (cases "segs b = []")
    case True
    then have "as_str b = []" "as_str a \<noteq> []" using r by (simp_all add: segs_Nil_iff flip: segs_Nil_iff [of a])
    then show ?thesis by simp
  next
    case False
    then show ?thesis using join_with_append [OF False r(2)] as_str_segs [of a] as_str_segs [of b] r(1) by simp
  qed
  then show False using assms(3) by simp
qed

lemma path_ok_segs_suffix:
  assumes "path_ok p" "segs p = a @ b"
  shows "path_ok (path_of b)" "segs (path_of b) = b"
proof -
  have good: "\<forall>x \<in> set b. good_segment x" using assms by (auto simp: path_ok_def)
  then show s: "segs (path_of b) = b" by (rule segs_path_of)
  have "length (join_with (CHR ''/'') b) \<le> length (as_str p)"
    unfolding as_str_segs [of p] assms(2) by (cases "a = [] \<or> b = []") (auto simp: join_with_append)
  then show "path_ok (path_of b)" using good s assms(1) by (simp add: path_ok_def)
qed

text \<open>The path below a mount, as the code cuts it off.\<close>

lemma below_mount:
  assumes "segs (StoragePath u) = segs (mt_prefix m) @ r"
  shows "(if is_root (mt_prefix m) then u else if starts_with u (as_str (mt_prefix m) @ ''/'')
      then drop (length (as_str (mt_prefix m) @ ''/'')) u else []) = as_str (path_of r)"
proof (cases "is_root (mt_prefix m)")
  case True
  then show ?thesis using assms as_str_segs [of "StoragePath u"] by (simp add: is_root_def segs_def)
next
  case False
  then have ne: "segs (mt_prefix m) \<noteq> []" by (simp add: is_root_def segs_Nil_iff)
  show ?thesis
  proof (cases "r = []")
    case True
    then have "u = as_str (mt_prefix m)" using assms as_str_segs [of "StoragePath u"] as_str_segs [of "mt_prefix m"] by simp
    then show ?thesis using False True by (auto simp: prefix_def)
  next
    case r: False
    have "u = (as_str (mt_prefix m) @ ''/'') @ join_with (CHR ''/'') r"
      using as_str_segs [of "StoragePath u"] as_str_segs [of "mt_prefix m"] join_with_append [OF ne r] assms by simp
    then show ?thesis using False by simp
  qed
qed

text \<open>
  C32. A path of the user is answered by the mount whose prefix is the longest one of its leading
  pieces, and the path below the mount is exactly the rest of it; without such a mount, and only
  then, there is no answer.
\<close>

theorem resolve_longest:
  assumes "user_path_ok p" "\<forall>m \<in> set (vw_mounts V). path_ok (mt_prefix m)"
  shows "case view_resolve V p of
      Inl e \<Rightarrow> e = FsMountNotFound \<and> (\<forall>m \<in> set (vw_mounts V). \<not> prefix (segs (mt_prefix m)) (usegs p))
    | Inr (m, q) \<Rightarrow> m \<in> set (vw_mounts V) \<and> path_ok q \<and> usegs p = segs (mt_prefix m) @ segs q \<and>
        (\<forall>n \<in> set (vw_mounts V). prefix (segs (mt_prefix n)) (usegs p) \<longrightarrow> length (segs (mt_prefix n)) \<le> length (segs (mt_prefix m)))"
proof -
  obtain u where u: "p = UserPath (CHR ''/'' # u)" "path_ok (StoragePath u)" using assms(1) by (rule user_path_okE)
  have us: "usegs p = segs (StoragePath u)" by (simp add: u(1) usegs_def)
  have "u = [] \<or> hd u \<noteq> CHR ''/''"
    using good_segments_ends(1) [of "segs (StoragePath u)"] u(2) as_str_segs [of "StoragePath u"]
    by (cases "segs (StoragePath u) = []") (auto simp: path_ok_def segs_Nil_iff)
  then have trim: "trim_slashes (upath p) = u" by (cases u) (simp_all add: u(1))
  let ?c = "filter (mount_matches u) (vw_mounts V)" and ?k = "\<lambda>m. length (as_str (mt_prefix m))"
  have cand: "m \<in> set ?c \<longleftrightarrow> m \<in> set (vw_mounts V) \<and> prefix (segs (mt_prefix m)) (segs (StoragePath u))" for m
    using matches_segs [OF _ u(2)] assms(2) by auto
  show ?thesis
  proof (cases "max_by_key ?k ?c")
    case None
    then have "?c = []" by (simp add: max_by_key_None)
    then have "\<forall>m \<in> set (vw_mounts V). \<not> prefix (segs (mt_prefix m)) (usegs p)" using cand us by (metis empty_iff empty_set)
    then show ?thesis by (simp add: view_resolve_def trim None)
  next
    case (Some m)
    note best = max_by_key_Some [OF Some]
    then have m: "m \<in> set (vw_mounts V)" and pre: "prefix (segs (mt_prefix m)) (segs (StoragePath u))" using cand by blast+
    then obtain r where r: "segs (StoragePath u) = segs (mt_prefix m) @ r" by (auto simp: prefix_def)
    note q = path_ok_segs_suffix [OF u(2) r]
    have "view_resolve V p = Inr (m, path_of r)"
      unfolding view_resolve_def Let_def trim Some option.case below_mount [OF r] storage_path_new_ok [OF q(1)] sum.case ..
    moreover have "\<forall>n \<in> set (vw_mounts V). prefix (segs (mt_prefix n)) (usegs p) \<longrightarrow> length (segs (mt_prefix n)) \<le> length (segs (mt_prefix m))"
    proof (intro ballI impI)
      fix n
      assume "n \<in> set (vw_mounts V)" "prefix (segs (mt_prefix n)) (usegs p)"
      then have n: "n \<in> set ?c" "prefix (segs (mt_prefix n)) (segs (StoragePath u))" using cand us by simp_all
      show "length (segs (mt_prefix n)) \<le> length (segs (mt_prefix m))"
        by (rule longer_prefix [OF n(2) pre]) (use best n(1) in blast)
    qed
    ultimately show ?thesis using m q r us by simp
  qed
qed

section \<open>Mounts\<close>

lemma basename_of_cases:
  assumes "t = CHR ''/'' # b"
  shows "basename_of t = t \<or> CHR ''/'' \<notin> set (basename_of t) \<and> basename_of t \<noteq> []"
proof (cases "trim_by (\<lambda>c. c = CHR ''/'') t = []")
  case True
  then show ?thesis by (simp add: basename_of_def)
next
  case False
  let ?t = "trim_by (\<lambda>c. c = CHR ''/'') t"
  have last: "last ?t \<noteq> CHR ''/''"
  proof -
    let ?r = "rev (dropWhile (\<lambda>c. c = CHR ''/'') t)"
    have "dropWhile (\<lambda>c. c = CHR ''/'') ?r \<noteq> []"
      using False by (simp add: trim_by_def trim_end_by_def trim_start_by_def)
    then show ?thesis using hd_dropWhile [of "\<lambda>c. c = CHR ''/''" ?r]
      by (simp add: trim_by_def trim_end_by_def trim_start_by_def last_rev del: dropWhile_eq_Nil_conv)
  qed
  show ?thesis
  proof (cases "rfind (CHR ''/'') ?t")
    case None
    moreover from this have "CHR ''/'' \<notin> set ?t" by (simp only: rfind_None_iff simp_thms)
    ultimately show ?thesis using False by (simp add: basename_of_def Let_def)
  next
    case (Some i)
    note i = rfind_SomeD [OF Some]
    have "drop (Suc i) ?t \<noteq> []"
    proof
      assume "drop (Suc i) ?t = []"
      then have "?t = take i ?t @ [CHR ''/'']" using i by metis
      then show False using last by (metis last_snoc)
    qed
    then show ?thesis using False Some i by (simp add: basename_of_def Let_def)
  qed
qed

lemma free_name_spec: "free_name desired used n \<notin> set used \<and> (\<exists>k \<ge> n. free_name desired used n = numbered_name desired k)"
proof (induction desired used n rule: free_name.induct)
  case (1 desired used n)
  show ?case
  proof (cases "numbered_name desired n \<in> set used")
    case True
    then show ?thesis using 1 [OF True] by (auto simp: free_name.simps [of desired used n] intro: Suc_leD)
  qed (auto simp: free_name.simps [of desired used n])
qed

lemma unique_name_spec:
  assumes "unique_name desired used = (x, used')"
  shows "x \<notin> set used" "used' = x # used" "x = desired \<or> (\<exists>k. x = numbered_name desired k)"
  using assms free_name_spec [of desired used 2] by (auto simp: unique_name_def Let_def split: if_splits)

lemma show_nat_no_slash: "CHR ''/'' \<notin> set (show_nat n)"
  using show_nat_digits [of "CHR ''/''" n] by (auto simp: is_ascii_digit_def)

lemma mount_name_path:
  assumes "unique_name (basename_of t) used = (x, used')" "t = CHR ''/'' # b" "storage_path_new x = Inr pre"
  shows "as_str pre = x \<and> x \<noteq> [] \<and> x \<notin> set used \<and> used' = x # used"
proof -
  note u = unique_name_spec [OF assms(1)]
  have no: "hd x \<noteq> CHR ''/'' \<or> x = []" using assms(3) by (cases x) (auto simp: storage_path_new_def split: if_splits)
  have "x \<noteq> [] \<and> CHR ''/'' \<notin> set x"
    using basename_of_cases [OF assms(2)]
  proof (elim disjE)
    assume "basename_of t = t"
    then have "hd x = CHR ''/''" "x \<noteq> []" using u(3) by (auto simp: assms(2) numbered_name_def)
    then show ?thesis using no by simp
  next
    assume "CHR ''/'' \<notin> set (basename_of t) \<and> basename_of t \<noteq> []"
    then show ?thesis using u(3) show_nat_no_slash by (auto simp: numbered_name_def)
  qed
  moreover from this have "pop_while_last (CHR ''/'') x = x" by (intro pop_while_last_id) (auto dest: last_in_set)
  ultimately show ?thesis using storage_path_new_InrD [OF assms(3)] u by simp
qed

text \<open>The home of a user, as far as it does not fail.\<close>

definition home_of :: "view_env \<Rightarrow> user_id \<Rightarrow> local_storage" where
  "home_of N u = \<lparr>ls_root = user_dir (vn_site N) (uid_str u) ''files'', ls_owner = Some (uid_str u)\<rparr>"

lemma home_storage_home:
  assumes "home_storage N u s = (Inr L, s1)"
  shows "L = home_of N u"
  using assms by (auto simp: home_storage_def home_of_def local_new_def with_owner_uid_def Let_def split: sum.splits prod.splits)

lemma home_storage_rest: "home_storage N u s = (r, s1) \<Longrightarrow> same_rest s s1"
proof -
  assume run: "home_storage N u s = (r, s1)"
  obtain r0 s0 where mk: "create_dir_all (user_dir (vn_site N) (uid_str u) ''files'') s = (r0, s0)" by fastforce
  then have "same_rest s s0" by (cases rule: create_dir_all_cases) auto
  moreover have "s1 = s0" using run mk by (auto simp: home_storage_def Let_def split: sum.splits)
  ultimately show ?thesis by simp
qed

lemma path_for_fileid_rest: "same_rest s s1 \<Longrightarrow> path_for_fileid N sid i s1 = path_for_fileid N sid i s"
  by (simp add: path_for_fileid_def same_rest_site(6))

lemma share_mounts_cons:
  assumes run: "share_mounts N used (row # rows) s = (Inr ms, s')"
  obtains (skipped) s1 where "share_mounts N used rows s1 = (Inr ms, s')" "same_rest s s1"
      "\<And>owner q. user_id_new (shr_owner row) = Inr owner \<Longrightarrow>
         path_for_fileid N (local_id (home_of N owner)) (shr_item_source row) s \<noteq> Inr (Some q)"
    | (mounted) owner s1 q x used' pre ms' where "user_id_new (shr_owner row) = Inr owner" "same_rest s s1"
        "unique_name (basename_of (shr_file_target row)) used = (x, used')"
        "storage_path_new x = Inr pre" "share_mounts N used' rows s1 = (Inr ms', s')"
        "ms = share_mount N (home_of N owner) q (shr_permissions row) pre (shr_owner row) # ms'"
        "path_for_fileid N (local_id (home_of N owner)) (shr_item_source row) s = Inr (Some q)"
proof (cases "user_id_new (shr_owner row)")
  case (Inl e)
  then show thesis using run by (intro skipped [of s]) simp_all
next
  case owner: (Inr owner)
  obtain r s1 where home: "home_storage N owner s = (r, s1)" by fastforce
  note same = home_storage_rest [OF home]
  show thesis
  proof (cases r)
    case (Inl e)
    then show thesis using run owner home by simp
  next
    case (Inr L)
    then have L: "L = home_of N owner" using home home_storage_home by simp
    note pid = path_for_fileid_rest [OF same, of N "local_id (home_of N owner)" "shr_item_source row"]
    note run' = run [unfolded share_mounts.simps owner sum.case home prod.case Inr L pid]
    show thesis
    proof (cases "\<exists>q. path_for_fileid N (local_id (home_of N owner)) (shr_item_source row) s = Inr (Some q)")
      case False
      then show thesis using run' owner same by (intro skipped [of s1]) (auto split: sum.splits option.splits)
    next
      case True
      then obtain q where q: "path_for_fileid N (local_id (home_of N owner)) (shr_item_source row) s = Inr (Some q)" by blast
      obtain x used' where x: "unique_name (basename_of (shr_file_target row)) used = (x, used')" by fastforce
      show thesis
        using run' mounted [OF owner same x _ _ _ q] unfolding q sum.case option.case x prod.case
        by (auto simp: ebind_def split: sum.splits prod.splits)
    qed
  qed
qed

lemma share_mounts_prefixes:
  assumes "share_mounts N used rows s = (Inr ms, s')" "\<forall>row \<in> set rows. \<exists>b. shr_file_target row = CHR ''/'' # b"
  shows "distinct (map mt_prefix ms) \<and> (\<forall>m \<in> set ms. as_str (mt_prefix m) \<noteq> [] \<and> as_str (mt_prefix m) \<notin> set used \<and>
    (\<exists>row \<in> set rows. mt_metadata m = Some \<lparr>mm_kind = MountShare, mm_owner = Some (shr_owner row),
       mm_permissions = Some (shr_permissions row)\<rparr>))"
  using assms
proof (induction rows arbitrary: used s ms)
  case Nil
  then show ?case by simp
next
  case (Cons row rows)
  from Cons.prems(1) show ?case
  proof (cases rule: share_mounts_cons)
    case (skipped s1)
    then show ?thesis using Cons.IH [of used s1 ms] Cons.prems(2) by auto
  next
    case (mounted owner s1 q x used' pre ms')
    obtain b where b: "shr_file_target row = CHR ''/'' # b" using Cons.prems(2) by auto
    note x = mount_name_path [OF mounted(3) b mounted(4)]
    have "distinct (map mt_prefix ms') \<and> (\<forall>m \<in> set ms'. as_str (mt_prefix m) \<noteq> [] \<and> as_str (mt_prefix m) \<notin> set used' \<and>
        (\<exists>row \<in> set rows. mt_metadata m = Some \<lparr>mm_kind = MountShare, mm_owner = Some (shr_owner row),
           mm_permissions = Some (shr_permissions row)\<rparr>))"
      using Cons.IH [OF mounted(5)] Cons.prems(2) by simp
    then show ?thesis using x by (auto simp: mounted(6) share_mount_def)
  qed
qed


lemma rejected_name:
  assumes "trim_by (\<lambda>c. c = CHR ''/'') t = []" "t \<noteq> []" "unique_name (basename_of t) used = (x, used')"
  shows "\<exists>e. storage_path_new x = Inl e"
proof -
  have b: "basename_of t = t" using assms(1) by (simp add: basename_of_def)
  have none: "dropWhile (\<lambda>c. c = CHR ''/'') (rev (dropWhile (\<lambda>c. c = CHR ''/'') t)) = []"
    using assms(1) by (simp only: trim_by_def trim_end_by_def trim_start_by_def rev_is_Nil_conv)
  have "hd t = CHR ''/''"
  proof (rule ccontr)
    assume h: "hd t \<noteq> CHR ''/''"
    then have same: "dropWhile (\<lambda>c. c = CHR ''/'') t = t" by (cases t) simp_all
    have "\<forall>c \<in> set (rev t). c = CHR ''/''" using none unfolding same by (rule dropWhile_eq_Nil_conv [THEN iffD1])
    moreover have "hd t \<in> set (rev t)" using assms(2) by simp
    ultimately show False using h by blast
  qed
  moreover have "x = t \<or> (\<exists>y. x = t @ y)" using unique_name_spec(3) [OF assms(3)] by (auto simp: b numbered_name_def)
  ultimately have "starts_with x ''/''" using assms(2) by (cases t) (auto simp: prefix_def)
  then show ?thesis by (simp add: storage_path_new_def)
qed

text \<open>
  C38. A share of the root of a home, whose target is a bare slash, takes every file away from its
  recipient: as long as the owner and the root row exist, the mounts of the recipient cannot be
  computed, their own home included.
\<close>

theorem root_share_locks_out:
  assumes "incoming_of u = Inr rows" "row \<in> set rows" "trim_by (\<lambda>c. c = CHR ''/'') (shr_file_target row) = []"
    "shr_file_target row \<noteq> []" "user_id_new (shr_owner row) = Inr owner"
    "path_for_fileid N (local_id (home_of N owner)) (shr_item_source row) s = Inr (Some q)"
  shows "\<exists>e. fst (mounts_for N incoming_of u s) = Inl e"
proof -
  have sh: "\<exists>e. fst (share_mounts N used rows s1) = Inl e" if "row \<in> set rows" "same_rest s s1" for used rows s1
    using that
  proof (induction rows arbitrary: used s1)
    case (Cons r rows)
    show ?case
    proof (rule ccontr)
      assume "\<nexists>e. fst (share_mounts N used (r # rows) s1) = Inl e"
      then obtain ms s2 where run: "share_mounts N used (r # rows) s1 = (Inr ms, s2)"
        by (metis obj_sumE prod.collapse)
      from run show False
      proof (cases rule: share_mounts_cons)
        case (skipped s3)
        have "r \<noteq> row" using skipped(3) [of owner q] path_for_fileid_rest [OF Cons.prems(2)] assms(5,6) by metis
        then show False
          using Cons.IH [of s3 used] Cons.prems skipped(1) same_rest_trans [OF Cons.prems(2) skipped(2)] by auto
      next
        case (mounted owner' s3 q' x used' pre ms')
        have "r \<noteq> row" using rejected_name [OF assms(3,4)] mounted(3,4) by (metis sum.distinct(1))
        then show False
          using Cons.IH [of s3 used'] Cons.prems mounted(5) same_rest_trans [OF Cons.prems(2) mounted(2)] by auto
      qed
    qed
  qed simp
  show ?thesis
  proof (rule ccontr)
    assume "\<nexists>e. fst (mounts_for N incoming_of u s) = Inl e"
    then obtain ms s2 where run: "mounts_for N incoming_of u s = (Inr ms, s2)" by (metis obj_sumE prod.collapse)
    then obtain L s1 where home: "home_storage N u s = (Inr L, s1)"
      by (auto simp: mounts_for_def home_mounts_def ebind_eq_Inr)
    have "op_list (local_ops (vn_local N) L) storage_root s1 = (r, s3) \<Longrightarrow> s3 = s1" for r s3
      by (simp add: local_ops_def local_list_def)
    then have "\<exists>used ms'. share_mounts N used rows s1 = (Inr ms', s2)"
      using run home assms(1)
      by (auto simp: mounts_for_def home_mounts_def home_top_level_names_def map_err_def ebind_def split: sum.splits prod.splits)
    then show False using sh [OF assms(2) home_storage_rest [OF home]] by (metis fst_conv sum.distinct(1))
  qed
qed

section \<open>Well-formed paths\<close>

definition mount_ok :: "mount \<Rightarrow> bool" where
  "mount_ok m \<longleftrightarrow> path_ok (mt_prefix m) \<and> (\<forall>i q. mt_inner m = Some (i, q) \<longrightarrow> path_ok q)"

lemma path_for_fileid_ok: "path_for_fileid N sid i s = Inr (Some q) \<Longrightarrow> path_ok q"
  by (auto simp: path_for_fileid_def lookup_row_by_id_def opt_row_def rbind_def into_row_def
      dest: storage_path_new_InrD split: sum.splits option.splits if_splits)

lemma share_mounts_ok: "share_mounts N used rows s = (Inr ms, s') \<Longrightarrow> m \<in> set ms \<Longrightarrow> mount_ok m"
proof (induction rows arbitrary: used s ms)
  case (Cons row rows)
  from Cons.prems(1) show ?case
  proof (cases rule: share_mounts_cons)
    case (skipped s1)
    then show ?thesis using Cons.IH Cons.prems(2) by blast
  next
    case (mounted owner s1 q x used' pre ms')
    have "mount_ok (share_mount N (home_of N owner) q (shr_permissions row) pre (shr_owner row))"
      using path_for_fileid_ok [OF mounted(7)] storage_path_new_InrD [OF mounted(4)] by (simp add: mount_ok_def share_mount_def)
    then show ?thesis using Cons.IH [OF mounted(5)] Cons.prems(2) by (auto simp: mounted(6))
  qed
qed simp

text \<open>
  C34. Every path that reaches a storage or the file cache is well formed: below the mounts of a
  user it has no empty piece, no dot piece and no piece that leads upwards, in the storage of the
  mount and, below the folder of a share, in the storage of its owner.
\<close>

theorem resolved_paths_wellformed:
  assumes "mounts_for N incoming_of u s = (Inr ms, s')" "view_resolve \<lparr>vw_uid = u, vw_mounts = ms\<rparr> p = Inr (m, q)"
  shows "path_ok q \<and> (case cache_key_for m q of Inl e \<Rightarrow> True | Inr (cs, cp) \<Rightarrow> path_ok cp)"
proof -
  have q: "path_ok q" and m: "m \<in> set ms"
    using assms(2) by (auto simp: view_resolve_def Let_def dest!: storage_path_new_InrD max_by_key_Some split: option.splits sum.splits)
  from assms(1) obtain L shares used rows s1 where
      "ms = \<lparr>mt_prefix = storage_root, mt_storage = local_ops (vn_local N) L, mt_inner = None, mt_metadata = None\<rparr> # shares"
      "share_mounts N used rows s1 = (Inr shares, s')"
    by (auto simp: mounts_for_def home_mounts_def home_top_level_names_def map_err_def ebind_def split: sum.splits prod.splits)
  then have "mount_ok m" using m share_mounts_ok by (auto simp: mount_ok_def)
  then show ?thesis
    using q by (auto simp: cache_key_for_def mount_ok_def under_prefix_def dest: storage_join_InrD split: option.splits sum.splits)
qed

section \<open>Refused deletions through a share\<close>

text \<open>A soft delete of bytes from elsewhere puts them under a new name in the bin, or fails.\<close>

lemma reader_cases:
  assumes run: "soft_delete_from_reader E u loc b kind fid (Inr bs) s = (r, s')" and wf: "disk_wf s"
  obtains (refused) e where "r = Inl e" "si_trash s' = si_trash s" "\<And>y. content s y \<noteq> None \<Longrightarrow> content s' y = content s y"
    | (taken) i x row y where "r = Inr i" "si_trash s' = si_trash s @ [row]" "te_id row = i" "i = si_next_trash s"
        "te_user row = u" "te_basename row = b" "te_suffix row = x" "te_type row = kind" "te_fileid row = fid"
        "content s' (trash_path E u b x) = Some (False, bs, y)" "\<not> too_long (trash_path E u b x)"
        "\<And>y. content s y \<noteq> None \<Longrightarrow> content s' y = content s y" "disk_wf s'" "trash_inv s \<Longrightarrow> trash_inv s'"
        "si_versions s' = si_versions s" "si_next_version s' = si_next_version s" "content s (trash_path E u b x) = None"
proof (cases "bad_basename b")
  case True
  then show thesis using run by (intro refused) (auto simp: soft_delete_from_reader_def)
next
  case False
  obtain t s1 where now: "site_now s = (t, s1)" by fastforce
  note s1 = site_now_facts [OF now]
  let ?x = "resolve_unique_suffix E u b t s1" and ?bin = "trash_dir E u"
  let ?p = "trash_path E u b ?x"
  have wf1: "disk_wf s1" using disk_wf_same [OF s1(2,3)] wf by simp
  obtain r2 s2 where mk: "create_dir_all ?bin s1 = (r2, s2)" by fastforce
  have s2: "disk_wf s2" "same_rest s s2" using disk_op_wf(5) [OF mk wf1] same_rest_trans [OF s1(1)] by simp_all
  have k2: "content s y \<noteq> None \<Longrightarrow> content s2 y = content s y" for y using create_dir_all_keeps [OF mk, of y] s1(2) by simp
  note run' = run [unfolded soft_delete_from_reader_def Let_def now prod.case mk, folded trash_path_def]
  show thesis
  proof (cases r2)
    case (Inl e)
    then show thesis using run' False same_rest_site(3) [OF s2(2)] k2 by (intro refused [of "TrIo e"]) auto
  next
    case (Inr un)
    obtain r3 s3 where wr: "write_new ?p bs s2 = (r3, s3)" by fastforce
    have s3: "disk_wf s3" "same_rest s s3" using disk_op_wf(4) [OF wr s2(1)] same_rest_trans [OF s2(2)] by simp_all
    note rest = same_rest_site [OF s3(2)]
    show thesis
    proof (cases r3)
      case (Inl e)
      moreover from this have "s3 = s2" using wr by (auto simp: write_new_def split: if_splits elim!: write_file_cases)
      ultimately show thesis using run' False Inr wr rest(3) k2 by (intro refused [of "TrIo e"]) auto
    next
      case ok: (Inr un')
      have free: "\<not> path_exists ?p s2" and wf3: "write_file ?p bs s2 = (Inr (), s3)"
        using wr ok by (auto simp: write_new_def split: if_splits)
      have "\<exists>y. content s3 ?p = Some (False, bs, y)" and short: "\<not> too_long ?p"
        using wf3 by (cases rule: write_file_cases; auto)+
      then obtain y where new: "content s3 ?p = Some (False, bs, y)" by blast
      have none: "content s2 ?p = None" using free short by (auto simp: path_exists_def metadata_at_def content_None split: option.splits sum.splits)
      have "content s2 ?p = content s1 ?p"
        using mk Inr by (cases rule: create_dir_all_cases) (auto simp: with_dirs_def trash_path_def)
      then have none0: "content s ?p = None" using none s1(2) by simp
      have run3: "insert_trash E u b ?x loc t kind fid s3 = (r, s')" using run' False Inr ok wr by simp
      note fr = insert_trash_frame [of E u b ?x loc t kind fid s3, unfolded run3 snd_conv]
      have k': "content s' y = content s y" if y: "content s y \<noteq> None" for y
      proof -
        have "y \<noteq> ?p" using y none0 by metis
        then have "content s3 y = content s2 y"
          using only_at_keep [OF write_file_only [OF wf3], of y] k2 [OF y] y by auto
        then show ?thesis using k2 [OF y] fr by simp
      qed
      show thesis
      proof (cases r)
        case (Inl e)
        then show thesis using insert_trash_Inl(2) [OF run3 [unfolded Inl]] rest(3) k' by (intro refused [of e]) auto
      next
        case (Inr i)
        note ins = insert_trash_Inr [OF run3 [unfolded Inr]]
        have "trash_inv s \<Longrightarrow> trash_inv s3" using rest(3,4) by (simp add: trash_inv_def)
        then have inv: "trash_inv s \<Longrightarrow> trash_inv s'"
          using insert_trash_inv [of s3 E u b ?x loc t kind fid] run3 by (metis snd_conv)
        show thesis
          by (rule taken [OF Inr, of "\<lparr>te_id = i, te_user = u, te_basename = b, te_suffix = ?x, te_location = loc,
                te_deleted = t, te_type = kind, te_fileid = fid\<rparr>" ?x y])
            (use ins fr rest s3(1) inv k' new short none0 in simp_all)
      qed
    qed
  qed
qed

lemma share_ops_refuse:
  assumes "\<not> allows_delete perms"
  shows "op_delete (mt_storage (share_mount N L ow perms pre w)) q s = (Inl StPermissionDenied, s)"
  using assms by (simp add: share_mount_def shared_subroot_ops_def sub_delete_def)

lemma local_reads_pure:
  "local_stat E L p s = (r, s') \<Longrightarrow> s' = s" "local_read L p s = (ry, s') \<Longrightarrow> s' = s"
  by (auto simp: local_stat_def local_read_def)

lemma share_reads_pure:
  "op_stat (mt_storage (share_mount N L ow perms pre w)) q s = (r, s') \<Longrightarrow> s' = s"
  "op_read (mt_storage (share_mount N L ow perms pre w)) q s = (ry, s') \<Longrightarrow> s' = s"
  by (auto simp: share_mount_def shared_subroot_ops_def sub_stat_def sub_read_def on_translated_def local_ops_def
      dest: local_reads_pure split: if_splits sum.splits)

text \<open>Undoing the copy: the purge of an entry that has just been made removes it and its row.\<close>

lemma purge_undoes:
  assumes "trash_inv s" "disk_wf s" "versions_inv s" "si_trash s = rows @ [row]" "te_user row = u" "te_type row = TrashFile"
    "content s (entry_path E row) = Some (False, x)" "\<not> too_long (entry_path E row)"
  shows "si_trash (snd (trash_purge E u (te_id row) s)) = rows \<and>
    (\<forall>q. \<not> prefix (user_dir E u ''files_versions'') q \<longrightarrow> q \<noteq> entry_path E row \<longrightarrow>
      content (snd (trash_purge E u (te_id row) s)) q = content s q)"
proof -
  obtain r s' where run: "purge_entry E row s = (r, s')" by fastforce
  have eq: "trash_purge E u (te_id row) s = (r, s')"
    using trash_by_id_row [OF assms(1), of row] assms(4,5) run by (simp add: trash_purge_def)
  have "\<not> through_file s (entry_path E row)"
  proof
    assume "through_file s (entry_path E row)"
    then obtain n where n: "n < length (entry_path E row)" "is_file_at s (take n (entry_path E row))"
      by (auto simp: through_file_def list_ex_iff)
    then have "strict_prefix (take n (entry_path E row)) (entry_path E row)" by (auto simp: strict_prefix_def take_is_prefix)
    moreover have "node_at s (entry_path E row) \<noteq> None" using assms(7) content_None [of s "entry_path E row"] by simp
    ultimately have "is_dir_at s (take n (entry_path E row))" using wf_above [OF assms(2)] by blast
    then show False using n(2) by (auto simp: is_dir_at_def is_file_at_def split: option.splits)
  qed
  then have ok: "purgeable E s row" using assms(6-8) by (simp add: purgeable_def is_dir_at_content)
  from run assms(2,3) show ?thesis
  proof (cases rule: purge_entry_cases)
    case purged
    have "filter (\<lambda>w. te_id w \<noteq> te_id row) rows = rows"
      using assms(1) unfolding trash_inv_def assms(4) by (intro filter_True) (auto simp: image_iff)
    moreover have "content s' q = content s q" if "\<not> prefix (user_dir E u ''files_versions'') q" "q \<noteq> entry_path E row" for q
    proof -
      have "\<not> is_dir_at s (entry_path E row)" using assms(7) by (simp add: is_dir_at_content)
      then have "prefix (entry_path E row) q \<Longrightarrow> content s q = None" using wf_file_tree [OF assms(2)] that(2) by metis
      then show ?thesis using purged(3) [of q] that(1) assms(5) by (cases "prefix (entry_path E row) q") simp_all
    qed
    ultimately show ?thesis using purged(2) by (simp add: eq assms(4))
  qed (use ok in simp)
qed

text \<open>A copy that was staged in the bin for a deletion that is refused afterwards leaves no trace.\<close>

lemma staged_copy_undone:
  assumes "disk_wf s" "trash_inv s" "versions_inv s"
    and sd: "soft_delete_from_reader E u loc b kind fid (Inr bytes) s = (r2, s2)" and kind: "kind \<noteq> TrashDir"
    and run: "(case r2 of Inl e \<Rightarrow> (Inl (map_trash_err e), s2)
      | Inr i \<Rightarrow> (Inl (FsStorage StPermissionDenied), snd (trash_purge E u i s2))) = (r, s')"
  shows "(\<exists>e. r = Inl e) \<and> si_trash s' = si_trash s \<and>
    (\<forall>x. content s x \<noteq> None \<longrightarrow> \<not> prefix (user_dir E u ''files_versions'') x \<longrightarrow> content s' x = content s x)"
  using sd assms(1)
proof (cases rule: reader_cases)
  case (refused e)
  then show ?thesis using run by auto
next
  case (taken i x row y)
  have wf: "versions_inv s2" using assms(3) taken(15,16) by (simp add: versions_inv_def)
  have "te_type row = TrashFile" using taken(8) kind by (cases kind) simp_all
  note undo = purge_undoes [OF taken(14) [OF assms(2)] taken(13) wf taken(2) taken(5) this, unfolded taken(5-7), OF taken(10,11)]
  show ?thesis using run undo taken(1,3,12,17) by auto
qed


section \<open>Refused writes through a share\<close>

lemma path_ok_plain:
  assumes "path_ok p" "\<not> is_root p"
  shows "plain_path (CHR ''/'' # as_str p)"
proof -
  have ne: "as_str p \<noteq> []" using assms(2) by (simp add: is_root_def)
  have good: "\<forall>x \<in> set (split_on (CHR ''/'') (as_str p)). good_segment x" using assms(1) ne by (simp add: path_ok_def segs_def)
  then have hd: "hd (as_str p) \<noteq> CHR ''/''"
    using good_segments_ends(1) [of "split_on (CHR ''/'') (as_str p)"] by (simp add: join_split)
  then have "trim_slashes (CHR ''/'' # as_str p) = as_str p" using ne by (cases "as_str p") simp_all
  then show ?thesis using good ne by (auto simp: plain_path_def plain_def good_segment_def)
qed

lemma under_prefix_ok:
  assumes "under_prefix ow q = Inr cp" "path_ok ow" "\<not> is_root ow"
  shows "path_ok cp \<and> \<not> is_root cp"
proof -
  have "storage_join ow (as_str q) = Inr cp \<Longrightarrow> \<exists>rest. segs cp = segs ow @ rest" using storage_join_segs [OF assms(2)] .
  then show ?thesis using assms
    by (auto simp: under_prefix_def is_root_def segs_Nil_iff [symmetric] dest: storage_join_InrD split: if_splits)
qed

lemma snapshot_hook_frame:
  assumes run: "snapshot_before_overwrite N V m q s = (r, s')" and wf: "disk_wf s"
    and m: "m = share_mount N L ow perms pre w" "path_ok ow" "\<not> is_root ow"
  shows "disk_wf s' \<and> si_trash s' = si_trash s \<and>
    (\<forall>x. content s x \<noteq> None \<longrightarrow> \<not> prefix (user_dir (vn_site N) w ''files_versions'') x \<longrightarrow> content s' x = content s x)"
proof (cases "under_prefix ow q")
  case (Inl e)
  then show ?thesis using run wf
    by (simp add: snapshot_before_overwrite_def with_key_def cache_key_for_def m(1) share_mount_def)
next
  case (Inr cp)
  let ?cs = "local_ops (vn_local N) L"
  have key: "cache_key_for m q = Inr (?cs, cp)" using Inr by (simp add: cache_key_for_def m(1) share_mount_def)
  have owner: "Option.bind (mt_metadata m) mm_owner = Some w" by (simp add: m(1) share_mount_def)
  note run' = run [unfolded snapshot_before_overwrite_def with_key_def key sum.case prod.case owner option.case Let_def]
  show ?thesis
  proof (cases "\<exists>row. cached_row_of N ?cs cp s = Some row \<and> \<not> (fcr_kind row = KDirectory \<or> fcr_size row = 0)")
    case False
    then have "s' = s" using run' by (auto split: option.splits if_splits)
    then show ?thesis using wf by simp
  next
    case True
    then obtain row where row: "cached_row_of N ?cs cp s = Some row" "\<not> (fcr_kind row = KDirectory \<or> fcr_size row = 0)" by blast
    obtain sid S where sid: "intern_storage (op_id ?cs s) (si_cache s) = (sid, S)" by fastforce
    obtain t s1 where now: "site_now (s\<lparr>si_cache := S\<rparr>) = (t, s1)" by fastforce
    note n = site_now_facts [OF now]
    have c0: "content (s\<lparr>si_cache := S\<rparr>) = content s" by (rule ext) (simp add: content_def)
    have s1: "disk_wf s1" "content s1 = content s" "si_trash s1 = si_trash s"
      using disk_wf_same [of s1 s] n(2,3) c0 wf same_rest_site(3) [OF n(1)] by simp_all
    obtain r2 s2 where snap: "snapshot_if_needed (vn_site N) w sid (fcr_id row) (CHR ''/'' # as_str cp) (sint (fcr_size row))
        t (vn_min_interval N) (uint (vn_max_bytes N)) s1 = (r2, s2)" by fastforce
    have s': "s' = s2" using run' row sid now snap by (auto split: sum.splits versions_error.splits)
    have "plain_path (CHR ''/'' # as_str cp)" using path_ok_plain under_prefix_ok [OF Inr m(2,3)] by blast
    note f = snapshot_frame [OF snap this s1(1)]
    have "content s2 x = content s1 x" if "content s1 x \<noteq> None" "\<not> prefix (user_dir (vn_site N) w ''files_versions'') x" for x
      using only_at_keep [of _ s1 s2 x] f version_below [of "vn_site N" w] that by blast
    then show ?thesis using f s1 unfolding s' other_tables_def by auto
  qed
qed


section \<open>What the cached reads show\<close>

text \<open>
  C37. What a link without the right to read shows: a listing that the file cache answers is the
  listing of the folder of the owner, whatever the rights of the link, although its storage lists
  nothing. The view leaves it to its callers to keep a file drop blind.
\<close>

theorem file_drop_listed:
  assumes at: "view_resolve \<lparr>vw_uid = u, vw_mounts = [share_mount N L ow perms storage_root w]\<rparr> p = Inr (m, q)"
    and "under_prefix ow q = Inr cp" and cached: "with_cache (fc_list (vn_cache N) (local_ops (vn_local N) L) cp) s = (Inr es, s1)"
    and "\<not> contains_read perms" "allows_create perms"
  shows "view_list N \<lparr>vw_uid = u, vw_mounts = [share_mount N L ow perms storage_root w]\<rparr> p s = (Inr es, s1) \<and>
    fst (op_list (mt_storage m) q s) \<in> {Inr [], Inl StPermissionDenied}"
proof -
  let ?m = "share_mount N L ow perms storage_root w"
  have m: "m = ?m" using at by (auto simp: view_resolve_def max_by_key_def Let_def split: sum.splits option.splits if_splits)
  have "cache_key_for m q = Inr (local_ops (vn_local N) L, cp)"
    using assms(2) by (simp add: cache_key_for_def m share_mount_def)
  then have "base_entries N m q s = (Inr es, s1)" using cached by (simp add: base_entries_def with_key_def)
  moreover have "listed_abs m q = Inr q" "mt_prefix m = storage_root"
    by (simp_all add: listed_abs_def m share_mount_def is_root_def storage_root_def)
  ultimately have "view_list N \<lparr>vw_uid = u, vw_mounts = [?m]\<rparr> p s = (Inr (map le_entry (map (\<lambda>e. \<lparr>le_entry = e, le_mount = None\<rparr>) es)), s1)"
    using at by (simp add: view_list_def list_with_meta_def on_mount_def ebind_def m share_mount_def is_root_def storage_root_def)
  moreover have "map le_entry (map (\<lambda>e. \<lparr>le_entry = e, le_mount = None\<rparr>) es) = es" by (simp add: map_idI)
  moreover have "fst (op_list (mt_storage m) q s) \<in> {Inr [], Inl StPermissionDenied}"
    using assms(4,5) by (simp add: m share_mount_def shared_subroot_ops_def sub_list_def is_create_only_def)
  ultimately show ?thesis by simp
qed

end
