(* ===== verification/View_Samples.thy ===== *)
theory View_Samples
  imports View_Correct
begin

text \<open>
  The properties of the view at work on a small installation: alice has access to a folder of bob.
\<close>

text \<open>Bob shares the folder \<open>d\<close> and his home with alice; the file cache knows both and the file in the folder.\<close>

definition view_env_sample :: view_env where
  "view_env_sample = \<lparr>vn_site = site_env_sample, vn_cache = \<lparr>fe_dialect = Sqlite, fe_md5 = (\<lambda>x. x), fe_lower = (\<lambda>x. x)\<rparr>,
     vn_local = local_env_sample, vn_io_text = (\<lambda>e. ''io''), vn_min_interval = 60, vn_max_bytes = 1000\<rparr>"

definition cache_row_sample :: "int \<Rightarrow> string \<Rightarrow> int option \<Rightarrow> string \<Rightarrow> int \<Rightarrow> int \<Rightarrow> fc_row" where
  "cache_row_sample i p par n mime sz = \<lparr>fr_id = i, fr_storage = 1, fr_path = p, fr_hash = p, fr_parent = par, fr_name = n,
     fr_mime = mime, fr_part = 1, fr_size = sz, fr_mtime = 0, fr_stime = 0, fr_etag = replicate 40 (CHR ''0''), fr_perms = 31\<rparr>"

definition view_sample :: site where
  "view_sample = site_sample\<lparr>
     dk_nodes := [([], sample_node True []), ([''data''], sample_node True []), ([''data'', ''bob''], sample_node True []),
        ([''data'', ''bob'', ''files''], sample_node True []), ([''data'', ''bob'', ''files'', ''d''], sample_node True []),
        ([''data'', ''bob'', ''files'', ''d'', ''f''], sample_node False [5, 6]),
        ([''data'', ''alice''], sample_node True []), ([''data'', ''alice'', ''files''], sample_node True [])],
     si_cache := \<lparr>fd_rows = [cache_row_sample 1 [] None [] 1 2, cache_row_sample 2 ''d'' (Some 1) ''d'' 1 2,
          cache_row_sample 3 ''d/f'' (Some 2) ''f'' 2 2],
        fd_next = 4, fd_storages = [(1, ''local::/data/bob/files'', None)],
        fd_mimes = [(1, DIRECTORY_MIMETYPE), (2, ''text/plain'')], fd_storage_ids = (\<lambda>_. None), fd_mime_ids = (\<lambda>_. None),
        fd_world = sample_world\<rparr>\<rparr>"

lemma view_sample_tables: "disk_wf view_sample" "trash_inv view_sample" "versions_inv view_sample"
    "si_trash view_sample = []"
  by (code_simp, simp_all add: trash_inv_def versions_inv_def view_sample_def site_sample_def)

definition share_row_sample :: "string \<Rightarrow> int \<Rightarrow> share_row" where
  "share_row_sample t src = \<lparr>shr_id = 1, shr_type = ShareUser, shr_with = Some ''alice'', shr_owner = ''bob'', shr_initiator = ''bob'',
     shr_parent = None, shr_item_type = ItemFolder, shr_item_source = src, shr_file_source = src, shr_file_target = t,
     shr_permissions = SharePermissions 1, shr_stime = 0, shr_accepted = True, shr_expiration = None,
     shr_token = None, shr_password = None, shr_last_warned = None\<rparr>"

definition bob_home :: local_storage where
  "bob_home = \<lparr>ls_root = [''data'', ''bob'', ''files''], ls_owner = Some ''bob''\<rparr>"

text \<open>The mount of the folder with the given rights, and the view of alice on it.\<close>

abbreviation folder_mount :: "u8 \<Rightarrow> string \<Rightarrow> mount" where
  "folder_mount rights pre \<equiv>
     share_mount view_env_sample bob_home (StoragePath ''d'') (SharePermissions rights) (StoragePath pre) ''bob''"

definition alice_view :: "u8 \<Rightarrow> view" where
  "alice_view rights = \<lparr>vw_uid = UserId ''alice'', vw_mounts = [
     \<lparr>mt_prefix = storage_root, mt_storage = local_ops local_env_sample (home_of view_env_sample (UserId ''alice'')),
       mt_inner = None, mt_metadata = None\<rparr>, folder_mount rights ''d'']\<rparr>"

lemma file_name: "storage_path_new ''f'' = Inr (StoragePath ''f'')" "storage_path_new [] = Inr storage_root"
  by code_simp+

lemma alice_resolves:
  "view_resolve (alice_view rights) (UserPath ''/d/f'') = Inr (folder_mount rights ''d'', StoragePath ''f'')"
  by (simp add: view_resolve_def alice_view_def Let_def max_by_key_def mount_matches_def share_mount_def is_root_def
      storage_root_def file_name)

section \<open>Witnesses\<close>

lemma folder_path_ok: "path_ok (StoragePath ''d'')" "\<not> is_root (StoragePath ''d'')"
  by (simp_all add: path_ok_def segs_def good_segment_def MAX_PATH_LEN_def is_root_def)

lemma alice_path_ok: "user_path_ok (UserPath ''/d/f'')"
  by code_simp

theorem resolve_longest_witness:
  "case view_resolve (alice_view 1) (UserPath ''/d/f'') of Inl e \<Rightarrow> False
   | Inr (m, q) \<Rightarrow> usegs (UserPath ''/d/f'') = segs (mt_prefix m) @ segs q \<and>
       map (\<lambda>n. length (segs (mt_prefix n)) \<le> length (segs (mt_prefix m))) (vw_mounts (alice_view 1)) = [True, True]"
proof -
  have "usegs (UserPath ''/d/f'') = [''d'', ''f'']" by code_simp
  then show ?thesis
    using resolve_longest [of "UserPath ''/d/f''" "alice_view 1"] alice_path_ok folder_path_ok
    by (simp add: alice_resolves) (simp add: alice_view_def share_mount_def storage_root_def segs_def)
qed


theorem resolved_paths_wellformed_witness:
  "\<exists>ms s' m q. mounts_for view_env_sample (\<lambda>u. Inr [share_row_sample ''/d'' 2]) (UserId ''alice'') view_sample = (Inr ms, s') \<and>
     view_resolve \<lparr>vw_uid = UserId ''alice'', vw_mounts = ms\<rparr> (UserPath ''/d/f'') = Inr (m, q) \<and> path_ok q"
proof -
  let ?R = "mounts_for view_env_sample (\<lambda>u. Inr [share_row_sample ''/d'' 2]) (UserId ''alice'') view_sample"
  have "case fst ?R of Inl e \<Rightarrow> False | Inr ms \<Rightarrow>
      \<not> isl (view_resolve \<lparr>vw_uid = UserId ''alice'', vw_mounts = ms\<rparr> (UserPath ''/d/f''))" by code_simp
  then obtain ms m q where ms: "fst ?R = Inr ms" "view_resolve \<lparr>vw_uid = UserId ''alice'', vw_mounts = ms\<rparr> (UserPath ''/d/f'') = Inr (m, q)"
    by (auto split: sum.splits) (metis obj_sumE surj_pair isl_def)
  then have R: "?R = (Inr ms, snd ?R)" by (metis prod.collapse)
  show ?thesis using resolved_paths_wellformed [OF R ms(2)] ms(2) R by blast
qed

theorem root_share_locks_out_witness:
  "\<exists>e. fst (mounts_for view_env_sample (\<lambda>u. Inr [share_row_sample ''/'' 1]) (UserId ''alice'') view_sample) = Inl e"
proof -
  have "path_for_fileid view_env_sample (local_id (home_of view_env_sample (UserId ''bob'')))
      (shr_item_source (share_row_sample ''/'' 1)) view_sample = Inr (Some storage_root)"
    by code_simp
  moreover have "user_id_new (shr_owner (share_row_sample ''/'' 1)) = Inr (UserId ''bob'')" by code_simp
  ultimately show ?thesis
    using root_share_locks_out [of "\<lambda>u. Inr [share_row_sample ''/'' 1]" "UserId ''alice''" "[share_row_sample ''/'' 1]"
        "share_row_sample ''/'' 1" "UserId ''bob''" view_env_sample view_sample storage_root]
    by (simp add: share_row_sample_def trim_by_def trim_end_by_def trim_start_by_def)
qed



theorem file_drop_listed_witness:
  "\<exists>m q es s1. view_list view_env_sample \<lparr>vw_uid = UserId ''bob'', vw_mounts = [folder_mount 4 []]\<rparr> (UserPath ''/'') view_sample =
       (Inr es, s1) \<and> map de_name es = [''f''] \<and> view_resolve \<lparr>vw_uid = UserId ''bob'', vw_mounts = [folder_mount 4 []]\<rparr> (UserPath ''/'') = Inr (m, q) \<and>
     fst (op_list (mt_storage m) q view_sample) \<in> {Inr [], Inl StPermissionDenied}"
proof -
  let ?V = "\<lparr>vw_uid = UserId ''bob'', vw_mounts = [folder_mount 4 []]\<rparr>"
  let ?C = "with_cache (fc_list (vn_cache view_env_sample) (local_ops (vn_local view_env_sample) bob_home) (StoragePath ''d'')) view_sample"
  have at: "view_resolve ?V (UserPath ''/'') = Inr (folder_mount 4 [], storage_root)"
    by (simp add: view_resolve_def Let_def max_by_key_def mount_matches_def share_mount_def is_root_def
        file_name)
  let ?F = "vn_cache view_env_sample" and ?o = "local_ops (vn_local view_env_sample) bob_home :: site storage_ops"
  have id: "op_id ?o view_sample = ''local::/data/bob/files''" by code_simp
  have hit: "fc_stat ?F ?o (StoragePath x) (view_sample, si_cache view_sample) = (Inr md, view_sample, si_cache view_sample)"
    if "md = row_to_metadata row" "lookup_row ?F ''local::/data/bob/files'' (StoragePath x) (si_cache view_sample) = Inr (Some row)" for x md row
    using that id by (simp add: fc_stat.simps)
  have known: "\<exists>row. lookup_row ?F ''local::/data/bob/files'' (StoragePath x) (si_cache view_sample) = Inr (Some row)"
    if "x = ''d'' \<or> x = ''d/f''" for x
  proof -
    have "case lookup_row ?F ''local::/data/bob/files'' (StoragePath ''d'') (si_cache view_sample) of Inr (Some row) \<Rightarrow> True | _ \<Rightarrow> False"
      "case lookup_row ?F ''local::/data/bob/files'' (StoragePath ''d/f'') (si_cache view_sample) of Inr (Some row) \<Rightarrow> True | _ \<Rightarrow> False"
      by code_simp+
    then show ?thesis using that by (auto split: sum.splits option.splits)
  qed
  have "case fst (local_list local_env_sample bob_home (StoragePath ''d'') view_sample) of Inl e \<Rightarrow> False | Inr es \<Rightarrow> map de_name es = [''f'']"
    by code_simp
  then obtain e where e: "fst (local_list local_env_sample bob_home (StoragePath ''d'') view_sample) = Inr [e]" "de_name e = ''f''"
    by (cases "fst (local_list local_env_sample bob_home (StoragePath ''d'') view_sample)") auto
  then have "op_list ?o (StoragePath ''d'') view_sample = (Inr [e], view_sample)"
    by (simp add: local_ops_def local_list_def view_env_sample_def)
  moreover have "storage_join (StoragePath ''d'') ''f'' = Inr (StoragePath ''d/f'')" "\<not> is_root (StoragePath ''d'')" by code_simp+
  ultimately have "fst ?C = Inr [e]"
    using known [of "''d''"] known [of "''d/f''"] e(2) hit
    by (auto simp: with_cache_def fc_list_def ebind_def)
  then obtain es where es: "fst ?C = Inr es" "map de_name es = [''f'']" using e(2) by simp
  then have C: "?C = (Inr es, snd ?C)" by (metis prod.collapse)
  have "under_prefix (StoragePath ''d'') storage_root = Inr (StoragePath ''d'')"
    "\<not> contains_read (SharePermissions 4)" "allows_create (SharePermissions 4)" by code_simp+
  note run = file_drop_listed [OF at [folded storage_root_def] this(1) C this(2,3), unfolded storage_root_def]
  show ?thesis
    by (intro exI conjI, rule run [THEN conjunct1], rule es(2), rule at [unfolded storage_root_def], rule run [THEN conjunct2])
qed

end
