(* ===== verification/LocalShare.thy ===== *)
theory LocalShare
  imports LocalStorage_Correct ShareSubroot
begin

text \<open>
  A share on the backend that a server runs: the wrapper of \<open>ShareSubroot\<close> around the local
  storage. Whatever the recipient calls, no node outside the shared folder changes, on success and
  on failure.
\<close>

section \<open>Changes inside one directory\<close>

text \<open>\<open>inside B d d'\<close>: the state stays well formed and only nodes at or below \<open>B\<close> differ.\<close>

definition inside :: "fpath \<Rightarrow> 'd disk_scheme \<Rightarrow> 'd disk_scheme \<Rightarrow> bool" where
  "inside B d d' \<longleftrightarrow> (disk_wf d \<longrightarrow> disk_wf d') \<and> (disk_wf d \<longrightarrow> (\<forall>x. \<not> prefix B x \<longrightarrow> content d' x = content d x))"

lemma inside_refl [simp]: "inside B d d"
  by (simp add: inside_def)

lemma inside_trans [trans]: "inside B a b \<Longrightarrow> inside B b c \<Longrightarrow> inside B a c"
  by (simp add: inside_def)

lemma inside_same: "same_tree d d' \<Longrightarrow> inside B d d'"
  using same_tree_wf by (auto simp: inside_def same_tree_def)

lemma below_ne: "prefix B p \<Longrightarrow> B \<noteq> [] \<Longrightarrow> p \<noteq> []"
  by auto

lemma inside_upd:
  "content d' = (content d)(p \<mapsto> x) \<Longrightarrow> prefix B p \<Longrightarrow> B \<noteq> [] \<Longrightarrow> (disk_wf d \<Longrightarrow> p \<noteq> [] \<Longrightarrow> disk_wf d') \<Longrightarrow> inside B d d'"
  using below_ne [of B p] by (auto simp: inside_def)

lemma inside_event: "inside B d (emit_event ev d)"
  by (rule inside_same) (auto simp: same_tree_def emit_event_def content_def)

lemma create_dir_inside: "create_dir p d = (r, d') \<Longrightarrow> prefix B p \<Longrightarrow> B \<noteq> [] \<Longrightarrow> inside B d d'"
  by (erule create_dir_cases) (simp_all add: inside_upd)

lemma write_file_inside: "write_file p bs d = (r, d') \<Longrightarrow> prefix B p \<Longrightarrow> B \<noteq> [] \<Longrightarrow> inside B d d'"
  by (erule write_file_cases) (simp_all add: inside_upd)

lemma copy_file_inside: "copy_file a b d = (r, d') \<Longrightarrow> prefix B b \<Longrightarrow> B \<noteq> [] \<Longrightarrow> inside B d d'"
  by (auto simp: copy_file_def split: sum.splits if_splits dest: write_file_inside)

lemma drop_tree_inside: "prefix B p \<Longrightarrow> B \<noteq> [] \<Longrightarrow> inside B d (drop_tree p (touch_parent p d))"
  using below_ne [of B p] by (auto simp: inside_def content_drop_tree intro!: drop_tree_wf)

lemma remove_inside:
  "remove_file p d = (r, d') \<Longrightarrow> prefix B p \<Longrightarrow> B \<noteq> [] \<Longrightarrow> inside B d d'"
  "remove_dir p d = (r, d') \<Longrightarrow> prefix B p \<Longrightarrow> B \<noteq> [] \<Longrightarrow> inside B d d'"
  by (auto simp: remove_file_def remove_dir_def drop_tree_inside split: sum.splits if_splits)

lemma rename_inside:
  assumes "rename a b d = (r, d')" "prefix B a" "prefix B b"
  shows "inside B d d'"
proof (cases "disk_wf d")
  case True
  from assms(1) True show ?thesis
  proof (cases rule: rename_cases)
    case (moved x)
    have "content d' q = content d q" if "\<not> prefix B q" for q
      using moved(9) [of q] that prefix_order.trans [OF assms(2)] prefix_order.trans [OF assms(3)] by auto
    then show ?thesis using moved(11) by (simp add: inside_def)
  qed simp_all
qed (simp add: inside_def)

lemma set_xattr_inside:
  assumes "prefix B p" "B \<noteq> []" "\<And>n. nd_dir (f n) = nd_dir n \<and> nd_data (f n) = nd_data n"
  shows "inside B d (set_xattr on p f d)"
proof (cases "node_at d p")
  case None
  then show ?thesis by (simp add: set_xattr_def)
next
  case (Some n)
  show ?thesis
  proof (cases "on \<and> \<not> too_long p")
    case False
    then show ?thesis by (auto simp: set_xattr_def split: option.splits)
  next
    case True
    have eq: "set_xattr on p f d = set_node p (f n) d" using True Some by (simp add: set_xattr_def)
    have c: "content (set_node p (f n) d) = (content d)(p \<mapsto> (nd_dir n, nd_data n, nd_etag (f n), nd_mime (f n)))"
      using assms(3) by (simp add: content_set_node)
    show ?thesis unfolding eq
    proof (rule inside_upd [OF c assms(1,2)])
      assume wf: "disk_wf d"
      have "map fst (dk_nodes (set_node p (f n) d)) = map fst (dk_nodes d) @ (if node_at d p = None then [p] else [])"
        using Some keys_set_node [of p "f n" d] by simp
      moreover have "is_dir_at d (butlast p)" if "p \<noteq> []"
        using wf_above [OF wf, of p "butlast p"] that Some by (cases p rule: rev_cases) (simp_all add: strict_prefix_def)
      moreover have "is_dir_at d p \<longrightarrow> nd_dir n" using Some by (simp add: is_dir_at_def)
      moreover have "p \<noteq> [] \<or> nd_dir n" using below_ne [OF assms(1,2)] by simp
      ultimately show "disk_wf (set_node p (f n) d)" by (intro wf_upd [OF wf c])
    qed
  qed
qed

lemma fresh_etag_inside: "fresh_etag d = (et, d') \<Longrightarrow> inside B d d'"
  by (rule inside_same) (auto simp: fresh_etag_def same_tree_world split: prod.splits)

section \<open>Copies\<close>

lemma copy_leaf_inside:
  assumes "copy_leaf E a b d = (r, d')" "prefix B b" "B \<noteq> []"
  shows "inside B d d'"
proof -
  obtain r1 d1 where cp: "copy_file a b d = (r1, d1)" by fastforce
  have i1: "inside B d d1" by (rule copy_file_inside [OF cp assms(2,3)])
  show ?thesis
  proof (cases r1)
    case (Inl e)
    then show ?thesis using assms(1) cp i1 by (simp add: copy_leaf_def)
  next
    case (Inr u)
    obtain et d2 where et: "fresh_etag d1 = (et, d2)" by fastforce
    have "inside B d d2" by (rule inside_trans [OF i1 fresh_etag_inside [OF et]])
    moreover have d': "d' = set_xattr (le_xattr E) b (\<lambda>n. n\<lparr>nd_etag := Some (etag_str et)\<rparr>) d2"
      using assms(1) cp Inr et by (simp add: copy_leaf_def)
    moreover have "inside B d2 d'" unfolding d' by (rule set_xattr_inside [OF assms(2,3)]) simp
    ultimately show ?thesis using inside_trans by blast
  qed
qed

lemma copy_entries_inside:
  assumes "\<And>a b d r d'. rec a b d = (r, d') \<Longrightarrow> prefix B b \<Longrightarrow> inside B d d'" "prefix B dst" "B \<noteq> []"
    "copy_entries E rec src dst names d = (r, d')"
  shows "inside B d d'"
  using assms(4)
proof (induction names arbitrary: d r)
  case (Cons name names)
  have dst: "prefix B (dst @ [name])" using assms(2) by simp
  show ?case
  proof (cases "metadata_at (src @ [name]) d")
    case (Inl e)
    then show ?thesis using Cons.prems by simp
  next
    case (Inr n)
    obtain r1 d1 where st: "(if nd_dir n then rec (src @ [name]) (dst @ [name]) d else copy_leaf E (src @ [name]) (dst @ [name]) d) = (r1, d1)"
      by fastforce
    have i1: "inside B d d1"
      using st assms(1) [OF _ dst] copy_leaf_inside [OF _ dst assms(3)] by (auto split: if_splits)
    show ?thesis
    proof (cases r1)
      case (Inl e)
      then show ?thesis using Cons.prems Inr st i1 by simp
    next
      case ok: (Inr u)
      then have "copy_entries E rec src dst names d1 = (r, d')" using Cons.prems Inr st by simp
      then show ?thesis by (rule inside_trans [OF i1 Cons.IH])
    qed
  qed
qed simp

lemma copy_dir_inside:
  "copy_dir_recursive k E src dst d = (r, d') \<Longrightarrow> prefix B dst \<Longrightarrow> B \<noteq> [] \<Longrightarrow> inside B d d'"
proof (induction k arbitrary: src dst d r d')
  case (Suc k)
  obtain r1 d1 where mk: "create_dir dst d = (r1, d1)" by fastforce
  have i1: "inside B d d1" by (rule create_dir_inside [OF mk Suc.prems(2,3)])
  show ?case
  proof (cases "(\<exists>e. r1 = Inl e) \<or> (\<exists>e. read_dir src d1 = Inl e)")
    case True
    then have "d' = d1" using Suc.prems(1) mk by (auto split: sum.splits)
    then show ?thesis using i1 by simp
  next
    case False
    then obtain u names where "r1 = Inr u" "read_dir src d1 = Inr names" by (metis obj_sumE)
    then have "copy_entries E (copy_dir_recursive k E) src dst names d1 = (r, d')" using Suc.prems(1) mk by simp
    then have "inside B d1 d'"
      by (rule copy_entries_inside [rotated 3]) (use Suc.IH Suc.prems(2,3) in blast)+
    then show ?thesis by (rule inside_trans [OF i1])
  qed
qed simp

section \<open>The operations of the backend\<close>

lemma finish_write_wf:
  assumes "finish_write E L path temp real head id d = (r, d')" "disk_wf d" "temp \<noteq> []"
  shows "disk_wf d'"
proof -
  obtain et d1 where et: "fresh_etag d = (et, d1)" by fastforce
  let ?d2 = "set_xattr (le_xattr E) temp (\<lambda>n. n\<lparr>nd_etag := Some (etag_str et)\<rparr>) d1"
  let ?d3 = "set_xattr (le_xattr E) temp (\<lambda>n. n\<lparr>nd_mime := Some (mime_str (detect E (as_str path) head))\<rparr>) ?d2"
  have "inside temp d ?d3"
    by (rule inside_trans [OF inside_trans [OF fresh_etag_inside [OF et]]]; rule set_xattr_inside) (simp_all add: assms(3))
  then have wf3: "disk_wf ?d3" using assms(2) by (simp add: inside_def)
  obtain r4 d4 where ren: "rename temp real ?d3 = (r4, d4)" by fastforce
  have wf4: "disk_wf d4" using disk_op_wf(7) [OF ren wf3] by simp
  have "disk_wf (drop_guard temp d4)"
    unfolding drop_guard_def using disk_op_wf(6) [OF prod.collapse [symmetric] wf4] by simp
  moreover have "disk_wf (emit_event ev d4)" for ev
    using wf4 inside_event [of "[]" d4 ev] by (simp add: inside_def)
  ultimately show ?thesis
    using assms(1) wf4 by (auto simp: finish_write_def Let_def et ren split: sum.splits)
qed

lemma local_put_wf:
  assumes run: "local_put_file E L path body d = (r, d')" and wf: "disk_wf d"
  shows "disk_wf d'"
proof -
  have guard: "disk_wf (drop_guard temp d1)" if "disk_wf d1" for temp and d1 :: "'a disk_scheme"
    unfolding drop_guard_def using disk_op_wf(6) [OF prod.collapse [symmetric] that] by simp
  have temp: "temp \<noteq> [] \<and> disk_wf d1" if "sibling_temp real d = (temp, d1)" for real temp d1
    using that wf by (auto simp: sibling_temp_def split: prod.splits)
  have wr: "disk_wf d2" if "write_file temp bs d1 = (r2, d2)" "disk_wf d1" for temp bs r2 and d1 d2 :: "'a disk_scheme"
    using disk_op_wf(2) [OF that] by simp
  show ?thesis
    using run wf
    by (auto simp: local_put_file_def split: sum.splits if_splits prod.splits
        dest!: temp intro: guard dest: wr finish_write_wf)
qed

text \<open>Paths below the shared folder, with the random name of the temporary file free.\<close>

abbreviation at_root :: "local_storage \<Rightarrow> storage_path \<Rightarrow> fpath" where
  "at_root L p \<equiv> ls_root L @ segs p"

lemma local_put_inside:
  assumes "local_put_file E L p body d = (r, d')" "prefix B (at_root L p)"
    "content d (fst (sibling_temp (at_root L p) d)) = None"
  shows "inside B d d'"
proof (cases "disk_wf d")
  case True
  have "content d' x = content d x" if "\<not> prefix B x" for x
    using local_put_content [OF True assms(1,3)] assms(2) that by (auto split: if_splits)
  then show ?thesis using local_put_wf [OF assms(1) True] by (simp add: inside_def)
qed (simp add: inside_def)

lemma local_mkdir_inside:
  assumes "local_mkdir E L p d = (r, d')" "prefix B (at_root L p)" "B \<noteq> []"
  shows "inside B d d'"
proof (cases "local_resolve L p d")
  case (Inl e)
  then show ?thesis using assms(1) by (simp add: local_mkdir_def)
next
  case (Inr real)
  have real: "real = at_root L p" using Inr by (rule local_resolve_Inr)
  obtain r1 d1 where mk: "create_dir real d = (r1, d1)" by fastforce
  have "inside B d d1" using create_dir_inside [OF mk _ assms(3)] assms(2) real by simp
  moreover have "d' = d1 \<or> (\<exists>ev. d' = emit_event ev d1)"
    using assms(1) Inr mk by (auto simp: local_mkdir_def split: sum.splits)
  ultimately show ?thesis using inside_trans inside_event by blast
qed

lemma local_delete_inside:
  assumes "local_delete L p d = (r, d')" "prefix B (at_root L p)" "B \<noteq> []"
  shows "inside B d d'"
proof (cases "local_resolve L p d")
  case (Inl e)
  then show ?thesis using assms(1) by (simp add: local_delete_def)
next
  case (Inr real)
  have B: "prefix B real" using local_resolve_Inr [OF Inr] assms(2) by simp
  have rm: "inside B d d1" if "(if x then remove_dir real d else remove_file real d) = (r1, d1)" for x r1 d1
    using that remove_inside [OF _ B assms(3)] by (auto split: if_splits)
  have "d' = d \<or> (\<exists>x r1 d1. (if x then remove_dir real d else remove_file real d) = (r1, d1) \<and> (d' = d1 \<or> (\<exists>ev. d' = emit_event ev d1)))"
    using assms(1) Inr by (fastforce simp: local_delete_def split: sum.splits if_splits prod.splits)
  then show ?thesis using rm inside_trans inside_event by (metis inside_refl)
qed

lemma local_rename_inside:
  assumes "local_rename L p q d = (r, d')" "prefix B (at_root L p)" "prefix B (at_root L q)"
  shows "inside B d d'"
proof (cases "\<exists>a b. local_resolve L p d = Inr a \<and> local_resolve L q d = Inr b")
  case False
  then have "d' = d" using assms(1) by (auto simp: local_rename_def split: sum.splits)
  then show ?thesis by simp
next
  case True
  then obtain a b where ab: "local_resolve L p d = Inr a" "local_resolve L q d = Inr b" by blast
  obtain r1 d1 where ren: "rename a b d = (r1, d1)" by fastforce
  have "inside B d d1"
    using rename_inside [OF ren] local_resolve_Inr [OF ab(1)] local_resolve_Inr [OF ab(2)] assms(2,3) by simp
  moreover have "d' = d \<or> d' = d1 \<or> (\<exists>ev. d' = emit_event ev d1)"
    using assms(1) ab ren by (auto simp: local_rename_def split: sum.splits bool.splits)
  ultimately show ?thesis using inside_trans inside_event by (metis inside_refl)
qed

lemma local_copy_inside:
  assumes "local_copy E L p q d = (r, d')" "prefix B (at_root L q)" "B \<noteq> []"
  shows "inside B d d'"
proof (cases "\<exists>a b. local_resolve L p d = Inr a \<and> local_resolve L q d = Inr b")
  case False
  then have "d' = d" using assms(1) by (auto simp: local_copy_def split: sum.splits)
  then show ?thesis by simp
next
  case True
  then obtain a b where ab: "local_resolve L p d = Inr a" "local_resolve L q d = Inr b" by blast
  have B: "prefix B b" using local_resolve_Inr [OF ab(2)] assms(2) by simp
  have cp: "inside B d d1" if "(if x then copy_dir_recursive PATH_MAX E a b d else copy_leaf E a b d) = (r1, d1)" for x r1 d1
    using that copy_dir_inside [OF _ B assms(3)] copy_leaf_inside [OF _ B assms(3)] by (auto split: if_splits)
  have "d' = d \<or> (\<exists>x r1 d1. (if x then copy_dir_recursive PATH_MAX E a b d else copy_leaf E a b d) = (r1, d1)
      \<and> (d' = d1 \<or> (\<exists>ev. d' = emit_event ev d1)))"
    using assms(1) ab by (fastforce simp: local_copy_def split: sum.splits bool.splits prod.splits)
  then show ?thesis using cp inside_trans inside_event by (metis inside_refl)
qed

section \<open>Calls of the recipient\<close>

text \<open>
  One call that changes files, failed calls included. A write finds the random name of its
  temporary file free.
\<close>

inductive local_share_call :: "local_storage \<Rightarrow> 'd disk_scheme shared_subroot \<Rightarrow> 'd disk_scheme \<Rightarrow> 'd disk_scheme \<Rightarrow> bool" for L w where
  lput: "path_ok p \<Longrightarrow> content s (fst (sibling_temp (at_root L (sr_owner_path w) @ segs p) s)) = None \<Longrightarrow>
     sub_put_file w p b s = (rm, s') \<Longrightarrow> local_share_call L w s s'"
| lmkdir: "path_ok p \<Longrightarrow> sub_mkdir w p s = (rm, s') \<Longrightarrow> local_share_call L w s s'"
| ldelete: "path_ok p \<Longrightarrow> sub_delete w p s = (ru, s') \<Longrightarrow> local_share_call L w s s'"
| lrename: "path_ok p \<Longrightarrow> path_ok q \<Longrightarrow> sub_rename w p q s = (ru, s') \<Longrightarrow> local_share_call L w s s'"
| lcopy: "path_ok p \<Longrightarrow> path_ok q \<Longrightarrow> sub_copy w p q s = (ru, s') \<Longrightarrow> local_share_call L w s s'"

lemma translated_below:
  "path_ok (sr_owner_path w) \<Longrightarrow> path_ok p \<Longrightarrow> translate w p = Inr q \<Longrightarrow> at_root L q = at_root L (sr_owner_path w) @ segs p"
  using translate_spec [of w p q] by simp

lemma write_gate_run:
  assumes "sr_inner w = local_ops E L" "write_gate w f q s = (r, s')"
  shows "s' = s \<or> f q s = (r, s')"
proof -
  obtain x where "op_exists (sr_inner w) q s = (x, s)" by (simp add: assms(1) local_ops_def local_exists_def)
  then show ?thesis using assms(2) by (auto simp: write_gate_def Let_def split: sum.splits if_splits)
qed

lemma local_share_call_inside:
  assumes w: "sr_inner w = local_ops E L" and ok: "path_ok (sr_owner_path w)" and ne: "at_root L (sr_owner_path w) \<noteq> []"
    and "local_share_call L w s s'"
  shows "inside (at_root L (sr_owner_path w)) s s'"
  using assms(4)
proof cases
  case (lput p b rm)
  show ?thesis
    using on_translated_cases [OF lput(3) [unfolded sub_put_file_def]]
  proof (elim disjE exE conjE)
    fix q
    assume q: "translate w p = Inr q" and g: "write_gate w (\<lambda>q. op_put_file (sr_inner w) q b) q s = (rm, s')"
    note at = translated_below [OF ok lput(1) q, of L]
    from write_gate_run [OF w g] show ?thesis
    proof
      assume "op_put_file (sr_inner w) q b s = (rm, s')"
      then have "local_put_file E L q b s = (rm, s')" by (simp add: w local_ops_def)
      then show ?thesis by (rule local_put_inside) (use at lput(2) in simp_all)
    qed simp
  qed simp
next
  case (lmkdir p rm)
  then have "s' = s \<or> (\<exists>q. translate w p = Inr q \<and> local_mkdir E L q s = (rm, s'))"
    using on_translated_cases [of w p "op_mkdir (sr_inner w)" s rm s'] by (auto simp: sub_mkdir_def w local_ops_def split: if_splits)
  then show ?thesis
  proof (elim disjE exE conjE)
    fix q
    assume q: "translate w p = Inr q" and run: "local_mkdir E L q s = (rm, s')"
    note at = translated_below [OF ok lmkdir(1) q, of L]
    show ?thesis by (rule local_mkdir_inside [OF run _ ne]) (simp only: at prefixI)
  qed simp
next
  case (ldelete p ru)
  then have "s' = s \<or> (\<exists>q. translate w p = Inr q \<and> local_delete L q s = (ru, s'))"
    using on_translated_cases [of w p "op_delete (sr_inner w)" s ru s'] by (auto simp: sub_delete_def w local_ops_def split: if_splits)
  then show ?thesis
  proof (elim disjE exE conjE)
    fix q
    assume q: "translate w p = Inr q" and run: "local_delete L q s = (ru, s')"
    note at = translated_below [OF ok ldelete(1) q, of L]
    show ?thesis by (rule local_delete_inside [OF run _ ne]) (simp only: at prefixI)
  qed simp
next
  case (lrename p p' ru)
  then have "s' = s \<or> (\<exists>q q'. translate w p = Inr q \<and> translate w p' = Inr q' \<and> local_rename L q q' s = (ru, s'))"
    by (auto simp: sub_rename_def on_translated_def w local_ops_def split: if_splits sum.splits)
  then show ?thesis
  proof (elim disjE exE conjE)
    fix q q'
    assume q: "translate w p = Inr q" "translate w p' = Inr q'" and run: "local_rename L q q' s = (ru, s')"
    note at = translated_below [OF ok lrename(1) q(1), of L] translated_below [OF ok lrename(2) q(2), of L]
    show ?thesis by (rule local_rename_inside [OF run]) (simp_all only: at prefixI)
  qed simp
next
  case (lcopy p p' ru)
  then have "s' = s \<or> (\<exists>q q'. translate w p = Inr q \<and> translate w p' = Inr q' \<and> local_copy E L q q' s = (ru, s'))"
    by (auto simp: sub_copy_def on_translated_def w local_ops_def split: if_splits sum.splits)
  then show ?thesis
  proof (elim disjE exE conjE)
    fix q q'
    assume q: "translate w p' = Inr q'" and run: "local_copy E L q q' s = (ru, s')"
    note at = translated_below [OF ok lcopy(2) q, of L]
    show ?thesis by (rule local_copy_inside [OF run _ ne]) (simp only: at prefixI)
  qed simp
qed



end
